(* ===== verification/Prelude.thy ===== *)
theory Prelude
  imports Main "HOL-Library.Word"
begin

text \<open>
  Shared vocabulary of the development: Go's fixed-width integers and durations, results that
  carry an error, the string functions of the Go standard library the sources call, and the
  lemma collections the component theories use.
\<close>

section \<open>Lemma collections\<close>

named_theorems money_simps \<open>recording functions of the money books\<close>
named_theorems width_simps \<open>facts about wrap-around at a fixed width\<close>
named_theorems pool_simps \<open>definitions of the backend pool, unfolded by its proofs\<close>
named_theorems state_strings \<open>the strings that spell states and verdicts\<close>
named_theorems session_state_simps \<open>session states and their classification\<close>
named_theorems key_defs \<open>builders of Redis keys\<close>
named_theorems field_names \<open>names of the fields of a session hash\<close>
named_theorems store_simps \<open>operations of a session store, unfolded by its proofs\<close>

section \<open>Results\<close>

text \<open>
  A Go function that returns \<open>(T, error)\<close> becomes a function into \<open>'e + 'a\<close>: \<open>Inl\<close> is the
  non-nil error, \<open>Inr\<close> the value. A function that returns only an \<open>error\<close> returns
  \<open>'e option\<close>, \<open>None\<close> being nil.
\<close>

type_synonym ('e, 'a) result = "'e + 'a"

definition ok :: "('e, 'a) result \<Rightarrow> bool" where
  "ok r = (case r of Inl _ \<Rightarrow> False | Inr _ \<Rightarrow> True)"

lemma ok_simps [simp]: "\<not> ok (Inl e)" "ok (Inr v)"
  by (simp_all add: ok_def)

lemma ok_iff: "ok r \<longleftrightarrow> (\<exists>v. r = Inr v)"
  by (cases r) auto

definition err_of :: "('e, 'a) result \<Rightarrow> 'e option" where
  "err_of r = (case r of Inl e \<Rightarrow> Some e | Inr _ \<Rightarrow> None)"

lemma err_of_simps [simp]: "err_of (Inl e) = Some e" "err_of (Inr v) = None"
  by (simp_all add: err_of_def)

section \<open>Fixed-width integers\<close>

text \<open>
  \<open>int64\<close> and \<open>int32\<close> values are integers inside their range; every arithmetic operation of the
  source is followed by the wrap-around \<open>i64\<close> or \<open>i32\<close>. \<open>uint64\<close> values are 64-bit words.
\<close>

type_synonym uint64 = "64 word"

definition i64 :: "int \<Rightarrow> int" where
  "i64 x = (x + 2 ^ 63) mod 2 ^ 64 - 2 ^ 63"

definition i32 :: "int \<Rightarrow> int" where
  "i32 x = (x + 2 ^ 31) mod 2 ^ 32 - 2 ^ 31"

definition in_i64 :: "int \<Rightarrow> bool" where
  "in_i64 x \<longleftrightarrow> - (2 ^ 63) \<le> x \<and> x < 2 ^ 63"

definition in_i32 :: "int \<Rightarrow> bool" where
  "in_i32 x \<longleftrightarrow> - (2 ^ 31) \<le> x \<and> x < 2 ^ 31"

lemma i64_id [width_simps]: "in_i64 x \<Longrightarrow> i64 x = x"
  by (simp add: i64_def in_i64_def)

lemma i32_id [width_simps]: "in_i32 x \<Longrightarrow> i32 x = x"
  by (simp add: i32_def in_i32_def)

lemma i64_range: "in_i64 (i64 x)"
proof -
  have "(x + 2 ^ 63) mod 2 ^ 64 < (2::int) ^ 64" "0 \<le> (x + 2 ^ 63) mod (2::int) ^ 64"
    by simp_all
  then show ?thesis by (simp add: i64_def in_i64_def)
qed

lemma i32_range: "in_i32 (i32 x)"
proof -
  have "(x + 2 ^ 31) mod 2 ^ 32 < (2::int) ^ 32" "0 \<le> (x + 2 ^ 31) mod (2::int) ^ 32"
    by simp_all
  then show ?thesis by (simp add: i32_def in_i32_def)
qed

section \<open>Time\<close>

text \<open>
  A \<open>time.Time\<close> is its number of nanoseconds since the Unix epoch. The zero value is
  the first instant of year 1. A \<open>time.Duration\<close> is an \<open>int64\<close> number of nanoseconds, and
  \<open>Time.Sub\<close> (so \<open>time.Since\<close>) saturates at its range.
\<close>

type_synonym time = int
type_synonym duration = int

definition zero_time :: time where
  "zero_time = - 62135596800 * 10 ^ 9"

definition time_sub :: "time \<Rightarrow> time \<Rightarrow> duration" where
  "time_sub a b = max (- (2 ^ 63)) (min (2 ^ 63 - 1) (a - b))"

lemma time_sub_ge_iff:
  "in_i64 d \<Longrightarrow> d \<le> time_sub a b \<longleftrightarrow> d \<le> a - b \<or> d = - (2 ^ 63)"
  by (auto simp: time_sub_def in_i64_def)

section \<open>Strings\<close>

fun HasPrefix :: "string \<Rightarrow> string \<Rightarrow> bool" where
  "HasPrefix s [] = True"
| "HasPrefix [] (p # ps) = False"
| "HasPrefix (c # s) (p # ps) = (c = p \<and> HasPrefix s ps)"

fun Contains :: "string \<Rightarrow> string \<Rightarrow> bool" where
  "Contains [] sub = (sub = [])"
| "Contains (c # s) sub = (HasPrefix (c # s) sub \<or> Contains s sub)"

lemma HasPrefix_append: "HasPrefix s p \<longleftrightarrow> (\<exists>t. s = p @ t)"
  by (induction s p rule: HasPrefix.induct) auto

lemma Contains_append: "Contains s sub \<longleftrightarrow> (\<exists>a b. s = a @ sub @ b)"
proof (induction s)
  case Nil
  then show ?case by simp
next
  case (Cons c s)
  show ?case
  proof
    assume "Contains (c # s) sub"
    then consider "HasPrefix (c # s) sub" | "Contains s sub" by auto
    then show "\<exists>a b. c # s = a @ sub @ b"
    proof cases
      case 1
      then obtain t where "c # s = [] @ sub @ t"
        unfolding HasPrefix_append by auto
      then show ?thesis by blast
    next
      case 2
      then obtain a b where "s = a @ sub @ b" using Cons.IH by blast
      then have "c # s = (c # a) @ sub @ b" by simp
      then show ?thesis by blast
    qed
  next
    assume "\<exists>a b. c # s = a @ sub @ b"
    then obtain a b where ab: "c # s = a @ sub @ b" by blast
    show "Contains (c # s) sub"
    proof (cases a)
      case Nil
      with ab have "HasPrefix (c # s) sub" by (auto simp: HasPrefix_append)
      then show ?thesis by simp
    next
      case (Cons x a')
      with ab have "s = a' @ sub @ b" by simp
      then have "Contains s sub" using Cons.IH by blast
      then show ?thesis by simp
    qed
  qed
qed

definition CutPrefix :: "string \<Rightarrow> string \<Rightarrow> string option" where
  "CutPrefix s p = (if HasPrefix s p then Some (drop (length p) s) else None)"

lemma CutPrefix_Some: "CutPrefix s p = Some t \<longleftrightarrow> s = p @ t"
  by (auto simp: CutPrefix_def HasPrefix_append)

lemma CutPrefix_None: "CutPrefix s p = None \<longleftrightarrow> (\<nexists>t. s = p @ t)"
  by (auto simp: CutPrefix_def HasPrefix_append)

end
