(* ===== verification/Pool.thy ===== *)
theory Pool
  imports Prelude
begin

text \<open>
  The backend pool of the relayer (\<open>src/pool\<close>): endpoints with their health state, the circuit
  breaker that classifies results and flips that state, the two selection strategies, and the
  pool that composes them.

  Endpoints are shared by reference between the pool, the request handlers and the health
  checker, so they live in a heap indexed by address and a pool holds the addresses. Each
  operation is one step: two calls on one endpoint do not overlap. One call reads one clock value \<open>now\<close>.
\<close>

section \<open>Endpoints\<close>

record BackendEndpoint =
  Name :: string
  RawURL :: string
  URLHost :: string
  healthy :: bool
  consecutiveFailures :: int
  recoveryTimeout :: duration
  unhealthySinceNano :: int
  pendingRecovery :: bool

type_synonym addr = nat
type_synonym ep_heap = "addr \<Rightarrow> BackendEndpoint"

definition NormalizeGRPCScheme :: "string \<Rightarrow> string" where
  "NormalizeGRPCScheme rawURL =
     (case CutPrefix rawURL ''grpc://'' of
        Some rest \<Rightarrow> ''http://'' @ rest
      | None \<Rightarrow>
          (case CutPrefix rawURL ''grpcs://'' of
             Some rest \<Rightarrow> ''https://'' @ rest
           | None \<Rightarrow> rawURL))"

definition IsHealthy :: "time \<Rightarrow> BackendEndpoint \<Rightarrow> bool \<times> BackendEndpoint" where
  "IsHealthy now ep =
     (if healthy ep then (True, ep)
      else if recoveryTimeout ep > 0 \<and> unhealthySinceNano ep > 0
              \<and> time_sub now (unhealthySinceNano ep) \<ge> recoveryTimeout ep
      then (True, ep\<lparr>healthy := True, consecutiveFailures := 0, pendingRecovery := True\<rparr>)
      else (False, ep))"

definition CurrentlyHealthy :: "BackendEndpoint \<Rightarrow> bool" where
  "CurrentlyHealthy ep = healthy ep"

definition ConsumePendingRecovery :: "BackendEndpoint \<Rightarrow> bool \<times> BackendEndpoint" where
  "ConsumePendingRecovery ep =
     (if pendingRecovery ep then (True, ep\<lparr>pendingRecovery := False\<rparr>) else (False, ep))"

definition SetHealthy :: "BackendEndpoint \<Rightarrow> BackendEndpoint" where
  "SetHealthy ep = ep\<lparr>unhealthySinceNano := 0, pendingRecovery := False, healthy := True\<rparr>"

definition SetUnhealthy :: "time \<Rightarrow> BackendEndpoint \<Rightarrow> BackendEndpoint" where
  "SetUnhealthy now ep = ep\<lparr>unhealthySinceNano := now, pendingRecovery := False, healthy := False\<rparr>"

definition IncrementFailures :: "BackendEndpoint \<Rightarrow> int \<times> BackendEndpoint" where
  "IncrementFailures ep =
     (let n = i32 (consecutiveFailures ep + 1) in (n, ep\<lparr>consecutiveFailures := n\<rparr>))"

definition ResetFailures :: "BackendEndpoint \<Rightarrow> BackendEndpoint" where
  "ResetFailures ep = ep\<lparr>consecutiveFailures := 0\<rparr>"

definition SetRecoveryTimeout :: "duration \<Rightarrow> BackendEndpoint \<Rightarrow> BackendEndpoint" where
  "SetRecoveryTimeout d ep = ep\<lparr>recoveryTimeout := d\<rparr>"

text \<open>
  The constructor. \<open>net/url.Parse\<close> is taken as the function \<open>parse\<close>: \<open>None\<close> is a parse error,
  \<open>Some h\<close> a URL whose \<open>Host\<close> field is \<open>h\<close> (empty when it has none).
\<close>

datatype endpoint_error = EmptyURL | InvalidURL string | MissingHost string

definition is_space :: "char \<Rightarrow> bool" where
  "is_space c = (c \<in> {CHR '' '', CHR 0x09, CHR 0x0A, CHR 0x0B, CHR 0x0C, CHR 0x0D})"

text \<open>The white space beyond ASCII that \<open>strings.TrimSpace\<close> drops, in its UTF-8 encoding.\<close>

definition is_space2 :: "char \<Rightarrow> char \<Rightarrow> bool" where
  "is_space2 c d = (c = CHR 0xC2 \<and> d \<in> {CHR 0x85, CHR 0xA0})"

definition is_space3 :: "char \<Rightarrow> char \<Rightarrow> char \<Rightarrow> bool" where
  "is_space3 c d e =
     ((c, d, e) \<in> {(CHR 0xE1, CHR 0x9A, CHR 0x80), (CHR 0xE2, CHR 0x81, CHR 0x9F),
                    (CHR 0xE3, CHR 0x80, CHR 0x80)}
      \<or> c = CHR 0xE2 \<and> d = CHR 0x80 \<and>
        e \<in> {CHR 0x80, CHR 0x81, CHR 0x82, CHR 0x83, CHR 0x84, CHR 0x85, CHR 0x86, CHR 0x87,
              CHR 0x88, CHR 0x89, CHR 0x8A, CHR 0xA8, CHR 0xA9, CHR 0xAF})"

fun blank :: "string \<Rightarrow> bool" where
  "blank [] = True"
| "blank (c # s) =
     (if is_space c then blank s
      else case s of
             [] \<Rightarrow> False
           | d # t \<Rightarrow>
               if is_space2 c d then blank t
               else (case t of [] \<Rightarrow> False | e # u \<Rightarrow> is_space3 c d e \<and> blank u))"

definition NewBackendEndpoint ::
  "(string \<Rightarrow> string option) \<Rightarrow> string \<Rightarrow> string \<Rightarrow> (endpoint_error, BackendEndpoint) result" where
  "NewBackendEndpoint parse name rawURL =
     (if blank rawURL then Inl EmptyURL
      else
        let rawURL = NormalizeGRPCScheme rawURL;
            mk = (\<lambda>host. Inr \<lparr>Name = (if name = [] then host else name), RawURL = rawURL,
                             URLHost = host, healthy = True, consecutiveFailures = 0,
                             recoveryTimeout = 0, unhealthySinceNano = 0,
                             pendingRecovery = False\<rparr>)
        in case parse rawURL of
             None \<Rightarrow> Inl (InvalidURL rawURL)
           | Some host \<Rightarrow>
               if host = [] \<and> \<not> Contains rawURL ''://'' then
                 (case parse (''http://'' @ rawURL) of
                    None \<Rightarrow> Inl (InvalidURL rawURL)
                  | Some host' \<Rightarrow> if host' = [] then Inl (MissingHost rawURL) else mk host')
               else if host = [] then Inl (MissingHost rawURL)
               else mk host)"

section \<open>Classification of results\<close>

text \<open>
  A Go error as the chain \<open>errors.Unwrap\<close> walks. A \<open>NetError t\<close> is any other error that
  implements \<open>net.Error\<close> with \<open>Timeout() = t\<close>. \<open>context.DeadlineExceeded\<close> and \<open>*net.DNSError\<close>
  implement \<open>net.Error\<close> as well, the first with \<open>Timeout() = true\<close>.
\<close>

datatype err_node = Canceled | DeadlineExceeded | NetError bool | DNSError bool | OtherError string

type_synonym go_error = "err_node list"

definition errors_Is :: "go_error \<Rightarrow> err_node \<Rightarrow> bool" where
  "errors_Is err target = (target \<in> set err)"

fun as_net_error :: "go_error \<Rightarrow> bool option" where
  "as_net_error [] = None"
| "as_net_error (NetError t # es) = Some t"
| "as_net_error (DNSError t # es) = Some t"
| "as_net_error (DeadlineExceeded # es) = Some True"
| "as_net_error (_ # es) = as_net_error es"

definition as_dns_error :: "go_error \<Rightarrow> bool" where
  "as_dns_error err = list_ex (\<lambda>e. case e of DNSError _ \<Rightarrow> True | _ \<Rightarrow> False) err"

definition isTimeoutError :: "go_error \<Rightarrow> bool" where
  "isTimeoutError err = (errors_Is err DeadlineExceeded \<or> as_net_error err = Some True)"

definition isFailure :: "int \<Rightarrow> go_error option \<Rightarrow> bool" where
  "isFailure statusCode err =
     (case err of
        Some e \<Rightarrow>
          if errors_Is e Canceled then False
          else if isTimeoutError e then False
          else True
      | None \<Rightarrow> statusCode \<ge> 500 \<and> statusCode < 600)"

definition IsRetryable :: "int \<Rightarrow> go_error option \<Rightarrow> bool" where
  "IsRetryable statusCode err = isFailure statusCode err"

definition ClassifyFailure :: "int \<Rightarrow> go_error option \<Rightarrow> string" where
  "ClassifyFailure statusCode err =
     (if \<not> isFailure statusCode err then ''''
      else case err of
             Some e \<Rightarrow>
               if as_net_error e \<noteq> None then ''transport_error''
               else if as_dns_error e then ''dns_error''
               else ''backend_error''
           | None \<Rightarrow> ''backend_5xx'')"

section \<open>Recording a result\<close>

record TransitionEvent =
  Endpoint :: addr
  OldHealthy :: bool
  NewHealthy :: bool
  Failures :: int
  StatusCode :: int
  Error :: "go_error option"
  DowntimeDuration :: duration
  AutoRecovered :: bool

definition DefaultUnhealthyThreshold :: int where
  "DefaultUnhealthyThreshold = 5"

definition downtime_of :: "time \<Rightarrow> BackendEndpoint \<Rightarrow> duration" where
  "downtime_of now ep =
     (if unhealthySinceNano ep > 0 then time_sub now (unhealthySinceNano ep) else 0)"

definition RecordResult ::
  "time \<Rightarrow> ep_heap \<Rightarrow> addr \<Rightarrow> int \<Rightarrow> go_error option \<Rightarrow> int \<Rightarrow> TransitionEvent option \<times> ep_heap" where
  "RecordResult now h a statusCode err threshold =
     (let threshold = (if threshold \<le> 0 then DefaultUnhealthyThreshold else threshold) in
      if isFailure statusCode err then
        let (failures, ep) = IncrementFailures (h a) in
        if failures \<ge> threshold \<and> healthy ep then
          (Some \<lparr>Endpoint = a, OldHealthy = True, NewHealthy = False, Failures = failures,
                 StatusCode = statusCode, Error = err, DowntimeDuration = 0,
                 AutoRecovered = False\<rparr>,
           h(a := ep\<lparr>healthy := False, unhealthySinceNano := now, pendingRecovery := False\<rparr>))
        else (None, h(a := ep))
      else
        let ep = (if consecutiveFailures (h a) > 0 then ResetFailures (h a) else h a) in
        if \<not> healthy ep then
          (Some \<lparr>Endpoint = a, OldHealthy = False, NewHealthy = True, Failures = 0,
                 StatusCode = statusCode, Error = None, DowntimeDuration = downtime_of now ep,
                 AutoRecovered = False\<rparr>,
           h(a := ep\<lparr>healthy := True, unhealthySinceNano := 0, pendingRecovery := False\<rparr>))
        else if pendingRecovery ep then
          (Some \<lparr>Endpoint = a, OldHealthy = False, NewHealthy = True, Failures = 0,
                 StatusCode = statusCode, Error = None, DowntimeDuration = downtime_of now ep,
                 AutoRecovered = True\<rparr>,
           h(a := ep\<lparr>pendingRecovery := False, unhealthySinceNano := 0\<rparr>))
        else (None, h(a := ep)))"

section \<open>Selection\<close>

text \<open>Asking one endpoint in the heap whether it is healthy, which may recover it.\<close>

definition probe :: "time \<Rightarrow> ep_heap \<Rightarrow> addr \<Rightarrow> bool \<times> ep_heap" where
  "probe now h a = (let (b, ep) = IsHealthy now (h a) in (b, h(a := ep)))"

fun first_healthy :: "time \<Rightarrow> ep_heap \<Rightarrow> addr list \<Rightarrow> nat \<Rightarrow> int \<times> ep_heap" where
  "first_healthy now h [] i = (-1, h)"
| "first_healthy now h (a # as) i =
     (let (b, h') = probe now h a in if b then (int i, h') else first_healthy now h' as (Suc i))"

definition FirstHealthySelect :: "unit \<Rightarrow> time \<Rightarrow> ep_heap \<Rightarrow> addr list \<Rightarrow> int \<times> unit \<times> ep_heap" where
  "FirstHealthySelect s now h eps = (let (i, h') = first_healthy now h eps 0 in (i, s, h'))"

text \<open>The forward scan of the round robin: candidates \<open>(idx + i) mod n\<close> for the listed \<open>i\<close>.\<close>

fun scan_forward :: "time \<Rightarrow> ep_heap \<Rightarrow> addr list \<Rightarrow> nat \<Rightarrow> nat list \<Rightarrow> int \<times> ep_heap" where
  "scan_forward now h eps idx [] = (-1, h)"
| "scan_forward now h eps idx (i # is) =
     (let candidate = (idx + i) mod length eps;
          (b, h') = probe now h (eps ! candidate)
      in if b then (int candidate, h') else scan_forward now h' eps idx is)"

definition RoundRobinSelect :: "uint64 \<Rightarrow> time \<Rightarrow> ep_heap \<Rightarrow> addr list \<Rightarrow> int \<times> uint64 \<times> ep_heap" where
  "RoundRobinSelect counter now h eps =
     (let n = length eps in
      if n = 0 then (-1, counter, h)
      else
        let counter = counter + 1;
            idx = unat (counter mod of_nat n);
            (b, h') = probe now h (eps ! idx)
        in if b then (int idx, counter, h')
           else let (i, h'') = scan_forward now h' eps idx [1..<n] in (i, counter, h''))"

section \<open>The pool\<close>

record 's pool =
  endpoints :: "addr list"
  selector_state :: 's
  pool_name :: string
  strategyLabel :: string

definition NewPool :: "string \<Rightarrow> addr list \<Rightarrow> 's \<Rightarrow> string \<Rightarrow> 's pool" where
  "NewPool name eps sel label =
     \<lparr>endpoints = eps, selector_state = sel, pool_name = name, strategyLabel = label\<rparr>"

text \<open>
  \<open>Next\<close> calls the pool's selector, here the function \<open>select\<close>, and returns nil (\<open>None\<close>) for an
  index outside the list.
\<close>

definition Next ::
  "('s \<Rightarrow> time \<Rightarrow> ep_heap \<Rightarrow> addr list \<Rightarrow> int \<times> 's \<times> ep_heap) \<Rightarrow> time \<Rightarrow> ep_heap \<Rightarrow> 's pool
   \<Rightarrow> addr option \<times> 's pool \<times> ep_heap" where
  "Next select now h p =
     (let (idx, s', h') = select (selector_state p) now h (endpoints p);
          p' = p\<lparr>selector_state := s'\<rparr>
      in if idx < 0 \<or> idx \<ge> int (length (endpoints p)) then (None, p', h')
         else (Some (endpoints p ! nat idx), p', h'))"

fun any_healthy :: "time \<Rightarrow> ep_heap \<Rightarrow> addr list \<Rightarrow> bool \<times> ep_heap" where
  "any_healthy now h [] = (False, h)"
| "any_healthy now h (a # as) =
     (let (b, h') = probe now h a in if b then (True, h') else any_healthy now h' as)"

definition HasHealthy :: "time \<Rightarrow> ep_heap \<Rightarrow> 's pool \<Rightarrow> bool \<times> ep_heap" where
  "HasHealthy now h p = any_healthy now h (endpoints p)"

fun next_excluding :: "time \<Rightarrow> ep_heap \<Rightarrow> addr list \<Rightarrow> addr \<Rightarrow> addr option \<times> ep_heap" where
  "next_excluding now h [] x = (None, h)"
| "next_excluding now h (a # as) x =
     (if a = x then next_excluding now h as x
      else let (b, h') = probe now h a in
           if b then (Some a, h') else next_excluding now h' as x)"

definition NextExcluding :: "time \<Rightarrow> ep_heap \<Rightarrow> 's pool \<Rightarrow> addr \<Rightarrow> addr option \<times> ep_heap" where
  "NextExcluding now h p exclude = next_excluding now h (endpoints p) exclude"

section \<open>Availability\<close>

text \<open>
  What a selection pass sees of an endpoint: \<open>available\<close> is the answer \<open>IsHealthy\<close> gives, \<open>settle\<close>
  the state it leaves. Probing changes nothing but a recovery that was already due, so the
  availability of every endpoint is the same before and after any number of probes.
\<close>

definition available :: "time \<Rightarrow> BackendEndpoint \<Rightarrow> bool" where
  "available now ep \<longleftrightarrow>
     healthy ep \<or>
     (0 < recoveryTimeout ep \<and> 0 < unhealthySinceNano ep \<and>
      recoveryTimeout ep \<le> time_sub now (unhealthySinceNano ep))"

definition settle :: "time \<Rightarrow> BackendEndpoint \<Rightarrow> BackendEndpoint" where
  "settle now ep = snd (IsHealthy now ep)"

definition probed :: "time \<Rightarrow> ep_heap \<Rightarrow> ep_heap \<Rightarrow> bool" where
  "probed now h h' \<longleftrightarrow> (\<forall>a. h' a = h a \<or> h' a = settle now (h a))"

lemma IsHealthy_eq: "IsHealthy now ep = (available now ep, settle now ep)"
  by (auto simp: IsHealthy_def available_def settle_def)

lemma settle_healthy: "healthy (settle now ep) = available now ep"
  by (auto simp: IsHealthy_def available_def settle_def)

lemma available_settle [simp]: "available now (settle now ep) = available now ep"
  by (auto simp: IsHealthy_def available_def settle_def)

lemma settle_settle [simp]: "settle now (settle now ep) = settle now ep"
  by (auto simp: IsHealthy_def settle_def)

lemma probe_eq: "probe now h a = (available now (h a), h(a := settle now (h a)))"
  by (simp add: probe_def IsHealthy_eq)

lemma probed_refl [simp]: "probed now h h"
  by (simp add: probed_def)

lemma probed_step: "probed now h (h(a := settle now (h a)))"
  by (simp add: probed_def)

lemma probedD: "probed now h h' \<Longrightarrow> h' a = h a \<or> h' a = settle now (h a)"
  by (simp add: probed_def)

lemma probed_trans: "probed now h h' \<Longrightarrow> probed now h' h'' \<Longrightarrow> probed now h h''"
  unfolding probed_def [of now h h'']
proof
  fix a
  assume "probed now h h'" "probed now h' h''"
  then have "h' a = h a \<or> h' a = settle now (h a)" "h'' a = h' a \<or> h'' a = settle now (h' a)"
    by (blast dest: probedD)+
  then show "h'' a = h a \<or> h'' a = settle now (h a)"
    by (elim disjE) simp_all
qed

lemma probed_available: "probed now h h' \<Longrightarrow> available now (h' a) = available now (h a)"
  by (drule probedD [of now h h' a]) (elim disjE; simp)

lemma probed_upd_available:
  fixes h :: ep_heap
  shows "(\<exists>x \<in> A. available now ((h(a := settle now (h a))) x)) \<longleftrightarrow> (\<exists>x \<in> A. available now (h x))"
  by (simp only: probed_available [OF probed_step [of now h a]])

section \<open>Selectors\<close>

text \<open>
  The contract of the \<open>Selector\<close> interface: the index is \<open>-1\<close> exactly when no endpoint is
  available, and otherwise names an endpoint of the list that is healthy in the heap returned;
  nothing but due recoveries changes in the heap. A Go slice has fewer than \<open>2 ^ 63\<close> elements.
\<close>

locale selector =
  fixes select :: "'s \<Rightarrow> time \<Rightarrow> ep_heap \<Rightarrow> addr list \<Rightarrow> int \<times> 's \<times> ep_heap"
  assumes select_none:
      "select s now h eps = (i, s', h') \<Longrightarrow> length eps < 2 ^ 63 \<Longrightarrow>
       i = -1 \<longleftrightarrow> \<not> (\<exists>a \<in> set eps. available now (h a))"
    and select_some:
      "select s now h eps = (i, s', h') \<Longrightarrow> length eps < 2 ^ 63 \<Longrightarrow> i \<noteq> -1 \<Longrightarrow>
       0 \<le> i \<and> nat i < length eps \<and> healthy (h' (eps ! nat i))"
    and select_frame:
      "select s now h eps = (i, s', h') \<Longrightarrow> length eps < 2 ^ 63 \<Longrightarrow> probed now h h'"
begin

lemma next_none_iff:
  assumes "Next select now h p = (r, p', h')" and len: "length (endpoints p) < 2 ^ 63"
  shows "r = None \<longleftrightarrow> \<not> (\<exists>a \<in> set (endpoints p). available now (h a))"
proof -
  obtain i s' h1 where sel: "select (selector_state p) now h (endpoints p) = (i, s', h1)"
    by (cases "select (selector_state p) now h (endpoints p)") auto
  have "r = None \<longleftrightarrow> i < 0 \<or> i \<ge> int (length (endpoints p))"
    using assms sel by (simp add: Next_def Let_def split: if_splits) auto
  also have "\<dots> \<longleftrightarrow> i = -1"
    using select_some [OF sel len] by linarith
  finally show ?thesis using select_none [OF sel len] by simp
qed

lemma next_some:
  assumes "Next select now h p = (Some a, p', h')" and bound: "length (endpoints p) < 2 ^ 63"
  shows "a \<in> set (endpoints p) \<and> healthy (h' a) \<and> available now (h a)
         \<and> endpoints p' = endpoints p \<and> probed now h h'"
proof -
  obtain i s' h1 where sel: "select (selector_state p) now h (endpoints p) = (i, s', h1)"
    by (cases "select (selector_state p) now h (endpoints p)") auto
  with assms have i: "\<not> (i < 0 \<or> i \<ge> int (length (endpoints p)))" and h1: "h1 = h'"
    and a: "a = endpoints p ! nat i" and p': "endpoints p' = endpoints p"
    by (auto simp: Next_def Let_def split: if_splits)
  with select_some [OF sel bound] have healthy: "healthy (h' a)" and len: "nat i < length (endpoints p)"
    by auto
  from healthy have "available now (h' a)" by (simp add: available_def)
  then have "available now (h a)"
    using probed_available [OF select_frame [OF sel bound]] h1 by simp
  with a len healthy p' select_frame [OF sel bound] h1 show ?thesis by simp
qed

end

lemma first_healthy_spec:
  "first_healthy now h eps k = (i, h') \<Longrightarrow>
     probed now h h' \<and>
     (i = -1 \<longleftrightarrow> \<not> (\<exists>a \<in> set eps. available now (h a))) \<and>
     (i \<noteq> -1 \<longrightarrow> (\<exists>j < length eps. i = int (k + j) \<and> healthy (h' (eps ! j))))"
proof (induction eps arbitrary: h k)
  case Nil
  then show ?case by simp
next
  case (Cons a as)
  let ?h1 = "h(a := settle now (h a))"
  show ?case
  proof (cases "available now (h a)")
    case True
    with Cons.prems have i: "i = int k" and h': "h' = ?h1" by (simp_all add: probe_eq)
    have "healthy (h' ((a # as) ! 0))" using True h' by (simp add: settle_healthy)
    then have "\<exists>j < length (a # as). i = int (k + j) \<and> healthy (h' ((a # as) ! j))"
      using i by (intro exI [of _ 0]) simp
    moreover have "probed now h h'" unfolding h' by (rule probed_step)
    moreover have "i \<noteq> -1" using i by simp
    ultimately show ?thesis using True by auto
  next
    case False
    with Cons.prems have "first_healthy now ?h1 as (Suc k) = (i, h')" by (simp add: probe_eq)
    note IH = Cons.IH [OF this]
    have "\<exists>j < length (a # as). i = int (k + j) \<and> healthy (h' ((a # as) ! j))" if ne: "i \<noteq> -1"
    proof -
      from IH ne obtain j where "j < length as" "i = int (Suc k + j)" "healthy (h' (as ! j))"
        by blast
      then show ?thesis by (intro exI [of _ "Suc j"]) simp
    qed
    moreover have "probed now h h'" using IH probed_trans [OF probed_step, of now h _ h'] by blast
    moreover have "i = -1 \<longleftrightarrow> \<not> (\<exists>x \<in> set (a # as). available now (h x))"
      unfolding list.set bex_simps
      using IH False probed_upd_available [of "set as" now h a] by blast
    ultimately show ?thesis by blast
  qed
qed

lemma scan_forward_spec:
  "scan_forward now h eps idx is = (i, h') \<Longrightarrow> eps \<noteq> [] \<Longrightarrow>
     probed now h h' \<and>
     (i = -1 \<longleftrightarrow> \<not> (\<exists>j \<in> set is. available now (h (eps ! ((idx + j) mod length eps))))) \<and>
     (i \<noteq> -1 \<longrightarrow> 0 \<le> i \<and> nat i < length eps \<and> healthy (h' (eps ! nat i)))"
proof (induction "is" arbitrary: h)
  case Nil
  then show ?case by simp
next
  case (Cons j js)
  let ?c = "(idx + j) mod length eps"
  let ?h1 = "h(eps ! ?c := settle now (h (eps ! ?c)))"
  show ?case
  proof (cases "available now (h (eps ! ?c))")
    case True
    with Cons.prems(1) have i: "i = int ?c" and h': "h' = ?h1" by (simp_all add: probe_eq Let_def)
    have "probed now h h'" unfolding h' by (rule probed_step)
    moreover have "healthy (h' (eps ! nat i))" using True i h' by (simp add: settle_healthy)
    moreover have "nat i < length eps" "0 \<le> i" using i Cons.prems(2) by simp_all
    ultimately show ?thesis using True by auto
  next
    case False
    with Cons.prems(1) have "scan_forward now ?h1 eps idx js = (i, h')"
      by (simp add: probe_eq Let_def)
    note IH = Cons.IH [OF this Cons.prems(2)]
    have "probed now h h'" using IH probed_trans [OF probed_step, of now h _ h'] by blast
    moreover have "i = -1 \<longleftrightarrow> \<not> (\<exists>x \<in> set (j # js). available now (h (eps ! ((idx + x) mod length eps))))"
      unfolding list.set bex_simps
      using IH False by (simp only: probed_available [OF probed_step [of now h "eps ! ?c"]]) blast
    ultimately show ?thesis using IH by blast
  qed
qed

lemma bex_insert_image: "\<not> P x \<Longrightarrow> (\<exists>k \<in> insert x (f ` S). P k) \<longleftrightarrow> (\<exists>j \<in> S. P (f j))"
  by auto

lemma bex_nth: "(\<exists>k \<in> {0..<length xs}. P (xs ! k)) \<longleftrightarrow> (\<exists>x \<in> set xs. P x)"
  by (metis atLeastLessThan_iff in_set_conv_nth le0)

lemma probe_all_candidates:
  assumes "idx < n"
  shows "insert idx ((\<lambda>j. (idx + j) mod n) ` set [1..<n]) = {0..<n}"
proof
  show "insert idx ((\<lambda>j. (idx + j) mod n) ` set [1..<n]) \<subseteq> {0..<n}"
    using assms by auto
  show "{0..<n} \<subseteq> insert idx ((\<lambda>j. (idx + j) mod n) ` set [1..<n])"
  proof
    fix k assume k: "k \<in> {0..<n}"
    show "k \<in> insert idx ((\<lambda>j. (idx + j) mod n) ` set [1..<n])"
    proof (cases k idx rule: linorder_cases)
      case less
      then have "(idx + (n + k - idx)) mod n = k" "n + k - idx \<in> set [1..<n]"
        using k assms by auto
      then show ?thesis by (metis image_eqI insertI2)
    next
      case equal
      then show ?thesis by simp
    next
      case greater
      then have "(idx + (k - idx)) mod n = k" "k - idx \<in> set [1..<n]"
        using k by auto
      then show ?thesis by (metis image_eqI insertI2)
    qed
  qed
qed

lemma rr_index_bound:
  assumes "eps \<noteq> []" "length eps < 2 ^ 63"
  shows "unat ((c :: uint64) mod of_nat (length eps)) = unat c mod length eps"
    and "unat c mod length eps < length eps"
proof -
  have "unat (of_nat (length eps) :: uint64) = length eps"
    using assms by (simp add: unat_of_nat take_bit_nat_eq_self)
  then show "unat (c mod of_nat (length eps)) = unat c mod length eps"
    by (simp add: unat_mod)
  show "unat c mod length eps < length eps" using assms by simp
qed

lemma RoundRobinSelect_eq:
  assumes "eps \<noteq> []" "length eps < 2 ^ 63" and idx: "idx = unat (c + 1) mod length eps"
  shows "RoundRobinSelect c now h eps =
    (let h1 = h(eps ! idx := settle now (h (eps ! idx))) in
     if available now (h (eps ! idx)) then (int idx, c + 1, h1)
     else let (i, h2) = scan_forward now h1 eps idx [1..<length eps] in (i, c + 1, h2))"
  unfolding RoundRobinSelect_def probe_eq Let_def idx rr_index_bound(1) [OF assms(1,2)]
  using assms(1) by simp

lemma RoundRobinSelect_spec:
  assumes sel: "RoundRobinSelect c now h eps = (i, c', h')" and len: "length eps < 2 ^ 63"
  shows "probed now h h' \<and>
    (i = -1 \<longleftrightarrow> \<not> (\<exists>a \<in> set eps. available now (h a))) \<and>
    (i \<noteq> -1 \<longrightarrow> 0 \<le> i \<and> nat i < length eps \<and> healthy (h' (eps ! nat i)))"
proof (cases "eps = []")
  case True
  with sel show ?thesis by (simp add: RoundRobinSelect_def)
next
  case False
  define idx where "idx = unat (c + 1) mod length eps"
  have idx: "idx < length eps" using False by (simp add: idx_def)
  let ?h1 = "h(eps ! idx := settle now (h (eps ! idx)))"
  note eq = RoundRobinSelect_eq [OF False len idx_def, of now h]
  show ?thesis
  proof (cases "available now (h (eps ! idx))")
    case True
    with sel have i: "i = int idx" and h': "h' = ?h1" by (simp_all add: eq Let_def)
    have "probed now h h'" unfolding h' by (rule probed_step)
    moreover have "healthy (h' (eps ! idx))" using True h' by (simp add: settle_healthy)
    ultimately show ?thesis using i idx True nth_mem [OF idx] by auto
  next
    case unavail: False
    with sel have scan: "scan_forward now ?h1 eps idx [1..<length eps] = (i, h')"
      by (simp add: eq Let_def split: prod.splits)
    note spec = scan_forward_spec [OF scan False]
    let ?P = "\<lambda>k. available now (h (eps ! k))" and ?f = "\<lambda>j. (idx + j) mod length eps"
    have "i = -1 \<longleftrightarrow> \<not> (\<exists>j \<in> set [1..<length eps]. available now (?h1 (eps ! ?f j)))"
      using spec by (elim conjE) assumption
    also have "\<dots> \<longleftrightarrow> \<not> (\<exists>j \<in> set [1..<length eps]. ?P (?f j))"
      by (simp only: probed_available [OF probed_step [of now h "eps ! idx"]])
    also have "\<dots> \<longleftrightarrow> \<not> (\<exists>k \<in> {0..<length eps}. ?P k)"
      by (simp only: bex_insert_image [of ?P, OF unavail, of ?f, symmetric] probe_all_candidates [OF idx])
    also have "\<dots> \<longleftrightarrow> \<not> (\<exists>a \<in> set eps. available now (h a))"
      by (simp only: bex_nth [where P = "\<lambda>a. available now (h a)"])
    finally have "i = -1 \<longleftrightarrow> \<not> (\<exists>a \<in> set eps. available now (h a))" .
    moreover have "probed now h h'"
      by (rule probed_trans [OF probed_step]) (rule conjunct1 [OF spec])
    moreover note conjunct2 [OF conjunct2 [OF spec]]
    ultimately show ?thesis by (intro conjI)
  qed
qed

interpretation rr: selector RoundRobinSelect
  by unfold_locales (drule (1) RoundRobinSelect_spec, simp)+

lemma FirstHealthySelect_spec:
  assumes "FirstHealthySelect s now h eps = (i, s', h')"
  shows "probed now h h' \<and>
    (i = -1 \<longleftrightarrow> \<not> (\<exists>a \<in> set eps. available now (h a))) \<and>
    (i \<noteq> -1 \<longrightarrow> 0 \<le> i \<and> nat i < length eps \<and> healthy (h' (eps ! nat i)))"
proof -
  from assms have "first_healthy now h eps 0 = (i, h')"
    by (simp add: FirstHealthySelect_def split: prod.splits)
  note spec = first_healthy_spec [OF this]
  then have "i \<noteq> -1 \<longrightarrow> 0 \<le> i \<and> nat i < length eps \<and> healthy (h' (eps ! nat i))"
    by (metis add_0 nat_int of_nat_0_le_iff)
  with spec show ?thesis by blast
qed

interpretation fh: selector FirstHealthySelect
  by unfold_locales (drule FirstHealthySelect_spec, simp)+

end
