(* ===== verification/Pool_Props.thy ===== *)
theory Pool_Props
  imports Pool
begin

text \<open>
  What the backend pool promises: selection returns a healthy endpoint or reports that there is
  none, round robin visits every endpoint, the breaker is decided by the run of failures that
  ends at the current result, an endpoint that went down becomes available again after its
  recovery timeout, and a recovery is reported at most once per outage.
\<close>

section \<open>Runs\<close>

text \<open>Consecutive selections, and the results recorded on one endpoint one after another.\<close>

fun rr_run :: "nat \<Rightarrow> uint64 \<Rightarrow> time \<Rightarrow> ep_heap \<Rightarrow> addr list \<Rightarrow> int list" where
  "rr_run 0 c now h eps = []"
| "rr_run (Suc k) c now h eps =
     (let (i, c', h') = RoundRobinSelect c now h eps in i # rr_run k c' now h' eps)"

type_synonym backend_result = "time \<times> int \<times> go_error option"

fun record_run :: "int \<Rightarrow> addr \<Rightarrow> ep_heap \<Rightarrow> backend_result list \<Rightarrow> ep_heap" where
  "record_run threshold a h [] = h"
| "record_run threshold a h ((now, code, err) # rs) =
     record_run threshold a (snd (RecordResult now h a code err threshold)) rs"

definition failed :: "backend_result \<Rightarrow> bool" where
  "failed r = (case r of (now, code, err) \<Rightarrow> isFailure code err)"

definition trailing_failures :: "backend_result list \<Rightarrow> int" where
  "trailing_failures rs = int (length (takeWhile failed (rev rs)))"

datatype endpoint_op = Record time int "go_error option" int | Probe time

fun endpoint_step :: "addr \<Rightarrow> ep_heap \<Rightarrow> endpoint_op \<Rightarrow> TransitionEvent option \<times> ep_heap" where
  "endpoint_step a h (Record now code err threshold) = RecordResult now h a code err threshold"
| "endpoint_step a h (Probe now) = (None, snd (probe now h a))"

fun endpoint_events :: "addr \<Rightarrow> ep_heap \<Rightarrow> endpoint_op list \<Rightarrow> TransitionEvent list" where
  "endpoint_events a h [] = []"
| "endpoint_events a h (x # xs) =
     (let (e, h') = endpoint_step a h x in
      case e of None \<Rightarrow> endpoint_events a h' xs | Some ev \<Rightarrow> ev # endpoint_events a h' xs)"

section \<open>Supporting lemmas\<close>

lemma record_run_append:
  "record_run t a h (rs @ [(now, code, err)]) =
   snd (RecordResult now (record_run t a h rs) a code err t)"
  by (induction rs arbitrary: h) auto

lemma trailing_failures_snoc:
  "trailing_failures (rs @ [r]) = (if failed r then trailing_failures rs + 1 else 0)"
  by (simp add: trailing_failures_def)

lemma trailing_failures_bounds: "0 \<le> trailing_failures rs" "trailing_failures rs \<le> int (length rs)"
  using length_takeWhile_le [of failed "rev rs"] by (simp_all add: trailing_failures_def)

lemma trailing_failures_Nil [simp]: "trailing_failures [] = 0"
  by (simp add: trailing_failures_def)

definition effective_threshold :: "int \<Rightarrow> int" where
  "effective_threshold t = (if t \<le> 0 then DefaultUnhealthyThreshold else t)"

lemma effective_threshold_pos: "0 < effective_threshold t"
  by (simp add: effective_threshold_def DefaultUnhealthyThreshold_def)

lemma RecordResult_failure:
  assumes "isFailure code err" and "n = i32 (consecutiveFailures (h a) + 1)"
  shows "RecordResult now h a code err t =
    (if effective_threshold t \<le> n \<and> healthy (h a) then
       (Some \<lparr>Endpoint = a, OldHealthy = True, NewHealthy = False, Failures = n,
              StatusCode = code, Error = err, DowntimeDuration = 0, AutoRecovered = False\<rparr>,
        h(a := (h a)\<lparr>consecutiveFailures := n, healthy := False, unhealthySinceNano := now,
                     pendingRecovery := False\<rparr>))
     else (None, h(a := (h a)\<lparr>consecutiveFailures := n\<rparr>)))"
  using assms by (simp add: RecordResult_def IncrementFailures_def effective_threshold_def Let_def)

lemma RecordResult_failure_event:
  assumes "isFailure code err"
  shows "fst (RecordResult now h a code err t) \<noteq> None \<longleftrightarrow>
           effective_threshold t \<le> i32 (consecutiveFailures (h a) + 1) \<and> healthy (h a)"
    and "fst (RecordResult now h a code err t) = Some e \<Longrightarrow> \<not> NewHealthy e"
  by (auto simp: RecordResult_failure [OF assms refl] split: if_splits)

lemma RecordResult_success:
  assumes "\<not> isFailure code err"
  shows "healthy (snd (RecordResult now h a code err t) a)"
    and "\<not> pendingRecovery (snd (RecordResult now h a code err t) a)"
    and "0 \<le> consecutiveFailures (h a) \<Longrightarrow>
         consecutiveFailures (snd (RecordResult now h a code err t) a) = 0"
    and "fst (RecordResult now h a code err t) \<noteq> None \<longleftrightarrow> \<not> healthy (h a) \<or> pendingRecovery (h a)"
    and "fst (RecordResult now h a code err t) = Some e \<Longrightarrow> NewHealthy e"
  using assms by (auto simp: RecordResult_def ResetFailures_def Let_def split: if_splits)

lemma record_run_state:
  assumes fresh: "healthy (h a)" "consecutiveFailures (h a) = 0" "\<not> pendingRecovery (h a)"
    and len: "int (length rs) < 2 ^ 31"
  shows "consecutiveFailures (record_run t a h rs a) = trailing_failures rs \<and>
         (healthy (record_run t a h rs a) \<longleftrightarrow> trailing_failures rs < effective_threshold t) \<and>
         \<not> pendingRecovery (record_run t a h rs a)"
  using len
proof (induction rs rule: rev_induct)
  case Nil
  then show ?case using fresh effective_threshold_pos [of t] by simp
next
  case (snoc r rs)
  obtain now code err where r: "r = (now, code, err)" by (cases r) auto
  let ?h = "record_run t a h rs"
  from snoc have IH: "consecutiveFailures (?h a) = trailing_failures rs"
    "healthy (?h a) \<longleftrightarrow> trailing_failures rs < effective_threshold t" "\<not> pendingRecovery (?h a)"
    by auto
  have bound: "in_i32 (trailing_failures rs + 1)"
    using trailing_failures_bounds [of rs] snoc.prems by (simp add: in_i32_def)
  show ?case
  proof (cases "isFailure code err")
    case True
    have "i32 (consecutiveFailures (?h a) + 1) = trailing_failures rs + 1"
      using IH bound by (simp add: i32_id)
    from RecordResult_failure [of code err _ ?h a now t, OF True this [symmetric]] True IH
    show ?thesis by (auto simp: r record_run_append trailing_failures_snoc failed_def)
  next
    case False
    then show ?thesis
      using RecordResult_success [OF False, where h = ?h and a = a and now = now and t = t] IH trailing_failures_bounds(1) [of rs]
        effective_threshold_pos [of t]
      by (simp add: r record_run_append trailing_failures_snoc failed_def)
  qed
qed

lemma rr_run_all_healthy:
  assumes "eps \<noteq> []" "length eps < 2 ^ 63" "\<forall>a \<in> set eps. healthy (h a)"
  shows "unat c + k < 2 ^ 64 \<Longrightarrow>
    rr_run k c now h eps = map (\<lambda>j. int ((unat c + j) mod length eps)) [1..<Suc k]"
  using assms(3)
proof (induction k arbitrary: c h)
  case 0
  then show ?case by simp
next
  case (Suc k)
  have c1: "unat (c + 1) = unat c + 1"
    using Suc.prems(1) by (simp add: unat_word_ariths)
  let ?idx = "unat (c + 1) mod length eps"
  have idx: "eps ! ?idx \<in> set eps" using assms(1) by (intro nth_mem) simp
  with Suc.prems have hl: "healthy (h (eps ! ?idx))" by blast
  then have "settle now (h (eps ! ?idx)) = h (eps ! ?idx)"
    by (simp add: settle_def IsHealthy_def)
  with hl have sel: "RoundRobinSelect c now h eps = (int ?idx, c + 1, h)"
    using RoundRobinSelect_eq [OF assms(1,2) refl, of c now h]
    by (simp add: available_def fun_upd_idem)
  have "rr_run k (c + 1) now h eps = map (\<lambda>j. int ((unat (c + 1) + j) mod length eps)) [1..<Suc k]"
    using Suc.prems c1 by (intro Suc.IH) auto
  also have "\<dots> = map (\<lambda>j. int ((unat c + j) mod length eps)) [Suc (Suc 0)..<Suc (Suc k)]"
    by (rule nth_equalityI) (simp_all add: c1 del: upt_Suc)
  finally show ?case
    using sel c1 by (simp add: upt_conv_Cons del: upt_Suc)
qed

lemma shifted_residues:
  assumes "0 < (n::nat)"
  shows "inj_on (\<lambda>j. (m + j) mod n) {1..<Suc n}" "(\<lambda>j. (m + j) mod n) ` {1..<Suc n} = {0..<n}"
proof -
  show inj: "inj_on (\<lambda>j. (m + j) mod n) {1..<Suc n}"
  proof (rule inj_onI)
    fix x y assume xy: "x \<in> {1..<Suc n}" "y \<in> {1..<Suc n}" and eq: "(m + x) mod n = (m + y) mod n"
    then have "int n dvd int x - int y"
      by (metis mod_eq_dvd_iff of_nat_add of_nat_mod add_diff_cancel_left)
    moreover have "\<bar>int x - int y\<bar> < int n" using xy by auto
    ultimately show "x = y" using dvd_imp_le_int [of "int x - int y" "int n"] by auto
  qed
  have "(\<lambda>j. (m + j) mod n) ` {1..<Suc n} \<subseteq> {0..<n}" using assms by auto
  then show "(\<lambda>j. (m + j) mod n) ` {1..<Suc n} = {0..<n}"
    using inj by (intro card_subset_eq) (auto simp: card_image)
qed

lemma any_healthy_iff: "fst (any_healthy now h eps) \<longleftrightarrow> (\<exists>a \<in> set eps. available now (h a))"
proof (induction eps arbitrary: h)
  case Nil
  then show ?case by simp
next
  case (Cons a as)
  then show ?case
    using probed_upd_available [of "set as" now h a] by (simp add: probe_eq del: fun_upd_apply)
qed

lemma next_excluding_spec:
  "next_excluding now h eps x = (r, h') \<Longrightarrow>
     (r = None \<longleftrightarrow> \<not> (\<exists>a \<in> set eps - {x}. available now (h a))) \<and>
     (\<forall>b. r = Some b \<longrightarrow> b \<noteq> x \<and> b \<in> set eps \<and> healthy (h' b))"
proof (induction eps arbitrary: h)
  case Nil
  then show ?case by simp
next
  case (Cons a as)
  let ?h1 = "h(a := settle now (h a))"
  consider "a = x" | "a \<noteq> x" "available now (h a)" | "a \<noteq> x" "\<not> available now (h a)" by blast
  then show ?case
  proof cases
    case 1
    with Cons.prems have "next_excluding now h as x = (r, h')" by simp
    from Cons.IH [OF this] 1 show ?thesis by auto
  next
    case 2
    with Cons.prems have "r = Some a" "h' = ?h1" by (simp_all add: probe_eq)
    with 2 show ?thesis by (auto simp: settle_healthy)
  next
    case 3
    with Cons.prems have "next_excluding now ?h1 as x = (r, h')" by (simp add: probe_eq)
    note IH = Cons.IH [OF this]
    have "(\<exists>b \<in> set as - {x}. available now (?h1 b)) \<longleftrightarrow> (\<exists>b \<in> set (a # as) - {x}. available now (h b))"
      using 3 by (simp only: probed_available [OF probed_step [of now h a]]) auto
    with IH show ?thesis by auto
  qed
qed

text \<open>An outage is open from the breaker's \<open>DOWN\<close> until a recovery is reported.\<close>

definition outage :: "BackendEndpoint \<Rightarrow> bool" where
  "outage ep \<longleftrightarrow> \<not> healthy ep \<or> pendingRecovery ep"

lemma endpoint_step_outage:
  assumes "endpoint_step a h x = (e, h')"
  shows "case e of
           None \<Rightarrow> outage (h' a) = outage (h a)
         | Some ev \<Rightarrow> if NewHealthy ev then outage (h a) \<and> \<not> outage (h' a) else outage (h' a)"
proof (cases x)
  case (Record now code err t)
  show ?thesis
  proof (cases "isFailure code err")
    case True
    with Record assms show ?thesis
      by (auto simp: RecordResult_failure [OF True refl] outage_def split: if_splits)
  next
    case False
    from Record assms have rr: "RecordResult now h a code err t = (e, h')" by simp
    show ?thesis
    proof (cases e)
      case None
      with RecordResult_success [OF False, where h = h and a = a and now = now and t = t] rr
      show ?thesis by (auto simp: outage_def)
    next
      case (Some ev)
      with RecordResult_success [OF False, where h = h and a = a and now = now and t = t] rr
      show ?thesis by (auto simp: outage_def)
    qed
  qed
next
  case (Probe now)
  with assms show ?thesis
    by (auto simp: probe_eq settle_def IsHealthy_def outage_def)
qed

lemma endpoint_events_balance:
  "length (filter NewHealthy (endpoint_events a h xs)) \<le>
   length (filter (\<lambda>ev. \<not> NewHealthy ev) (endpoint_events a h xs)) + (if outage (h a) then 1 else 0)"
proof (induction xs arbitrary: h)
  case Nil
  then show ?case by simp
next
  case (Cons x xs)
  obtain e h' where st: "endpoint_step a h x = (e, h')" by (cases "endpoint_step a h x") auto
  from endpoint_step_outage [OF st] Cons.IH [of h'] show ?case
    by (cases e) (auto simp: st split: if_splits)
qed

section \<open>Properties\<close>

text \<open>A heap for the concrete instances: endpoint 1 is down since time 10, the others are up.\<close>

definition ep_up :: BackendEndpoint where
  "ep_up = \<lparr>Name = ''b'', RawURL = ''http://b'', URLHost = ''b'', healthy = True,
            consecutiveFailures = 0, recoveryTimeout = 30, unhealthySinceNano = 0,
            pendingRecovery = False\<rparr>"

definition demo_heap :: ep_heap where
  "demo_heap = (\<lambda>a. if a = 1 then SetUnhealthy 10 ep_up else ep_up)"

text \<open>
  (C38) Selection through a round-robin pool is safe and complete: \<open>Next\<close> returns nil exactly when
  \<open>IsHealthy\<close> would answer false for every endpoint of the pool, and an endpoint it returns
  belongs to the pool and is healthy afterwards. The selection changes no endpoint otherwise than
  by a recovery \<open>IsHealthy\<close> makes.
\<close>

theorem round_robin_next:
  assumes "Next RoundRobinSelect now h p = (r, p', h')"
    and "length (endpoints p) < 2 ^ 63"
  shows "(r = None \<longleftrightarrow> (\<forall>a \<in> set (endpoints p). \<not> fst (IsHealthy now (h a)))) \<and>
         (\<forall>a. r = Some a \<longrightarrow>
            a \<in> set (endpoints p) \<and> healthy (h' a) \<and>
            (\<forall>b. h' b = h b \<or> h' b = snd (IsHealthy now (h b))))"
proof -
  have "r = None \<longleftrightarrow> (\<forall>a \<in> set (endpoints p). \<not> fst (IsHealthy now (h a)))"
    using rr.next_none_iff [OF assms] by (simp add: IsHealthy_eq)
  moreover have "a \<in> set (endpoints p) \<and> healthy (h' a) \<and>
      (\<forall>b. h' b = h b \<or> h' b = snd (IsHealthy now (h b)))" if "r = Some a" for a
    using rr.next_some [of now h p a p' h'] assms that by (simp add: probed_def settle_def)
  ultimately show ?thesis by blast
qed

theorem round_robin_next_witness:
  "fst (Next RoundRobinSelect 20 demo_heap (NewPool ''svc'' [0, 1] 0 [])) = Some 0 \<and>
   healthy (snd (snd (Next RoundRobinSelect 20 demo_heap (NewPool ''svc'' [0, 1] 0 []))) 0)"
proof -
  let ?p = "NewPool ''svc'' [0, 1] (0 :: uint64) []"
  obtain r p' h' where n: "Next RoundRobinSelect 20 demo_heap ?p = (r, p', h')"
    by (cases "Next RoundRobinSelect 20 demo_heap ?p") auto
  have r: "r = Some 0"
    using n by (auto simp: Next_def RoundRobinSelect_def NewPool_def probe_def IsHealthy_def
        demo_heap_def SetUnhealthy_def ep_up_def time_sub_def Let_def)
  have "length (endpoints ?p) < 2 ^ 63" by (simp add: NewPool_def)
  from round_robin_next [OF n this] r n show ?thesis by auto
qed

text \<open>
  Round robin is fair: while every endpoint of the list stays healthy, as many consecutive
  selections as there are endpoints return every index exactly once, unless the 64-bit counter
  wraps on the way.
\<close>

theorem round_robin_fair:
  assumes "eps \<noteq> []" "length eps < 2 ^ 63" "\<forall>a \<in> set eps. healthy (h a)"
    and "unat c + length eps < 2 ^ 64"
  shows "distinct (rr_run (length eps) c now h eps) \<and>
         set (rr_run (length eps) c now h eps) = int ` {0..<length eps}"
proof -
  let ?f = "\<lambda>j. (unat c + j) mod length eps"
  have run: "rr_run (length eps) c now h eps = map (\<lambda>j. int (?f j)) [1..<Suc (length eps)]"
    by (rule rr_run_all_healthy [OF assms(1-3) assms(4)])
  have n: "0 < length eps" using assms(1) by simp
  have "inj_on (\<lambda>j. int (?f j)) {1..<Suc (length eps)}"
    using shifted_residues(1) [OF n, of "unat c"] by (simp add: inj_on_def)
  moreover have "(\<lambda>j. int (?f j)) ` {1..<Suc (length eps)} = int ` {0..<length eps}"
    using shifted_residues(2) [OF n, of "unat c"] by (metis image_image)
  ultimately show ?thesis
    unfolding run by (simp add: distinct_map del: upt_Suc)
qed

theorem round_robin_fair_witness:
  "distinct (rr_run 3 5 20 demo_heap [0, 2, 4]) \<and> set (rr_run 3 5 20 demo_heap [0, 2, 4]) = {0, 1, 2}"
proof -
  have "\<forall>a \<in> set [0, 2, 4]. healthy (demo_heap a)"
    by (simp add: demo_heap_def ep_up_def)
  from round_robin_fair [OF _ _ this, of 5 20] show ?thesis
    by (simp add: atLeast0LessThan lessThan_Suc numeral_3_eq_3 insert_commute)
qed

text \<open>
  (C39) The circuit breaker is decided by the failures that end at the current result. On an
  endpoint that started healthy, after any sequence of recorded results, the endpoint is healthy
  iff fewer failures than the threshold close the sequence; the next failing result reports DOWN
  exactly when it is the threshold-th in a row, and the next good result reports UP exactly when
  the endpoint was down. A threshold that is not positive counts as 5.
\<close>

theorem breaker_characterised:
  assumes "healthy (h a)" "consecutiveFailures (h a) = 0" "\<not> pendingRecovery (h a)"
    and "int (length rs) + 1 < 2 ^ 31"
    and "threshold = (if t \<le> 0 then 5 else t)"
    and "RecordResult now (record_run t a h rs) a code err t = (ev, h')"
  shows "(healthy (record_run t a h rs a) \<longleftrightarrow> trailing_failures rs < threshold) \<and>
         (isFailure code err \<longrightarrow>
            (ev \<noteq> None \<longleftrightarrow> trailing_failures rs + 1 = threshold) \<and>
            (\<forall>e. ev = Some e \<longrightarrow> \<not> NewHealthy e)) \<and>
         (\<not> isFailure code err \<longrightarrow>
            (ev \<noteq> None \<longleftrightarrow> threshold \<le> trailing_failures rs) \<and>
            (\<forall>e. ev = Some e \<longrightarrow> NewHealthy e))"
proof -
  let ?h = "record_run t a h rs"
  have thr: "threshold = effective_threshold t"
    using assms(5) by (simp add: effective_threshold_def DefaultUnhealthyThreshold_def)
  from assms(4) have len: "int (length rs) < 2 ^ 31" by simp
  note st = record_run_state [of h a, OF assms(1-3) len, of t]
  then have cf: "consecutiveFailures (?h a) = trailing_failures rs"
    and hl: "healthy (?h a) \<longleftrightarrow> trailing_failures rs < effective_threshold t"
    and pd: "\<not> pendingRecovery (?h a)" by blast+
  have n: "i32 (consecutiveFailures (?h a) + 1) = trailing_failures rs + 1"
    using cf trailing_failures_bounds [of rs] assms(4) by (simp add: i32_id in_i32_def)
  have "(ev \<noteq> None \<longleftrightarrow> trailing_failures rs + 1 = threshold) \<and> (\<forall>e. ev = Some e \<longrightarrow> \<not> NewHealthy e)"
    if f: "isFailure code err"
  proof -
    have "ev \<noteq> None \<longleftrightarrow> effective_threshold t \<le> trailing_failures rs + 1 \<and> healthy (?h a)"
      using RecordResult_failure_event(1) [of code err now ?h a t, OF f] assms(6) n by simp
    moreover have "\<forall>e. ev = Some e \<longrightarrow> \<not> NewHealthy e"
      using RecordResult_failure_event(2) [of code err now ?h a t, OF f] assms(6) by simp
    ultimately show ?thesis unfolding thr hl by (intro conjI) (linarith, blast)
  qed
  moreover have "(ev \<noteq> None \<longleftrightarrow> threshold \<le> trailing_failures rs) \<and> (\<forall>e. ev = Some e \<longrightarrow> NewHealthy e)"
    if f: "\<not> isFailure code err"
  proof -
    have "ev \<noteq> None \<longleftrightarrow> \<not> healthy (?h a)"
      using RecordResult_success(4) [OF f, of now ?h a t] assms(6) pd by simp
    moreover have "\<forall>e. ev = Some e \<longrightarrow> NewHealthy e"
      using RecordResult_success(5) [OF f, of now ?h a t] assms(6) by simp
    ultimately show ?thesis unfolding thr hl by (intro conjI) (linarith, blast)
  qed
  ultimately show ?thesis using hl unfolding thr by blast
qed

theorem breaker_characterised_witness:
  "healthy (record_run 2 0 demo_heap [(1, 503, None)] 0) \<and>
   fst (RecordResult 2 (record_run 2 0 demo_heap [(1, 503, None)]) 0 500 None 2) \<noteq> None"
proof -
  obtain ev h' where rr:
    "RecordResult 2 (record_run 2 0 demo_heap [(1, 503, None)]) 0 500 None 2 = (ev, h')"
    by fastforce
  have fresh: "healthy (demo_heap 0)" "consecutiveFailures (demo_heap 0) = 0"
    "\<not> pendingRecovery (demo_heap 0)"
    by (simp_all add: demo_heap_def ep_up_def)
  have tr: "trailing_failures [(1, 503, None)] = 1"
    by (simp add: trailing_failures_def failed_def isFailure_def)
  from breaker_characterised [OF fresh _ refl rr] show ?thesis
    using rr by (simp add: tr isFailure_def)
qed

text \<open>
  (C40) No death spiral: an endpoint the breaker took down is offered again once its recovery
  timeout has passed, with no traffic and no health check in between. \<open>HasHealthy\<close> is true and a
  round-robin selection over a pool that contains the endpoint returns an endpoint.
\<close>

theorem recovery_after_timeout:
  assumes "RecordResult t0 h a code err t = (Some ev, h1)" "\<not> NewHealthy ev"
    and "0 < recoveryTimeout (h a)" "in_i64 (recoveryTimeout (h a))" "0 < t0"
    and "t0 + recoveryTimeout (h a) \<le> now"
    and "a \<in> set (endpoints p)" "length (endpoints p) < 2 ^ 63"
  shows "fst (HasHealthy now h1 p) \<and> fst (Next RoundRobinSelect now h1 p) \<noteq> None"
proof -
  have f: "isFailure code err"
    using assms(1,2) RecordResult_success(5) [of code err t0 h a t ev] by auto
  have "recoveryTimeout (h1 a) = recoveryTimeout (h a)" "unhealthySinceNano (h1 a) = t0"
    using assms(1) unfolding RecordResult_failure [OF f refl] by (auto split: if_splits)
  then have "available now (h1 a)"
    using assms(3-6) by (simp add: available_def time_sub_ge_iff)
  then have ex: "\<exists>x \<in> set (endpoints p). available now (h1 x)" using assms(7) by blast
  obtain r p' h' where nx: "Next RoundRobinSelect now h1 p = (r, p', h')"
    by (cases "Next RoundRobinSelect now h1 p") auto
  have "r \<noteq> None" using rr.next_none_iff [OF nx assms(8)] ex by simp
  moreover have "fst (HasHealthy now h1 p)"
    using any_healthy_iff [of now h1 "endpoints p"] ex by (simp add: HasHealthy_def)
  ultimately show ?thesis using nx by simp
qed

theorem recovery_after_timeout_witness:
  "fst (HasHealthy 50 (snd (RecordResult 10 demo_heap 0 500 None 1)) (NewPool ''svc'' [0] (0::uint64) []))"
proof -
  obtain ev h1 where rr: "RecordResult 10 demo_heap 0 500 None 1 = (Some ev, h1)" "\<not> NewHealthy ev"
    using RecordResult_failure [of 500 None 1 demo_heap 0 10 1]
    by (auto simp: isFailure_def demo_heap_def ep_up_def effective_threshold_def i32_def)
  have "recoveryTimeout (demo_heap 0) = 30" by (simp add: demo_heap_def ep_up_def)
  with recovery_after_timeout [OF rr, of 50 "NewPool ''svc'' [0] (0::uint64) []"] rr
  show ?thesis by (simp add: NewPool_def in_i64_def)
qed

text \<open>
  A retry never goes back to the excluded endpoint: \<open>NextExcluding\<close> returns a healthy endpoint
  of the pool other than the excluded one, and returns nil only when no other endpoint is
  available.
\<close>

theorem next_excluding_correct:
  "NextExcluding now h p x = (r, h') \<Longrightarrow>
     (r = None \<longleftrightarrow> (\<forall>a \<in> set (endpoints p). a \<noteq> x \<longrightarrow> \<not> fst (IsHealthy now (h a)))) \<and>
     (\<forall>b. r = Some b \<longrightarrow> b \<noteq> x \<and> b \<in> set (endpoints p) \<and> healthy (h' b))"
  using next_excluding_spec [of now h "endpoints p" x r h']
  by (auto simp: NextExcluding_def IsHealthy_eq)

theorem next_excluding_correct_witness:
  "fst (NextExcluding 20 demo_heap (NewPool ''svc'' [0, 1, 2] (0::uint64) []) 0) = Some 2 \<and>
   healthy (snd (NextExcluding 20 demo_heap (NewPool ''svc'' [0, 1, 2] (0::uint64) []) 0) 2)"
proof -
  let ?p = "NewPool ''svc'' [0, 1, 2] (0::uint64) []"
  obtain r h' where n: "NextExcluding 20 demo_heap ?p 0 = (r, h')" by fastforce
  have "r = Some 2"
    using n by (auto simp: NextExcluding_def NewPool_def probe_def IsHealthy_def demo_heap_def
        SetUnhealthy_def ep_up_def time_sub_def Let_def)
  with next_excluding_correct [OF n] n show ?thesis by simp
qed

text \<open>
  A recovery is reported at most once per outage: over any sequence of recorded results and
  selection probes on an endpoint that starts healthy, the UP transitions reported never
  outnumber the DOWN transitions reported.
\<close>

theorem up_events_need_down:
  "healthy (h a) \<Longrightarrow> \<not> pendingRecovery (h a) \<Longrightarrow>
   length (filter NewHealthy (endpoint_events a h xs)) \<le>
   length (filter (\<lambda>ev. \<not> NewHealthy ev) (endpoint_events a h xs))"
  using endpoint_events_balance [of a h xs] by (simp add: outage_def)

theorem up_events_need_down_witness:
  "length (filter NewHealthy (endpoint_events 0 demo_heap [Record 10 500 None 1, Probe 50, Record 60 200 None 1]))
   \<le> length (filter (\<lambda>ev. \<not> NewHealthy ev)
        (endpoint_events 0 demo_heap [Record 10 500 None 1, Probe 50, Record 60 200 None 1]))"
proof -
  have "healthy (demo_heap 0)" "\<not> pendingRecovery (demo_heap 0)"
    by (simp_all add: demo_heap_def ep_up_def)
  then show ?thesis by (rule up_events_need_down)
qed

lemma as_dns_is_net: "as_dns_error e \<Longrightarrow> as_net_error e \<noteq> None"
  by (induction e rule: as_net_error.induct) (auto simp: as_dns_error_def)

text \<open>
  The DNS label is unreachable: \<open>ClassifyFailure\<close> never answers \<open>dns_error\<close>, because
  \<open>*net.DNSError\<close> implements \<open>net.Error\<close> and the test for \<open>net.Error\<close> comes first. Every failing
  error is labelled \<open>transport_error\<close> or \<open>backend_error\<close>.
\<close>

theorem classify_never_dns:
  "ClassifyFailure code err \<in> {[], ''transport_error'', ''backend_error'', ''backend_5xx''}"
  by (auto simp: ClassifyFailure_def dest: as_dns_is_net split: option.splits)

lemma NormalizeGRPCScheme_dialable:
  "\<not> HasPrefix (NormalizeGRPCScheme u) ''grpc://'' \<and> \<not> HasPrefix (NormalizeGRPCScheme u) ''grpcs://''"
  by (auto simp: NormalizeGRPCScheme_def CutPrefix_def split: option.splits if_splits)

text \<open>
  The constructor returns a usable endpoint or an error: a constructed endpoint has a
  non-empty name and host, starts healthy with no failures, and its URL carries none of the two
  gRPC schemes the dialers do not know.
\<close>

theorem new_endpoint_usable:
  assumes "NewBackendEndpoint parse name rawURL = Inr ep"
  shows "Name ep \<noteq> [] \<and> URLHost ep \<noteq> [] \<and> healthy ep \<and> consecutiveFailures ep = 0 \<and>
         \<not> HasPrefix (RawURL ep) ''grpc://'' \<and> \<not> HasPrefix (RawURL ep) ''grpcs://''"
  using assms NormalizeGRPCScheme_dialable [of rawURL]
  by (auto simp: NewBackendEndpoint_def Let_def split: if_splits option.splits)

theorem new_endpoint_usable_witness:
  "\<exists>ep. NewBackendEndpoint (\<lambda>u. Some ''host:9090'') [] ''grpc://host:9090'' = Inr ep \<and>
        Name ep \<noteq> [] \<and> \<not> HasPrefix (RawURL ep) ''grpc://''"
proof -
  obtain ep where ep: "NewBackendEndpoint (\<lambda>u. Some ''host:9090'') [] ''grpc://host:9090'' = Inr ep"
    by (simp add: NewBackendEndpoint_def is_space_def is_space2_def is_space3_def Let_def)
  from new_endpoint_usable [OF ep] ep show ?thesis by blast
qed

end
