(* ===== verification/Strconv.thy ===== *)
theory Strconv
  imports Prelude
begin

text \<open>
  The parts of Go's \<open>strconv\<close>, \<open>strings\<close> and \<open>encoding/binary\<close> the stores use: decimal integers, \<open>Cut\<close>,
  and big-endian words, with the round trips between printing and parsing. \<open>None\<close> is a parse error.
\<close>

section \<open>Decimal integers\<close>

definition digit_char :: "nat \<Rightarrow> char" where
  "digit_char n = char_of (48 + n)"

definition digit_of :: "char \<Rightarrow> nat option" where
  "digit_of c = (let n = of_char c in if 48 \<le> n \<and> n \<le> (57::nat) then Some (n - 48) else None)"

fun FormatNat :: "nat \<Rightarrow> string" where
  "FormatNat n = (if n < 10 then [digit_char n] else FormatNat (n div 10) @ [digit_char (n mod 10)])"

declare FormatNat.simps [simp del]

fun parse_digits :: "nat \<Rightarrow> string \<Rightarrow> nat option" where
  "parse_digits acc [] = Some acc"
| "parse_digits acc (c # cs) =
     (case digit_of c of None \<Rightarrow> None | Some d \<Rightarrow> parse_digits (10 * acc + d) cs)"

definition ParseNat :: "string \<Rightarrow> nat option" where
  "ParseNat s = (if s = [] then None else parse_digits 0 s)"

definition FormatUint :: "uint64 \<Rightarrow> string" where
  "FormatUint w = FormatNat (unat w)"

definition ParseUint :: "string \<Rightarrow> uint64 option" where
  "ParseUint s = (case ParseNat s of
     None \<Rightarrow> None
   | Some n \<Rightarrow> if n < 2 ^ 64 then Some (of_nat n) else None)"

definition FormatInt :: "int \<Rightarrow> string" where
  "FormatInt i = (if i < 0 then CHR ''-'' # FormatNat (nat (- i)) else FormatNat (nat i))"

definition ParseInt :: "string \<Rightarrow> int option" where
  "ParseInt s =
     (let neg = (s \<noteq> [] \<and> hd s = CHR ''-'');
          body = (if s \<noteq> [] \<and> (hd s = CHR ''-'' \<or> hd s = CHR ''+'') then tl s else s)
      in case ParseNat body of
           None \<Rightarrow> None
         | Some n \<Rightarrow> (let i = (if neg then - int n else int n) in if in_i64 i then Some i else None))"

lemma digit_of_char [simp]: "d < 10 \<Longrightarrow> digit_of (digit_char d) = Some d"
  by (simp add: digit_of_def digit_char_def Let_def)

lemma parse_digits_append:
  "parse_digits acc (xs @ ys) = (case parse_digits acc xs of None \<Rightarrow> None | Some a \<Rightarrow> parse_digits a ys)"
  by (induction acc xs rule: parse_digits.induct) (auto split: option.splits)

lemma parse_FormatNat: "parse_digits 0 (FormatNat n) = Some n"
proof (induction n rule: FormatNat.induct)
  case (1 n)
  show ?case
  proof (cases "n < 10")
    case False
    then show ?thesis using 1 by (subst FormatNat.simps) (simp add: parse_digits_append)
  qed (simp add: FormatNat.simps [of n])
qed

lemma FormatNat_nonempty [simp]: "FormatNat n \<noteq> []"
  by (subst FormatNat.simps) simp

lemma ParseNat_FormatNat [simp]: "ParseNat (FormatNat n) = Some n"
  by (simp add: ParseNat_def parse_FormatNat)

lemma digit_char_neq: "d < 10 \<Longrightarrow> digit_char d \<noteq> CHR ''-'' \<and> digit_char d \<noteq> CHR ''+''"
  by (auto simp: digit_char_def dest!: arg_cong [of _ _ "of_char :: char \<Rightarrow> nat"])

lemma FormatNat_digits: "set (FormatNat n) \<subseteq> digit_char ` {0..<10}"
proof (induction n rule: FormatNat.induct)
  case (1 n)
  show ?case
  proof (cases "n < 10")
    case False
    then show ?thesis using 1 by (subst FormatNat.simps) auto
  qed (auto simp: FormatNat.simps [of n])
qed

lemma hd_FormatNat: "hd (FormatNat n) \<noteq> CHR ''-'' \<and> hd (FormatNat n) \<noteq> CHR ''+''"
proof -
  have "hd (FormatNat n) \<in> digit_char ` {0..<10}"
    using FormatNat_digits [of n] hd_in_set [OF FormatNat_nonempty [of n]] by blast
  then obtain d where "hd (FormatNat n) = digit_char d" "d < 10" by auto
  then show ?thesis using digit_char_neq [of d] by simp
qed

lemma ParseUint_FormatUint [simp]: "ParseUint (FormatUint w) = Some w"
  using unsigned_less [of w, where ?'a = nat]
  by (simp add: ParseUint_def FormatUint_def)

lemma ParseInt_FormatInt: "in_i64 i \<Longrightarrow> ParseInt (FormatInt i) = Some i"
  using hd_FormatNat [of "nat i"]
  by (auto simp: ParseInt_def FormatInt_def Let_def)

lemma FormatInt_nonempty [simp]: "FormatInt i \<noteq> []"
  by (simp add: FormatInt_def)

lemma FormatUint_nonempty [simp]: "FormatUint w \<noteq> []"
  by (simp add: FormatUint_def)

lemma ParseInt_range: "ParseInt s = Some i \<Longrightarrow> in_i64 i"
  by (auto simp: ParseInt_def Let_def split: option.splits if_splits)

section \<open>Cut\<close>

fun Cut :: "string \<Rightarrow> char \<Rightarrow> (string \<times> string) option" where
  "Cut [] sep = None"
| "Cut (c # cs) sep = (if c = sep then Some ([], cs) else map_option (apfst (Cons c)) (Cut cs sep))"

lemma Cut_append: "sep \<notin> set xs \<Longrightarrow> Cut (xs @ sep # ys) sep = Some (xs, ys)"
  by (induction xs) auto

lemma FormatNat_no_minus: "CHR ''-'' \<notin> set (FormatNat n)"
proof
  assume "CHR ''-'' \<in> set (FormatNat n)"
  then have "CHR ''-'' \<in> digit_char ` {0..<10}" using FormatNat_digits [of n] by blast
  then obtain d where "CHR ''-'' = digit_char d" "d < 10" by auto
  then show False using digit_char_neq [of d] by simp
qed

section \<open>Big-endian words\<close>

text \<open>\<open>PutUint64\<close> and \<open>Uint64\<close> of \<open>binary.BigEndian\<close>: eight bytes, the most significant first.\<close>

definition be_bytes :: "uint64 \<Rightarrow> string" where
  "be_bytes w = map (\<lambda>i. char_of (unat w div 256 ^ (7 - i) mod 256)) [0..<8]"

definition be_uint64 :: "string \<Rightarrow> uint64" where
  "be_uint64 b = of_nat (foldl (\<lambda>acc c. 256 * acc + of_char c) 0 b)"

lemma length_be_bytes [simp]: "length (be_bytes w) = 8"
  by (simp add: be_bytes_def)

lemma be_digits:
  "foldl (\<lambda>acc c. 256 * acc + of_char c) a (map (\<lambda>i. char_of (n div 256 ^ (k - i) mod 256)) [0..<Suc k])
   = a * 256 ^ Suc k + n mod 256 ^ Suc k" for n a :: nat
proof (induction k arbitrary: a)
  case 0
  then show ?case by simp
next
  case (Suc k)
  have sh: "[0..<Suc (Suc k)] = 0 # map Suc [0..<Suc k]"
    by (metis map_Suc_upt upt_conv_Cons zero_less_Suc)
  have "n mod (256 ^ Suc k * 256) = 256 ^ Suc k * (n div 256 ^ Suc k mod 256) + n mod 256 ^ Suc k"
    by (rule mod_mult2_eq)
  then have "n mod 256 ^ Suc (Suc k) = (n div 256 ^ Suc k mod 256) * 256 ^ Suc k + n mod 256 ^ Suc k"
    by (simp add: mult.commute)
  then show ?case using Suc [of "256 * a + n div 256 ^ Suc k mod 256"]
    by (simp only: sh list.map list.map_comp foldl.simps comp_def diff_Suc_Suc diff_zero
        of_char_of) (simp add: algebra_simps)
qed

lemma be_roundtrip [simp]: "be_uint64 (be_bytes w) = w"
proof -
  have "foldl (\<lambda>acc c. 256 * acc + of_char c) 0 (be_bytes w) = unat w mod 256 ^ 8"
  proof -
    have eight: "(8::nat) = Suc 7" by simp
    show ?thesis unfolding be_bytes_def eight be_digits by (simp only: mult_zero_left add_0)
  qed
  moreover have "unat w < 256 ^ 8" using unsigned_less [of w, where ?'a = nat] by simp
  ultimately show ?thesis by (simp add: be_uint64_def)
qed

lemma be_bytes_inject [simp]: "be_bytes v = be_bytes w \<longleftrightarrow> v = w"
  by (metis be_roundtrip)

end
