(* ===== verification/Redis_Keys.thy ===== *)
theory Redis_Keys
  imports Strconv
begin

text \<open>
  The Redis key layout: \<open>KeyBuilder\<close> of \<open>src/transport/redis/namespace.go\<close> and the validation of its one
  configurable part, the base prefix, in \<open>src/config/redis.go\<close>. Every builder is the concatenation its
  \<open>Sprintf\<close> makes. The lemmas read a key back into its colon-separated segments: with an accepted base
  and colon-free arguments a key determines the builder and the arguments it came from.
\<close>

section \<open>The namespace\<close>

record KeyBuilder =
  BasePrefix :: string

definition DefaultRedisNamespaceConfig :: KeyBuilder where
  "DefaultRedisNamespaceConfig = \<lparr>BasePrefix = ''ha''\<rparr>"

definition WithDefaults :: "KeyBuilder \<Rightarrow> KeyBuilder" where
  "WithDefaults ns = (if BasePrefix ns = [] then ns\<lparr>BasePrefix := BasePrefix DefaultRedisNamespaceConfig\<rparr> else ns)"

text \<open>The characters the regular expression of the source rejects: colon, globs and white space.\<close>

definition basePrefixRejected :: "char \<Rightarrow> bool" where
  "basePrefixRejected c =
     (c \<in> set '':*?[]'' \<or> c \<in> set [CHR 0x09, CHR 0x0A, CHR 0x0C, CHR 0x0D, CHR 0x20])"

definition basePrefixAccepted :: "string \<Rightarrow> bool" where
  "basePrefixAccepted prefix = (prefix \<noteq> [] \<and> \<not> list_ex basePrefixRejected prefix)"

definition Namespace_Validate :: "KeyBuilder \<Rightarrow> string option" where
  "Namespace_Validate ns =
     (if basePrefixAccepted (BasePrefix (WithDefaults ns)) then None
      else Some ''base_prefix is not a single namespace segment'')"

definition NewKeyBuilder :: "KeyBuilder \<Rightarrow> KeyBuilder" where
  "NewKeyBuilder ns = WithDefaults ns"

section \<open>The builders\<close>

definition segmentCache :: string where [key_defs]: "segmentCache = ''cache''"
definition segmentEvents :: string where [key_defs]: "segmentEvents = ''events''"
definition segmentStreams :: string where [key_defs]: "segmentStreams = ''relays''"
definition segmentMiner :: string where [key_defs]: "segmentMiner = ''miner''"
definition segmentSupplier :: string where [key_defs]: "segmentSupplier = ''supplier''"
definition segmentMeter :: string where [key_defs]: "segmentMeter = ''meter''"
definition segmentParams :: string where [key_defs]: "segmentParams = ''params''"
definition segmentConsumerGroup :: string where [key_defs]: "segmentConsumerGroup = ''miners''"

definition CacheKey :: "KeyBuilder \<Rightarrow> string \<Rightarrow> string \<Rightarrow> string" where [key_defs]:
  "CacheKey kb entityType key = BasePrefix kb @ '':'' @ segmentCache @ '':'' @ entityType @ '':'' @ key"

definition CacheLockKey :: "KeyBuilder \<Rightarrow> string \<Rightarrow> string \<Rightarrow> string" where [key_defs]:
  "CacheLockKey kb entityType key = BasePrefix kb @ '':'' @ segmentCache @ '':lock:'' @ entityType @ '':'' @ key"

definition CacheKnownKey :: "KeyBuilder \<Rightarrow> string \<Rightarrow> string" where [key_defs]:
  "CacheKnownKey kb entityType = BasePrefix kb @ '':'' @ segmentCache @ '':known:'' @ entityType"

definition EventChannel :: "KeyBuilder \<Rightarrow> string \<Rightarrow> string \<Rightarrow> string" where [key_defs]:
  "EventChannel kb cacheType event = BasePrefix kb @ '':'' @ segmentEvents @ '':cache:'' @ cacheType @ '':'' @ event"

definition StreamPrefix :: "KeyBuilder \<Rightarrow> string" where [key_defs]:
  "StreamPrefix kb = BasePrefix kb @ '':'' @ segmentStreams"

definition StreamPattern :: "KeyBuilder \<Rightarrow> string" where [key_defs]:
  "StreamPattern kb = BasePrefix kb @ '':'' @ segmentStreams @ '':*''"

definition ConsumerGroup :: "KeyBuilder \<Rightarrow> string" where [key_defs]:
  "ConsumerGroup kb = BasePrefix kb @ ''-'' @ segmentConsumerGroup"

definition MinerSessionKey :: "KeyBuilder \<Rightarrow> string \<Rightarrow> string \<Rightarrow> string" where [key_defs]:
  "MinerSessionKey kb supplier sessionID = BasePrefix kb @ '':'' @ segmentMiner @ '':sessions:'' @ supplier @ '':'' @ sessionID"

definition SupplierKeyPrefix :: "KeyBuilder \<Rightarrow> string" where [key_defs]:
  "SupplierKeyPrefix kb = BasePrefix kb @ '':'' @ segmentSupplier"

definition StreamKey :: "KeyBuilder \<Rightarrow> string \<Rightarrow> string" where [key_defs]:
  "StreamKey kb supplierOperatorAddress = BasePrefix kb @ '':'' @ segmentStreams @ '':'' @ supplierOperatorAddress"

definition SuppliersRegistryIndexKey :: "KeyBuilder \<Rightarrow> string" where [key_defs]:
  "SuppliersRegistryIndexKey kb = BasePrefix kb @ '':suppliers:index''"

definition CachePrefix :: "KeyBuilder \<Rightarrow> string" where [key_defs]:
  "CachePrefix kb = BasePrefix kb @ '':'' @ segmentCache"

definition ParamsSharedAtHeightKey :: "KeyBuilder \<Rightarrow> int \<Rightarrow> string" where [key_defs]:
  "ParamsSharedAtHeightKey kb height = BasePrefix kb @ '':'' @ segmentCache @ '':params:shared:'' @ FormatInt height"

definition ParamsSharedAtHeightLockKey :: "KeyBuilder \<Rightarrow> int \<Rightarrow> string" where [key_defs]:
  "ParamsSharedAtHeightLockKey kb height = BasePrefix kb @ '':'' @ segmentCache @ '':lock:params:shared:'' @ FormatInt height"

definition ParamsSupplierKey :: "KeyBuilder \<Rightarrow> string" where [key_defs]:
  "ParamsSupplierKey kb = BasePrefix kb @ '':'' @ segmentCache @ '':params:supplier''"

definition ParamsSupplierLockKey :: "KeyBuilder \<Rightarrow> string" where [key_defs]:
  "ParamsSupplierLockKey kb = BasePrefix kb @ '':'' @ segmentCache @ '':lock:params:supplier''"

definition SessionCacheKey :: "KeyBuilder \<Rightarrow> string \<Rightarrow> string \<Rightarrow> int \<Rightarrow> string" where [key_defs]:
  "SessionCacheKey kb appAddr serviceID height = BasePrefix kb @ '':'' @ segmentCache @ '':session:'' @ appAddr @ '':'' @ serviceID @ '':'' @ FormatInt height"

definition MinerSessionsPrefix :: "KeyBuilder \<Rightarrow> string" where [key_defs]:
  "MinerSessionsPrefix kb = BasePrefix kb @ '':'' @ segmentMiner @ '':sessions''"

definition GlobalLeaderKey :: "KeyBuilder \<Rightarrow> string" where [key_defs]:
  "GlobalLeaderKey kb = BasePrefix kb @ '':'' @ segmentMiner @ '':global_leader''"

definition ParamsProofKey :: "KeyBuilder \<Rightarrow> string" where [key_defs]:
  "ParamsProofKey kb = BasePrefix kb @ '':'' @ segmentCache @ '':proof_params''"

definition ParamsProofLockKey :: "KeyBuilder \<Rightarrow> string" where [key_defs]:
  "ParamsProofLockKey kb = BasePrefix kb @ '':'' @ segmentCache @ '':lock:proof_params''"

definition ParamsSharedCacheKey :: "KeyBuilder \<Rightarrow> string" where [key_defs]:
  "ParamsSharedCacheKey kb = BasePrefix kb @ '':'' @ segmentCache @ '':shared_params''"

definition ParamsSharedLockKey :: "KeyBuilder \<Rightarrow> string" where [key_defs]:
  "ParamsSharedLockKey kb = BasePrefix kb @ '':'' @ segmentCache @ '':lock:shared_params''"

definition MeterCleanupChannel :: "KeyBuilder \<Rightarrow> string" where [key_defs]:
  "MeterCleanupChannel kb = BasePrefix kb @ '':'' @ segmentMeter @ '':cleanup''"

definition MeterActiveSessionsKey :: "KeyBuilder \<Rightarrow> string" where [key_defs]:
  "MeterActiveSessionsKey kb = BasePrefix kb @ '':'' @ segmentMeter @ '':active_sessions''"

definition SimulationReplayKey :: "KeyBuilder \<Rightarrow> string \<Rightarrow> string" where [key_defs]:
  "SimulationReplayKey kb sigHash = BasePrefix kb @ '':sim:replay:'' @ sigHash"

definition BlockEventChannel :: "KeyBuilder \<Rightarrow> string" where [key_defs]:
  "BlockEventChannel kb = BasePrefix kb @ '':'' @ segmentEvents @ '':blocks''"

definition BlockHashAtHeightKey :: "KeyBuilder \<Rightarrow> int \<Rightarrow> string" where [key_defs]:
  "BlockHashAtHeightKey kb height = BasePrefix kb @ '':'' @ segmentCache @ '':blocks:hash:'' @ FormatInt height"

definition BlockLatestHeightKey :: "KeyBuilder \<Rightarrow> string" where [key_defs]:
  "BlockLatestHeightKey kb = BasePrefix kb @ '':'' @ segmentCache @ '':blocks:latest''"

definition SMSTNodesKey :: "KeyBuilder \<Rightarrow> string \<Rightarrow> string \<Rightarrow> string" where [key_defs]:
  "SMSTNodesKey kb supplierAddress sessionID = BasePrefix kb @ '':smst:'' @ supplierAddress @ '':'' @ sessionID @ '':nodes''"

definition SMSTNodesPattern :: "KeyBuilder \<Rightarrow> string" where [key_defs]:
  "SMSTNodesPattern kb = BasePrefix kb @ '':smst:*:*:nodes''"

definition SMSTNodesPrefix :: "KeyBuilder \<Rightarrow> string" where [key_defs]:
  "SMSTNodesPrefix kb = BasePrefix kb @ '':smst:''"

definition SMSTRootKey :: "KeyBuilder \<Rightarrow> string \<Rightarrow> string \<Rightarrow> string" where [key_defs]:
  "SMSTRootKey kb supplierAddress sessionID = BasePrefix kb @ '':smst:'' @ supplierAddress @ '':'' @ sessionID @ '':root''"

definition SMSTStatsKey :: "KeyBuilder \<Rightarrow> string \<Rightarrow> string \<Rightarrow> string" where [key_defs]:
  "SMSTStatsKey kb supplierAddress sessionID = BasePrefix kb @ '':smst:'' @ supplierAddress @ '':'' @ sessionID @ '':stats''"

definition SMSTLiveRootKey :: "KeyBuilder \<Rightarrow> string \<Rightarrow> string \<Rightarrow> string" where [key_defs]:
  "SMSTLiveRootKey kb supplierAddress sessionID = BasePrefix kb @ '':smst:'' @ supplierAddress @ '':'' @ sessionID @ '':live_root''"

definition SMSTAllPattern :: "KeyBuilder \<Rightarrow> string" where [key_defs]:
  "SMSTAllPattern kb = BasePrefix kb @ '':smst:*''"

definition SMSTLeavesKey :: "KeyBuilder \<Rightarrow> string \<Rightarrow> string \<Rightarrow> string" where [key_defs]:
  "SMSTLeavesKey kb supplierAddress sessionID = BasePrefix kb @ '':smst:'' @ supplierAddress @ '':'' @ sessionID @ '':leaves''"

definition ServiceFactorDefaultKey :: "KeyBuilder \<Rightarrow> string" where [key_defs]:
  "ServiceFactorDefaultKey kb = BasePrefix kb @ '':service_factor:default''"

definition ServiceFactorServiceKey :: "KeyBuilder \<Rightarrow> string \<Rightarrow> string" where [key_defs]:
  "ServiceFactorServiceKey kb serviceID = BasePrefix kb @ '':service_factor:service:'' @ serviceID"

definition ServiceFactorManifestKey :: "KeyBuilder \<Rightarrow> string" where [key_defs]:
  "ServiceFactorManifestKey kb = BasePrefix kb @ '':service_factor:manifest''"

definition MinerClaimKey :: "KeyBuilder \<Rightarrow> string \<Rightarrow> string" where [key_defs]:
  "MinerClaimKey kb supplier = BasePrefix kb @ '':'' @ segmentMiner @ '':claim:'' @ supplier"

definition MinerActiveSetKey :: "KeyBuilder \<Rightarrow> string" where [key_defs]:
  "MinerActiveSetKey kb = BasePrefix kb @ '':'' @ segmentMiner @ '':active''"

definition MinerInstanceKey :: "KeyBuilder \<Rightarrow> string \<Rightarrow> string" where [key_defs]:
  "MinerInstanceKey kb instanceID = BasePrefix kb @ '':'' @ segmentMiner @ '':instance:'' @ instanceID"

definition SupplierParamsInvalidateChannel :: "KeyBuilder \<Rightarrow> string" where [key_defs]:
  "SupplierParamsInvalidateChannel kb = BasePrefix kb @ '':'' @ segmentEvents @ '':'' @ segmentCache @ '':invalidate:supplier_params''"

definition MinerDedupPrefix :: "KeyBuilder \<Rightarrow> string" where [key_defs]:
  "MinerDedupPrefix kb = BasePrefix kb @ '':'' @ segmentMiner @ '':dedup''"

definition MinerSessionStateIndexKey :: "KeyBuilder \<Rightarrow> string \<Rightarrow> string \<Rightarrow> string" where [key_defs]:
  "MinerSessionStateIndexKey kb supplier state = BasePrefix kb @ '':'' @ segmentMiner @ '':sessions:'' @ supplier @ '':state:'' @ state"

definition MinerSessionsIndexKey :: "KeyBuilder \<Rightarrow> string \<Rightarrow> string" where [key_defs]:
  "MinerSessionsIndexKey kb supplier = BasePrefix kb @ '':'' @ segmentMiner @ '':sessions:'' @ supplier @ '':index''"

definition TxTrackKey :: "KeyBuilder \<Rightarrow> string \<Rightarrow> int \<Rightarrow> string \<Rightarrow> string" where [key_defs]:
  "TxTrackKey kb supplier sessionEndHeight sessionID = BasePrefix kb @ '':tx:track:'' @ supplier @ '':'' @ FormatInt sessionEndHeight @ '':'' @ sessionID"

definition TxTrackPattern :: "KeyBuilder \<Rightarrow> string \<Rightarrow> string" where [key_defs]:
  "TxTrackPattern kb supplier = BasePrefix kb @ '':tx:track:'' @ supplier @ '':*''"

definition TxTrackAllPattern :: "KeyBuilder \<Rightarrow> string" where [key_defs]:
  "TxTrackAllPattern kb = BasePrefix kb @ '':tx:track:*''"

definition AllKeysPattern :: "KeyBuilder \<Rightarrow> string" where [key_defs]:
  "AllKeysPattern kb = BasePrefix kb @ '':*''"

definition RebroadcastKey :: "KeyBuilder \<Rightarrow> string \<Rightarrow> string \<Rightarrow> int \<Rightarrow> string" where [key_defs]:
  "RebroadcastKey kb phase supplier sessionEnd = BasePrefix kb @ '':'' @ segmentMiner @ '':rebroadcast:{'' @ phase @ ''}:'' @ supplier @ '':'' @ FormatInt sessionEnd"

definition RebroadcastIndexKey :: "KeyBuilder \<Rightarrow> string \<Rightarrow> string" where [key_defs]:
  "RebroadcastIndexKey kb phase = BasePrefix kb @ '':'' @ segmentMiner @ '':rebroadcast:{'' @ phase @ ''}:index''"

definition MinerDedupSessionKey :: "KeyBuilder \<Rightarrow> string \<Rightarrow> string" where [key_defs]:
  "MinerDedupSessionKey kb sessionID = BasePrefix kb @ '':'' @ segmentMiner @ '':dedup:session:'' @ sessionID"

definition MeterPrefix :: "KeyBuilder \<Rightarrow> string" where [key_defs]:
  "MeterPrefix kb = BasePrefix kb @ '':'' @ segmentMeter"

definition MeterSessionKey :: "KeyBuilder \<Rightarrow> string \<Rightarrow> string" where [key_defs]:
  "MeterSessionKey kb sessionID = BasePrefix kb @ '':'' @ segmentMeter @ '':'' @ sessionID"

definition MeterMetaKey :: "KeyBuilder \<Rightarrow> string \<Rightarrow> string \<Rightarrow> string" where [key_defs]:
  "MeterMetaKey kb sessionID supplierAddress = BasePrefix kb @ '':'' @ segmentMeter @ '':'' @ sessionID @ '':'' @ supplierAddress @ '':meta''"

definition MeterConsumedKey :: "KeyBuilder \<Rightarrow> string \<Rightarrow> string \<Rightarrow> string" where [key_defs]:
  "MeterConsumedKey kb sessionID supplierAddress = BasePrefix kb @ '':'' @ segmentMeter @ '':'' @ sessionID @ '':'' @ supplierAddress @ '':consumed''"

definition MeterSessionMetaPattern :: "KeyBuilder \<Rightarrow> string \<Rightarrow> string" where [key_defs]:
  "MeterSessionMetaPattern kb sessionID = BasePrefix kb @ '':'' @ segmentMeter @ '':'' @ sessionID @ '':*:meta''"

definition SupplierStateKey :: "KeyBuilder \<Rightarrow> string \<Rightarrow> string" where [key_defs]:
  "SupplierStateKey kb operatorAddress = BasePrefix kb @ '':'' @ segmentSupplier @ '':'' @ operatorAddress"

definition SupplierStatePattern :: "KeyBuilder \<Rightarrow> string" where [key_defs]:
  "SupplierStatePattern kb = BasePrefix kb @ '':'' @ segmentSupplier @ '':*''"

definition SMSTSessionNodesPattern :: "KeyBuilder \<Rightarrow> string \<Rightarrow> string" where [key_defs]:
  "SMSTSessionNodesPattern kb sessionID = BasePrefix kb @ '':smst:*:'' @ sessionID @ '':nodes''"

definition LegacyParamsPattern :: "KeyBuilder \<Rightarrow> string" where [key_defs]:
  "LegacyParamsPattern kb = BasePrefix kb @ '':'' @ segmentParams @ '':*''"

text \<open>\<open>strings.TrimPrefix\<close>.\<close>

definition TrimPrefix :: "string \<Rightarrow> string \<Rightarrow> string" where
  "TrimPrefix s p = (case CutPrefix s p of None \<Rightarrow> s | Some t \<Rightarrow> t)"

definition StreamAddress :: "KeyBuilder \<Rightarrow> string \<Rightarrow> string option" where
  "StreamAddress kb key =
     (let addr = TrimPrefix key (StreamPrefix kb @ '':'')
      in if addr = key \<or> addr = [] then None else Some addr)"

definition SupplierStateAddress :: "KeyBuilder \<Rightarrow> string \<Rightarrow> string option" where
  "SupplierStateAddress kb key =
     (let addr = TrimPrefix key (SupplierKeyPrefix kb @ '':'')
      in if addr = key \<or> addr = [] \<or> Contains addr '':'' then None else Some addr)"

section \<open>Segments\<close>

text \<open>\<open>strings.Split\<close> at the colons.\<close>

fun segs :: "string \<Rightarrow> string list" where
  "segs [] = [[]]"
| "segs (c # cs) =
     (if c = CHR '':'' then [] # segs cs
      else case segs cs of [] \<Rightarrow> [[c]] | s # ss \<Rightarrow> (c # s) # ss)"

definition colon_free :: "string \<Rightarrow> bool" where
  "colon_free s = (CHR '':'' \<notin> set s)"

lemma segs_nonempty [simp]: "segs s \<noteq> []"
  by (induction s) (auto split: list.splits)

lemma segs_colon: "colon_free a \<Longrightarrow> segs (a @ CHR '':'' # b) = a # segs b"
  by (induction a) (auto simp: colon_free_def split: list.splits)

lemma segs_append: "colon_free a \<Longrightarrow> segs (a @ b) = (a @ hd (segs b)) # tl (segs b)"
  by (induction a) (simp_all add: colon_free_def not_sym)

lemma segs_colon_free: "colon_free a \<Longrightarrow> segs a = [a]"
  by (induction a) (auto simp: colon_free_def)

lemma digit_char_colon: "d < 10 \<Longrightarrow> digit_char d \<noteq> CHR '':''"
  by (auto simp: digit_char_def dest!: arg_cong [of _ _ "of_char :: char \<Rightarrow> nat"])

lemma FormatNat_colon_free: "colon_free (FormatNat n)"
proof (unfold colon_free_def, rule notI)
  assume "CHR '':'' \<in> set (FormatNat n)"
  then have "CHR '':'' \<in> digit_char ` {0..<10}" using FormatNat_digits [of n] by blast
  then obtain d where "CHR '':'' = digit_char d" "d < 10" by auto
  then show False using digit_char_colon [of d] by simp
qed

lemma FormatInt_colon_free [simp]: "colon_free (FormatInt i)"
  using FormatNat_colon_free by (simp add: FormatInt_def colon_free_def)

lemma FormatInt_inject:
  assumes "in_i64 i" "in_i64 j"
  shows "FormatInt i = FormatInt j \<longleftrightarrow> i = j"
proof
  assume "FormatInt i = FormatInt j"
  then have "ParseInt (FormatInt i) = ParseInt (FormatInt j)" by (rule arg_cong)
  then show "i = j" unfolding ParseInt_FormatInt [OF assms(1)] ParseInt_FormatInt [OF assms(2)] by simp
qed simp

lemma accepted_colon_free: "basePrefixAccepted b \<Longrightarrow> colon_free b"
  by (auto simp: basePrefixAccepted_def colon_free_def list_ex_iff basePrefixRejected_def)

section \<open>Every stored key\<close>

text \<open>One constructor per builder of a key that is stored; patterns, prefixes and channels are not keys.\<close>

datatype redis_key =
    K_Cache string string
  | K_CacheLock string string
  | K_CacheKnown string
  | K_MinerSession string string
  | K_Stream string
  | K_SuppliersRegistryIndex
  | K_ParamsSharedAtHeight int
  | K_ParamsSharedAtHeightLock int
  | K_ParamsSupplier
  | K_ParamsSupplierLock
  | K_SessionCache string string int
  | K_GlobalLeader
  | K_ParamsProof
  | K_ParamsProofLock
  | K_ParamsSharedCache
  | K_ParamsSharedLock
  | K_MeterActiveSessions
  | K_SimulationReplay string
  | K_BlockHashAtHeight int
  | K_BlockLatestHeight
  | K_SMSTNodes string string
  | K_SMSTRoot string string
  | K_SMSTStats string string
  | K_SMSTLiveRoot string string
  | K_SMSTLeaves string string
  | K_ServiceFactorDefault
  | K_ServiceFactorService string
  | K_ServiceFactorManifest
  | K_MinerClaim string
  | K_MinerActiveSet
  | K_MinerInstance string
  | K_MinerSessionStateIndex string string
  | K_MinerSessionsIndex string
  | K_TxTrack string int string
  | K_Rebroadcast string string int
  | K_RebroadcastIndex string
  | K_MinerDedupSession string
  | K_MeterMeta string string
  | K_MeterConsumed string string
  | K_SupplierState string

fun build_key :: "KeyBuilder \<Rightarrow> redis_key \<Rightarrow> string" where
  "build_key kb (K_Cache entityType key) = CacheKey kb entityType key"
| "build_key kb (K_CacheLock entityType key) = CacheLockKey kb entityType key"
| "build_key kb (K_CacheKnown entityType) = CacheKnownKey kb entityType"
| "build_key kb (K_MinerSession supplier sessionID) = MinerSessionKey kb supplier sessionID"
| "build_key kb (K_Stream supplierOperatorAddress) = StreamKey kb supplierOperatorAddress"
| "build_key kb (K_SuppliersRegistryIndex) = SuppliersRegistryIndexKey kb"
| "build_key kb (K_ParamsSharedAtHeight height) = ParamsSharedAtHeightKey kb height"
| "build_key kb (K_ParamsSharedAtHeightLock height) = ParamsSharedAtHeightLockKey kb height"
| "build_key kb (K_ParamsSupplier) = ParamsSupplierKey kb"
| "build_key kb (K_ParamsSupplierLock) = ParamsSupplierLockKey kb"
| "build_key kb (K_SessionCache appAddr serviceID height) = SessionCacheKey kb appAddr serviceID height"
| "build_key kb (K_GlobalLeader) = GlobalLeaderKey kb"
| "build_key kb (K_ParamsProof) = ParamsProofKey kb"
| "build_key kb (K_ParamsProofLock) = ParamsProofLockKey kb"
| "build_key kb (K_ParamsSharedCache) = ParamsSharedCacheKey kb"
| "build_key kb (K_ParamsSharedLock) = ParamsSharedLockKey kb"
| "build_key kb (K_MeterActiveSessions) = MeterActiveSessionsKey kb"
| "build_key kb (K_SimulationReplay sigHash) = SimulationReplayKey kb sigHash"
| "build_key kb (K_BlockHashAtHeight height) = BlockHashAtHeightKey kb height"
| "build_key kb (K_BlockLatestHeight) = BlockLatestHeightKey kb"
| "build_key kb (K_SMSTNodes supplierAddress sessionID) = SMSTNodesKey kb supplierAddress sessionID"
| "build_key kb (K_SMSTRoot supplierAddress sessionID) = SMSTRootKey kb supplierAddress sessionID"
| "build_key kb (K_SMSTStats supplierAddress sessionID) = SMSTStatsKey kb supplierAddress sessionID"
| "build_key kb (K_SMSTLiveRoot supplierAddress sessionID) = SMSTLiveRootKey kb supplierAddress sessionID"
| "build_key kb (K_SMSTLeaves supplierAddress sessionID) = SMSTLeavesKey kb supplierAddress sessionID"
| "build_key kb (K_ServiceFactorDefault) = ServiceFactorDefaultKey kb"
| "build_key kb (K_ServiceFactorService serviceID) = ServiceFactorServiceKey kb serviceID"
| "build_key kb (K_ServiceFactorManifest) = ServiceFactorManifestKey kb"
| "build_key kb (K_MinerClaim supplier) = MinerClaimKey kb supplier"
| "build_key kb (K_MinerActiveSet) = MinerActiveSetKey kb"
| "build_key kb (K_MinerInstance instanceID) = MinerInstanceKey kb instanceID"
| "build_key kb (K_MinerSessionStateIndex supplier state) = MinerSessionStateIndexKey kb supplier state"
| "build_key kb (K_MinerSessionsIndex supplier) = MinerSessionsIndexKey kb supplier"
| "build_key kb (K_TxTrack supplier sessionEndHeight sessionID) = TxTrackKey kb supplier sessionEndHeight sessionID"
| "build_key kb (K_Rebroadcast phase supplier sessionEnd) = RebroadcastKey kb phase supplier sessionEnd"
| "build_key kb (K_RebroadcastIndex phase) = RebroadcastIndexKey kb phase"
| "build_key kb (K_MinerDedupSession sessionID) = MinerDedupSessionKey kb sessionID"
| "build_key kb (K_MeterMeta sessionID supplierAddress) = MeterMetaKey kb sessionID supplierAddress"
| "build_key kb (K_MeterConsumed sessionID supplierAddress) = MeterConsumedKey kb sessionID supplierAddress"
| "build_key kb (K_SupplierState operatorAddress) = SupplierStateKey kb operatorAddress"

fun key_segments :: "redis_key \<Rightarrow> string list" where
  "key_segments (K_Cache entityType key) = [''cache'', entityType, key]"
| "key_segments (K_CacheLock entityType key) = [''cache'', ''lock'', entityType, key]"
| "key_segments (K_CacheKnown entityType) = [''cache'', ''known'', entityType]"
| "key_segments (K_MinerSession supplier sessionID) = [''miner'', ''sessions'', supplier, sessionID]"
| "key_segments (K_Stream supplierOperatorAddress) = [''relays'', supplierOperatorAddress]"
| "key_segments (K_SuppliersRegistryIndex) = [''suppliers'', ''index'']"
| "key_segments (K_ParamsSharedAtHeight height) = [''cache'', ''params'', ''shared'', FormatInt height]"
| "key_segments (K_ParamsSharedAtHeightLock height) = [''cache'', ''lock'', ''params'', ''shared'', FormatInt height]"
| "key_segments (K_ParamsSupplier) = [''cache'', ''params'', ''supplier'']"
| "key_segments (K_ParamsSupplierLock) = [''cache'', ''lock'', ''params'', ''supplier'']"
| "key_segments (K_SessionCache appAddr serviceID height) = [''cache'', ''session'', appAddr, serviceID, FormatInt height]"
| "key_segments (K_GlobalLeader) = [''miner'', ''global_leader'']"
| "key_segments (K_ParamsProof) = [''cache'', ''proof_params'']"
| "key_segments (K_ParamsProofLock) = [''cache'', ''lock'', ''proof_params'']"
| "key_segments (K_ParamsSharedCache) = [''cache'', ''shared_params'']"
| "key_segments (K_ParamsSharedLock) = [''cache'', ''lock'', ''shared_params'']"
| "key_segments (K_MeterActiveSessions) = [''meter'', ''active_sessions'']"
| "key_segments (K_SimulationReplay sigHash) = [''sim'', ''replay'', sigHash]"
| "key_segments (K_BlockHashAtHeight height) = [''cache'', ''blocks'', ''hash'', FormatInt height]"
| "key_segments (K_BlockLatestHeight) = [''cache'', ''blocks'', ''latest'']"
| "key_segments (K_SMSTNodes supplierAddress sessionID) = [''smst'', supplierAddress, sessionID, ''nodes'']"
| "key_segments (K_SMSTRoot supplierAddress sessionID) = [''smst'', supplierAddress, sessionID, ''root'']"
| "key_segments (K_SMSTStats supplierAddress sessionID) = [''smst'', supplierAddress, sessionID, ''stats'']"
| "key_segments (K_SMSTLiveRoot supplierAddress sessionID) = [''smst'', supplierAddress, sessionID, ''live_root'']"
| "key_segments (K_SMSTLeaves supplierAddress sessionID) = [''smst'', supplierAddress, sessionID, ''leaves'']"
| "key_segments (K_ServiceFactorDefault) = [''service_factor'', ''default'']"
| "key_segments (K_ServiceFactorService serviceID) = [''service_factor'', ''service'', serviceID]"
| "key_segments (K_ServiceFactorManifest) = [''service_factor'', ''manifest'']"
| "key_segments (K_MinerClaim supplier) = [''miner'', ''claim'', supplier]"
| "key_segments (K_MinerActiveSet) = [''miner'', ''active'']"
| "key_segments (K_MinerInstance instanceID) = [''miner'', ''instance'', instanceID]"
| "key_segments (K_MinerSessionStateIndex supplier state) = [''miner'', ''sessions'', supplier, ''state'', state]"
| "key_segments (K_MinerSessionsIndex supplier) = [''miner'', ''sessions'', supplier, ''index'']"
| "key_segments (K_TxTrack supplier sessionEndHeight sessionID) = [''tx'', ''track'', supplier, FormatInt sessionEndHeight, sessionID]"
| "key_segments (K_Rebroadcast phase supplier sessionEnd) = [''miner'', ''rebroadcast'', ''{'' @ phase @ ''}'', supplier, FormatInt sessionEnd]"
| "key_segments (K_RebroadcastIndex phase) = [''miner'', ''rebroadcast'', ''{'' @ phase @ ''}'', ''index'']"
| "key_segments (K_MinerDedupSession sessionID) = [''miner'', ''dedup'', ''session'', sessionID]"
| "key_segments (K_MeterMeta sessionID supplierAddress) = [''meter'', sessionID, supplierAddress, ''meta'']"
| "key_segments (K_MeterConsumed sessionID supplierAddress) = [''meter'', sessionID, supplierAddress, ''consumed'']"
| "key_segments (K_SupplierState operatorAddress) = [''supplier'', operatorAddress]"

text \<open>
  Arguments are single segments. A generic cache entity must not be named like a fixed family of the
  cache namespace, nor a session like the index of its supplier.
\<close>

fun key_ok :: "redis_key \<Rightarrow> bool" where
  "key_ok (K_Cache entityType key) = (colon_free entityType \<and> colon_free key \<and> entityType \<notin> set [''lock'', ''known'', ''params'', ''blocks''])"
| "key_ok (K_CacheLock entityType key) = (colon_free entityType \<and> colon_free key \<and> entityType \<noteq> ''params'')"
| "key_ok (K_CacheKnown entityType) = (colon_free entityType)"
| "key_ok (K_MinerSession supplier sessionID) = (colon_free supplier \<and> colon_free sessionID \<and> sessionID \<noteq> ''index'')"
| "key_ok (K_Stream supplierOperatorAddress) = (colon_free supplierOperatorAddress)"
| "key_ok (K_SuppliersRegistryIndex) = (True)"
| "key_ok (K_ParamsSharedAtHeight height) = (in_i64 height)"
| "key_ok (K_ParamsSharedAtHeightLock height) = (in_i64 height)"
| "key_ok (K_ParamsSupplier) = (True)"
| "key_ok (K_ParamsSupplierLock) = (True)"
| "key_ok (K_SessionCache appAddr serviceID height) = (colon_free appAddr \<and> colon_free serviceID \<and> in_i64 height)"
| "key_ok (K_GlobalLeader) = (True)"
| "key_ok (K_ParamsProof) = (True)"
| "key_ok (K_ParamsProofLock) = (True)"
| "key_ok (K_ParamsSharedCache) = (True)"
| "key_ok (K_ParamsSharedLock) = (True)"
| "key_ok (K_MeterActiveSessions) = (True)"
| "key_ok (K_SimulationReplay sigHash) = (colon_free sigHash)"
| "key_ok (K_BlockHashAtHeight height) = (in_i64 height)"
| "key_ok (K_BlockLatestHeight) = (True)"
| "key_ok (K_SMSTNodes supplierAddress sessionID) = (colon_free supplierAddress \<and> colon_free sessionID)"
| "key_ok (K_SMSTRoot supplierAddress sessionID) = (colon_free supplierAddress \<and> colon_free sessionID)"
| "key_ok (K_SMSTStats supplierAddress sessionID) = (colon_free supplierAddress \<and> colon_free sessionID)"
| "key_ok (K_SMSTLiveRoot supplierAddress sessionID) = (colon_free supplierAddress \<and> colon_free sessionID)"
| "key_ok (K_SMSTLeaves supplierAddress sessionID) = (colon_free supplierAddress \<and> colon_free sessionID)"
| "key_ok (K_ServiceFactorDefault) = (True)"
| "key_ok (K_ServiceFactorService serviceID) = (colon_free serviceID)"
| "key_ok (K_ServiceFactorManifest) = (True)"
| "key_ok (K_MinerClaim supplier) = (colon_free supplier)"
| "key_ok (K_MinerActiveSet) = (True)"
| "key_ok (K_MinerInstance instanceID) = (colon_free instanceID)"
| "key_ok (K_MinerSessionStateIndex supplier state) = (colon_free supplier \<and> colon_free state)"
| "key_ok (K_MinerSessionsIndex supplier) = (colon_free supplier)"
| "key_ok (K_TxTrack supplier sessionEndHeight sessionID) = (colon_free supplier \<and> in_i64 sessionEndHeight \<and> colon_free sessionID)"
| "key_ok (K_Rebroadcast phase supplier sessionEnd) = (colon_free phase \<and> colon_free supplier \<and> in_i64 sessionEnd)"
| "key_ok (K_RebroadcastIndex phase) = (colon_free phase)"
| "key_ok (K_MinerDedupSession sessionID) = (colon_free sessionID)"
| "key_ok (K_MeterMeta sessionID supplierAddress) = (colon_free sessionID \<and> colon_free supplierAddress)"
| "key_ok (K_MeterConsumed sessionID supplierAddress) = (colon_free sessionID \<and> colon_free supplierAddress)"
| "key_ok (K_SupplierState operatorAddress) = (colon_free operatorAddress)"

lemma segs_build_key:
  assumes "colon_free (BasePrefix kb)" "key_ok k"
  shows "segs (build_key kb k) = BasePrefix kb # key_segments k"
  using assms by (cases k) (simp_all add: key_defs segs_append segs_colon_free)

text \<open>\<open>read_key\<close> reads the segments below the base back into the key they spell.\<close>

definition read2 :: "string \<Rightarrow> string \<Rightarrow> redis_key option" where
  "read2 a b =
     (if a = ''relays'' then Some (K_Stream b)
      else if a = ''supplier'' then Some (K_SupplierState b)
      else if a = ''suppliers'' then Some K_SuppliersRegistryIndex
      else if a = ''cache'' then Some (if b = ''proof_params'' then K_ParamsProof else K_ParamsSharedCache)
      else if a = ''miner'' then Some (if b = ''active'' then K_MinerActiveSet else K_GlobalLeader)
      else if a = ''meter'' then Some K_MeterActiveSessions
      else if a = ''service_factor'' then
        Some (if b = ''default'' then K_ServiceFactorDefault else K_ServiceFactorManifest)
      else None)"

definition read3 :: "string \<Rightarrow> string \<Rightarrow> string \<Rightarrow> redis_key option" where
  "read3 a b c =
     (if a = ''cache'' then
        Some (if b = ''known'' then K_CacheKnown c
              else if b = ''params'' then K_ParamsSupplier
              else if b = ''blocks'' then K_BlockLatestHeight
              else if b = ''lock'' then (if c = ''proof_params'' then K_ParamsProofLock else K_ParamsSharedLock)
              else K_Cache b c)
      else if a = ''sim'' then Some (K_SimulationReplay c)
      else if a = ''service_factor'' then Some (K_ServiceFactorService c)
      else if a = ''miner'' then Some (if b = ''claim'' then K_MinerClaim c else K_MinerInstance c)
      else None)"

definition unbrace :: "string \<Rightarrow> string" where
  "unbrace p = butlast (tl p)"

definition read4 :: "string \<Rightarrow> string \<Rightarrow> string \<Rightarrow> string \<Rightarrow> redis_key option" where
  "read4 a b c d =
     (if a = ''cache'' then
        (if b = ''lock'' then Some (if c = ''params'' then K_ParamsSupplierLock else K_CacheLock c d)
         else if b = ''params'' then map_option K_ParamsSharedAtHeight (ParseInt d)
         else map_option K_BlockHashAtHeight (ParseInt d))
      else if a = ''smst'' then
        Some (if d = ''nodes'' then K_SMSTNodes b c else if d = ''root'' then K_SMSTRoot b c
              else if d = ''stats'' then K_SMSTStats b c else if d = ''live_root'' then K_SMSTLiveRoot b c
              else K_SMSTLeaves b c)
      else if a = ''meter'' then Some (if d = ''meta'' then K_MeterMeta b c else K_MeterConsumed b c)
      else if b = ''sessions'' then Some (if d = ''index'' then K_MinerSessionsIndex c else K_MinerSession c d)
      else if b = ''dedup'' then Some (K_MinerDedupSession d)
      else if b = ''rebroadcast'' then Some (K_RebroadcastIndex (unbrace c))
      else None)"

definition read5 :: "string \<Rightarrow> string \<Rightarrow> string \<Rightarrow> string \<Rightarrow> string \<Rightarrow> redis_key option" where
  "read5 a b c d f =
     (if a = ''cache'' then
        (if b = ''lock'' then map_option K_ParamsSharedAtHeightLock (ParseInt f)
         else map_option (K_SessionCache c d) (ParseInt f))
      else if a = ''tx'' then map_option (\<lambda>h. K_TxTrack c h f) (ParseInt d)
      else if b = ''sessions'' then Some (K_MinerSessionStateIndex c f)
      else map_option (K_Rebroadcast (unbrace c) d) (ParseInt f))"

definition read_key :: "string list \<Rightarrow> redis_key option" where
  "read_key s =
     (case s of
        [a, b] \<Rightarrow> read2 a b
      | [a, b, c] \<Rightarrow> read3 a b c
      | [a, b, c, d] \<Rightarrow> read4 a b c d
      | [a, b, c, d, f] \<Rightarrow> read5 a b c d f
      | _ \<Rightarrow> None)"

lemma read_key_segments: "key_ok k \<Longrightarrow> read_key (key_segments k) = Some k"
  by (cases k) (simp_all add: read_key_def read2_def read3_def read4_def read5_def unbrace_def ParseInt_FormatInt)

lemma HasPrefix_base:
  assumes "colon_free b" "colon_free a" "HasPrefix (a @ CHR '':'' # t) (b @ '':'')"
  shows "a = b"
proof -
  obtain u where "a @ CHR '':'' # t = b @ CHR '':'' # u" using assms(3) by (auto simp: HasPrefix_append)
  then have "segs (a @ CHR '':'' # t) = segs (b @ CHR '':'' # u)" by (rule arg_cong)
  then show ?thesis using assms(1,2) by (simp add: segs_colon)
qed

lemma build_key_base: "\<exists>t. build_key kb k = BasePrefix kb @ CHR '':'' # t"
  by (cases k) (simp_all add: key_defs)

section \<open>Properties\<close>



text \<open>
  Two fleets on one Redis are disjoint: no key of a fleet starts with what another fleet's
  "delete everything" pattern (\<open>AllKeysPattern\<close>: the base, a colon and a star) matches.
\<close>

theorem fleets_disjoint:
  assumes "Namespace_Validate ns = None" "Namespace_Validate ns' = None"
    and "NewKeyBuilder ns \<noteq> NewKeyBuilder ns'"
  shows "\<exists>prefix. AllKeysPattern (NewKeyBuilder ns') = prefix @ ''*''
           \<and> \<not> HasPrefix (build_key (NewKeyBuilder ns) k) prefix
           \<and> HasPrefix (build_key (NewKeyBuilder ns') k') prefix"
proof (intro exI conjI)
  let ?kb = "NewKeyBuilder ns" and ?kb' = "NewKeyBuilder ns'"
  have b: "colon_free (BasePrefix ?kb)" "colon_free (BasePrefix ?kb')"
    using assms(1,2) by (auto simp: Namespace_Validate_def NewKeyBuilder_def intro: accepted_colon_free split: if_splits)
  show "AllKeysPattern ?kb' = (BasePrefix ?kb' @ '':'') @ ''*''" by (simp add: key_defs)
  obtain t where t: "build_key ?kb k = BasePrefix ?kb @ CHR '':'' # t" using build_key_base by blast
  have "BasePrefix ?kb \<noteq> BasePrefix ?kb'" using assms(3) by (auto intro: KeyBuilder.equality)
  then show "\<not> HasPrefix (build_key ?kb k) (BasePrefix ?kb' @ '':'')"
    unfolding t using HasPrefix_base [OF b(2,1)] by blast
  obtain u where "build_key ?kb' k' = BasePrefix ?kb' @ CHR '':'' # u" using build_key_base by blast
  then show "HasPrefix (build_key ?kb' k') (BasePrefix ?kb' @ '':'')" by (auto simp: HasPrefix_append)
qed

theorem fleets_disjoint_witness:
  "\<exists>prefix. AllKeysPattern (NewKeyBuilder \<lparr>BasePrefix = ''ha''\<rparr>) = prefix @ ''*''
     \<and> \<not> HasPrefix (build_key (NewKeyBuilder \<lparr>BasePrefix = ''prod.v1''\<rparr>) K_GlobalLeader) prefix
     \<and> HasPrefix (build_key (NewKeyBuilder \<lparr>BasePrefix = ''ha''\<rparr>) K_GlobalLeader) prefix"
  by (rule fleets_disjoint)
     (simp_all add: Namespace_Validate_def NewKeyBuilder_def WithDefaults_def basePrefixAccepted_def basePrefixRejected_def)

text \<open>
  Extracting the address from a supplier state key inverts building it, and answers for no other
  key: \<open>SupplierStateAddress\<close> returns an address exactly for the state key of that address.
\<close>

theorem supplier_state_address:
  "SupplierStateAddress kb key = Some addr
   \<longleftrightarrow> key = SupplierStateKey kb addr \<and> addr \<noteq> [] \<and> colon_free addr"
proof -
  have c: "Contains a '':'' \<longleftrightarrow> \<not> colon_free a" for a
    by (auto simp: Contains_append colon_free_def in_set_conv_decomp)
  show ?thesis
  proof (cases "CutPrefix key (SupplierKeyPrefix kb @ '':'')")
    case None
    then have "\<And>t. key \<noteq> SupplierKeyPrefix kb @ CHR '':'' # t" by (simp add: CutPrefix_def HasPrefix_append split: if_splits)
    then show ?thesis using None by (auto simp: SupplierStateAddress_def TrimPrefix_def key_defs)
  next
    case (Some t)
    then have k: "key = SupplierKeyPrefix kb @ CHR '':'' # t" by (simp add: CutPrefix_Some)
    then have "t \<noteq> key" by (auto dest: arg_cong [of _ _ length])
    then show ?thesis using Some k c by (auto simp: SupplierStateAddress_def TrimPrefix_def key_defs)
  qed
qed

text \<open>
  The pattern that scans supplier states does not reach the suppliers registry index, whatever
  the base prefix: the registry index key does not start with the scanned prefix.
\<close>

theorem registry_index_not_scanned:
  "\<exists>prefix. SupplierStatePattern kb = prefix @ ''*'' \<and> \<not> HasPrefix (SuppliersRegistryIndexKey kb) prefix"
  by (intro exI [of _ "SupplierKeyPrefix kb @ '':''"]) (auto simp: key_defs HasPrefix_append)

end
