(* ===== verification/Pebble_DB.thy ===== *)
theory Pebble_DB
  imports Prelude
begin

text \<open>
  The embedded Pebble database, which is not part of this repository: an abstract state \<open>'d\<close> and the
  three operations the stores call. \<open>pebble_ok\<close> states what they rely on, Pebble's documented
  behaviour: a read returns the key's current value, a committed batch applies its operations in
  order and atomically (a failed commit applied all of it or none of it), and an iterator yields the
  keys of its range in byte order. Keys and values are byte strings.
\<close>

section \<open>Byte order\<close>

fun bytes_less :: "string \<Rightarrow> string \<Rightarrow> bool" where
  "bytes_less xs [] = False"
| "bytes_less [] (y # ys) = True"
| "bytes_less (x # xs) (y # ys) =
     (of_char x < (of_char y :: nat) \<or> x = y \<and> bytes_less xs ys)"

definition in_range :: "string \<Rightarrow> string option \<Rightarrow> string \<Rightarrow> bool" where
  "in_range lo hi k = (\<not> bytes_less k lo \<and> (case hi of None \<Rightarrow> True | Some h \<Rightarrow> bytes_less k h))"

text \<open>\<open>keyUpperBound\<close> of \<open>src/miner/pebble_backend.go\<close>: drop the trailing 0xff bytes, increment the last.\<close>

definition keyUpperBound :: "string \<Rightarrow> string option" where
  "keyUpperBound prefix =
     (case dropWhile (\<lambda>c. of_char c = (255::nat)) (rev prefix) of
        [] \<Rightarrow> None
      | c # cs \<Rightarrow> Some (rev cs @ [char_of (of_char c + 1 :: nat)]))"

section \<open>The database\<close>

datatype batch_op = BSet string string | BDelete string | BDeleteRange string "string option"

type_synonym contents = "string \<Rightarrow> string option"

text \<open>A \<open>DeleteRange\<close> with a nil end names an empty range.\<close>

fun apply_op :: "contents \<Rightarrow> batch_op \<Rightarrow> contents" where
  "apply_op m (BSet k v) = m(k := Some v)"
| "apply_op m (BDelete k) = m(k := None)"
| "apply_op m (BDeleteRange lo hi) = (\<lambda>k. if hi \<noteq> None \<and> in_range lo hi k then None else m k)"

definition apply_batch :: "batch_op list \<Rightarrow> contents \<Rightarrow> contents" where
  "apply_batch ops m = foldl apply_op m ops"

record 'd pebble =
  db_Get :: "'d \<Rightarrow> string \<Rightarrow> (string, string option) result"
  db_Commit :: "batch_op list \<Rightarrow> 'd \<Rightarrow> string option \<times> 'd"
  db_Iter :: "'d \<Rightarrow> string \<Rightarrow> string option \<Rightarrow> (string, (string \<times> string) list) result"

definition pebble_ok :: "'d pebble \<Rightarrow> ('d \<Rightarrow> contents) \<Rightarrow> bool" where
  "pebble_ok P contents =
     ((\<forall>d k v. db_Get P d k = Inr v \<longrightarrow> v = contents d k)
      \<and> (\<forall>d ops err d'. db_Commit P ops d = (err, d') \<longrightarrow>
           contents d' = apply_batch ops (contents d) \<or> (err \<noteq> None \<and> contents d' = contents d))
      \<and> (\<forall>d lo hi kvs. db_Iter P d lo hi = Inr kvs \<longrightarrow>
           sorted_wrt bytes_less (map fst kvs)
           \<and> (\<forall>k v. (k, v) \<in> set kvs \<longleftrightarrow> in_range lo hi k \<and> contents d k = Some v)))"

lemma pebble_get: "pebble_ok P contents \<Longrightarrow> db_Get P d k = Inr v \<Longrightarrow> v = contents d k"
  unfolding pebble_ok_def by blast

lemma pebble_commit:
  "pebble_ok P contents \<Longrightarrow> db_Commit P ops d = (err, d')
   \<Longrightarrow> contents d' = apply_batch ops (contents d) \<or> (err \<noteq> None \<and> contents d' = contents d)"
  unfolding pebble_ok_def by blast

lemma pebble_iter:
  "pebble_ok P contents \<Longrightarrow> db_Iter P d lo hi = Inr kvs
   \<Longrightarrow> (k, v) \<in> set kvs \<longleftrightarrow> in_range lo hi k \<and> contents d k = Some v"
  unfolding pebble_ok_def by blast

lemma pebble_iter_sorted:
  "pebble_ok P contents \<Longrightarrow> db_Iter P d lo hi = Inr kvs \<Longrightarrow> sorted_wrt bytes_less (map fst kvs)"
  unfolding pebble_ok_def by blast

lemma apply_batch_simps [simp]:
  "apply_batch [] m = m"
  "apply_batch (op # ops) m = apply_batch ops (apply_op m op)"
  by (simp_all add: apply_batch_def)

lemma apply_batch_append [simp]: "apply_batch (xs @ ys) m = apply_batch ys (apply_batch xs m)"
  by (simp add: apply_batch_def)

text \<open>Keys a batch leaves alone.\<close>

fun op_misses :: "string \<Rightarrow> batch_op \<Rightarrow> bool" where
  "op_misses q (BSet k v) = (k \<noteq> q)"
| "op_misses q (BDelete k) = (k \<noteq> q)"
| "op_misses q (BDeleteRange lo hi) = (hi = None \<or> \<not> in_range lo hi q)"

lemma op_misses_apply: "op_misses q op \<Longrightarrow> apply_op m op q = m q"
  by (cases op) auto

lemma batch_misses: "\<forall>op \<in> set ops. op_misses q op \<Longrightarrow> apply_batch ops m q = m q"
  by (induction ops arbitrary: m) (simp_all add: op_misses_apply)

lemma pebble_commit_misses:
  assumes "pebble_ok P contents" "db_Commit P ops d = (err, d')" "\<forall>op \<in> set ops. op_misses q op"
  shows "contents d' q = contents d q"
  using pebble_commit [OF assms(1,2)] batch_misses [OF assms(3)] by auto

section \<open>Prefix ranges\<close>

lemma bytes_less_irrefl [simp]: "\<not> bytes_less xs xs"
  by (induction xs) simp_all

lemma bytes_less_distinct: "sorted_wrt bytes_less xs \<Longrightarrow> distinct xs"
  by (induction xs) auto

lemma bytes_less_append [simp]: "bytes_less (xs @ ys) (xs @ zs) = bytes_less ys zs"
  by (induction xs) simp_all

lemma bytes_less_prefix [simp]: "\<not> bytes_less (xs @ ys) xs"
  by (induction xs) simp_all

lemma bytes_not_less_Nil: "\<not> bytes_less k lo \<Longrightarrow> lo = [] \<or> k \<noteq> []"
  by (cases lo; cases k) auto

lemma not_less_last:
  "\<lbrakk>\<not> bytes_less k (xs @ ys); bytes_less k (xs @ zs)\<rbrakk> \<Longrightarrow> \<exists>t. k = xs @ t \<and> \<not> bytes_less t ys \<and> bytes_less t zs"
proof (induction xs arbitrary: k)
  case Nil
  then show ?case by simp
next
  case (Cons x xs)
  then obtain c k' where k: "k = c # k'" by (cases k) auto
  with Cons.prems have "\<not> of_char c < (of_char x :: nat)" "of_char c < (of_char x :: nat) \<or> c = x" by auto
  then have "c = x" by simp
  with Cons k show ?case by fastforce
qed

lemma char_suc: "of_char c \<noteq> (255::nat) \<Longrightarrow> of_char (char_of (of_char c + 1 :: nat)) = (of_char c + 1 :: nat)"
proof -
  assume "of_char c \<noteq> (255::nat)"
  moreover have "of_char c < (256::nat)" by (rule nat_of_char_less_256)
  ultimately have "of_char c + 1 < (256::nat)" by linarith
  then show ?thesis by simp
qed

lemma not_less_maxed:
  assumes "\<forall>c \<in> set m. of_char c = (255::nat)"
  shows "\<not> bytes_less t m \<longleftrightarrow> (\<exists>u. t = m @ u)"
  using assms
proof (induction m arbitrary: t)
  case (Cons x m)
  show ?case
  proof (cases t)
    case Nil
    then show ?thesis by simp
  next
    case (Cons c t')
    have x: "of_char x = (255::nat)" using Cons.prems by simp
    have lt: "of_char c < (256::nat)" by (rule nat_of_char_less_256)
    show ?thesis
    proof (cases "c = x")
      case True
      have "bytes_less (x # t') (x # m) = bytes_less t' m" by simp
      then show ?thesis using Cons.IH [of t'] Cons.prems \<open>t = c # t'\<close> True by simp
    next
      case False
      then have "of_char c \<noteq> (of_char x :: nat)" using of_char_eq_iff [of c x, where ?'a = nat] by blast
      then have "of_char c < (of_char x :: nat)" using lt x by linarith
      then show ?thesis using \<open>t = c # t'\<close> False by simp
    qed
  qed
qed simp

text \<open>The range from a prefix to its upper bound is exactly the keys that start with the prefix.\<close>

lemma keyUpperBound_range:
  assumes "keyUpperBound prefix = Some hi"
  shows "in_range prefix (Some hi) k \<longleftrightarrow> (\<exists>t. k = prefix @ t)"
proof -
  let ?max = "\<lambda>c. of_char c = (255::nat)"
  obtain c cs where d: "dropWhile ?max (rev prefix) = c # cs" and hi: "hi = rev cs @ [char_of (of_char c + 1 :: nat)]"
    using assms by (auto simp: keyUpperBound_def split: list.splits)
  define m where "m = rev (takeWhile ?max (rev prefix))"
  have "takeWhile ?max (rev prefix) @ c # cs = rev prefix" using takeWhile_dropWhile_id [of ?max "rev prefix"] d by simp
  then have "rev (takeWhile ?max (rev prefix) @ c # cs) = prefix" by simp
  then have prefix: "prefix = rev cs @ c # m" unfolding m_def by simp
  have m: "\<forall>x \<in> set m. ?max x" unfolding m_def by (auto dest: set_takeWhileD)
  have c: "\<not> ?max c" using hd_dropWhile [of ?max "rev prefix"] d by simp
  show ?thesis
  proof
    assume "in_range prefix (Some hi) k"
    then have "\<not> bytes_less k (rev cs @ c # m)" "bytes_less k (rev cs @ [char_of (of_char c + 1 :: nat)])"
      unfolding in_range_def prefix hi by simp_all
    from not_less_last [OF this] obtain t where k: "k = rev cs @ t"
      and t: "\<not> bytes_less t (c # m)" "bytes_less t [char_of (of_char c + 1 :: nat)]" by blast
    from t(1) obtain x t' where x: "t = x # t'" by (cases t) auto
    have "of_char x < (of_char (char_of (of_char c + 1 :: nat)) :: nat)" using t(2) unfolding x by simp
    then have le: "of_char x \<le> (of_char c :: nat)" unfolding char_suc [OF c] by linarith
    have "\<not> of_char x < (of_char c :: nat)" "x = c \<Longrightarrow> \<not> bytes_less t' m" using t(1) unfolding x by simp_all
    moreover from this(1) le have "of_char x = (of_char c :: nat)" by linarith
    then have "x = c" by (simp only: of_char_eq_iff)
    ultimately have "\<exists>u. t' = m @ u" using not_less_maxed [OF m, of t'] by blast
    then obtain u where "t' = m @ u" ..
    then have "k = prefix @ u" using k x \<open>x = c\<close> prefix by simp
    then show "\<exists>t. k = prefix @ t" ..
  next
    assume "\<exists>t. k = prefix @ t"
    then obtain t where k: "k = prefix @ t" ..
    have "of_char c < (of_char (char_of (of_char c + 1 :: nat)) :: nat)" unfolding char_suc [OF c] by simp
    then have "bytes_less (c # m @ t) [char_of (of_char c + 1 :: nat)]" by simp
    then have "bytes_less k hi" unfolding k hi prefix by simp
    then show "in_range prefix (Some hi) k" unfolding in_range_def k by simp
  qed
qed

end
