(* ===== verification/Session_State.thy ===== *)
theory Session_State
  imports Prelude
begin

text \<open>
  The vocabulary of the session lifecycle: the states of \<open>src/miner/session_store.go\<close> with their
  classification, the session snapshot, the rules for writing one state over another, the Lua
  twins of those rules, and the money books of \<open>src/miner/metrics.go\<close> that a state change is
  counted in. A \<open>SessionState\<close> is a Go string, so any string read from a store is a state.
\<close>

section \<open>States\<close>

type_synonym SessionState = string

definition SessionStateActive :: SessionState where
  [state_strings]: "SessionStateActive = ''active''"
definition SessionStateClaiming :: SessionState where
  [state_strings]: "SessionStateClaiming = ''claiming''"
definition SessionStateClaimed :: SessionState where
  [state_strings]: "SessionStateClaimed = ''claimed''"
definition SessionStateClaimWindowClosed :: SessionState where
  [state_strings]: "SessionStateClaimWindowClosed = ''claim_window_closed''"
definition SessionStateClaimTxError :: SessionState where
  [state_strings]: "SessionStateClaimTxError = ''claim_tx_error''"
definition SessionStateClaimMissing :: SessionState where
  [state_strings]: "SessionStateClaimMissing = ''claim_missing''"
definition SessionStateClaimSkipped :: SessionState where
  [state_strings]: "SessionStateClaimSkipped = ''claim_skipped''"
definition SessionStateProving :: SessionState where
  [state_strings]: "SessionStateProving = ''proving''"
definition SessionStateProved :: SessionState where
  [state_strings]: "SessionStateProved = ''proved''"
definition SessionStateProbabilisticProved :: SessionState where
  [state_strings]: "SessionStateProbabilisticProved = ''probabilistic_proved''"
definition SessionStateProofWindowClosed :: SessionState where
  [state_strings]: "SessionStateProofWindowClosed = ''proof_window_closed''"
definition SessionStateProofTxError :: SessionState where
  [state_strings]: "SessionStateProofTxError = ''proof_tx_error''"

lemma state_neq [simp]:
  "SessionStateActive \<noteq> SessionStateClaiming"
  "SessionStateActive \<noteq> SessionStateClaimed"
  "SessionStateActive \<noteq> SessionStateClaimWindowClosed"
  "SessionStateActive \<noteq> SessionStateClaimTxError"
  "SessionStateActive \<noteq> SessionStateClaimMissing"
  "SessionStateActive \<noteq> SessionStateClaimSkipped"
  "SessionStateActive \<noteq> SessionStateProving"
  "SessionStateActive \<noteq> SessionStateProved"
  "SessionStateActive \<noteq> SessionStateProbabilisticProved"
  "SessionStateActive \<noteq> SessionStateProofWindowClosed"
  "SessionStateActive \<noteq> SessionStateProofTxError"
  "SessionStateClaiming \<noteq> SessionStateActive"
  "SessionStateClaiming \<noteq> SessionStateClaimed"
  "SessionStateClaiming \<noteq> SessionStateClaimWindowClosed"
  "SessionStateClaiming \<noteq> SessionStateClaimTxError"
  "SessionStateClaiming \<noteq> SessionStateClaimMissing"
  "SessionStateClaiming \<noteq> SessionStateClaimSkipped"
  "SessionStateClaiming \<noteq> SessionStateProving"
  "SessionStateClaiming \<noteq> SessionStateProved"
  "SessionStateClaiming \<noteq> SessionStateProbabilisticProved"
  "SessionStateClaiming \<noteq> SessionStateProofWindowClosed"
  "SessionStateClaiming \<noteq> SessionStateProofTxError"
  "SessionStateClaimed \<noteq> SessionStateActive"
  "SessionStateClaimed \<noteq> SessionStateClaiming"
  "SessionStateClaimed \<noteq> SessionStateClaimWindowClosed"
  "SessionStateClaimed \<noteq> SessionStateClaimTxError"
  "SessionStateClaimed \<noteq> SessionStateClaimMissing"
  "SessionStateClaimed \<noteq> SessionStateClaimSkipped"
  "SessionStateClaimed \<noteq> SessionStateProving"
  "SessionStateClaimed \<noteq> SessionStateProved"
  "SessionStateClaimed \<noteq> SessionStateProbabilisticProved"
  "SessionStateClaimed \<noteq> SessionStateProofWindowClosed"
  "SessionStateClaimed \<noteq> SessionStateProofTxError"
  "SessionStateClaimWindowClosed \<noteq> SessionStateActive"
  "SessionStateClaimWindowClosed \<noteq> SessionStateClaiming"
  "SessionStateClaimWindowClosed \<noteq> SessionStateClaimed"
  "SessionStateClaimWindowClosed \<noteq> SessionStateClaimTxError"
  "SessionStateClaimWindowClosed \<noteq> SessionStateClaimMissing"
  "SessionStateClaimWindowClosed \<noteq> SessionStateClaimSkipped"
  "SessionStateClaimWindowClosed \<noteq> SessionStateProving"
  "SessionStateClaimWindowClosed \<noteq> SessionStateProved"
  "SessionStateClaimWindowClosed \<noteq> SessionStateProbabilisticProved"
  "SessionStateClaimWindowClosed \<noteq> SessionStateProofWindowClosed"
  "SessionStateClaimWindowClosed \<noteq> SessionStateProofTxError"
  "SessionStateClaimTxError \<noteq> SessionStateActive"
  "SessionStateClaimTxError \<noteq> SessionStateClaiming"
  "SessionStateClaimTxError \<noteq> SessionStateClaimed"
  "SessionStateClaimTxError \<noteq> SessionStateClaimWindowClosed"
  "SessionStateClaimTxError \<noteq> SessionStateClaimMissing"
  "SessionStateClaimTxError \<noteq> SessionStateClaimSkipped"
  "SessionStateClaimTxError \<noteq> SessionStateProving"
  "SessionStateClaimTxError \<noteq> SessionStateProved"
  "SessionStateClaimTxError \<noteq> SessionStateProbabilisticProved"
  "SessionStateClaimTxError \<noteq> SessionStateProofWindowClosed"
  "SessionStateClaimTxError \<noteq> SessionStateProofTxError"
  "SessionStateClaimMissing \<noteq> SessionStateActive"
  "SessionStateClaimMissing \<noteq> SessionStateClaiming"
  "SessionStateClaimMissing \<noteq> SessionStateClaimed"
  "SessionStateClaimMissing \<noteq> SessionStateClaimWindowClosed"
  "SessionStateClaimMissing \<noteq> SessionStateClaimTxError"
  "SessionStateClaimMissing \<noteq> SessionStateClaimSkipped"
  "SessionStateClaimMissing \<noteq> SessionStateProving"
  "SessionStateClaimMissing \<noteq> SessionStateProved"
  "SessionStateClaimMissing \<noteq> SessionStateProbabilisticProved"
  "SessionStateClaimMissing \<noteq> SessionStateProofWindowClosed"
  "SessionStateClaimMissing \<noteq> SessionStateProofTxError"
  "SessionStateClaimSkipped \<noteq> SessionStateActive"
  "SessionStateClaimSkipped \<noteq> SessionStateClaiming"
  "SessionStateClaimSkipped \<noteq> SessionStateClaimed"
  "SessionStateClaimSkipped \<noteq> SessionStateClaimWindowClosed"
  "SessionStateClaimSkipped \<noteq> SessionStateClaimTxError"
  "SessionStateClaimSkipped \<noteq> SessionStateClaimMissing"
  "SessionStateClaimSkipped \<noteq> SessionStateProving"
  "SessionStateClaimSkipped \<noteq> SessionStateProved"
  "SessionStateClaimSkipped \<noteq> SessionStateProbabilisticProved"
  "SessionStateClaimSkipped \<noteq> SessionStateProofWindowClosed"
  "SessionStateClaimSkipped \<noteq> SessionStateProofTxError"
  "SessionStateProving \<noteq> SessionStateActive"
  "SessionStateProving \<noteq> SessionStateClaiming"
  "SessionStateProving \<noteq> SessionStateClaimed"
  "SessionStateProving \<noteq> SessionStateClaimWindowClosed"
  "SessionStateProving \<noteq> SessionStateClaimTxError"
  "SessionStateProving \<noteq> SessionStateClaimMissing"
  "SessionStateProving \<noteq> SessionStateClaimSkipped"
  "SessionStateProving \<noteq> SessionStateProved"
  "SessionStateProving \<noteq> SessionStateProbabilisticProved"
  "SessionStateProving \<noteq> SessionStateProofWindowClosed"
  "SessionStateProving \<noteq> SessionStateProofTxError"
  "SessionStateProved \<noteq> SessionStateActive"
  "SessionStateProved \<noteq> SessionStateClaiming"
  "SessionStateProved \<noteq> SessionStateClaimed"
  "SessionStateProved \<noteq> SessionStateClaimWindowClosed"
  "SessionStateProved \<noteq> SessionStateClaimTxError"
  "SessionStateProved \<noteq> SessionStateClaimMissing"
  "SessionStateProved \<noteq> SessionStateClaimSkipped"
  "SessionStateProved \<noteq> SessionStateProving"
  "SessionStateProved \<noteq> SessionStateProbabilisticProved"
  "SessionStateProved \<noteq> SessionStateProofWindowClosed"
  "SessionStateProved \<noteq> SessionStateProofTxError"
  "SessionStateProbabilisticProved \<noteq> SessionStateActive"
  "SessionStateProbabilisticProved \<noteq> SessionStateClaiming"
  "SessionStateProbabilisticProved \<noteq> SessionStateClaimed"
  "SessionStateProbabilisticProved \<noteq> SessionStateClaimWindowClosed"
  "SessionStateProbabilisticProved \<noteq> SessionStateClaimTxError"
  "SessionStateProbabilisticProved \<noteq> SessionStateClaimMissing"
  "SessionStateProbabilisticProved \<noteq> SessionStateClaimSkipped"
  "SessionStateProbabilisticProved \<noteq> SessionStateProving"
  "SessionStateProbabilisticProved \<noteq> SessionStateProved"
  "SessionStateProbabilisticProved \<noteq> SessionStateProofWindowClosed"
  "SessionStateProbabilisticProved \<noteq> SessionStateProofTxError"
  "SessionStateProofWindowClosed \<noteq> SessionStateActive"
  "SessionStateProofWindowClosed \<noteq> SessionStateClaiming"
  "SessionStateProofWindowClosed \<noteq> SessionStateClaimed"
  "SessionStateProofWindowClosed \<noteq> SessionStateClaimWindowClosed"
  "SessionStateProofWindowClosed \<noteq> SessionStateClaimTxError"
  "SessionStateProofWindowClosed \<noteq> SessionStateClaimMissing"
  "SessionStateProofWindowClosed \<noteq> SessionStateClaimSkipped"
  "SessionStateProofWindowClosed \<noteq> SessionStateProving"
  "SessionStateProofWindowClosed \<noteq> SessionStateProved"
  "SessionStateProofWindowClosed \<noteq> SessionStateProbabilisticProved"
  "SessionStateProofWindowClosed \<noteq> SessionStateProofTxError"
  "SessionStateProofTxError \<noteq> SessionStateActive"
  "SessionStateProofTxError \<noteq> SessionStateClaiming"
  "SessionStateProofTxError \<noteq> SessionStateClaimed"
  "SessionStateProofTxError \<noteq> SessionStateClaimWindowClosed"
  "SessionStateProofTxError \<noteq> SessionStateClaimTxError"
  "SessionStateProofTxError \<noteq> SessionStateClaimMissing"
  "SessionStateProofTxError \<noteq> SessionStateClaimSkipped"
  "SessionStateProofTxError \<noteq> SessionStateProving"
  "SessionStateProofTxError \<noteq> SessionStateProved"
  "SessionStateProofTxError \<noteq> SessionStateProbabilisticProved"
  "SessionStateProofTxError \<noteq> SessionStateProofWindowClosed"
  by (simp_all add: state_strings)

lemma state_nonempty [simp]:
  "SessionStateActive \<noteq> []"
  "SessionStateClaiming \<noteq> []"
  "SessionStateClaimed \<noteq> []"
  "SessionStateClaimWindowClosed \<noteq> []"
  "SessionStateClaimTxError \<noteq> []"
  "SessionStateClaimMissing \<noteq> []"
  "SessionStateClaimSkipped \<noteq> []"
  "SessionStateProving \<noteq> []"
  "SessionStateProved \<noteq> []"
  "SessionStateProbabilisticProved \<noteq> []"
  "SessionStateProofWindowClosed \<noteq> []"
  "SessionStateProofTxError \<noteq> []"
  "[] \<noteq> SessionStateActive"
  "[] \<noteq> SessionStateClaiming"
  "[] \<noteq> SessionStateClaimed"
  "[] \<noteq> SessionStateClaimWindowClosed"
  "[] \<noteq> SessionStateClaimTxError"
  "[] \<noteq> SessionStateClaimMissing"
  "[] \<noteq> SessionStateClaimSkipped"
  "[] \<noteq> SessionStateProving"
  "[] \<noteq> SessionStateProved"
  "[] \<noteq> SessionStateProbabilisticProved"
  "[] \<noteq> SessionStateProofWindowClosed"
  "[] \<noteq> SessionStateProofTxError"
  by (simp_all add: state_strings)

definition IsTerminal :: "SessionState \<Rightarrow> bool" where
  [session_state_simps]:
  "IsTerminal s =
     (s = SessionStateProved \<or> s = SessionStateProbabilisticProved
      \<or> s = SessionStateClaimWindowClosed \<or> s = SessionStateClaimTxError
      \<or> s = SessionStateClaimMissing \<or> s = SessionStateClaimSkipped
      \<or> s = SessionStateProofWindowClosed \<or> s = SessionStateProofTxError)"

definition HoldsClaimOnChain :: "SessionState \<Rightarrow> bool" where
  [session_state_simps]:
  "HoldsClaimOnChain s =
     (s = SessionStateClaimed \<or> s = SessionStateProving \<or> s = SessionStateProved
      \<or> s = SessionStateProbabilisticProved \<or> s = SessionStateProofWindowClosed
      \<or> s = SessionStateProofTxError)"

definition IsSuccess :: "SessionState \<Rightarrow> bool" where
  [session_state_simps]:
  "IsSuccess s = (s = SessionStateProved \<or> s = SessionStateProbabilisticProved)"

definition IsFailure :: "SessionState \<Rightarrow> bool" where
  [session_state_simps]:
  "IsFailure s =
     (s = SessionStateClaimWindowClosed \<or> s = SessionStateClaimTxError
      \<or> s = SessionStateClaimMissing \<or> s = SessionStateProofWindowClosed
      \<or> s = SessionStateProofTxError)"

section \<open>Snapshots\<close>

text \<open>A nil byte slice is the empty list. Hashes and roots are byte strings.\<close>

record SessionSnapshot =
  SessionID :: string
  SupplierOperatorAddress :: string
  ServiceID :: string
  ApplicationAddress :: string
  SessionStartHeight :: int
  SessionEndHeight :: int
  State :: SessionState
  RelayCount :: int
  TotalComputeUnits :: uint64
  ClaimedRootHash :: string
  ClaimTxHash :: string
  ProofTxHash :: string
  ClaimMissingVerdict :: string
  LastUpdatedAt :: time
  CreatedAt :: time

text \<open>\<open>SMSTRootLen\<close> is the root length of the sparse Merkle sum tree: hash, sum and count.\<close>

definition SMSTRootLen :: nat where
  "SMSTRootLen = 48"

datatype store_error =
    StoreClosed
  | StoreFailure string
  | SessionNotFound string
  | ErrClaimAlreadyOnChain string SessionState
  | ErrSessionNotDeferred string SessionState
  | ErrSessionTerminal
  | LegacyKey string
  | BadReply string

section \<open>Rules for writing a state\<close>

definition checkStateWrite :: "SessionSnapshot \<Rightarrow> SessionState \<Rightarrow> store_error option" where
  "checkStateWrite snap newState =
     (if (newState = SessionStateClaimWindowClosed \<or> newState = SessionStateClaimTxError)
         \<and> HoldsClaimOnChain (State snap)
      then Some (ErrClaimAlreadyOnChain (SessionID snap) newState)
      else if newState = SessionStateActive
         \<and> (State snap \<noteq> SessionStateClaiming \<or> ClaimTxHash snap \<noteq> [])
      then Some (ErrSessionNotDeferred (SessionID snap) newState)
      else if newState = SessionStateClaimed
         \<and> (ProofTxHash snap \<noteq> [] \<or> State snap = SessionStateProved
            \<or> State snap = SessionStateProbabilisticProved
            \<or> State snap = SessionStateProofWindowClosed
            \<or> State snap = SessionStateProofTxError)
      then Some (ErrSessionNotDeferred (SessionID snap) newState)
      else None)"

definition canReactivateClaimed :: "SessionState \<Rightarrow> bool" where
  [session_state_simps]:
  "canReactivateClaimed s =
     (s = SessionStateActive \<or> s = SessionStateClaiming \<or> s = SessionStateClaimWindowClosed
      \<or> s = SessionStateClaimTxError \<or> s = SessionStateClaimMissing)"

definition canReactivateProved :: "SessionState \<Rightarrow> string \<Rightarrow> bool" where
  [session_state_simps]:
  "canReactivateProved s proofTxHash =
     (s = SessionStateClaimed \<or> s = SessionStateProving \<or> s = SessionStateProofTxError
      \<or> s = SessionStateProofWindowClosed \<and> proofTxHash \<noteq> [])"

subsection \<open>The Lua twins\<close>

text \<open>
  The scripts compare what \<open>HGET\<close> returned, which is \<open>false\<close> for a missing field: \<open>None\<close> here.
\<close>

definition luaHoldsClaimOnChain :: "string option \<Rightarrow> bool" where
  "luaHoldsClaimOnChain state =
     (state = Some ''claimed'' \<or> state = Some ''proving'' \<or> state = Some ''proved''
      \<or> state = Some ''probabilistic_proved''
      \<or> state = Some ''proof_window_closed'' \<or> state = Some ''proof_tx_error'')"

definition luaIsTerminal :: "string option \<Rightarrow> bool" where
  "luaIsTerminal state =
     (state = Some ''proved'' \<or> state = Some ''probabilistic_proved''
      \<or> state = Some ''claim_window_closed'' \<or> state = Some ''claim_tx_error''
      \<or> state = Some ''claim_missing''
      \<or> state = Some ''proof_window_closed'' \<or> state = Some ''proof_tx_error''
      \<or> state = Some ''claim_skipped'')"

definition luaCanReactivateProved :: "string option \<Rightarrow> string \<Rightarrow> bool" where
  "luaCanReactivateProved state proof_tx_hash =
     (if state = Some ''claimed'' \<or> state = Some ''proving'' \<or> state = Some ''proof_tx_error''
      then True
      else state = Some ''proof_window_closed'' \<and> proof_tx_hash \<noteq> [])"

section \<open>Reactivations and the money books\<close>

record Reactivation =
  From :: SessionState
  ReVerdict :: string
  ReClaimTxHash :: string
  ReProofTxHash :: string

definition noReactivation :: Reactivation where
  "noReactivation = \<lparr>From = [], ReVerdict = [], ReClaimTxHash = [], ReProofTxHash = []\<rparr>"

definition ClaimMissingLost :: string where
  [state_strings]: "ClaimMissingLost = ''lost''"
definition ClaimMissingForgone :: string where
  [state_strings]: "ClaimMissingForgone = ''forgone''"
definition ClaimTxErrorAttempt :: string where
  [state_strings]: "ClaimTxErrorAttempt = ''attempt''"
definition ClaimTxErrorForgone :: string where
  [session_state_simps]: "ClaimTxErrorForgone = ClaimMissingForgone"
definition ClaimTxErrorEjectedUnrecoverable :: string where
  [state_strings]: "ClaimTxErrorEjectedUnrecoverable = ''ejected_unrecoverable''"

lemma verdict_neq [simp]:
  "ClaimMissingLost \<noteq> ClaimMissingForgone"
  "ClaimMissingLost \<noteq> ClaimTxErrorAttempt"
  "ClaimMissingLost \<noteq> ClaimTxErrorEjectedUnrecoverable"
  "ClaimMissingForgone \<noteq> ClaimMissingLost"
  "ClaimMissingForgone \<noteq> ClaimTxErrorAttempt"
  "ClaimMissingForgone \<noteq> ClaimTxErrorEjectedUnrecoverable"
  "ClaimTxErrorAttempt \<noteq> ClaimMissingLost"
  "ClaimTxErrorAttempt \<noteq> ClaimMissingForgone"
  "ClaimTxErrorAttempt \<noteq> ClaimTxErrorEjectedUnrecoverable"
  "ClaimTxErrorEjectedUnrecoverable \<noteq> ClaimMissingLost"
  "ClaimTxErrorEjectedUnrecoverable \<noteq> ClaimMissingForgone"
  "ClaimTxErrorEjectedUnrecoverable \<noteq> ClaimTxErrorAttempt"
  "ClaimMissingLost \<noteq> []"
  "ClaimMissingForgone \<noteq> []"
  "ClaimTxErrorAttempt \<noteq> []"
  "ClaimTxErrorEjectedUnrecoverable \<noteq> []"
  "[] \<noteq> ClaimMissingLost"
  "[] \<noteq> ClaimMissingForgone"
  "[] \<noteq> ClaimTxErrorAttempt"
  "[] \<noteq> ClaimTxErrorEjectedUnrecoverable"
  by (simp_all add: state_strings)

definition ClaimMissingVerdictFor :: "SessionState \<Rightarrow> string" where
  "ClaimMissingVerdictFor s =
     (if HoldsClaimOnChain s then ClaimMissingLost else ClaimMissingForgone)"

definition ReinstatedBook :: "Reactivation \<Rightarrow> string" where
  "ReinstatedBook r =
     (if From r = SessionStateClaimMissing then ReVerdict r
      else if From r = SessionStateClaimWindowClosed then
        (if ReClaimTxHash r \<noteq> [] then ClaimMissingLost else ClaimMissingForgone)
      else if From r = SessionStateClaimTxError
        \<and> (ReVerdict r = ClaimTxErrorForgone \<or> ReVerdict r = ClaimTxErrorEjectedUnrecoverable)
      then ClaimMissingForgone
      else [])"

definition ReinstatedReason :: "Reactivation \<Rightarrow> string" where
  "ReinstatedReason r =
     (if From r = SessionStateClaimTxError \<and> ReVerdict r = ClaimTxErrorEjectedUnrecoverable
      then ''claim_ejected_unrecoverable'' else From r)"

definition ReinstatesAttempt :: "Reactivation \<Rightarrow> bool" where
  "ReinstatesAttempt r = (From r = SessionStateClaimTxError \<and> ReVerdict r = ClaimTxErrorAttempt)"

definition CreditsClaimed :: "Reactivation \<Rightarrow> bool" where
  "CreditsClaimed r =
     (if From r = SessionStateActive \<or> From r = SessionStateClaiming
         \<or> From r = SessionStateClaimTxError
      then True
      else if From r = SessionStateClaimWindowClosed \<or> From r = SessionStateClaimMissing
      then ReinstatedBook r = ClaimMissingForgone
      else False)"

section \<open>Facts about the rules\<close>

lemma lua_terminal_twin: "luaIsTerminal (Some s) = IsTerminal s"
  by (auto simp: luaIsTerminal_def session_state_simps state_strings)

lemma lua_holds_claim_twin: "luaHoldsClaimOnChain (Some s) = HoldsClaimOnChain s"
  by (auto simp: luaHoldsClaimOnChain_def session_state_simps state_strings)

lemma lua_can_reactivate_proved_twin: "luaCanReactivateProved (Some s) h = canReactivateProved s h"
  by (auto simp: luaCanReactivateProved_def session_state_simps state_strings)

lemma success_or_failure_terminal: "IsSuccess s \<or> IsFailure s \<Longrightarrow> IsTerminal s"
  by (auto simp: session_state_simps)

lemma terminal_cases: "IsTerminal s \<longleftrightarrow> IsSuccess s \<or> IsFailure s \<or> s = SessionStateClaimSkipped"
  by (auto simp: session_state_simps)

lemma reactivate_claimed_no_claim: "canReactivateClaimed s \<Longrightarrow> \<not> HoldsClaimOnChain s"
  by (auto simp: session_state_simps)

lemma reactivate_proved_holds: "canReactivateProved s h \<Longrightarrow> HoldsClaimOnChain s"
  by (auto simp: session_state_simps)

end
