(* ===== verification/Session_Store.thy ===== *)
theory Session_Store
  imports Session_State
begin

text \<open>
  The \<open>SessionStore\<close> interface of \<open>src/miner/session_store.go\<close> and what it promises. The interface is
  a record of operations over a store state \<open>'s\<close>; every call also takes its environment \<open>'e\<close> (the
  clocks it reads and the faults it meets). The contract says, for each operation, what it does to
  the one session it names, as a function on that session's snapshot; the locale \<open>session_store\<close>
  states it for a whole store, and both backends are instances. Time stamps are not part of the
  contract, and a stored root of the wrong length counts as none (\<open>decodeSnapshot\<close> drops it), so
  snapshots are compared in the canonical form \<open>canon\<close>.
\<close>

section \<open>The interface\<close>

text \<open>
  \<open>Save\<close> and \<open>CreateIfAbsent\<close> take a pointer and stamp the snapshot they are given, so they also return
  it. \<open>Get\<close> answers \<open>Inr None\<close> for an absent session.
\<close>

record ('e, 's) SessionStore =
  Save :: "'e \<Rightarrow> SessionSnapshot \<Rightarrow> 's \<Rightarrow> (store_error option \<times> SessionSnapshot) \<times> 's"
  CreateIfAbsent :: "'e \<Rightarrow> SessionSnapshot \<Rightarrow> 's \<Rightarrow> ((store_error, bool) result \<times> SessionSnapshot) \<times> 's"
  Get :: "'e \<Rightarrow> string \<Rightarrow> 's \<Rightarrow> (store_error, SessionSnapshot option) result"
  Delete :: "'e \<Rightarrow> string \<Rightarrow> 's \<Rightarrow> store_error option \<times> 's"
  UpdateState :: "'e \<Rightarrow> string \<Rightarrow> SessionState \<Rightarrow> 's \<Rightarrow> store_error option \<times> 's"
  MarkClaimMissing :: "'e \<Rightarrow> string \<Rightarrow> string \<Rightarrow> 's \<Rightarrow> store_error option \<times> 's"
  MarkClaimTxError :: "'e \<Rightarrow> string \<Rightarrow> string \<Rightarrow> 's \<Rightarrow> (store_error, bool) result \<times> 's"
  ReactivateClaimed :: "'e \<Rightarrow> string \<Rightarrow> string \<Rightarrow> string \<Rightarrow> 's \<Rightarrow> (store_error, Reactivation) result \<times> 's"
  ReactivateProved :: "'e \<Rightarrow> string \<Rightarrow> string \<Rightarrow> 's \<Rightarrow> (store_error, Reactivation) result \<times> 's"
  IncrementRelayCount :: "'e \<Rightarrow> string \<Rightarrow> uint64 \<Rightarrow> 's \<Rightarrow> store_error option \<times> 's"

section \<open>JSON\<close>

text \<open>
  \<open>encoding/json\<close> on snapshots, a parameter of the stores that keep a session as one JSON value. What
  they rely on is the round trip of the snapshots it encodes.
\<close>

record json =
  Marshal :: "SessionSnapshot \<Rightarrow> (string, string) result"
  Unmarshal :: "string \<Rightarrow> (string, SessionSnapshot) result"

definition json_ok :: "json \<Rightarrow> bool" where
  "json_ok J = (\<forall>snap data. Marshal J snap = Inr data \<longrightarrow> Unmarshal J data = Inr snap)"

section \<open>The contract of one session\<close>

definition usable_root :: "string \<Rightarrow> string" where
  "usable_root root = (if length root = SMSTRootLen then root else [])"

definition canon :: "SessionSnapshot \<Rightarrow> SessionSnapshot" where
  "canon snap = snap\<lparr>LastUpdatedAt := zero_time, CreatedAt := zero_time,
                     ClaimedRootHash := usable_root (ClaimedRootHash snap)\<rparr>"

text \<open>
  A specification says what an operation answers and what it leaves of the session, or the error it
  refuses with. \<open>meets\<close> says that a call kept to it: a call that reports a failure of the store may or
  may not have written (the reply can be lost after the write), every other call did exactly what the
  specification says, and no other session was touched.
\<close>

type_synonym view = "string \<Rightarrow> SessionSnapshot option"
type_synonym 'r spec = "SessionSnapshot option \<Rightarrow> (store_error, 'r \<times> SessionSnapshot option) result"

definition is_store_failure :: "store_error \<Rightarrow> bool" where
  "is_store_failure e = (case e of StoreFailure _ \<Rightarrow> True | StoreClosed \<Rightarrow> True | BadReply _ \<Rightarrow> True | _ \<Rightarrow> False)"

definition meets :: "'r spec \<Rightarrow> bool \<Rightarrow> string \<Rightarrow> view \<Rightarrow> (store_error, 'r) result \<Rightarrow> view \<Rightarrow> bool" where
  "meets f live sid v r v' =
     (let prev = (if live then v sid else None) in
      case r of
        Inr x \<Rightarrow> (\<exists>p. f prev = Inr (x, p) \<and> v' = v(sid := p))
      | Inl err \<Rightarrow>
          if is_store_failure err then v' = v \<or> (\<exists>x p. f prev = Inr (x, p) \<and> v' = v(sid := p))
          else f prev = Inl err \<and> v' = v)"

definition spec_Save :: "SessionSnapshot \<Rightarrow> unit spec" where
  "spec_Save snap prev =
     Inr ((), Some (case prev of
        None \<Rightarrow> canon snap
      | Some p \<Rightarrow> canon snap\<lparr>RelayCount := RelayCount p, TotalComputeUnits := TotalComputeUnits p\<rparr>))"

definition spec_CreateIfAbsent :: "SessionSnapshot \<Rightarrow> bool spec" where
  "spec_CreateIfAbsent snap prev =
     (case prev of None \<Rightarrow> Inr (True, Some (canon snap)) | Some p \<Rightarrow> Inr (False, Some p))"

definition spec_Delete :: "unit spec" where
  "spec_Delete prev = Inr ((), None)"

definition spec_updateState :: "string \<Rightarrow> SessionState \<Rightarrow> string \<Rightarrow> bool spec" where
  "spec_updateState sid newState verdict prev =
     (case prev of
        None \<Rightarrow> Inl (SessionNotFound sid)
      | Some p \<Rightarrow>
         (case checkStateWrite p newState of
            Some e \<Rightarrow> Inl e
          | None \<Rightarrow>
              if State p = newState then Inr (False, Some p)
              else Inr (True, Some (p\<lparr>State := newState,
                 ClaimMissingVerdict := (if verdict = [] then ClaimMissingVerdict p else verdict)\<rparr>))))"

definition spec_ReactivateClaimed :: "string \<Rightarrow> string \<Rightarrow> string \<Rightarrow> Reactivation spec" where
  "spec_ReactivateClaimed sid root txHash prev =
     (case prev of
        None \<Rightarrow> Inl (SessionNotFound sid)
      | Some p \<Rightarrow>
          if \<not> canReactivateClaimed (State p) then Inr (noReactivation, Some p)
          else Inr (\<lparr>From = State p, ReVerdict = ClaimMissingVerdict p,
                      ReClaimTxHash = ClaimTxHash p, ReProofTxHash = []\<rparr>,
                    Some (p\<lparr>State := SessionStateClaimed, ClaimMissingVerdict := [],
                            ClaimedRootHash := usable_root root,
                            ClaimTxHash := (if txHash = [] then ClaimTxHash p else txHash)\<rparr>)))"

definition spec_ReactivateProved :: "string \<Rightarrow> string \<Rightarrow> Reactivation spec" where
  "spec_ReactivateProved sid txHash prev =
     (case prev of
        None \<Rightarrow> Inl (SessionNotFound sid)
      | Some p \<Rightarrow>
          if \<not> canReactivateProved (State p) (ProofTxHash p) then Inr (noReactivation, Some p)
          else Inr (\<lparr>From = State p, ReVerdict = [],
                      ReClaimTxHash = ClaimTxHash p, ReProofTxHash = ProofTxHash p\<rparr>,
                    Some (p\<lparr>State := SessionStateProved,
                            ProofTxHash := (if ProofTxHash p = [] then txHash else ProofTxHash p)\<rparr>)))"

definition spec_IncrementRelayCount :: "string \<Rightarrow> uint64 \<Rightarrow> unit spec" where
  "spec_IncrementRelayCount sid cu prev =
     (case prev of
        None \<Rightarrow> Inl (SessionNotFound sid)
      | Some p \<Rightarrow>
          if IsTerminal (State p) then Inl ErrSessionTerminal
          else Inr ((), Some (p\<lparr>RelayCount := i64 (RelayCount p + 1),
                                TotalComputeUnits := TotalComputeUnits p + cu\<rparr>)))"

definition counted :: "view \<Rightarrow> string \<Rightarrow> view \<Rightarrow> bool" where
  "counted v sid v' =
     (v' = v \<or> (\<exists>p n cu. v sid = Some p \<and> v' = v(sid := Some (p\<lparr>RelayCount := n, TotalComputeUnits := cu\<rparr>))))"

text \<open>A Go call that returns only an error, read as a result.\<close>

definition unit_result :: "store_error option \<Rightarrow> (store_error, unit) result" where
  "unit_result e = (case e of None \<Rightarrow> Inr () | Some err \<Rightarrow> Inl err)"

text \<open>\<open>UpdateState\<close> and \<open>MarkClaimMissing\<close> drop the flag of \<open>updateState\<close>.\<close>

definition drop_flag :: "'a spec \<Rightarrow> unit spec" where
  "drop_flag f prev = (case f prev of Inl e \<Rightarrow> Inl e | Inr (_, p) \<Rightarrow> Inr ((), p))"

lemmas spec_defs =
  spec_Save_def spec_CreateIfAbsent_def spec_Delete_def spec_updateState_def
  spec_ReactivateClaimed_def spec_ReactivateProved_def spec_IncrementRelayCount_def drop_flag_def

section \<open>The contract of a store\<close>

text \<open>
  \<open>view s\<close> is what the store keeps for each session and \<open>live e s sid\<close> whether the session is within its
  time to live under the clock of \<open>e\<close>: a call treats a session past it as absent. \<open>inv\<close> is the
  backend's own invariant, \<open>env\<close> what it needs of an environment, and the contract covers the
  snapshots \<open>arg\<close> and the session IDs \<open>sids\<close> admit. Counting a relay keeps to its specification while
  the counters have \<open>room\<close>; without it, it still touches nothing but the counters.
\<close>

locale session_store =
  fixes S :: "('e, 's) SessionStore"
    and view :: "'s \<Rightarrow> view"
    and live :: "'e \<Rightarrow> 's \<Rightarrow> string \<Rightarrow> bool"
    and inv :: "'s \<Rightarrow> bool"
    and env :: "'e \<Rightarrow> bool"
    and arg :: "SessionSnapshot \<Rightarrow> bool"
    and sids :: "string \<Rightarrow> bool"
    and room :: "'s \<Rightarrow> string \<Rightarrow> uint64 \<Rightarrow> bool"
  assumes arg_hash: "arg snap \<Longrightarrow> arg (snap\<lparr>ProofTxHash := h\<rparr>)"
    and arg_sid: "arg snap \<Longrightarrow> sids (SessionID snap)"
    and Get_ok: "\<lbrakk>inv s; env e; sids sid; Get S e sid s = Inr x\<rbrakk>
       \<Longrightarrow> map_option canon x = (if live e s sid then view s sid else None)"
    and Get_id: "\<lbrakk>inv s; env e; sids sid; Get S e sid s = Inr (Some snap)\<rbrakk> \<Longrightarrow> SessionID snap = sid \<and> arg snap"
    and Get_err: "\<lbrakk>inv s; env e; sids sid; Get S e sid s = Inl why\<rbrakk> \<Longrightarrow> is_store_failure why"
    and Save_ok: "\<lbrakk>inv s; env e; arg snap; Save S e snap s = ((err, snap'), s')\<rbrakk>
       \<Longrightarrow> meets (spec_Save snap) (live e s (SessionID snap)) (SessionID snap) (view s) (unit_result err) (view s')
         \<and> canon snap' = canon snap \<and> inv s'"
    and CreateIfAbsent_ok: "\<lbrakk>inv s; env e; arg snap; CreateIfAbsent S e snap s = ((r, snap'), s')\<rbrakk>
       \<Longrightarrow> meets (spec_CreateIfAbsent snap) (live e s (SessionID snap)) (SessionID snap) (view s) r (view s')
         \<and> canon snap' = canon snap \<and> inv s'"
    and Delete_ok: "\<lbrakk>inv s; env e; sids sid; Delete S e sid s = (err, s')\<rbrakk>
       \<Longrightarrow> meets spec_Delete (live e s sid) sid (view s) (unit_result err) (view s') \<and> inv s'"
    and UpdateState_ok: "\<lbrakk>inv s; env e; sids sid; UpdateState S e sid st s = (err, s')\<rbrakk>
       \<Longrightarrow> meets (drop_flag (spec_updateState sid st [])) (live e s sid) sid (view s) (unit_result err) (view s')
         \<and> inv s'"
    and MarkClaimMissing_ok: "\<lbrakk>inv s; env e; sids sid; MarkClaimMissing S e sid v s = (err, s')\<rbrakk>
       \<Longrightarrow> meets (drop_flag (spec_updateState sid SessionStateClaimMissing v)) (live e s sid) sid
             (view s) (unit_result err) (view s') \<and> inv s'"
    and MarkClaimTxError_ok: "\<lbrakk>inv s; env e; sids sid; MarkClaimTxError S e sid v s = (r, s')\<rbrakk>
       \<Longrightarrow> meets (spec_updateState sid SessionStateClaimTxError v) (live e s sid) sid (view s) r (view s')
         \<and> inv s'"
    and ReactivateClaimed_ok: "\<lbrakk>inv s; env e; sids sid; ReactivateClaimed S e sid root h s = (re, s')\<rbrakk>
       \<Longrightarrow> meets (spec_ReactivateClaimed sid root h) (live e s sid) sid (view s) re (view s') \<and> inv s'"
    and ReactivateProved_ok: "\<lbrakk>inv s; env e; sids sid; ReactivateProved S e sid h s = (re, s')\<rbrakk>
       \<Longrightarrow> meets (spec_ReactivateProved sid h) (live e s sid) sid (view s) re (view s') \<and> inv s'"
    and IncrementRelayCount_ok: "\<lbrakk>inv s; env e; sids sid; room s sid cu; IncrementRelayCount S e sid cu s = (err, s')\<rbrakk>
       \<Longrightarrow> meets (spec_IncrementRelayCount sid cu) (live e s sid) sid (view s) (unit_result err) (view s')"
    and IncrementRelayCount_frame: "\<lbrakk>inv s; env e; sids sid; IncrementRelayCount S e sid cu s = (err, s')\<rbrakk>
       \<Longrightarrow> counted (view s) sid (view s') \<and> inv s'"

section \<open>Facts about specifications\<close>

lemma meets_other: "meets f l sid v r v' \<Longrightarrow> sid' \<noteq> sid \<Longrightarrow> v' sid' = v sid'"
  by (auto simp: meets_def Let_def split: sum.splits if_splits)

lemma meets_at:
  assumes "meets f l sid v r v'"
  shows "v' sid = v sid \<or> (\<exists>x. f (if l then v sid else None) = Inr (x, v' sid))"
  using assms by (auto simp: meets_def Let_def split: sum.splits if_splits)

lemma meets_Inr: "meets f l sid v (Inr x) v' \<Longrightarrow> f (if l then v sid else None) = Inr (x, v' sid)"
  by (auto simp: meets_def Let_def)

lemma meets_Inl:
  "meets f l sid v (Inl e) v' \<Longrightarrow> \<not> is_store_failure e
   \<Longrightarrow> f (if l then v sid else None) = Inl e \<and> v' = v"
  by (auto simp: meets_def Let_def)

lemma canon_fields [simp]:
  "State (canon p) = State p" "ClaimMissingVerdict (canon p) = ClaimMissingVerdict p"
  "SessionID (canon p) = SessionID p" "ClaimTxHash (canon p) = ClaimTxHash p"
  "ProofTxHash (canon p) = ProofTxHash p" "RelayCount (canon p) = RelayCount p"
  "TotalComputeUnits (canon p) = TotalComputeUnits p"
  by (simp_all add: canon_def)

lemma canon_stamp [simp]:
  "canon (p\<lparr>LastUpdatedAt := t\<rparr>) = canon p"
  "canon (p\<lparr>CreatedAt := t\<rparr>) = canon p"
  by (simp_all add: canon_def)

lemma canon_update [simp]:
  "canon (p\<lparr>State := st\<rparr>) = (canon p)\<lparr>State := st\<rparr>"
  "canon (p\<lparr>ClaimMissingVerdict := vd\<rparr>) = (canon p)\<lparr>ClaimMissingVerdict := vd\<rparr>"
  "canon (p\<lparr>ClaimTxHash := h\<rparr>) = (canon p)\<lparr>ClaimTxHash := h\<rparr>"
  "canon (p\<lparr>ProofTxHash := h\<rparr>) = (canon p)\<lparr>ProofTxHash := h\<rparr>"
  "canon (p\<lparr>RelayCount := n\<rparr>) = (canon p)\<lparr>RelayCount := n\<rparr>"
  "canon (p\<lparr>TotalComputeUnits := cu\<rparr>) = (canon p)\<lparr>TotalComputeUnits := cu\<rparr>"
  "canon (p\<lparr>ClaimedRootHash := root\<rparr>) = (canon p)\<lparr>ClaimedRootHash := usable_root root\<rparr>"
  by (simp_all add: canon_def)

lemma checkStateWrite_canon [simp]: "checkStateWrite (canon p) st = checkStateWrite p st"
  by (simp add: checkStateWrite_def)

lemma canon_canon [simp]: "canon (canon p) = canon p"
  by (simp add: canon_def usable_root_def)

text \<open>How a call meets its specification: it wrote, it changed nothing, or the store failed.\<close>

lemma meets_wrote:
  assumes "f (if l then v sid else None) = Inr (x, Some q)" "v' = v(sid := Some q)"
  shows "meets f l sid v (Inr x) v'"
  using assms by (auto simp: meets_def Let_def)

lemma meets_kept:
  assumes "f (if l then v sid else None) = Inr (x, Some q)" "(if l then v sid else None) = Some q"
  shows "meets f l sid v (Inr x) v"
proof -
  have "v sid = Some q" using assms(2) by (simp split: if_splits)
  then have "v = v(sid := Some q)" by (simp add: fun_upd_idem)
  then show ?thesis using assms(1) by (auto simp: meets_def Let_def)
qed

lemma meets_refused:
  assumes "f (if l then v sid else None) = Inl err"
  shows "meets f l sid v (Inl err) v"
  using assms by (auto simp: meets_def Let_def)

lemma meets_failed:
  assumes "is_store_failure err" "v' = v \<or> (\<exists>x q. f (if l then v sid else None) = Inr (x, q) \<and> v' = v(sid := q))"
  shows "meets f l sid v (Inl err) v'"
  using assms by (auto simp: meets_def Let_def)

lemma unit_result_simps [simp]: "unit_result None = Inr ()" "unit_result (Some e) = Inl e"
  by (simp_all add: unit_result_def)

lemma unit_result_err_of [simp]: "unit_result (err_of r) = map_sum id (\<lambda>_. ()) r"
  by (cases r) simp_all

lemma meets_drop:
  assumes "meets f l sid v r v'"
  shows "meets (drop_flag f) l sid v (map_sum id (\<lambda>_. ()) r) v'"
  using assms by (cases r; cases l) (auto simp: meets_def Let_def drop_flag_def split: sum.splits)

lemma meets_counted:
  assumes "meets (spec_IncrementRelayCount sid cu) l sid v r v'"
  shows "counted v sid v'"
proof (cases "v' = v")
  case False
  have other: "v' i = v i" if "i \<noteq> sid" for i using meets_other [OF assms that] .
  with False have "v' sid \<noteq> v sid" by (metis ext)
  with meets_at [OF assms]
  obtain x where "spec_IncrementRelayCount sid cu (if l then v sid else None) = Inr (x, v' sid)" by blast
  then obtain p n u where "v sid = Some p" "v' sid = Some (p\<lparr>RelayCount := n, TotalComputeUnits := u\<rparr>)"
    by (simp add: spec_IncrementRelayCount_def split: option.splits if_splits) (metis that)
  moreover have "v' = v(sid := v' sid)" using other by (auto simp: fun_eq_iff)
  ultimately show ?thesis unfolding counted_def by metis
qed (simp add: counted_def)

end
