(* ===== verification/Money_Books.thy ===== *)
theory Money_Books
  imports Session_State Strconv
begin

text \<open>
  The money books of \<open>src/miner/metrics.go\<close> and the pricing of \<open>src/miner/session_price.go\<close>. A
  counter series is named by its Go variable and its label values; a recording function is the
  list of additions it makes. Amounts are kept as integers: the rounding of \<open>float64\<close> is not
  modelled. The lemmas say which books each verdict touches.
\<close>

section \<open>Prices\<close>

record Upokt =
  Amount :: uint64
  OK :: bool

definition unpriced :: Upokt where
  "unpriced = \<lparr>Amount = 0, OK = False\<rparr>"

definition priceRoot :: "SessionSnapshot \<Rightarrow> string" where
  "priceRoot snap =
     (if length (ClaimedRootHash snap) = SMSTRootLen then ClaimedRootHash snap
      else replicate (SMSTRootLen - 16) (CHR 0x00)
             @ be_bytes (TotalComputeUnits snap) @ be_bytes (word_of_int (RelayCount snap)))"

text \<open>
  The chain's clients and its price formula are not part of this repository: \<open>params\<close> and
  \<open>difficulty\<close> answer for a height (an error is \<open>Inl\<close>, a nil answer \<open>Inr None\<close>), and \<open>claimed_upokt\<close>
  is the chain's \<open>Claim.GetClaimeduPOKT\<close> on a service and a root: \<open>None\<close> for an error or a nil coin,
  otherwise its unbounded amount.
\<close>

record ('p, 'f) chain_price =
  params_at :: "int \<Rightarrow> (string, 'p option) result"
  difficulty_at :: "string \<Rightarrow> int \<Rightarrow> (string, 'f) result"
  claimed_upokt :: "string \<Rightarrow> string \<Rightarrow> 'p \<Rightarrow> 'f \<Rightarrow> int option"

definition chainPricer_Quote :: "('p, 'f) chain_price \<Rightarrow> SessionSnapshot \<Rightarrow> Upokt" where
  "chainPricer_Quote c snap =
     (if TotalComputeUnits snap = 0 then \<lparr>Amount = 0, OK = True\<rparr>
      else case params_at c (SessionStartHeight snap) of
        Inl _ \<Rightarrow> unpriced
      | Inr None \<Rightarrow> unpriced
      | Inr (Some params) \<Rightarrow>
         (case difficulty_at c (ServiceID snap) (SessionStartHeight snap) of
            Inl _ \<Rightarrow> unpriced
          | Inr difficulty \<Rightarrow>
             (case claimed_upokt c (ServiceID snap) (priceRoot snap) params difficulty of
                None \<Rightarrow> unpriced
              | Some coin \<Rightarrow>
                  if 0 \<le> coin \<and> coin < 2 ^ 64 then \<lparr>Amount = word_of_int coin, OK = True\<rparr>
                  else unpriced)))"

definition quote :: "(SessionSnapshot \<Rightarrow> Upokt) option \<Rightarrow> SessionSnapshot option \<Rightarrow> Upokt" where
  "quote pricer snap =
     (case (pricer, snap) of (Some q, Some s) \<Rightarrow> q s | _ \<Rightarrow> unpriced)"

section \<open>Counters\<close>

datatype counter_add = CounterAdd string "string list" int

definition addUpokt :: "string \<Rightarrow> string list \<Rightarrow> string \<Rightarrow> string \<Rightarrow> string \<Rightarrow> int \<Rightarrow> Upokt \<Rightarrow> counter_add list" where
  "addUpokt series labels supplier serviceID book computeUnits upokt =
     (if OK upokt then [CounterAdd series labels (uint (Amount upokt))]
      else [CounterAdd ''unpricedComputeUnitsTotal'' [supplier, serviceID, book] computeUnits])"

definition RecordSessionCreated :: "string \<Rightarrow> string \<Rightarrow> counter_add list" where
  "RecordSessionCreated supplier serviceID = [CounterAdd ''sessionsCreatedTotal'' [supplier, serviceID] 1]"

definition recordSessionAttemptFailure :: "string \<Rightarrow> string \<Rightarrow> string \<Rightarrow> counter_add list" where
  "recordSessionAttemptFailure supplier serviceID reason =
     [CounterAdd ''sessionsFailedTotal'' [supplier, serviceID, reason] 1]"

definition RecordRevenueLost :: "string \<Rightarrow> string \<Rightarrow> string \<Rightarrow> int \<Rightarrow> int \<Rightarrow> Upokt \<Rightarrow> counter_add list" where
  "RecordRevenueLost supplier serviceID reason relays computeUnits upokt =
     [CounterAdd ''relaysLostTotal'' [supplier, serviceID, reason] relays,
      CounterAdd ''computeUnitsLostTotal'' [supplier, serviceID, reason] computeUnits]
     @ addUpokt ''upoktLostTotal'' [supplier, serviceID, reason] supplier serviceID ''lost'' computeUnits upokt"

definition RecordRevenueForgone :: "string \<Rightarrow> string \<Rightarrow> string \<Rightarrow> int \<Rightarrow> int \<Rightarrow> Upokt \<Rightarrow> counter_add list" where
  "RecordRevenueForgone supplier serviceID reason relays computeUnits upokt =
     [CounterAdd ''relaysForgoneTotal'' [supplier, serviceID, reason] relays,
      CounterAdd ''computeUnitsForgoneTotal'' [supplier, serviceID, reason] computeUnits]
     @ addUpokt ''upoktForgoneTotal'' [supplier, serviceID, reason] supplier serviceID ''forgone'' computeUnits upokt"

definition recordSessionLoss :: "string \<Rightarrow> string \<Rightarrow> string \<Rightarrow> int \<Rightarrow> int \<Rightarrow> Upokt \<Rightarrow> counter_add list" where
  "recordSessionLoss supplier serviceID reason relays computeUnits upokt =
     recordSessionAttemptFailure supplier serviceID reason
     @ RecordRevenueLost supplier serviceID reason relays computeUnits upokt"

definition recordSessionForgone :: "string \<Rightarrow> string \<Rightarrow> string \<Rightarrow> int \<Rightarrow> int \<Rightarrow> Upokt \<Rightarrow> counter_add list" where
  "recordSessionForgone supplier serviceID reason relays computeUnits upokt =
     recordSessionAttemptFailure supplier serviceID reason
     @ RecordRevenueForgone supplier serviceID reason relays computeUnits upokt"

definition RecordSessionUnresolvedOpened ::
  "string \<Rightarrow> string \<Rightarrow> string \<Rightarrow> string \<Rightarrow> int \<Rightarrow> int \<Rightarrow> Upokt \<Rightarrow> counter_add list" where
  "RecordSessionUnresolvedOpened supplier serviceID reason phase relays computeUnits upokt =
     [CounterAdd ''sessionsFailedTotal'' [supplier, serviceID, reason] 1,
      CounterAdd ''relaysUnresolvedOpenedTotal'' [supplier, serviceID, phase] relays,
      CounterAdd ''computeUnitsUnresolvedOpenedTotal'' [supplier, serviceID, phase] computeUnits]
     @ addUpokt ''upoktUnresolvedOpenedTotal'' [supplier, serviceID, phase]
         supplier serviceID ''unresolved_opened'' computeUnits upokt"

definition RecordSessionUnresolvedResolved ::
  "string \<Rightarrow> string \<Rightarrow> string \<Rightarrow> int \<Rightarrow> int \<Rightarrow> Upokt \<Rightarrow> counter_add list" where
  "RecordSessionUnresolvedResolved supplier serviceID phase relays computeUnits upokt =
     [CounterAdd ''relaysUnresolvedResolvedTotal'' [supplier, serviceID, phase] relays,
      CounterAdd ''computeUnitsUnresolvedResolvedTotal'' [supplier, serviceID, phase] computeUnits]
     @ addUpokt ''upoktUnresolvedResolvedTotal'' [supplier, serviceID, phase]
         supplier serviceID ''unresolved_resolved'' computeUnits upokt"

definition RecordClaimWindowClosed :: "string \<Rightarrow> string \<Rightarrow> string \<Rightarrow> int \<Rightarrow> int \<Rightarrow> Upokt \<Rightarrow> counter_add list" where
  "RecordClaimWindowClosed supplier serviceID claimTxHash relays computeUnits upokt =
     (if claimTxHash = []
      then recordSessionForgone supplier serviceID ''claim_window_closed'' relays computeUnits upokt
      else recordSessionLoss supplier serviceID ''claim_window_closed'' relays computeUnits upokt)"

definition RecordClaimMissing :: "string \<Rightarrow> string \<Rightarrow> string \<Rightarrow> int \<Rightarrow> int \<Rightarrow> Upokt \<Rightarrow> counter_add list" where
  "RecordClaimMissing supplier serviceID verdict relays computeUnits upokt =
     (if verdict = ClaimMissingForgone
      then recordSessionForgone supplier serviceID ''claim_missing'' relays computeUnits upokt
      else recordSessionLoss supplier serviceID ''claim_missing'' relays computeUnits upokt)"

definition RecordReinstated ::
  "string \<Rightarrow> string \<Rightarrow> string \<Rightarrow> string \<Rightarrow> int \<Rightarrow> int \<Rightarrow> Upokt \<Rightarrow> counter_add list" where
  "RecordReinstated supplier serviceID reason from relays computeUnits upokt =
     [CounterAdd ''sessionsReinstatedTotal'' [supplier, serviceID, reason] 1,
      CounterAdd ''relaysReinstatedTotal'' [supplier, serviceID, reason, from] relays,
      CounterAdd ''computeUnitsReinstatedTotal'' [supplier, serviceID, reason, from] computeUnits]
     @ addUpokt ''upoktReinstatedTotal'' [supplier, serviceID, reason, from]
         supplier serviceID ''reinstated'' computeUnits upokt"

definition RecordReinstatedAttempt :: "string \<Rightarrow> string \<Rightarrow> string \<Rightarrow> counter_add list" where
  "RecordReinstatedAttempt supplier serviceID reason =
     [CounterAdd ''sessionsReinstatedTotal'' [supplier, serviceID, reason] 1]"

definition RecordClaimEjectedUnrecoverable :: "string \<Rightarrow> string \<Rightarrow> int \<Rightarrow> int \<Rightarrow> Upokt \<Rightarrow> counter_add list" where
  "RecordClaimEjectedUnrecoverable supplier serviceID relays computeUnits upokt =
     recordSessionForgone supplier serviceID ''claim_ejected_unrecoverable'' relays computeUnits upokt"

definition RecordClaimTxError :: "string \<Rightarrow> string \<Rightarrow> bool \<Rightarrow> int \<Rightarrow> int \<Rightarrow> Upokt \<Rightarrow> counter_add list" where
  "RecordClaimTxError supplier serviceID resolvable relays computeUnits upokt =
     (if resolvable then recordSessionAttemptFailure supplier serviceID ''claim_tx_error''
      else recordSessionForgone supplier serviceID ''claim_tx_error'' relays computeUnits upokt)"

definition RecordClaimTxErrorVerdict ::
  "string \<Rightarrow> string \<Rightarrow> string \<Rightarrow> int \<Rightarrow> int \<Rightarrow> Upokt \<Rightarrow> counter_add list" where
  "RecordClaimTxErrorVerdict supplier serviceID verdict relays computeUnits upokt =
     (if verdict = ClaimTxErrorAttempt
      then RecordClaimTxError supplier serviceID True relays computeUnits upokt
      else if verdict = ClaimTxErrorForgone
      then RecordClaimTxError supplier serviceID False relays computeUnits upokt
      else if verdict = ClaimTxErrorEjectedUnrecoverable
      then RecordClaimEjectedUnrecoverable supplier serviceID relays computeUnits upokt
      else [])"

definition RecordProofWindowClosed :: "string \<Rightarrow> string \<Rightarrow> string \<Rightarrow> int \<Rightarrow> int \<Rightarrow> Upokt \<Rightarrow> counter_add list" where
  "RecordProofWindowClosed supplier serviceID proofTxHash relays computeUnits upokt =
     (if proofTxHash = []
      then recordSessionLoss supplier serviceID ''proof_window_closed'' relays computeUnits upokt
      else recordSessionAttemptFailure supplier serviceID ''proof_window_closed'')"

definition RecordProofTxError :: "string \<Rightarrow> string \<Rightarrow> bool \<Rightarrow> int \<Rightarrow> int \<Rightarrow> Upokt \<Rightarrow> counter_add list" where
  "RecordProofTxError supplier serviceID resolvable relays computeUnits upokt =
     (if resolvable
      then RecordSessionUnresolvedOpened supplier serviceID ''proof_tx_error'' ''proof'' relays computeUnits upokt
      else recordSessionLoss supplier serviceID ''proof_tx_error'' relays computeUnits upokt)"

definition recordRevenueClaimed :: "string \<Rightarrow> string \<Rightarrow> uint64 \<Rightarrow> int \<Rightarrow> Upokt \<Rightarrow> counter_add list" where
  "recordRevenueClaimed supplier serviceID computeUnits relayCount upokt =
     [CounterAdd ''computeUnitsClaimedTotal'' [supplier, serviceID] (uint computeUnits)]
     @ addUpokt ''upoktClaimedTotal'' [supplier, serviceID] supplier serviceID ''claimed'' (uint computeUnits) upokt
     @ [CounterAdd ''relaysClaimedTotal'' [supplier, serviceID] relayCount]"

definition recordRevenueProved :: "string \<Rightarrow> string \<Rightarrow> uint64 \<Rightarrow> int \<Rightarrow> Upokt \<Rightarrow> counter_add list" where
  "recordRevenueProved supplier serviceID computeUnits relayCount upokt =
     [CounterAdd ''computeUnitsProvedTotal'' [supplier, serviceID] (uint computeUnits)]
     @ addUpokt ''upoktProvedTotal'' [supplier, serviceID] supplier serviceID ''proved'' (uint computeUnits) upokt
     @ [CounterAdd ''relaysProvedTotal'' [supplier, serviceID] relayCount]"

definition RecordRevenueClaimed :: "string \<Rightarrow> string \<Rightarrow> uint64 \<Rightarrow> int \<Rightarrow> Upokt \<Rightarrow> counter_add list" where
  "RecordRevenueClaimed = recordRevenueClaimed"

definition RecordRevenueProved :: "string \<Rightarrow> string \<Rightarrow> uint64 \<Rightarrow> int \<Rightarrow> Upokt \<Rightarrow> counter_add list" where
  "RecordRevenueProved = recordRevenueProved"

definition RecordRevenueProbabilisticProved :: "string \<Rightarrow> string \<Rightarrow> uint64 \<Rightarrow> int \<Rightarrow> Upokt \<Rightarrow> counter_add list" where
  "RecordRevenueProbabilisticProved = recordRevenueProved"

end
