(* ===== verification/Session_Coordinator.thy ===== *)
theory Session_Coordinator
  imports Session_Store Money_Books
begin

text \<open>
  \<open>SessionCoordinator\<close> of \<open>src/miner/session_coordinator.go\<close>: one definition per handler, over any
  \<open>SessionStore\<close>. A handler returns its error, the store, and what it made visible to the rest of the
  miner in order: additions to the money counters and calls of the two lifecycle callbacks. Log lines
  are not modelled. The \<open>i\<close>-th store call of a handler runs in the environment \<open>e i\<close>. The lemmas inside
  \<open>session_store\<close> follow the money of one session through any sequence of handlers.
\<close>

section \<open>State and errors\<close>

datatype event =
    Counter counter_add
  | CreatedCb SessionSnapshot
  | TerminalCb string SessionState

text \<open>
  The created callback is code of the caller: it may fail and may write to the store. The terminal
  callback returns nothing; the record says whether one is installed.
\<close>

record ('e, 's) SessionCoordinator =
  coord_closed :: bool
  onSessionCreated :: "('e \<Rightarrow> SessionSnapshot \<Rightarrow> 's \<Rightarrow> string option \<times> 's) option"
  onSessionTerminal :: bool
  pricer :: "(SessionSnapshot \<Rightarrow> Upokt) option"
  claimWindowClosedFn :: "(int \<Rightarrow> bool) option"

datatype coord_error =
    CoordinatorClosed
  | NoSuchSession string
  | StoreErr store_error
  | ErrClaimRootUnusable string nat
  | NotDeferred string SessionState
  | SessionVanished string
  | CallbackErr string

type_synonym 's handled = "coord_error option \<times> 's \<times> event list"

definition NewSessionCoordinator :: "('e, 's) SessionCoordinator" where
  "NewSessionCoordinator =
     \<lparr>coord_closed = False, onSessionCreated = None, onSessionTerminal = False,
      pricer = None, claimWindowClosedFn = None\<rparr>"

definition SetOnSessionCreatedCallback where
  "SetOnSessionCreatedCallback callback c = c\<lparr>onSessionCreated := Some callback\<rparr>"

definition SetPricer where
  "SetPricer p c = c\<lparr>pricer := p\<rparr>"

definition SetClaimWindowClosedFn where
  "SetClaimWindowClosedFn fn c = c\<lparr>claimWindowClosedFn := fn\<rparr>"

definition SetOnSessionTerminalCallback where
  "SetOnSessionTerminalCallback c = c\<lparr>onSessionTerminal := True\<rparr>"

definition Coordinator_Close where
  "Coordinator_Close c = c\<lparr>coord_closed := True\<rparr>"

definition ClaimWindowClosed :: "('e, 's) SessionCoordinator \<Rightarrow> int \<Rightarrow> bool" where
  "ClaimWindowClosed c sessionEndHeight =
     (if sessionEndHeight \<le> 0 then False
      else case claimWindowClosedFn c of None \<Rightarrow> False | Some fn \<Rightarrow> fn sessionEndHeight)"

definition terminal :: "('e, 's) SessionCoordinator \<Rightarrow> string \<Rightarrow> SessionState \<Rightarrow> event list" where
  "terminal c sid st = (if onSessionTerminal c then [TerminalCb sid st] else [])"

section \<open>Booking a flip into claimed\<close>

definition price :: "('e, 's) SessionCoordinator \<Rightarrow> SessionSnapshot \<Rightarrow> Upokt" where
  "price c snap = quote (pricer c) (Some snap)"

definition creditClaimed :: "('e, 's) SessionCoordinator \<Rightarrow> SessionSnapshot \<Rightarrow> string \<Rightarrow> Reactivation \<Rightarrow> event list" where
  "creditClaimed c snap root r =
     (if \<not> CreditsClaimed r then []
      else map Counter (RecordRevenueClaimed (SupplierOperatorAddress snap) (ServiceID snap)
             (TotalComputeUnits snap) (RelayCount snap) (price c (snap\<lparr>ClaimedRootHash := root\<rparr>))))"

text \<open>\<open>int64(before.TotalComputeUnits)\<close> is the signed reading of the counter.\<close>

definition bookReactivation ::
  "('e, 's) SessionCoordinator \<Rightarrow> (store_error, SessionSnapshot option) result \<Rightarrow> string \<Rightarrow> Reactivation \<Rightarrow> event list" where
  "bookReactivation c before root r =
     (if CreditsClaimed r
      then (case before of Inr (Some b) \<Rightarrow> creditClaimed c b root r | _ \<Rightarrow> [])
      else [])
     @ (let book = ReinstatedBook r in
        if book \<noteq> [] \<or> ReinstatesAttempt r
        then (case before of
                Inr (Some b) \<Rightarrow>
                  if book \<noteq> []
                  then map Counter (RecordReinstated (SupplierOperatorAddress b) (ServiceID b)
                         (ReinstatedReason r) book (RelayCount b) (sint (TotalComputeUnits b)) (price c b))
                  else map Counter (RecordReinstatedAttempt (SupplierOperatorAddress b) (ServiceID b)
                         (ReinstatedReason r))
              | _ \<Rightarrow> [])
        else [])"

section \<open>Creating a session and counting its relays\<close>

definition new_snapshot :: "string \<Rightarrow> string \<Rightarrow> string \<Rightarrow> string \<Rightarrow> int \<Rightarrow> int \<Rightarrow> SessionSnapshot" where
  "new_snapshot sid supplier service app startHeight endHeight =
     \<lparr>SessionID = sid, SupplierOperatorAddress = supplier, ServiceID = service,
      ApplicationAddress = app, SessionStartHeight = startHeight, SessionEndHeight = endHeight,
      State = SessionStateActive, RelayCount = 0, TotalComputeUnits = 0, ClaimedRootHash = [],
      ClaimTxHash = [], ProofTxHash = [], ClaimMissingVerdict = [],
      LastUpdatedAt = zero_time, CreatedAt = zero_time\<rparr>"

definition OnSessionCreated ::
  "('e, 's) SessionStore \<Rightarrow> ('e, 's) SessionCoordinator \<Rightarrow> (nat \<Rightarrow> 'e) \<Rightarrow> string
   \<Rightarrow> string \<Rightarrow> string \<Rightarrow> string \<Rightarrow> int \<Rightarrow> int \<Rightarrow> 's \<Rightarrow> 's handled" where
  "OnSessionCreated S c e sid supplier service app startHeight endHeight s =
     (if coord_closed c then (Some CoordinatorClosed, s, [])
      else case CreateIfAbsent S (e 0) (new_snapshot sid supplier service app startHeight endHeight) s of
        ((Inl err, _), s1) \<Rightarrow> (Some (StoreErr err), s1, [])
      | ((Inr False, _), s1) \<Rightarrow> (None, s1, [])
      | ((Inr True, snapshot), s1) \<Rightarrow>
         (case onSessionCreated c of
            None \<Rightarrow> (None, s1, map Counter (RecordSessionCreated supplier service))
          | Some callback \<Rightarrow>
             (let (_, s2) = callback (e 1) snapshot s1
              in (None, s2, map Counter (RecordSessionCreated supplier service) @ [CreatedCb snapshot]))))"

record SessionRead =
  Snapshot :: "SessionSnapshot option"
  Answered :: bool

definition EnsureSession ::
  "('e, 's) SessionStore \<Rightarrow> ('e, 's) SessionCoordinator \<Rightarrow> (nat \<Rightarrow> 'e) \<Rightarrow> SessionRead \<Rightarrow> string
   \<Rightarrow> string \<Rightarrow> string \<Rightarrow> string \<Rightarrow> int \<Rightarrow> int \<Rightarrow> 's \<Rightarrow> bool \<times> 's \<times> event list" where
  "EnsureSession S c e read sid supplier service app startHeight endHeight s =
     (if coord_closed c then (False, s, [])
      else
        let snapshot = (if Answered read then Snapshot read
                        else case Get S (e 0) sid s of Inl _ \<Rightarrow> None | Inr x \<Rightarrow> x)
        in if snapshot \<noteq> None then (True, s, [])
           else if supplier = [] \<or> service = [] then (False, s, [])
           else case OnSessionCreated S c (\<lambda>i. e (Suc i)) sid supplier service app startHeight endHeight s of
                  (Some _, s1, ev) \<Rightarrow> (False, s1, ev)
                | (None, s1, ev) \<Rightarrow> (True, s1, ev))"

definition OnRelayProcessed ::
  "('e, 's) SessionStore \<Rightarrow> ('e, 's) SessionCoordinator \<Rightarrow> (nat \<Rightarrow> 'e) \<Rightarrow> string \<Rightarrow> uint64 \<Rightarrow> 's \<Rightarrow> 's handled" where
  "OnRelayProcessed S c e sid cu s =
     (if coord_closed c then (Some CoordinatorClosed, s, [])
      else case IncrementRelayCount S (e 0) sid cu s of
        (None, s1) \<Rightarrow> (None, s1, [])
      | (Some err, s1) \<Rightarrow>
          if err = ErrSessionTerminal then (None, s1, []) else (Some (StoreErr err), s1, []))"

section \<open>The claim phase\<close>

definition OnSessionClaimed ::
  "('e, 's) SessionStore \<Rightarrow> ('e, 's) SessionCoordinator \<Rightarrow> (nat \<Rightarrow> 'e) \<Rightarrow> string \<Rightarrow> string \<Rightarrow> string \<Rightarrow> 's \<Rightarrow> 's handled" where
  "OnSessionClaimed S c e sid root claimTxHash s =
     (if coord_closed c then (Some CoordinatorClosed, s, [])
      else case Get S (e 0) sid s of
        Inl err \<Rightarrow> (Some (StoreErr err), s, [])
      | Inr None \<Rightarrow> (Some (NoSuchSession sid), s, [])
      | Inr (Some snapshot) \<Rightarrow>
         (case ReactivateClaimed S (e 1) sid root claimTxHash s of
            (Inl err, s1) \<Rightarrow> (Some (StoreErr err), s1, [])
          | (Inr r, s1) \<Rightarrow> (None, s1, bookReactivation c (Inr (Some snapshot)) root r)))"

definition OnClaimObservedOnChain ::
  "('e, 's) SessionStore \<Rightarrow> ('e, 's) SessionCoordinator \<Rightarrow> (nat \<Rightarrow> 'e) \<Rightarrow> string \<Rightarrow> string \<Rightarrow> string \<Rightarrow> 's \<Rightarrow> 's handled" where
  "OnClaimObservedOnChain S c e sid root claimTxHash s =
     (if coord_closed c then (Some CoordinatorClosed, s, [])
      else if length root \<noteq> SMSTRootLen then (Some (ErrClaimRootUnusable sid (length root)), s, [])
      else
        let before = Get S (e 0) sid s
        in case ReactivateClaimed S (e 1) sid root claimTxHash s of
             (Inl err, s1) \<Rightarrow> (Some (StoreErr err), s1, [])
           | (Inr r, s1) \<Rightarrow>
              (let booked = bookReactivation c before root r
               in if From r = [] then (None, s1, booked)
                  else case onSessionCreated c of
                    None \<Rightarrow> (None, s1, booked)
                  | Some callback \<Rightarrow>
                     (case Get S (e 2) sid s1 of
                        Inl err \<Rightarrow> (Some (StoreErr err), s1, booked)
                      | Inr None \<Rightarrow> (Some (SessionVanished sid), s1, booked)
                      | Inr (Some snapshot) \<Rightarrow>
                         (case callback (e 3) snapshot s1 of
                            (Some msg, s2) \<Rightarrow> (Some (CallbackErr msg), s2, booked @ [CreatedCb snapshot])
                          | (None, s2) \<Rightarrow> (None, s2, booked @ [CreatedCb snapshot])))))"

definition OnClaimWindowClosed ::
  "('e, 's) SessionStore \<Rightarrow> ('e, 's) SessionCoordinator \<Rightarrow> (nat \<Rightarrow> 'e) \<Rightarrow> string \<Rightarrow> 's \<Rightarrow> 's handled" where
  "OnClaimWindowClosed S c e sid s =
     (if coord_closed c then (Some CoordinatorClosed, s, [])
      else case UpdateState S (e 0) sid SessionStateClaimWindowClosed s of
        (Some err, s1) \<Rightarrow> (Some (StoreErr err), s1, [])
      | (None, s1) \<Rightarrow> (None, s1, terminal c sid SessionStateClaimWindowClosed))"

definition OnClaimTxError ::
  "('e, 's) SessionStore \<Rightarrow> ('e, 's) SessionCoordinator \<Rightarrow> (nat \<Rightarrow> 'e) \<Rightarrow> string \<Rightarrow> string \<Rightarrow> 's \<Rightarrow> 's handled" where
  "OnClaimTxError S c e sid verdict0 s =
     (if coord_closed c then (Some CoordinatorClosed, s, [])
      else
        let current = (case Get S (e 0) sid s of Inl _ \<Rightarrow> None | Inr x \<Rightarrow> x)
        in if (case current of
                 None \<Rightarrow> False
               | Some cur \<Rightarrow> State cur = SessionStateClaimed \<or> ClaimTxHash cur \<noteq> []
                             \<or> State cur = SessionStateClaimTxError)
           then (None, s, [])
           else
             let verdict = (if current = None then [] else verdict0)
             in case MarkClaimTxError S (e 1) sid verdict s of
                  (Inl err, s1) \<Rightarrow> (Some (StoreErr err), s1, [])
                | (Inr flipped, s1) \<Rightarrow>
                   (None, s1,
                    (case current of
                       Some cur \<Rightarrow>
                         if flipped
                         then map Counter (RecordClaimTxErrorVerdict (SupplierOperatorAddress cur) (ServiceID cur)
                                verdict (RelayCount cur) (sint (TotalComputeUnits cur)) (price c cur))
                         else []
                     | None \<Rightarrow> [])
                    @ terminal c sid SessionStateClaimTxError))"

definition OnClaimMissing ::
  "('e, 's) SessionStore \<Rightarrow> ('e, 's) SessionCoordinator \<Rightarrow> (nat \<Rightarrow> 'e) \<Rightarrow> string \<Rightarrow> 's \<Rightarrow> 's handled" where
  "OnClaimMissing S c e sid s =
     (if coord_closed c then (Some CoordinatorClosed, s, [])
      else
        let current = (case Get S (e 0) sid s of Inl _ \<Rightarrow> None | Inr x \<Rightarrow> x)
        in if (case current of
                 None \<Rightarrow> False
               | Some cur \<Rightarrow> State cur = SessionStateClaimMissing \<or> IsSuccess (State cur))
           then (None, s, [])
           else
             let verdict = (case current of None \<Rightarrow> [] | Some cur \<Rightarrow> ClaimMissingVerdictFor (State cur))
             in case MarkClaimMissing S (e 1) sid verdict s of
                  (Some err, s1) \<Rightarrow> (Some (StoreErr err), s1, [])
                | (None, s1) \<Rightarrow>
                   (None, s1,
                    (case current of
                       Some cur \<Rightarrow>
                         map Counter (RecordClaimMissing (SupplierOperatorAddress cur) (ServiceID cur)
                           verdict (RelayCount cur) (sint (TotalComputeUnits cur)) (price c cur))
                     | None \<Rightarrow> [])
                    @ terminal c sid SessionStateClaimMissing))"

definition OnClaimDeferred ::
  "('e, 's) SessionStore \<Rightarrow> ('e, 's) SessionCoordinator \<Rightarrow> (nat \<Rightarrow> 'e) \<Rightarrow> string \<Rightarrow> 's \<Rightarrow> 's handled" where
  "OnClaimDeferred S c e sid s =
     (if coord_closed c then (Some CoordinatorClosed, s, [])
      else case UpdateState S (e 0) sid SessionStateActive s of
        (Some err, s1) \<Rightarrow> (Some (StoreErr err), s1, [])
      | (None, s1) \<Rightarrow> (None, s1, []))"

definition OnClaimSkipped ::
  "('e, 's) SessionStore \<Rightarrow> ('e, 's) SessionCoordinator \<Rightarrow> (nat \<Rightarrow> 'e) \<Rightarrow> string \<Rightarrow> 's \<Rightarrow> 's handled" where
  "OnClaimSkipped S c e sid s =
     (if coord_closed c then (Some CoordinatorClosed, s, [])
      else case UpdateState S (e 0) sid SessionStateClaimSkipped s of
        (Some err, s1) \<Rightarrow> (Some (StoreErr err), s1, [])
      | (None, s1) \<Rightarrow> (None, s1, terminal c sid SessionStateClaimSkipped))"

section \<open>The proof phase\<close>

definition OnProofSubmitted ::
  "('e, 's) SessionStore \<Rightarrow> ('e, 's) SessionCoordinator \<Rightarrow> (nat \<Rightarrow> 'e) \<Rightarrow> string \<Rightarrow> string \<Rightarrow> 's \<Rightarrow> 's handled" where
  "OnProofSubmitted S c e sid proofTxHash s =
     (if coord_closed c then (Some CoordinatorClosed, s, [])
      else case Get S (e 0) sid s of
        Inl err \<Rightarrow> (Some (StoreErr err), s, [])
      | Inr None \<Rightarrow> (Some (NoSuchSession sid), s, [])
      | Inr (Some snapshot) \<Rightarrow>
         (case Save S (e 1) (snapshot\<lparr>ProofTxHash := proofTxHash\<rparr>) s of
            ((Some err, _), s1) \<Rightarrow> (Some (StoreErr err), s1, [])
          | ((None, _), s1) \<Rightarrow> (None, s1, [])))"

definition OnSessionProved ::
  "('e, 's) SessionStore \<Rightarrow> ('e, 's) SessionCoordinator \<Rightarrow> (nat \<Rightarrow> 'e) \<Rightarrow> string \<Rightarrow> 's \<Rightarrow> 's handled" where
  "OnSessionProved S c e sid s =
     (if coord_closed c then (Some CoordinatorClosed, s, [])
      else let (_, s1) = UpdateState S (e 0) sid SessionStateProved s
           in (None, s1, terminal c sid SessionStateProved))"

definition OnProofObservedOnChain ::
  "('e, 's) SessionStore \<Rightarrow> ('e, 's) SessionCoordinator \<Rightarrow> (nat \<Rightarrow> 'e) \<Rightarrow> string \<Rightarrow> string \<Rightarrow> 's
   \<Rightarrow> (coord_error, Reactivation) result \<times> 's \<times> event list" where
  "OnProofObservedOnChain S c e sid proofTxHash s =
     (if coord_closed c then (Inl CoordinatorClosed, s, [])
      else case ReactivateProved S (e 0) sid proofTxHash s of
        (Inl err, s1) \<Rightarrow> (Inl (StoreErr err), s1, [])
      | (Inr r, s1) \<Rightarrow>
          (Inr r, s1, if From r \<noteq> [] then terminal c sid SessionStateProved else []))"

definition OnProofWindowClosed ::
  "('e, 's) SessionStore \<Rightarrow> ('e, 's) SessionCoordinator \<Rightarrow> (nat \<Rightarrow> 'e) \<Rightarrow> string \<Rightarrow> 's \<Rightarrow> 's handled" where
  "OnProofWindowClosed S c e sid s =
     (if coord_closed c then (Some CoordinatorClosed, s, [])
      else case UpdateState S (e 0) sid SessionStateProofWindowClosed s of
        (Some err, s1) \<Rightarrow> (Some (StoreErr err), s1, [])
      | (None, s1) \<Rightarrow> (None, s1, terminal c sid SessionStateProofWindowClosed))"

definition OnProofTxError ::
  "('e, 's) SessionStore \<Rightarrow> ('e, 's) SessionCoordinator \<Rightarrow> (nat \<Rightarrow> 'e) \<Rightarrow> string \<Rightarrow> 's \<Rightarrow> 's handled" where
  "OnProofTxError S c e sid s =
     (if coord_closed c then (Some CoordinatorClosed, s, [])
      else if (case Get S (e 0) sid s of
                 Inr (Some cur) \<Rightarrow> State cur = SessionStateProved
                    \<or> State cur = SessionStateProbabilisticProved \<or> ProofTxHash cur \<noteq> []
               | _ \<Rightarrow> False)
      then (None, s, [])
      else case UpdateState S (e 1) sid SessionStateProofTxError s of
        (Some err, s1) \<Rightarrow> (Some (StoreErr err), s1, [])
      | (None, s1) \<Rightarrow> (None, s1, terminal c sid SessionStateProofTxError))"

definition OnProofDeferred ::
  "('e, 's) SessionStore \<Rightarrow> ('e, 's) SessionCoordinator \<Rightarrow> (nat \<Rightarrow> 'e) \<Rightarrow> string \<Rightarrow> 's \<Rightarrow> 's handled" where
  "OnProofDeferred S c e sid s =
     (if coord_closed c then (Some CoordinatorClosed, s, [])
      else case Get S (e 0) sid s of
        Inl err \<Rightarrow> (Some (StoreErr err), s, [])
      | Inr None \<Rightarrow> (Some (NoSuchSession sid), s, [])
      | Inr (Some current) \<Rightarrow>
          if IsTerminal (State current) \<or> ProofTxHash current \<noteq> []
          then (Some (NotDeferred sid (State current)), s, [])
          else (case UpdateState S (e 1) sid SessionStateClaimed s of
                  (Some err, s1) \<Rightarrow> (Some (StoreErr err), s1, [])
                | (None, s1) \<Rightarrow> (None, s1, [])))"

definition OnProbabilisticProved ::
  "('e, 's) SessionStore \<Rightarrow> ('e, 's) SessionCoordinator \<Rightarrow> (nat \<Rightarrow> 'e) \<Rightarrow> string \<Rightarrow> 's \<Rightarrow> 's handled" where
  "OnProbabilisticProved S c e sid s =
     (if coord_closed c then (Some CoordinatorClosed, s, [])
      else case UpdateState S (e 0) sid SessionStateProbabilisticProved s of
        (Some err, s1) \<Rightarrow> (Some (StoreErr err), s1, [])
      | (None, s1) \<Rightarrow> (None, s1, terminal c sid SessionStateProbabilisticProved))"

section \<open>Sequences of handlers\<close>

text \<open>
  The handlers that act on a session once it exists, as one datatype, and a run of them: each step
  names its session and brings its own environments. \<open>claim_phase_failure\<close> are the reports that a claim
  did not make it.
\<close>

datatype coord_op =
    SessionClaimed string string
  | ClaimObserved string string
  | ClaimWindowClosedOp
  | ClaimTxErrorOp string
  | ClaimMissingOp
  | ClaimDeferredOp
  | ClaimSkippedOp
  | ProofSubmittedOp string
  | SessionProvedOp
  | ProofObserved string
  | ProofWindowClosedOp
  | ProofTxErrorOp
  | ProofDeferredOp
  | ProbabilisticProvedOp
  | RelayProcessedOp uint64

fun coord_step ::
  "('e, 's) SessionStore \<Rightarrow> ('e, 's) SessionCoordinator \<Rightarrow> (nat \<Rightarrow> 'e) \<Rightarrow> string \<Rightarrow> coord_op \<Rightarrow> 's \<Rightarrow> 's \<times> event list" where
  "coord_step S c e sid (SessionClaimed root h) s = snd (OnSessionClaimed S c e sid root h s)"
| "coord_step S c e sid (ClaimObserved root h) s = snd (OnClaimObservedOnChain S c e sid root h s)"
| "coord_step S c e sid ClaimWindowClosedOp s = snd (OnClaimWindowClosed S c e sid s)"
| "coord_step S c e sid (ClaimTxErrorOp verdict) s = snd (OnClaimTxError S c e sid verdict s)"
| "coord_step S c e sid ClaimMissingOp s = snd (OnClaimMissing S c e sid s)"
| "coord_step S c e sid ClaimDeferredOp s = snd (OnClaimDeferred S c e sid s)"
| "coord_step S c e sid ClaimSkippedOp s = snd (OnClaimSkipped S c e sid s)"
| "coord_step S c e sid (ProofSubmittedOp h) s = snd (OnProofSubmitted S c e sid h s)"
| "coord_step S c e sid SessionProvedOp s = snd (OnSessionProved S c e sid s)"
| "coord_step S c e sid (ProofObserved h) s = snd (OnProofObservedOnChain S c e sid h s)"
| "coord_step S c e sid ProofWindowClosedOp s = snd (OnProofWindowClosed S c e sid s)"
| "coord_step S c e sid ProofTxErrorOp s = snd (OnProofTxError S c e sid s)"
| "coord_step S c e sid ProofDeferredOp s = snd (OnProofDeferred S c e sid s)"
| "coord_step S c e sid ProbabilisticProvedOp s = snd (OnProbabilisticProved S c e sid s)"
| "coord_step S c e sid (RelayProcessedOp cu) s = snd (OnRelayProcessed S c e sid cu s)"

type_synonym 'e coord_call = "(nat \<Rightarrow> 'e) \<times> string \<times> coord_op"

fun coord_run ::
  "('e, 's) SessionStore \<Rightarrow> ('e, 's) SessionCoordinator \<Rightarrow> 'e coord_call list \<Rightarrow> 's \<Rightarrow> 's \<times> (string \<times> event) list" where
  "coord_run S c [] s = (s, [])"
| "coord_run S c ((e, sid, op) # calls) s =
     (let (s1, ev) = coord_step S c e sid op s; (s2, evs) = coord_run S c calls s1
      in (s2, map (Pair sid) ev @ evs))"

definition claim_phase_failure :: "coord_op \<Rightarrow> bool" where
  "claim_phase_failure op =
     (case op of ClaimWindowClosedOp \<Rightarrow> True | ClaimTxErrorOp _ \<Rightarrow> True | ClaimMissingOp \<Rightarrow> True | _ \<Rightarrow> False)"

text \<open>
  The lifecycle drops a terminal session from its tracking (the terminal callback removes it), so a
  claim-phase failure is reported for sessions that are not terminal only.
\<close>

fun disciplined ::
  "('e, 's) SessionStore \<Rightarrow> ('e, 's) SessionCoordinator \<Rightarrow> ('s \<Rightarrow> view) \<Rightarrow> 'e coord_call list \<Rightarrow> 's \<Rightarrow> bool" where
  "disciplined S c view [] s = True"
| "disciplined S c view ((e, sid, op) # calls) s =
     ((claim_phase_failure op
         \<longrightarrow> (case view s sid of None \<Rightarrow> True | Some p \<Rightarrow> \<not> IsTerminal (State p)))
      \<and> disciplined S c view calls (fst (coord_step S c e sid op s)))"

definition is_credit :: "event \<Rightarrow> bool" where
  "is_credit ev = (case ev of Counter (CounterAdd series _ _) \<Rightarrow> series = ''relaysClaimedTotal'' | _ \<Rightarrow> False)"

definition credits :: "event list \<Rightarrow> nat" where
  "credits evs = length (filter is_credit evs)"

text \<open>How many times a run put the session's money in the claimed book.\<close>

definition credits_of :: "string \<Rightarrow> (string \<times> event) list \<Rightarrow> nat" where
  "credits_of sid evs = credits (map snd (filter (\<lambda>x. fst x = sid) evs))"

subsection \<open>Which events credit\<close>

lemma credits_simps [simp]:
  "credits [] = 0"
  "credits (x # xs) = (if is_credit x then Suc (credits xs) else credits xs)"
  "credits (xs @ ys) = credits xs + credits ys"
  by (simp_all add: credits_def)

lemma is_credit_simps [simp]:
  "is_credit (Counter (CounterAdd series l n)) = (series = ''relaysClaimedTotal'')"
  "\<not> is_credit (CreatedCb snap)"
  "\<not> is_credit (TerminalCb i st)"
  by (simp_all add: is_credit_def)

lemma credits_terminal [simp]: "credits (terminal c sid st) = 0"
  by (simp add: terminal_def)

lemma credits_addUpokt:
  "series \<noteq> ''relaysClaimedTotal'' \<Longrightarrow> credits (map Counter (addUpokt series l su sv b cu u)) = 0"
  by (simp add: addUpokt_def)

lemmas failure_defs =
  RecordClaimMissing_def RecordClaimTxErrorVerdict_def RecordClaimTxError_def
  RecordClaimEjectedUnrecoverable_def recordSessionForgone_def recordSessionLoss_def
  recordSessionAttemptFailure_def RecordRevenueForgone_def RecordRevenueLost_def
  RecordReinstated_def RecordReinstatedAttempt_def

lemma credits_failures [simp]:
  "credits (map Counter (RecordClaimMissing su sv v n cu u)) = 0"
  "credits (map Counter (RecordClaimTxErrorVerdict su sv v n cu u)) = 0"
  "credits (map Counter (RecordReinstated su sv reason b n cu u)) = 0"
  "credits (map Counter (RecordReinstatedAttempt su sv reason)) = 0"
  by (simp_all add: failure_defs credits_addUpokt)

lemma credits_claimed [simp]: "credits (map Counter (RecordRevenueClaimed su sv cu n u)) = 1"
  by (simp add: RecordRevenueClaimed_def recordRevenueClaimed_def credits_addUpokt)

lemma credits_book:
  "credits (bookReactivation c before root r) \<le> 1"
  "\<not> CreditsClaimed r \<Longrightarrow> credits (bookReactivation c before root r) = 0"
  by (auto simp: bookReactivation_def creditClaimed_def Let_def split: sum.splits option.splits)

subsection \<open>A session whose money is in the claimed book\<close>

text \<open>
  \<open>booked\<close> is what the snapshot of a credited session looks like: no flip out of it credits again
  (\<open>booked_no_credit\<close>), and every write the handlers make keeps it.
\<close>

definition booked :: "SessionSnapshot \<Rightarrow> bool" where
  "booked p = ((HoldsClaimOnChain (State p) \<or> State p = SessionStateClaimMissing
                \<or> State p = SessionStateClaimSkipped)
               \<and> ClaimMissingVerdict p \<noteq> ClaimMissingForgone)"

definition settled :: "view \<Rightarrow> string \<Rightarrow> bool" where
  "settled v sid = (\<forall>p. v sid = Some p \<longrightarrow> booked p)"

lemma settled_other: "v' sid = v sid \<Longrightarrow> settled v' sid = settled v sid"
  by (simp add: settled_def)

lemma noReactivation_no_credit [simp]: "\<not> CreditsClaimed noReactivation"
  by (simp add: CreditsClaimed_def noReactivation_def)

lemma booked_reactivates_missing: "booked p \<Longrightarrow> canReactivateClaimed (State p) \<Longrightarrow> State p = SessionStateClaimMissing"
  using reactivate_claimed_no_claim [of "State p"] by (auto simp: booked_def canReactivateClaimed_def)

lemma booked_no_credit:
  assumes "booked p" and "spec_ReactivateClaimed sid root h (Some p) = Inr (r, q)"
  shows "\<not> CreditsClaimed r"
proof (cases "canReactivateClaimed (State p)")
  case True
  with assms(1) have "State p = SessionStateClaimMissing" by (rule booked_reactivates_missing)
  moreover have "ClaimMissingVerdict p \<noteq> ClaimMissingForgone" using assms(1) by (simp add: booked_def)
  moreover have "From r = State p" "ReVerdict r = ClaimMissingVerdict p"
    using assms(2) True by (auto simp: spec_ReactivateClaimed_def)
  ultimately show ?thesis by (simp add: CreditsClaimed_def ReinstatedBook_def)
next
  case False
  then show ?thesis using assms(2) by (auto simp: spec_ReactivateClaimed_def)
qed

lemma reactivated_booked:
  assumes "spec_ReactivateClaimed sid root h (Some p) = Inr (r, Some q)"
    and "CreditsClaimed r \<or> booked p"
  shows "booked q"
proof (cases "canReactivateClaimed (State p)")
  case True
  then show ?thesis using assms(1) by (auto simp: spec_ReactivateClaimed_def booked_def HoldsClaimOnChain_def)
next
  case False
  then show ?thesis using assms by (auto simp: spec_ReactivateClaimed_def)
qed

lemma reactivateClaimed_Some:
  "spec_ReactivateClaimed sid root h p = Inr (r, q) \<Longrightarrow> \<exists>p' q'. p = Some p' \<and> q = Some q'"
  by (auto simp: spec_ReactivateClaimed_def split: option.splits if_splits)

lemma no_session_no_flip: "spec_ReactivateClaimed sid root h None \<noteq> Inr x"
  by (simp add: spec_ReactivateClaimed_def)

text \<open>The state writes of the handlers keep a booked session booked.\<close>

lemma updateState_cases:
  assumes "spec_updateState sid st v (Some p) = Inr (b, Some q)"
  shows "checkStateWrite p st = None
    \<and> (State p = st \<and> q = p
       \<or> q = p\<lparr>State := st, ClaimMissingVerdict := (if v = [] then ClaimMissingVerdict p else v)\<rparr>)"
  using assms by (auto simp: spec_updateState_def split: if_splits option.splits)

lemma checkStateWrite_refuses:
  "checkStateWrite p SessionStateActive = None \<Longrightarrow> State p = SessionStateClaiming"
  "checkStateWrite p SessionStateClaimWindowClosed = None \<Longrightarrow> \<not> HoldsClaimOnChain (State p)"
  "checkStateWrite p SessionStateClaimTxError = None \<Longrightarrow> \<not> HoldsClaimOnChain (State p)"
  by (auto simp: checkStateWrite_def split: if_splits)

lemma booked_not_claiming: "booked p \<Longrightarrow> State p \<noteq> SessionStateClaiming"
  by (auto simp: booked_def HoldsClaimOnChain_def)

lemma booked_not_terminal: "booked p \<Longrightarrow> \<not> IsTerminal (State p) \<Longrightarrow> HoldsClaimOnChain (State p)"
  by (auto simp: booked_def IsTerminal_def)

definition keeps_booked :: "SessionState \<Rightarrow> bool \<Rightarrow> bool" where
  "keeps_booked st ended =
     (HoldsClaimOnChain st \<or> st = SessionStateClaimMissing \<or> st = SessionStateClaimSkipped
      \<or> st = SessionStateActive
      \<or> (st = SessionStateClaimWindowClosed \<or> st = SessionStateClaimTxError) \<and> \<not> ended)"

lemma updateState_booked:
  assumes p: "booked p" and q: "spec_updateState sid st v (Some p) = Inr (b, Some q)"
    and st: "keeps_booked st (IsTerminal (State p))" and v: "v \<noteq> ClaimMissingForgone"
  shows "booked q"
proof -
  have chk: "checkStateWrite p st = None" using updateState_cases [OF q] by blast
  have "st \<noteq> SessionStateActive" using chk checkStateWrite_refuses(1) [of p] booked_not_claiming [OF p] by auto
  moreover have "\<not> ((st = SessionStateClaimWindowClosed \<or> st = SessionStateClaimTxError) \<and> \<not> IsTerminal (State p))"
    using chk checkStateWrite_refuses(2,3) [of p] booked_not_terminal [OF p] by auto
  ultimately have "HoldsClaimOnChain st \<or> st = SessionStateClaimMissing \<or> st = SessionStateClaimSkipped"
    using st unfolding keeps_booked_def by blast
  moreover have "ClaimMissingVerdict p \<noteq> ClaimMissingForgone" using p by (simp add: booked_def)
  ultimately show ?thesis using updateState_cases [OF q] p v by (auto simp: booked_def split: if_splits)
qed

lemma updateState_None: "spec_updateState sid st v None \<noteq> Inr x"
  by (simp add: spec_updateState_def)

lemma drop_flag_Inr: "drop_flag f p = Inr (x, q) \<longleftrightarrow> (\<exists>b. f p = Inr (b, q))"
  by (auto simp: drop_flag_def split: sum.splits)

lemma updateState_Some: "spec_updateState sid st v p = Inr (b, q) \<Longrightarrow> \<exists>p' q'. p = Some p' \<and> q = Some q'"
  by (auto simp: spec_updateState_def split: option.splits if_splits)

lemma meets_settled:
  assumes "meets f l sid v r v'" and "settled v sid"
    and "\<And>x q. f (if l then v sid else None) = Inr (x, Some q) \<Longrightarrow> booked q"
  shows "settled v' sid"
proof (unfold settled_def, intro allI impI)
  fix q assume q: "v' sid = Some q"
  show "booked q"
  proof (cases "v' sid = v sid")
    case True
    then show ?thesis using assms(2) q by (simp add: settled_def)
  next
    case False
    with meets_at [OF assms(1)] have "\<exists>x. f (if l then v sid else None) = Inr (x, v' sid)" by simp
    then obtain x where "f (if l then v sid else None) = Inr (x, v' sid)" ..
    then show ?thesis using assms(3) [of x q] q by simp
  qed
qed

text \<open>What a step of the coordinator does to the claimed book, with \<open>n\<close> credits made by the step.\<close>

definition good_step :: "view \<Rightarrow> string \<Rightarrow> view \<Rightarrow> nat \<Rightarrow> bool" where
  "good_step v sid v' n =
     ((\<forall>i. i \<noteq> sid \<longrightarrow> v' i = v i) \<and> n \<le> 1 \<and> (settled v sid \<longrightarrow> settled v' sid \<and> n = 0)
      \<and> (n = 1 \<longrightarrow> settled v' sid))"

lemma good_step_refl [simp]: "good_step v sid v 0"
  by (simp add: good_step_def)

lemma good_meets:
  assumes "meets f l sid v r v'"
    and "\<And>x q. settled v sid \<Longrightarrow> f (if l then v sid else None) = Inr (x, Some q) \<Longrightarrow> booked q"
  shows "good_step v sid v' 0"
proof -
  have "settled v sid \<Longrightarrow> settled v' sid" using meets_settled [OF assms(1) _ assms(2)] .
  then show ?thesis using meets_other [OF assms(1)] by (simp add: good_step_def)
qed

lemma good_update:
  assumes "meets (spec_updateState sid st vd) l sid v r v'"
    and "\<And>p. v sid = Some p \<Longrightarrow> keeps_booked st (IsTerminal (State p))"
    and "settled v sid \<Longrightarrow> l \<Longrightarrow> vd \<noteq> ClaimMissingForgone"
  shows "good_step v sid v' 0"
proof (rule good_meets [OF assms(1)])
  fix x q assume st: "settled v sid" and q: "spec_updateState sid st vd (if l then v sid else None) = Inr (x, Some q)"
  then obtain p where p: "l" "v sid = Some p" using updateState_Some [OF q] by (auto split: if_splits)
  with st have "booked p" by (simp add: settled_def)
  from updateState_booked [OF this _ assms(2) [OF p(2)] assms(3) [OF st p(1)]] q p show "booked q" by simp
qed

lemma meets_drop_flag:
  assumes "meets (drop_flag f) l sid v r v'"
  shows "\<exists>r'. meets f l sid v r' v'"
proof (cases r)
  case (Inr x)
  then show ?thesis using assms by (fastforce simp: meets_def Let_def drop_flag_Inr intro: exI [of _ "Inr _"])
next
  case (Inl e)
  show ?thesis
  proof (cases "is_store_failure e")
    case True
    then show ?thesis using assms Inl
      by (intro exI [of _ "Inl e"]) (auto simp: meets_def Let_def drop_flag_Inr)
  next
    case False
    then show ?thesis using assms Inl
      by (intro exI [of _ "Inl e"]) (auto simp: meets_def Let_def drop_flag_def split: sum.splits)
  qed
qed

lemma good_update_drop:
  assumes "meets (drop_flag (spec_updateState sid st vd)) l sid v r v'"
    and "\<And>p. v sid = Some p \<Longrightarrow> keeps_booked st (IsTerminal (State p))"
    and "settled v sid \<Longrightarrow> l \<Longrightarrow> vd \<noteq> ClaimMissingForgone"
  shows "good_step v sid v' 0"
proof -
  from meets_drop_flag [OF assms(1)] obtain r' where "meets (spec_updateState sid st vd) l sid v r' v'" ..
  from good_update [OF this assms(2,3)] show ?thesis by simp
qed

subsection \<open>Every handler keeps the claimed book\<close>

text \<open>
  What the created callback must keep: handed a snapshot the store holds, it leaves the sessions as
  they are (\<open>TrackSession\<close> saves the snapshot it is given).
\<close>

definition callback_ok ::
  "('s \<Rightarrow> view) \<Rightarrow> ('s \<Rightarrow> bool) \<Rightarrow> ('e \<Rightarrow> bool) \<Rightarrow> ('e, 's) SessionCoordinator \<Rightarrow> bool" where
  "callback_ok view good env c =
     (\<forall>cb. onSessionCreated c = Some cb \<longrightarrow>
        (\<forall>e snap s. env e \<longrightarrow> good s \<longrightarrow> view s (SessionID snap) = Some (canon snap) \<longrightarrow>
           good (snd (cb e snap s)) \<and> view (snd (cb e snap s)) = view s))"

lemma booked_canon: "State q = State p \<Longrightarrow> ClaimMissingVerdict q = ClaimMissingVerdict p \<Longrightarrow> booked q = booked p"
  by (simp add: booked_def)

context session_store
begin

lemma Get_Some: "\<lbrakk>inv s; env e; sids sid; Get S e sid s = Inr (Some x)\<rbrakk> \<Longrightarrow> live e s sid \<and> view s sid = Some (canon x)"
  using Get_ok [of s e sid "Some x"] by (auto split: if_splits)

lemma good_update_state:
  assumes "inv s" "env e" "sids sid" "UpdateState S e sid st s = (err, s')"
    and "\<And>p. view s sid = Some p \<Longrightarrow> keeps_booked st (IsTerminal (State p))"
  shows "inv s' \<and> good_step (view s) sid (view s') 0"
proof -
  have m: "meets (drop_flag (spec_updateState sid st [])) (live e s sid) sid (view s) (unit_result err) (view s')"
    and i: "inv s'" using UpdateState_ok [OF assms(1-4)] by blast+
  have "good_step (view s) sid (view s') 0" by (rule good_update_drop [OF m assms(5)]) simp_all
  with i show ?thesis by simp
qed

lemma good_flip:
  assumes "inv s" "env e" "sids sid" "ReactivateClaimed S e sid root h s = (Inr r, s')"
  shows "inv s' \<and> good_step (view s) sid (view s') (if CreditsClaimed r then 1 else 0)"
proof -
  let ?prev = "if live e s sid then view s sid else None"
  have m: "meets (spec_ReactivateClaimed sid root h) (live e s sid) sid (view s) (Inr r) (view s')"
    and i: "inv s'" using ReactivateClaimed_ok [OF assms] by blast+
  from meets_Inr [OF m] have f: "spec_ReactivateClaimed sid root h ?prev = Inr (r, view s' sid)" .
  then obtain p where prev: "?prev = Some p" using no_session_no_flip by (cases ?prev) auto
  then have p: "view s sid = Some p" by (simp split: if_splits)
  from f prev have f': "spec_ReactivateClaimed sid root h (Some p) = Inr (r, view s' sid)" by simp
  then obtain q where q: "view s' sid = Some q" using reactivateClaimed_Some by blast
  have "CreditsClaimed r \<or> booked p \<Longrightarrow> booked q" using reactivated_booked f' q by simp
  moreover have "booked p \<Longrightarrow> \<not> CreditsClaimed r" using booked_no_credit f' by blast
  ultimately show ?thesis using meets_other [OF m] i p q by (auto simp: good_step_def settled_def)
qed

lemma good_flip_book:
  assumes "inv s" "env e" "sids sid" "ReactivateClaimed S e sid root h s = (Inr r, s')"
  shows "inv s' \<and> good_step (view s) sid (view s') (credits (bookReactivation c before root r))"
proof (cases "CreditsClaimed r")
  case True
  then show ?thesis using good_flip [OF assms] credits_book(1) [of c before root r]
    by (auto simp: good_step_def)
next
  case False
  then show ?thesis using good_flip [OF assms] credits_book(2) [of r c before root] by simp
qed

lemma good_flip_failed:
  assumes "inv s" "env e" "sids sid" "ReactivateClaimed S e sid root h s = (Inl err, s')"
  shows "inv s' \<and> good_step (view s) sid (view s') 0"
proof -
  have m: "meets (spec_ReactivateClaimed sid root h) (live e s sid) sid (view s) (Inl err) (view s')"
    and i: "inv s'" using ReactivateClaimed_ok [OF assms] by blast+
  have "good_step (view s) sid (view s') 0"
  proof (rule good_meets [OF m])
    fix x q assume st: "settled (view s) sid"
      and f: "spec_ReactivateClaimed sid root h (if live e s sid then view s sid else None) = Inr (x, Some q)"
    then obtain p where "(if live e s sid then view s sid else None) = Some p"
      using no_session_no_flip by (cases "if live e s sid then view s sid else None") auto
    then show "booked q" using f st reactivated_booked [of sid root h p x q]
      by (auto simp: settled_def split: if_splits)
  qed
  with i show ?thesis by simp
qed

lemma step_claimed:
  assumes "inv s" "\<And>i. env (e i)" "sids sid" "OnSessionClaimed S c e sid root h s = (err, s', ev)"
  shows "inv s' \<and> good_step (view s) sid (view s') (credits ev)"
  using assms(1,4)
  by (auto simp: OnSessionClaimed_def split: if_splits sum.splits option.splits prod.splits
      dest: good_flip_book [OF assms(1-3)] good_flip_failed [OF assms(1-3)])

lemma step_window_closed:
  assumes "inv s" "\<And>i. env (e i)" "sids sid" "OnClaimWindowClosed S c e sid s = (err, s', ev)"
    and "\<And>p. view s sid = Some p \<Longrightarrow> \<not> IsTerminal (State p)"
  shows "inv s' \<and> good_step (view s) sid (view s') (credits ev)"
  using assms good_update_state [OF assms(1) assms(2) [of 0] assms(3)]
  by (auto simp: OnClaimWindowClosed_def keeps_booked_def split: if_splits prod.splits option.splits)

end

text \<open>The remaining handlers, one lemma each.\<close>

lemma reactivateProved_booked:
  assumes "booked p" "spec_ReactivateProved sid h (Some p) = Inr (r, Some q)"
  shows "booked q"
  using assms by (auto simp: spec_ReactivateProved_def booked_def HoldsClaimOnChain_def split: if_splits)

lemma good_counted: "counted v sid v' \<Longrightarrow> good_step v sid v' 0"
  by (auto simp: counted_def good_step_def settled_def booked_def)

context session_store
begin

lemmas handler_splits = if_splits prod.splits option.splits sum.splits

lemma step_simple_updates:
  assumes "inv s" "\<And>i. env (e i)" "sids sid"
  shows "OnClaimDeferred S c e sid s = (err, s', ev) \<Longrightarrow> inv s' \<and> good_step (view s) sid (view s') (credits ev)"
    and "OnClaimSkipped S c e sid s = (err, s', ev) \<Longrightarrow> inv s' \<and> good_step (view s) sid (view s') (credits ev)"
    and "OnSessionProved S c e sid s = (err, s', ev) \<Longrightarrow> inv s' \<and> good_step (view s) sid (view s') (credits ev)"
    and "OnProofWindowClosed S c e sid s = (err, s', ev) \<Longrightarrow> inv s' \<and> good_step (view s) sid (view s') (credits ev)"
    and "OnProofTxError S c e sid s = (err, s', ev) \<Longrightarrow> inv s' \<and> good_step (view s) sid (view s') (credits ev)"
    and "OnProofDeferred S c e sid s = (err, s', ev) \<Longrightarrow> inv s' \<and> good_step (view s) sid (view s') (credits ev)"
    and "OnProbabilisticProved S c e sid s = (err, s', ev) \<Longrightarrow> inv s' \<and> good_step (view s) sid (view s') (credits ev)"
proof -
  have k: "\<And>b. keeps_booked SessionStateActive b" "\<And>b. keeps_booked SessionStateClaimSkipped b"
    "\<And>b. keeps_booked SessionStateProved b" "\<And>b. keeps_booked SessionStateProofWindowClosed b"
    "\<And>b. keeps_booked SessionStateProofTxError b" "\<And>b. keeps_booked SessionStateClaimed b"
    "\<And>b. keeps_booked SessionStateProbabilisticProved b"
    by (simp_all add: keeps_booked_def HoldsClaimOnChain_def)
  note u = good_update_state [OF assms]
  show "OnClaimDeferred S c e sid s = (err, s', ev) \<Longrightarrow> inv s' \<and> good_step (view s) sid (view s') (credits ev)"
    using assms(1) by (auto simp: OnClaimDeferred_def k dest: u split: handler_splits)
  show "OnClaimSkipped S c e sid s = (err, s', ev) \<Longrightarrow> inv s' \<and> good_step (view s) sid (view s') (credits ev)"
    using assms(1) by (auto simp: OnClaimSkipped_def k dest: u split: handler_splits)
  show "OnSessionProved S c e sid s = (err, s', ev) \<Longrightarrow> inv s' \<and> good_step (view s) sid (view s') (credits ev)"
    using assms(1) by (auto simp: OnSessionProved_def k dest: u split: handler_splits)
  show "OnProofWindowClosed S c e sid s = (err, s', ev) \<Longrightarrow> inv s' \<and> good_step (view s) sid (view s') (credits ev)"
    using assms(1) by (auto simp: OnProofWindowClosed_def k dest: u split: handler_splits)
  show "OnProofTxError S c e sid s = (err, s', ev) \<Longrightarrow> inv s' \<and> good_step (view s) sid (view s') (credits ev)"
    using assms(1) by (auto simp: OnProofTxError_def k dest: u split: handler_splits)
  show "OnProofDeferred S c e sid s = (err, s', ev) \<Longrightarrow> inv s' \<and> good_step (view s) sid (view s') (credits ev)"
    using assms(1) by (auto simp: OnProofDeferred_def k dest: u split: handler_splits)
  show "OnProbabilisticProved S c e sid s = (err, s', ev) \<Longrightarrow> inv s' \<and> good_step (view s) sid (view s') (credits ev)"
    using assms(1) by (auto simp: OnProbabilisticProved_def k dest: u split: handler_splits)
qed

lemma step_proof_observed:
  assumes "inv s" "\<And>i. env (e i)" "sids sid" "OnProofObservedOnChain S c e sid h s = (r, s', ev)"
  shows "inv s' \<and> good_step (view s) sid (view s') (credits ev)"
proof -
  have "inv s1 \<and> good_step (view s) sid (view s1) 0" if "ReactivateProved S (e 0) sid h s = (r1, s1)" for r1 s1
  proof -
    have m: "meets (spec_ReactivateProved sid h) (live (e 0) s sid) sid (view s) r1 (view s1)"
      and i: "inv s1" using ReactivateProved_ok [OF assms(1-3) that] by blast+
    have "good_step (view s) sid (view s1) 0"
    proof (rule good_meets [OF m])
      fix x q assume "settled (view s) sid"
        and "spec_ReactivateProved sid h (if live (e 0) s sid then view s sid else None) = Inr (x, Some q)"
      then show "booked q" using reactivateProved_booked
        by (cases "if live (e 0) s sid then view s sid else None")
           (auto simp: spec_ReactivateProved_def settled_def split: if_splits)
    qed
    with i show ?thesis by simp
  qed
  then show ?thesis using assms(1,4)
    by (auto simp: OnProofObservedOnChain_def split: handler_splits)
qed

end

context session_store
begin

lemma step_relay:
  assumes "inv s" "\<And>i. env (e i)" "sids sid" "OnRelayProcessed S c e sid cu s = (err, s', ev)"
  shows "inv s' \<and> good_step (view s) sid (view s') (credits ev)"
proof -
  have "inv s1 \<and> good_step (view s) sid (view s1) 0" if "IncrementRelayCount S (e 0) sid cu s = (r1, s1)" for r1 s1
    using IncrementRelayCount_frame [OF assms(1-3) that] good_counted by blast
  then show ?thesis using assms(1,4) by (auto simp: OnRelayProcessed_def split: handler_splits)
qed

lemma Get_settled:
  assumes "inv s" "env e" "sids sid" "Get S e sid s = Inr (Some x)" "settled (view s) sid"
  shows "booked x"
  using Get_Some [OF assms(1-4)] assms(5) by (auto simp: settled_def booked_def)

lemma step_proof_submitted:
  assumes "inv s" "\<And>i. env (e i)" "sids sid" "OnProofSubmitted S c e sid h s = (err, s', ev)"
  shows "inv s' \<and> good_step (view s) sid (view s') (credits ev)"
proof -
  have "inv s1 \<and> good_step (view s) sid (view s1) 0"
    if g: "Get S (e 0) sid s = Inr (Some x)"
      and sv: "Save S (e 1) (x\<lparr>ProofTxHash := h\<rparr>) s = ((er, x'), s1)" for x er x' s1
  proof -
    have id: "SessionID x = sid" "arg x" using Get_id [OF assms(1-3) g] by auto
    from Save_ok [OF assms(1,2) arg_hash [OF id(2)] sv] id
    have m: "meets (spec_Save (x\<lparr>ProofTxHash := h\<rparr>)) (live (e 1) s sid) sid (view s) (unit_result er) (view s1)"
      and i: "inv s1" by simp_all
    have "good_step (view s) sid (view s1) 0"
    proof (rule good_meets [OF m])
      fix y q assume st: "settled (view s) sid"
        and q: "spec_Save (x\<lparr>ProofTxHash := h\<rparr>) (if live (e 1) s sid then view s sid else None) = Inr (y, Some q)"
      from Get_settled [OF assms(1-3) g st] have "booked x" .
      then show "booked q" using q by (auto simp: spec_Save_def booked_def split: option.splits)
    qed
    with i show ?thesis by simp
  qed
  then show ?thesis using assms(1,4)
    by (auto simp: OnProofSubmitted_def split: handler_splits)
qed

lemma good_mark_tx_error:
  assumes "inv s" "env e" "sids sid" "MarkClaimTxError S e sid vd s = (r, s')"
    and "\<And>p. view s sid = Some p \<Longrightarrow> \<not> IsTerminal (State p)"
  shows "inv s' \<and> good_step (view s) sid (view s') 0"
proof -
  have m: "meets (spec_updateState sid SessionStateClaimTxError vd) (live e s sid) sid (view s) r (view s')"
    and i: "inv s'" using MarkClaimTxError_ok [OF assms(1-4)] by blast+
  have "good_step (view s) sid (view s') 0"
  proof (rule good_meets [OF m])
    fix x q assume st: "settled (view s) sid"
      and q: "spec_updateState sid SessionStateClaimTxError vd (if live e s sid then view s sid else None) = Inr (x, Some q)"
    from updateState_Some [OF q] obtain p where p: "view s sid = Some p"
      and l: "(if live e s sid then view s sid else None) = Some p" by (auto split: if_splits)
    have "checkStateWrite p SessionStateClaimTxError = None" using q l by (auto dest: updateState_cases)
    then have "\<not> HoldsClaimOnChain (State p)" by (rule checkStateWrite_refuses(3))
    moreover have "booked p" using st p by (simp add: settled_def)
    ultimately show "booked q" using booked_not_terminal assms(5) [OF p] by blast
  qed
  with i show ?thesis by simp
qed

lemma step_tx_error:
  assumes "inv s" "\<And>i. env (e i)" "sids sid" "OnClaimTxError S c e sid vd s = (err, s', ev)"
    and "\<And>p. view s sid = Some p \<Longrightarrow> \<not> IsTerminal (State p)"
  shows "inv s' \<and> good_step (view s) sid (view s') (credits ev)"
  using assms(1,4)
  by (auto simp: OnClaimTxError_def Let_def split: handler_splits
      dest: good_mark_tx_error [OF assms(1-3) _ assms(5)])

lemma step_missing:
  assumes "inv s" "\<And>i. env (e i)" "sids sid" "OnClaimMissing S c e sid s = (err, s', ev)"
    and nt: "\<And>p. view s sid = Some p \<Longrightarrow> \<not> IsTerminal (State p)"
  shows "inv s' \<and> good_step (view s) sid (view s') (credits ev)"
proof -
  let ?cur = "case Get S (e 0) sid s of Inl _ \<Rightarrow> None | Inr x \<Rightarrow> x"
  let ?vd = "case ?cur of None \<Rightarrow> [] | Some cur \<Rightarrow> ClaimMissingVerdictFor (State cur)"
  have vd: "?vd \<noteq> ClaimMissingForgone" if st: "settled (view s) sid"
  proof (cases ?cur)
    case (Some x)
    then have g: "Get S (e 0) sid s = Inr (Some x)" by (auto split: sum.splits)
    have "booked x" using Get_settled [OF assms(1-3) g st] .
    moreover have "\<not> IsTerminal (State x)" using nt Get_Some [OF assms(1-3) g] by simp
    ultimately show ?thesis using Some booked_not_terminal by (simp add: ClaimMissingVerdictFor_def)
  qed simp
  have mark: "inv s1 \<and> good_step (view s) sid (view s1) 0" if "MarkClaimMissing S (e 1) sid ?vd s = (r1, s1)" for r1 s1
  proof -
    have m: "meets (drop_flag (spec_updateState sid SessionStateClaimMissing ?vd)) (live (e 1) s sid) sid
               (view s) (unit_result r1) (view s1)"
      and i: "inv s1" using MarkClaimMissing_ok [OF assms(1-3) that] by blast+
    have "good_step (view s) sid (view s1) 0"
      by (rule good_update_drop [OF m]) (auto simp: keeps_booked_def vd)
    with i show ?thesis by simp
  qed
  show ?thesis
  proof (cases "MarkClaimMissing S (e 1) sid ?vd s")
    case (Pair r1 s1)
    with mark [OF Pair] show ?thesis using assms(1,4)
      by (auto simp: OnClaimMissing_def Let_def split: if_splits option.splits)
  qed
qed

end

context session_store
begin

lemma step_observed:
  assumes "inv s" "\<And>i. env (e i)" "sids sid" "OnClaimObservedOnChain S c e sid root h s = (err, s', ev)"
    and cb: "callback_ok view inv env c"
  shows "inv s' \<and> good_step (view s) sid (view s') (credits ev)"
proof -
  have callback: "inv (snd (f (e 3) x s1)) \<and> view (snd (f (e 3) x s1)) = view s1"
    if "onSessionCreated c = Some f" "inv s1" "Get S (e 2) sid s1 = Inr (Some x)" for f s1 x
    using cb that assms(2) Get_Some [OF that(2) assms(2,3) that(3)] Get_id [OF that(2) assms(2,3) that(3)]
    unfolding callback_ok_def by simp
  show ?thesis
  proof (cases "ReactivateClaimed S (e 1) sid root h s")
    case (Pair re s1)
    show ?thesis
    proof (cases re)
      case (Inl er)
      with Pair have "inv s1 \<and> good_step (view s) sid (view s1) 0"
        using good_flip_failed [OF assms(1-3)] by simp
      then show ?thesis using assms(1,4) Pair Inl
        by (auto simp: OnClaimObservedOnChain_def Let_def split: if_splits)
    next
      case (Inr r)
      let ?b = "bookReactivation c (Get S (e 0) sid s) root r"
      have g: "inv s1 \<and> good_step (view s) sid (view s1) (credits ?b)"
        using good_flip_book [OF assms(1-3)] Pair Inr by simp
      show ?thesis
      proof (cases "coord_closed c \<or> length root \<noteq> SMSTRootLen")
        case True
        then show ?thesis using assms(1,4) by (auto simp: OnClaimObservedOnChain_def split: if_splits)
      next
        case False
        have "credits ev = credits ?b \<and> (s' = s1 \<or>
                (\<exists>f x. onSessionCreated c = Some f \<and> Get S (e 2) sid s1 = Inr (Some x) \<and> s' = snd (f (e 3) x s1)))"
          using assms(4) False Pair Inr
          by (auto simp: OnClaimObservedOnChain_def Let_def split: if_splits option.splits sum.splits prod.splits)
        then show ?thesis using g callback by auto
      qed
    qed
  qed
qed

lemma step_ok:
  assumes i: "inv s" and e: "\<And>i. env (e i)" and sd: "sids sid" and cb: "callback_ok view inv env c"
    and step: "coord_step S c e sid op s = (s', ev)"
    and d: "claim_phase_failure op \<Longrightarrow> (case view s sid of None \<Rightarrow> True | Some p \<Rightarrow> \<not> IsTerminal (State p))"
  shows "inv s' \<and> good_step (view s) sid (view s') (credits ev)"
proof -
  have nt: "\<not> IsTerminal (State p)" if "claim_phase_failure op" "view s sid = Some p" for p
    using d that by simp
  note updates = step_simple_updates [OF i e sd]
  show ?thesis
  proof (cases op)
    case (SessionClaimed root h)
    then show ?thesis using step step_claimed [OF i e sd] by (cases "OnSessionClaimed S c e sid root h s") auto
  next
    case (ClaimObserved root h)
    then show ?thesis using step step_observed [OF i e sd _ cb] by (cases "OnClaimObservedOnChain S c e sid root h s") auto
  next
    case ClaimWindowClosedOp
    then show ?thesis using step nt step_window_closed [OF i e sd]
      by (cases "OnClaimWindowClosed S c e sid s") (auto simp: claim_phase_failure_def)
  next
    case (ClaimTxErrorOp v)
    then show ?thesis using step nt step_tx_error [OF i e sd]
      by (cases "OnClaimTxError S c e sid v s") (auto simp: claim_phase_failure_def)
  next
    case ClaimMissingOp
    then show ?thesis using step nt step_missing [OF i e sd]
      by (cases "OnClaimMissing S c e sid s") (auto simp: claim_phase_failure_def)
  next
    case ClaimDeferredOp
    then show ?thesis using step updates(1) by (cases "OnClaimDeferred S c e sid s") auto
  next
    case ClaimSkippedOp
    then show ?thesis using step updates(2) by (cases "OnClaimSkipped S c e sid s") auto
  next
    case (ProofSubmittedOp h)
    then show ?thesis using step step_proof_submitted [OF i e sd] by (cases "OnProofSubmitted S c e sid h s") auto
  next
    case SessionProvedOp
    then show ?thesis using step updates(3) by (cases "OnSessionProved S c e sid s") auto
  next
    case (ProofObserved h)
    then show ?thesis using step step_proof_observed [OF i e sd] by (cases "OnProofObservedOnChain S c e sid h s") auto
  next
    case ProofWindowClosedOp
    then show ?thesis using step updates(4) by (cases "OnProofWindowClosed S c e sid s") auto
  next
    case ProofTxErrorOp
    then show ?thesis using step updates(5) by (cases "OnProofTxError S c e sid s") auto
  next
    case ProofDeferredOp
    then show ?thesis using step updates(6) by (cases "OnProofDeferred S c e sid s") auto
  next
    case ProbabilisticProvedOp
    then show ?thesis using step updates(7) by (cases "OnProbabilisticProved S c e sid s") auto
  next
    case (RelayProcessedOp cu)
    then show ?thesis using step step_relay [OF i e sd] by (cases "OnRelayProcessed S c e sid cu s") auto
  qed
qed

end

lemma credits_of_simps [simp]:
  "credits_of sid [] = 0"
  "credits_of sid (xs @ ys) = credits_of sid xs + credits_of sid ys"
  "credits_of sid (map (Pair sid') ev) = (if sid' = sid then credits ev else 0)"
  by (simp_all add: credits_of_def filter_map comp_def)

definition calls_env :: "('e \<Rightarrow> bool) \<Rightarrow> (string \<Rightarrow> bool) \<Rightarrow> 'e coord_call list \<Rightarrow> bool" where
  "calls_env env sids calls = (\<forall>(e, sid, op) \<in> set calls. sids sid \<and> (\<forall>i. env (e i)))"

lemma calls_env_Cons [simp]:
  "calls_env env sids ((e, sid, op) # calls) = (sids sid \<and> (\<forall>i. env (e i)) \<and> calls_env env sids calls)"
  by (simp add: calls_env_def)

context session_store
begin

lemma run_credits:
  assumes "inv s" "callback_ok view inv env c" "calls_env env sids calls" "disciplined S c view calls s"
    and "coord_run S c calls s = (s', evs)"
  shows "inv s' \<and> credits_of sid evs \<le> 1 \<and> (settled (view s) sid \<longrightarrow> credits_of sid evs = 0)"
  using assms
proof (induction calls arbitrary: s s' evs)
  case Nil
  then show ?case by simp
next
  case (Cons call calls)
  obtain e i op where call: "call = (e, i, op)" by (cases call)
  obtain s1 ev where step: "coord_step S c e i op s = (s1, ev)" by (cases "coord_step S c e i op s")
  obtain s2 evs2 where rest: "coord_run S c calls s1 = (s2, evs2)" by (cases "coord_run S c calls s1")
  have g: "inv s1 \<and> good_step (view s) i (view s1) (credits ev)"
    using step_ok [OF Cons.prems(1) _ _ Cons.prems(2) step] Cons.prems(3,4) call by simp
  have IH: "inv s2 \<and> credits_of sid evs2 \<le> 1 \<and> (settled (view s1) sid \<longrightarrow> credits_of sid evs2 = 0)"
    using Cons.IH [OF _ Cons.prems(2) _ _ rest] Cons.prems(3,4) g call step by simp
  have out: "s' = s2" "evs = map (Pair i) ev @ evs2" using Cons.prems(5) call step rest by simp_all
  show ?case
  proof (cases "i = sid")
    case True
    then show ?thesis using g IH out by (auto simp: good_step_def)
  next
    case False
    then have "view s1 sid = view s sid" using g by (auto simp: good_step_def)
    then have "settled (view s1) sid = settled (view s) sid" by (rule settled_other)
    then show ?thesis using False IH out by simp
  qed
qed

end

end
