(* ===== verification/Session_Money.thy ===== *)
theory Session_Money
  imports Session_Coordinator
begin

text \<open>
  What a run of the coordinator adds to a counter series, and that reinstating a session takes back
  exactly what declaring its claim missing had counted. The lemmas are proved once over any store that
  keeps the contract.
\<close>

definition amount_of :: "string \<Rightarrow> string list \<Rightarrow> event \<Rightarrow> int" where
  "amount_of series labels ev =
     (case ev of Counter (CounterAdd s l n) \<Rightarrow> if s = series \<and> l = labels then n else 0 | _ \<Rightarrow> 0)"

definition counted_in :: "string \<Rightarrow> string list \<Rightarrow> event list \<Rightarrow> int" where
  "counted_in series labels evs = sum_list (map (amount_of series labels) evs)"

lemma counted_in_simps [simp]:
  "counted_in s l [] = 0"
  "counted_in s l (Counter (CounterAdd s' l' n) # evs) = (if s' = s \<and> l' = l then n else 0) + counted_in s l evs"
  "counted_in s l (CreatedCb p # evs) = counted_in s l evs"
  "counted_in s l (TerminalCb i st # evs) = counted_in s l evs"
  "counted_in s l (xs @ ys) = counted_in s l xs + counted_in s l ys"
  by (simp_all add: counted_in_def amount_of_def)

lemma counted_in_terminal [simp]: "counted_in s l (terminal c i st) = 0"
  by (simp add: terminal_def)

text \<open>What was counted against a session, in relays, compute units and sessions.\<close>

definition failed_amounts :: "string \<Rightarrow> string \<Rightarrow> string \<Rightarrow> string \<Rightarrow> event list \<Rightarrow> int \<times> int \<times> int" where
  "failed_amounts book su sv reason evs =
     (counted_in (''relays'' @ book @ ''Total'') [su, sv, reason] evs,
      counted_in (''computeUnits'' @ book @ ''Total'') [su, sv, reason] evs,
      counted_in ''sessionsFailedTotal'' [su, sv, reason] evs)"

definition reinstated_amounts :: "string \<Rightarrow> string \<Rightarrow> string \<Rightarrow> string \<Rightarrow> event list \<Rightarrow> int \<times> int \<times> int" where
  "reinstated_amounts book su sv reason evs =
     (counted_in ''relaysReinstatedTotal'' [su, sv, reason, book] evs,
      counted_in ''computeUnitsReinstatedTotal'' [su, sv, reason, book] evs,
      counted_in ''sessionsReinstatedTotal'' [su, sv, reason] evs)"

lemma counted_in_addUpokt [simp]:
  "s \<noteq> series \<Longrightarrow> s \<noteq> ''unpricedComputeUnitsTotal'' \<Longrightarrow> counted_in s l (map Counter (addUpokt series l' su sv b cu u)) = 0"
  by (simp add: addUpokt_def)

lemma missing_amounts:
  assumes "verdict = ClaimMissingLost \<or> verdict = ClaimMissingForgone"
  shows "failed_amounts ''Lost'' su sv ''claim_missing'' (map Counter (RecordClaimMissing su sv verdict n cu u))
      = (if verdict = ClaimMissingLost then (n, cu, 1) else (0, 0, 1))"
    and "failed_amounts ''Forgone'' su sv ''claim_missing'' (map Counter (RecordClaimMissing su sv verdict n cu u))
      = (if verdict = ClaimMissingForgone then (n, cu, 1) else (0, 0, 1))"
  using assms
  by (auto simp: failed_amounts_def RecordClaimMissing_def recordSessionForgone_def recordSessionLoss_def
      recordSessionAttemptFailure_def RecordRevenueForgone_def RecordRevenueLost_def)

lemma reinstated_credit [simp]:
  "reinstated_amounts b su sv reason (creditClaimed c p root r) = (0, 0, 0)"
  by (simp add: reinstated_amounts_def creditClaimed_def RecordRevenueClaimed_def recordRevenueClaimed_def)

lemma reinstated_record:
  "reinstated_amounts b su sv reason (map Counter (RecordReinstated su sv reason book n cu u))
   = (if b = book then (n, cu, 1) else (0, 0, 1))"
  by (simp add: reinstated_amounts_def RecordReinstated_def)

lemma reinstated_append:
  "reinstated_amounts b su sv reason xs = (0, 0, 0)
   \<Longrightarrow> reinstated_amounts b su sv reason (xs @ ys) = reinstated_amounts b su sv reason ys"
  "reinstated_amounts b su sv reason (ys @ [CreatedCb p]) = reinstated_amounts b su sv reason ys"
  by (simp_all add: reinstated_amounts_def)

lemma reinstated_missing:
  assumes "From r = SessionStateClaimMissing" "ReVerdict r = verdict"
    and "verdict = ClaimMissingLost \<or> verdict = ClaimMissingForgone"
  shows "reinstated_amounts b (SupplierOperatorAddress p) (ServiceID p) ''claim_missing''
        (bookReactivation c (Inr (Some p)) root r)
    = (if b = verdict then (RelayCount p, sint (TotalComputeUnits p), 1) else (0, 0, 1))"
proof -
  have "ReinstatedBook r = verdict" "ReinstatedReason r = ''claim_missing''" "verdict \<noteq> []"
    using assms by (auto simp: ReinstatedBook_def ReinstatedReason_def SessionStateClaimMissing_def)
  then show ?thesis
    by (simp add: bookReactivation_def Let_def reinstated_append(1) reinstated_record)
qed

lemma canon_owner [simp]:
  "SupplierOperatorAddress (canon p) = SupplierOperatorAddress p" "ServiceID (canon p) = ServiceID p"
  by (simp_all add: canon_def)

context session_store
begin

lemma claim_missing_marked:
  assumes "inv s" "\<And>i. env (e i)" "sids sid" "\<not> coord_closed c"
    and "OnClaimMissing S c e sid s = (None, s1, ev)" "Get S (e 0) sid s = Inr (Some cur)"
    and "State cur \<noteq> SessionStateClaimMissing" "\<not> IsSuccess (State cur)"
  shows "inv s1 \<and> view s1 sid = Some ((canon cur)\<lparr>State := SessionStateClaimMissing,
            ClaimMissingVerdict := ClaimMissingVerdictFor (State cur)\<rparr>)
     \<and> ev = map Counter (RecordClaimMissing (SupplierOperatorAddress cur) (ServiceID cur)
              (ClaimMissingVerdictFor (State cur)) (RelayCount cur) (sint (TotalComputeUnits cur)) (price c cur))
            @ terminal c sid SessionStateClaimMissing"
proof -
  let ?vd = "ClaimMissingVerdictFor (State cur)"
  obtain r s2 where mk: "MarkClaimMissing S (e 1) sid ?vd s = (r, s2)" by (cases "MarkClaimMissing S (e 1) sid ?vd s")
  have out: "r = None" "s2 = s1" "ev = map Counter (RecordClaimMissing (SupplierOperatorAddress cur) (ServiceID cur)
      ?vd (RelayCount cur) (sint (TotalComputeUnits cur)) (price c cur)) @ terminal c sid SessionStateClaimMissing"
    using assms(4-8) mk by (auto simp: OnClaimMissing_def split: option.splits)
  have v: "view s sid = Some (canon cur)" using Get_Some [OF assms(1,2,3,6)] by simp
  from MarkClaimMissing_ok [OF assms(1-3) mk] out
  have m: "meets (drop_flag (spec_updateState sid SessionStateClaimMissing ?vd)) (live (e 1) s sid) sid (view s) (Inr ()) (view s1)"
    and i: "inv s1" by simp_all
  from meets_Inr [OF m] obtain b where
    u: "spec_updateState sid SessionStateClaimMissing ?vd (if live (e 1) s sid then view s sid else None) = Inr (b, view s1 sid)"
    by (auto simp: drop_flag_Inr)
  have "?vd \<noteq> []" by (simp add: ClaimMissingVerdictFor_def ClaimMissingLost_def ClaimMissingForgone_def)
  then show ?thesis using u v assms(7) out i updateState_None [of sid SessionStateClaimMissing ?vd]
    by (auto simp: spec_updateState_def checkStateWrite_def split: if_splits)
qed

lemma claim_missing_reversed:
  assumes "inv s" "\<And>i. env (e i)" "\<And>i. env (f i)" "sids sid" "\<not> coord_closed c"
    and "OnClaimMissing S c e sid s = (None, s1, ev1)" "Get S (e 0) sid s = Inr (Some cur)"
    and "State cur \<noteq> SessionStateClaimMissing" "\<not> IsSuccess (State cur)"
    and "OnClaimObservedOnChain S c f sid root h s1 = (None, s2, ev2)" "Get S (f 0) sid s1 = Inr (Some seen)"
  shows "failed_amounts ''Lost'' (SupplierOperatorAddress cur) (ServiceID cur) ''claim_missing'' ev1
       = reinstated_amounts ClaimMissingLost (SupplierOperatorAddress cur) (ServiceID cur) ''claim_missing'' ev2
     \<and> failed_amounts ''Forgone'' (SupplierOperatorAddress cur) (ServiceID cur) ''claim_missing'' ev1
       = reinstated_amounts ClaimMissingForgone (SupplierOperatorAddress cur) (ServiceID cur) ''claim_missing'' ev2"
proof -
  let ?vd = "ClaimMissingVerdictFor (State cur)" and ?su = "SupplierOperatorAddress cur" and ?sv = "ServiceID cur"
  let ?q = "(canon cur)\<lparr>State := SessionStateClaimMissing, ClaimMissingVerdict := ?vd\<rparr>"
  from claim_missing_marked [OF assms(1,2,4-9)] have i: "inv s1" and q: "view s1 sid = Some ?q"
    and ev1: "ev1 = map Counter (RecordClaimMissing ?su ?sv ?vd (RelayCount cur) (sint (TotalComputeUnits cur)) (price c cur))
       @ terminal c sid SessionStateClaimMissing" by blast+
  have seen: "canon seen = ?q" using Get_Some [OF i assms(3,4,11)] q by simp
  have owner: "SupplierOperatorAddress seen = ?su" "ServiceID seen = ?sv" "RelayCount seen = RelayCount cur"
    "TotalComputeUnits seen = TotalComputeUnits cur"
    using arg_cong [OF seen, of SupplierOperatorAddress] arg_cong [OF seen, of ServiceID]
      arg_cong [OF seen, of RelayCount] arg_cong [OF seen, of TotalComputeUnits] by simp_all
  obtain re s3 where ra: "ReactivateClaimed S (f 1) sid root h s1 = (re, s3)"
    by (cases "ReactivateClaimed S (f 1) sid root h s1")
  obtain r where re: "re = Inr r"
    using assms(5,10) ra by (cases re) (auto simp: OnClaimObservedOnChain_def Let_def split: if_splits)
  from ReactivateClaimed_ok [OF i assms(3,4) ra] re
  have m: "meets (spec_ReactivateClaimed sid root h) (live (f 1) s1 sid) sid (view s1) (Inr r) (view s3)" by simp
  from meets_Inr [OF m] q have r: "From r = SessionStateClaimMissing" "ReVerdict r = ?vd"
    using no_session_no_flip [of sid root h]
    by (auto simp: spec_ReactivateClaimed_def canReactivateClaimed_def split: if_splits)
  have vd: "?vd = ClaimMissingLost \<or> ?vd = ClaimMissingForgone" by (simp add: ClaimMissingVerdictFor_def)
  let ?bk = "bookReactivation c (Inr (Some seen)) root r"
  have ev2: "ev2 = ?bk \<or> (\<exists>p. ev2 = ?bk @ [CreatedCb p])"
    using assms(5,10,11) ra re
    by (auto simp: OnClaimObservedOnChain_def Let_def split: if_splits option.splits sum.splits prod.splits)
  have "reinstated_amounts b ?su ?sv ''claim_missing'' ev2
      = (if b = ?vd then (RelayCount cur, sint (TotalComputeUnits cur), 1) else (0, 0, 1))" for b
    using ev2 reinstated_missing [OF r vd, of b seen c root] owner by (auto simp: reinstated_append(2))
  moreover have "failed_amounts b ?su ?sv ''claim_missing'' ev1
      = failed_amounts b ?su ?sv ''claim_missing'' (map Counter (RecordClaimMissing ?su ?sv ?vd (RelayCount cur)
          (sint (TotalComputeUnits cur)) (price c cur)))" for b
    by (simp add: ev1 failed_amounts_def)
  ultimately show ?thesis using missing_amounts [OF vd] by auto
qed

end

end
