(* ===== verification/Pebble_Sessions.thy ===== *)
theory Pebble_Sessions
  imports Pebble_DB Session_Money
begin

text \<open>
  \<open>pebbleSessionStore\<close> of \<open>src/miner/pebble_backend.go\<close>, the session store of the standalone miner,
  over the database of \<open>Pebble_DB\<close>. Every operation runs under the backend's mutex, so each is one step.
  A snapshot is stored as JSON; \<open>encoding/json\<close> is a parameter, used through its round trip on the
  snapshots it encodes. The store is proved an instance of the contract \<open>session_store\<close>.
\<close>

section \<open>State\<close>

record pebble_config =
  supplier :: string
  ttl :: duration

text \<open>The backend's database and the store's \<open>closed\<close> flag.\<close>

record 'd pebble_store =
  db :: 'd
  closed :: bool

text \<open>
  One call: the clock when the session is read and when the write is stamped, and the result of the
  fsync a write that records a transaction hash asks for.
\<close>

record pebble_env =
  now_read :: time
  now_write :: time
  wal_sync :: "string option"

definition sessionTTL :: "duration \<Rightarrow> duration" where
  "sessionTTL configured = (if configured = 0 then 2 * 3600 * 1000000000 else configured)"

definition pebbleSessionPrefix :: string where
  "pebbleSessionPrefix = ''msess'' @ [CHR 0x00]"

definition backend_get :: "'d pebble \<Rightarrow> 'd \<Rightarrow> string \<Rightarrow> (string, string option) result" where
  "backend_get P d key = db_Get P d key"

definition backend_has :: "'d pebble \<Rightarrow> 'd \<Rightarrow> string \<Rightarrow> (string, bool) result" where
  "backend_has P d key = (case db_Get P d key of Inl m \<Rightarrow> Inl m | Inr v \<Rightarrow> Inr (v \<noteq> None))"

definition session_prefix :: "pebble_config \<Rightarrow> string" where
  "session_prefix cfg = pebbleSessionPrefix @ supplier cfg @ [CHR 0x00]"

definition session_key :: "pebble_config \<Rightarrow> string \<Rightarrow> string" where
  "session_key cfg sessionID = session_prefix cfg @ sessionID"

definition expired :: "pebble_config \<Rightarrow> SessionSnapshot \<Rightarrow> time \<Rightarrow> bool" where
  "expired cfg snap now = (LastUpdatedAt snap \<noteq> zero_time \<and> LastUpdatedAt snap + ttl cfg < now)"

section \<open>Reading and writing a session\<close>

definition getLocked ::
  "'d pebble \<Rightarrow> json \<Rightarrow> pebble_config \<Rightarrow> time \<Rightarrow> 'd \<Rightarrow> string \<Rightarrow> (store_error, SessionSnapshot option) result" where
  "getLocked P J cfg now d sessionID =
     (case backend_get P d (session_key cfg sessionID) of
        Inl m \<Rightarrow> Inl (StoreFailure m)
      | Inr None \<Rightarrow> Inr None
      | Inr (Some value) \<Rightarrow>
         (case Unmarshal J value of
            Inl m \<Rightarrow> Inl (StoreFailure m)
          | Inr snap \<Rightarrow> if expired cfg snap now then Inr None else Inr (Some snap)))"

definition putLocked :: "json \<Rightarrow> pebble_config \<Rightarrow> SessionSnapshot \<Rightarrow> (store_error, batch_op) result" where
  "putLocked J cfg snap =
     (case Marshal J snap of
        Inl m \<Rightarrow> Inl (StoreFailure m)
      | Inr data \<Rightarrow> Inr (BSet (session_key cfg (SessionID snap)) data))"

definition recordsTx :: "SessionSnapshot option \<Rightarrow> SessionSnapshot \<Rightarrow> bool" where
  "recordsTx prev snap =
     (case prev of
        None \<Rightarrow> ClaimTxHash snap \<noteq> [] \<or> ProofTxHash snap \<noteq> []
      | Some p \<Rightarrow> ClaimTxHash snap \<noteq> ClaimTxHash p \<or> ProofTxHash snap \<noteq> ProofTxHash p)"

definition writeLocked ::
  "'d pebble \<Rightarrow> json \<Rightarrow> pebble_config \<Rightarrow> SessionSnapshot option \<Rightarrow> SessionSnapshot \<Rightarrow> 'd
   \<Rightarrow> (store_error, bool) result \<times> 'd" where
  "writeLocked P J cfg prev snap d =
     (case putLocked J cfg snap of
        Inl e \<Rightarrow> (Inl e, d)
      | Inr op \<Rightarrow>
         (case db_Commit P [op] d of
            (Some m, d') \<Rightarrow> (Inl (StoreFailure m), d')
          | (None, d') \<Rightarrow> (Inr (recordsTx prev snap), d')))"

definition syncTx :: "pebble_env \<Rightarrow> bool \<Rightarrow> store_error option" where
  "syncTx e needSync =
     (if \<not> needSync then None
      else case wal_sync e of None \<Rightarrow> None | Some m \<Rightarrow> Some (StoreFailure m))"

section \<open>The operations\<close>

definition stamp :: "time \<Rightarrow> SessionSnapshot \<Rightarrow> SessionSnapshot" where
  "stamp now snapshot =
     (let s1 = snapshot\<lparr>LastUpdatedAt := now\<rparr>
      in if CreatedAt s1 = zero_time then s1\<lparr>CreatedAt := now\<rparr> else s1)"

definition saveLocked ::
  "'d pebble \<Rightarrow> json \<Rightarrow> pebble_config \<Rightarrow> pebble_env \<Rightarrow> SessionSnapshot \<Rightarrow> 'd pebble_store
   \<Rightarrow> ((store_error, bool) result \<times> SessionSnapshot) \<times> 'd pebble_store" where
  "saveLocked P J cfg e snapshot s =
     (if closed s then ((Inl StoreClosed, snapshot), s)
      else case getLocked P J cfg (now_read e) (db s) (SessionID snapshot) of
        Inl err \<Rightarrow> ((Inl err, snapshot), s)
      | Inr prev \<Rightarrow>
         (let stamped = stamp (now_write e) snapshot;
              write = (case prev of
                         None \<Rightarrow> stamped
                       | Some p \<Rightarrow> stamped\<lparr>RelayCount := RelayCount p,
                                           TotalComputeUnits := TotalComputeUnits p\<rparr>);
              (r, d') = writeLocked P J cfg prev write (db s)
          in ((r, stamped), s\<lparr>db := d'\<rparr>)))"

definition pebble_Save ::
  "'d pebble \<Rightarrow> json \<Rightarrow> pebble_config \<Rightarrow> pebble_env \<Rightarrow> SessionSnapshot \<Rightarrow> 'd pebble_store
   \<Rightarrow> (store_error option \<times> SessionSnapshot) \<times> 'd pebble_store" where
  "pebble_Save P J cfg e snapshot s =
     (case saveLocked P J cfg e snapshot s of
        ((Inl err, snap'), s') \<Rightarrow> ((Some err, snap'), s')
      | ((Inr needSync, snap'), s') \<Rightarrow> ((syncTx e needSync, snap'), s'))"

definition createIfAbsentLocked ::
  "'d pebble \<Rightarrow> json \<Rightarrow> pebble_config \<Rightarrow> pebble_env \<Rightarrow> SessionSnapshot \<Rightarrow> 'd pebble_store
   \<Rightarrow> ((store_error, bool \<times> bool) result \<times> SessionSnapshot) \<times> 'd pebble_store" where
  "createIfAbsentLocked P J cfg e snapshot s =
     (if closed s then ((Inl StoreClosed, snapshot), s)
      else case getLocked P J cfg (now_read e) (db s) (SessionID snapshot) of
        Inl err \<Rightarrow> ((Inl err, snapshot), s)
      | Inr (Some _) \<Rightarrow> ((Inr (False, False), snapshot), s)
      | Inr None \<Rightarrow>
         (let stamped = stamp (now_write e) snapshot
          in case writeLocked P J cfg None stamped (db s) of
               (Inl err, d') \<Rightarrow> ((Inl err, stamped), s\<lparr>db := d'\<rparr>)
             | (Inr needSync, d') \<Rightarrow> ((Inr (True, needSync), stamped), s\<lparr>db := d'\<rparr>)))"

definition pebble_CreateIfAbsent ::
  "'d pebble \<Rightarrow> json \<Rightarrow> pebble_config \<Rightarrow> pebble_env \<Rightarrow> SessionSnapshot \<Rightarrow> 'd pebble_store
   \<Rightarrow> ((store_error, bool) result \<times> SessionSnapshot) \<times> 'd pebble_store" where
  "pebble_CreateIfAbsent P J cfg e snapshot s =
     (case createIfAbsentLocked P J cfg e snapshot s of
        ((Inl err, snap'), s') \<Rightarrow> ((Inl err, snap'), s')
      | ((Inr (created, needSync), snap'), s') \<Rightarrow>
          if \<not> created then ((Inr False, snap'), s')
          else (case syncTx e needSync of
                  None \<Rightarrow> ((Inr True, snap'), s')
                | Some err \<Rightarrow> ((Inl err, snap'), s')))"

definition pebble_Get ::
  "'d pebble \<Rightarrow> json \<Rightarrow> pebble_config \<Rightarrow> pebble_env \<Rightarrow> string \<Rightarrow> 'd pebble_store
   \<Rightarrow> (store_error, SessionSnapshot option) result" where
  "pebble_Get P J cfg e sessionID s = getLocked P J cfg (now_read e) (db s) sessionID"

definition pebble_Delete ::
  "'d pebble \<Rightarrow> pebble_config \<Rightarrow> pebble_env \<Rightarrow> string \<Rightarrow> 'd pebble_store \<Rightarrow> store_error option \<times> 'd pebble_store" where
  "pebble_Delete P cfg e sessionID s =
     (case db_Commit P [BDelete (session_key cfg sessionID)] (db s) of
        (Some m, d') \<Rightarrow> (Some (StoreFailure m), s\<lparr>db := d'\<rparr>)
      | (None, d') \<Rightarrow> (None, s\<lparr>db := d'\<rparr>))"

definition pebble_updateState ::
  "'d pebble \<Rightarrow> json \<Rightarrow> pebble_config \<Rightarrow> pebble_env \<Rightarrow> string \<Rightarrow> SessionState \<Rightarrow> string \<Rightarrow> 'd pebble_store
   \<Rightarrow> (store_error, bool) result \<times> 'd pebble_store" where
  "pebble_updateState P J cfg e sessionID newState verdict s =
     (case getLocked P J cfg (now_read e) (db s) sessionID of
        Inl err \<Rightarrow> (Inl err, s)
      | Inr None \<Rightarrow> (Inl (SessionNotFound sessionID), s)
      | Inr (Some snap) \<Rightarrow>
         (case checkStateWrite snap newState of
            Some err \<Rightarrow> (Inl err, s)
          | None \<Rightarrow>
              if State snap = newState then (Inr False, s)
              else
                let snap1 = snap\<lparr>State := newState\<rparr>;
                    snap2 = (if verdict \<noteq> [] then snap1\<lparr>ClaimMissingVerdict := verdict\<rparr> else snap1);
                    snap3 = snap2\<lparr>LastUpdatedAt := now_write e\<rparr>
                in case writeLocked P J cfg (Some snap3) snap3 (db s) of
                     (Inl err, d') \<Rightarrow> (Inl err, s\<lparr>db := d'\<rparr>)
                   | (Inr _, d') \<Rightarrow> (Inr True, s\<lparr>db := d'\<rparr>)))"

definition pebble_UpdateState where
  "pebble_UpdateState P J cfg e sessionID newState s =
     (let (r, s') = pebble_updateState P J cfg e sessionID newState [] s in (err_of r, s'))"

definition pebble_MarkClaimMissing where
  "pebble_MarkClaimMissing P J cfg e sessionID verdict s =
     (let (r, s') = pebble_updateState P J cfg e sessionID SessionStateClaimMissing verdict s in (err_of r, s'))"

definition pebble_MarkClaimTxError where
  "pebble_MarkClaimTxError P J cfg e sessionID verdict s =
     pebble_updateState P J cfg e sessionID SessionStateClaimTxError verdict s"

definition reactivateClaimedLocked ::
  "'d pebble \<Rightarrow> json \<Rightarrow> pebble_config \<Rightarrow> pebble_env \<Rightarrow> string \<Rightarrow> string \<Rightarrow> string \<Rightarrow> 'd pebble_store
   \<Rightarrow> (store_error, Reactivation \<times> bool) result \<times> 'd pebble_store" where
  "reactivateClaimedLocked P J cfg e sessionID claimedRootHash claimTxHash s =
     (case getLocked P J cfg (now_read e) (db s) sessionID of
        Inl err \<Rightarrow> (Inl err, s)
      | Inr None \<Rightarrow> (Inl (SessionNotFound sessionID), s)
      | Inr (Some prev) \<Rightarrow>
          if \<not> canReactivateClaimed (State prev) then (Inr (noReactivation, False), s)
          else
            let snap = prev\<lparr>State := SessionStateClaimed, ClaimMissingVerdict := [],
                            ClaimedRootHash := claimedRootHash,
                            ClaimTxHash := (if claimTxHash \<noteq> [] then claimTxHash else ClaimTxHash prev),
                            LastUpdatedAt := now_write e\<rparr>
            in case writeLocked P J cfg (Some prev) snap (db s) of
                 (Inl err, d') \<Rightarrow> (Inl err, s\<lparr>db := d'\<rparr>)
               | (Inr needSync, d') \<Rightarrow>
                   (Inr (\<lparr>From = State prev, ReVerdict = ClaimMissingVerdict prev,
                          ReClaimTxHash = ClaimTxHash prev, ReProofTxHash = []\<rparr>, needSync), s\<lparr>db := d'\<rparr>))"

definition reactivateProvedLocked ::
  "'d pebble \<Rightarrow> json \<Rightarrow> pebble_config \<Rightarrow> pebble_env \<Rightarrow> string \<Rightarrow> string \<Rightarrow> 'd pebble_store
   \<Rightarrow> (store_error, Reactivation \<times> bool) result \<times> 'd pebble_store" where
  "reactivateProvedLocked P J cfg e sessionID proofTxHash s =
     (case getLocked P J cfg (now_read e) (db s) sessionID of
        Inl err \<Rightarrow> (Inl err, s)
      | Inr None \<Rightarrow> (Inl (SessionNotFound sessionID), s)
      | Inr (Some prev) \<Rightarrow>
          if \<not> canReactivateProved (State prev) (ProofTxHash prev) then (Inr (noReactivation, False), s)
          else
            let snap = prev\<lparr>State := SessionStateProved,
                            ProofTxHash := (if ProofTxHash prev = [] then proofTxHash else ProofTxHash prev),
                            LastUpdatedAt := now_write e\<rparr>
            in case writeLocked P J cfg (Some prev) snap (db s) of
                 (Inl err, d') \<Rightarrow> (Inl err, s\<lparr>db := d'\<rparr>)
               | (Inr needSync, d') \<Rightarrow>
                   (Inr (\<lparr>From = State prev, ReVerdict = [],
                          ReClaimTxHash = ClaimTxHash prev, ReProofTxHash = ProofTxHash prev\<rparr>, needSync),
                    s\<lparr>db := d'\<rparr>))"

text \<open>Both reactivations end the same way: nothing to sync without a flip, otherwise the fsync.\<close>

definition finish_reactivation ::
  "pebble_env \<Rightarrow> (store_error, Reactivation \<times> bool) result \<times> 'd pebble_store
   \<Rightarrow> (store_error, Reactivation) result \<times> 'd pebble_store" where
  "finish_reactivation e x =
     (case x of
        (Inl err, s') \<Rightarrow> (Inl err, s')
      | (Inr (from, needSync), s') \<Rightarrow>
          if From from = [] then (Inr noReactivation, s')
          else (case syncTx e needSync of
                  Some err \<Rightarrow> (Inl err, s')
                | None \<Rightarrow> (Inr from, s')))"

definition pebble_ReactivateClaimed where
  "pebble_ReactivateClaimed P J cfg e sessionID claimedRootHash claimTxHash s =
     finish_reactivation e (reactivateClaimedLocked P J cfg e sessionID claimedRootHash claimTxHash s)"

definition pebble_ReactivateProved where
  "pebble_ReactivateProved P J cfg e sessionID proofTxHash s =
     finish_reactivation e (reactivateProvedLocked P J cfg e sessionID proofTxHash s)"

definition pebble_IncrementRelayCount ::
  "'d pebble \<Rightarrow> json \<Rightarrow> pebble_config \<Rightarrow> pebble_env \<Rightarrow> string \<Rightarrow> uint64 \<Rightarrow> 'd pebble_store
   \<Rightarrow> store_error option \<times> 'd pebble_store" where
  "pebble_IncrementRelayCount P J cfg e sessionID computeUnits s =
     (case getLocked P J cfg (now_read e) (db s) sessionID of
        Inl err \<Rightarrow> (Some err, s)
      | Inr None \<Rightarrow> (Some (SessionNotFound sessionID), s)
      | Inr (Some snap) \<Rightarrow>
          if IsTerminal (State snap) then (Some ErrSessionTerminal, s)
          else
            let snap1 = snap\<lparr>RelayCount := i64 (RelayCount snap + 1),
                             TotalComputeUnits := TotalComputeUnits snap + computeUnits,
                             LastUpdatedAt := now_write e\<rparr>
            in case writeLocked P J cfg (Some snap1) snap1 (db s) of
                 (Inl err, d') \<Rightarrow> (Some err, s\<lparr>db := d'\<rparr>)
               | (Inr _, d') \<Rightarrow> (None, s\<lparr>db := d'\<rparr>))"

definition pebble_Close :: "'d pebble_store \<Rightarrow> 'd pebble_store" where
  "pebble_Close s = s\<lparr>closed := True\<rparr>"

definition pebbleSessionStore ::
  "'d pebble \<Rightarrow> json \<Rightarrow> pebble_config \<Rightarrow> (pebble_env, 'd pebble_store) SessionStore" where
  "pebbleSessionStore P J cfg =
     \<lparr>Save = pebble_Save P J cfg,
      CreateIfAbsent = pebble_CreateIfAbsent P J cfg,
      Get = pebble_Get P J cfg,
      Delete = pebble_Delete P cfg,
      UpdateState = pebble_UpdateState P J cfg,
      MarkClaimMissing = pebble_MarkClaimMissing P J cfg,
      MarkClaimTxError = pebble_MarkClaimTxError P J cfg,
      ReactivateClaimed = pebble_ReactivateClaimed P J cfg,
      ReactivateProved = pebble_ReactivateProved P J cfg,
      IncrementRelayCount = pebble_IncrementRelayCount P J cfg\<rparr>"

section \<open>The contract\<close>

definition pebble_raw :: "json \<Rightarrow> pebble_config \<Rightarrow> ('d \<Rightarrow> contents) \<Rightarrow> 'd \<Rightarrow> view" where
  "pebble_raw J cfg contents d sid =
     (case contents d (session_key cfg sid) of
        None \<Rightarrow> None
      | Some b \<Rightarrow> (case Unmarshal J b of Inl _ \<Rightarrow> None | Inr snap \<Rightarrow> Some snap))"

definition pebble_view :: "json \<Rightarrow> pebble_config \<Rightarrow> ('d \<Rightarrow> contents) \<Rightarrow> 'd pebble_store \<Rightarrow> view" where
  "pebble_view J cfg contents s sid = map_option canon (pebble_raw J cfg contents (db s) sid)"

definition pebble_live ::
  "json \<Rightarrow> pebble_config \<Rightarrow> ('d \<Rightarrow> contents) \<Rightarrow> pebble_env \<Rightarrow> 'd pebble_store \<Rightarrow> string \<Rightarrow> bool" where
  "pebble_live J cfg contents e s sid =
     (case pebble_raw J cfg contents (db s) sid of
        None \<Rightarrow> True | Some snap \<Rightarrow> \<not> expired cfg snap (now_read e))"

text \<open>Every session key holds the encoding of a snapshot of that session.\<close>

definition pebble_wf :: "json \<Rightarrow> pebble_config \<Rightarrow> contents \<Rightarrow> bool" where
  "pebble_wf J cfg m =
     (\<forall>sid b. m (session_key cfg sid) = Some b \<longrightarrow> (\<exists>snap. Unmarshal J b = Inr snap \<and> SessionID snap = sid))"

definition pebble_inv :: "'d pebble \<Rightarrow> json \<Rightarrow> pebble_config \<Rightarrow> ('d \<Rightarrow> contents) \<Rightarrow> 'd pebble_store \<Rightarrow> bool" where
  "pebble_inv P J cfg contents s =
     (pebble_ok P contents \<and> json_ok J \<and> pebble_wf J cfg (contents (db s)))"

lemma session_key_inject [simp]: "session_key cfg a = session_key cfg b \<longleftrightarrow> a = b"
  by (simp add: session_key_def)

lemma raw_id:
  assumes "pebble_inv P J cfg contents s" "pebble_raw J cfg contents (db s) sid = Some snap"
  shows "SessionID snap = sid"
  using assms by (fastforce simp: pebble_inv_def pebble_wf_def pebble_raw_def split: option.splits sum.splits)

lemma getLocked_err: "getLocked P J cfg now d sid = Inl e \<Longrightarrow> is_store_failure e"
  by (auto simp: getLocked_def is_store_failure_def split: sum.splits option.splits if_splits)

lemma getLocked_ok:
  assumes "pebble_inv P J cfg contents s" "getLocked P J cfg now (db s) sid = Inr x"
  shows "x = (case pebble_raw J cfg contents (db s) sid of
                None \<Rightarrow> None | Some snap \<Rightarrow> if expired cfg snap now then None else Some snap)"
proof -
  obtain v where v: "db_Get P (db s) (session_key cfg sid) = Inr v"
    using assms(2) by (auto simp: getLocked_def backend_get_def split: sum.splits)
  have "v = contents (db s) (session_key cfg sid)"
    using assms(1) v by (auto simp: pebble_inv_def dest: pebble_get)
  then show ?thesis using assms(2) v
    by (auto simp: getLocked_def backend_get_def pebble_raw_def split: sum.splits option.splits if_splits)
qed

lemma getLocked_None:
  assumes "pebble_inv P J cfg contents s" "getLocked P J cfg (now_read e) (db s) sid = Inr None"
  shows "(if pebble_live J cfg contents e s sid then pebble_view J cfg contents s sid else None) = None"
  using getLocked_ok [OF assms]
  by (auto simp: pebble_live_def pebble_view_def split: option.splits if_splits)

lemma getLocked_Some:
  assumes "pebble_inv P J cfg contents s" "getLocked P J cfg (now_read e) (db s) sid = Inr (Some snap)"
  shows "(if pebble_live J cfg contents e s sid then pebble_view J cfg contents s sid else None) = Some (canon snap)"
    and "SessionID snap = sid"
proof -
  have r: "pebble_raw J cfg contents (db s) sid = Some snap" "\<not> expired cfg snap (now_read e)"
    using getLocked_ok [OF assms] by (auto split: option.splits if_splits)
  then show "(if pebble_live J cfg contents e s sid then pebble_view J cfg contents s sid else None) = Some (canon snap)"
    by (simp add: pebble_live_def pebble_view_def)
  show "SessionID snap = sid" using raw_id [OF assms(1) r(1)] .
qed

text \<open>A write leaves the encoding of the snapshot under its own key, or nothing when it failed.\<close>

lemma view_set:
  assumes "Unmarshal J b = Inr snap" "contents (db s') = (contents (db s))(session_key cfg sid := Some b)"
  shows "pebble_view J cfg contents s' = (pebble_view J cfg contents s)(sid := Some (canon snap))"
  using assms by (auto simp: pebble_view_def pebble_raw_def)

lemma write_ok:
  assumes inv: "pebble_inv P J cfg contents s" and w: "writeLocked P J cfg prev snap (db s) = (r, d')"
    and s': "s' = s\<lparr>db := d'\<rparr>"
  shows "pebble_inv P J cfg contents s'"
    and "r = Inr b \<Longrightarrow> pebble_view J cfg contents s' = (pebble_view J cfg contents s)(SessionID snap := Some (canon snap))"
    and "r = Inl err \<Longrightarrow> is_store_failure err"
    and "pebble_view J cfg contents s' = pebble_view J cfg contents s
         \<or> pebble_view J cfg contents s' = (pebble_view J cfg contents s)(SessionID snap := Some (canon snap))"
proof -
  have J: "json_ok J" and P: "pebble_ok P contents" and wf: "pebble_wf J cfg (contents (db s))"
    using inv by (simp_all add: pebble_inv_def)
  have *: "(d' = db s \<and> (\<exists>m. r = Inl (StoreFailure m)))
     \<or> (\<exists>data er. Marshal J snap = Inr data
          \<and> db_Commit P [BSet (session_key cfg (SessionID snap)) data] (db s) = (er, d')
          \<and> (er = None \<longrightarrow> r = Inr (recordsTx prev snap)) \<and> (er \<noteq> None \<longrightarrow> (\<exists>m. r = Inl (StoreFailure m))))"
    using w by (auto simp: writeLocked_def putLocked_def split: sum.splits prod.splits option.splits)
  have res: "pebble_inv P J cfg contents s'
    \<and> (pebble_view J cfg contents s' = pebble_view J cfg contents s \<and> (\<exists>m. r = Inl (StoreFailure m))
       \<or> pebble_view J cfg contents s' = (pebble_view J cfg contents s)(SessionID snap := Some (canon snap))
         \<and> (r = Inr (recordsTx prev snap) \<or> (\<exists>m. r = Inl (StoreFailure m))))"
    using *
  proof (elim disjE exE conjE)
    fix m assume "d' = db s" "r = Inl (StoreFailure m)"
    then show ?thesis using inv s' by simp
  next
    fix data er
    assume d: "Marshal J snap = Inr data"
      and c: "db_Commit P [BSet (session_key cfg (SessionID snap)) data] (db s) = (er, d')"
      and r: "er = None \<longrightarrow> r = Inr (recordsTx prev snap)" "er \<noteq> None \<longrightarrow> (\<exists>m. r = Inl (StoreFailure m))"
    have u: "Unmarshal J data = Inr snap" using J d by (simp add: json_ok_def)
    from pebble_commit [OF P c] show ?thesis
    proof
      assume "contents d' = apply_batch [BSet (session_key cfg (SessionID snap)) data] (contents (db s))"
      then have c': "contents (db s') = (contents (db s))(session_key cfg (SessionID snap) := Some data)"
        by (simp add: s')
      have "pebble_wf J cfg (contents (db s'))" using wf u unfolding c' pebble_wf_def by auto
      then show ?thesis using view_set [OF u c'] r P J by (auto simp: pebble_inv_def)
    next
      assume e: "er \<noteq> None \<and> contents d' = contents (db s)"
      then have "pebble_view J cfg contents s' = pebble_view J cfg contents s"
        by (auto simp: pebble_view_def pebble_raw_def s')
      then show ?thesis using e r wf P J s' by (auto simp: pebble_inv_def)
    qed
  qed
  show "pebble_inv P J cfg contents s'" using res by blast
  show "r = Inr b \<Longrightarrow> pebble_view J cfg contents s' = (pebble_view J cfg contents s)(SessionID snap := Some (canon snap))"
    using res by auto
  show "r = Inl err \<Longrightarrow> is_store_failure err" using res by (auto simp: is_store_failure_def)
  show "pebble_view J cfg contents s' = pebble_view J cfg contents s
         \<or> pebble_view J cfg contents s' = (pebble_view J cfg contents s)(SessionID snap := Some (canon snap))"
    using res by blast
qed

subsection \<open>Every operation keeps to its specification\<close>

text \<open>A write of \<open>snap\<close> whose canonical form is what the specification leaves.\<close>

lemma meets_write:
  assumes inv: "pebble_inv P J cfg contents s" and w: "writeLocked P J cfg prev snap (db s) = (r, d')"
    and s': "s' = s\<lparr>db := d'\<rparr>" and id: "SessionID snap = sid"
    and f: "f (if l then pebble_view J cfg contents s sid else None) = Inr (x, Some (canon snap))"
    and res: "\<And>b. r = Inr b \<Longrightarrow> res = Inr x \<or> (\<exists>err. is_store_failure err \<and> res = Inl err)"
      "\<And>err. r = Inl err \<Longrightarrow> res = Inl err"
  shows "meets f l sid (pebble_view J cfg contents s) res (pebble_view J cfg contents s')
    \<and> pebble_inv P J cfg contents s'"
proof -
  note wr = write_ok [OF inv w s', unfolded id]
  have i: "pebble_inv P J cfg contents s'" using wr(1) .
  show ?thesis
  proof (cases r)
    case (Inl err)
    then have e: "is_store_failure err" "res = Inl err" using wr(3) res(2) by auto
    have "meets f l sid (pebble_view J cfg contents s) (Inl err) (pebble_view J cfg contents s')"
      using wr(4) f by (intro meets_failed [OF e(1)]) auto
    then show ?thesis using i e(2) by simp
  next
    case (Inr b)
    note v = wr(2) [OF Inr]
    from res(1) [OF Inr] show ?thesis
    proof (elim disjE exE conjE)
      assume "res = Inr x"
      then show ?thesis using meets_wrote [where f = f, OF f v] i by simp
    next
      fix err assume "is_store_failure err" "res = Inl err"
      then show ?thesis using v f i by (auto intro!: meets_failed)
    qed
  qed
qed

lemma syncTx_failure: "syncTx e b = Some err \<Longrightarrow> is_store_failure err"
  by (auto simp: syncTx_def is_store_failure_def split: if_splits option.splits)

lemma pebble_updateState_ok:
  assumes inv: "pebble_inv P J cfg contents s" and u: "pebble_updateState P J cfg e sid st vd s = (r, s')"
  shows "meets (spec_updateState sid st vd) (pebble_live J cfg contents e s sid) sid
           (pebble_view J cfg contents s) r (pebble_view J cfg contents s') \<and> pebble_inv P J cfg contents s'"
proof (cases "getLocked P J cfg (now_read e) (db s) sid")
  case (Inl err)
  then have "r = Inl err" "s' = s" using u by (auto simp: pebble_updateState_def)
  then show ?thesis using inv getLocked_err [OF Inl] by (auto intro: meets_failed)
next
  case (Inr x)
  show ?thesis
  proof (cases x)
    case None
    then have "r = Inl (SessionNotFound sid)" "s' = s" using u Inr by (auto simp: pebble_updateState_def)
    then show ?thesis using inv getLocked_None [OF inv, of e sid] Inr None
      by (auto intro!: meets_refused simp: spec_updateState_def)
  next
    case (Some snap)
    note g = getLocked_Some [OF inv, of e sid snap, unfolded Inr Some, OF refl]
    show ?thesis
    proof (cases "checkStateWrite snap st \<noteq> None \<or> State snap = st")
      case True
      then show ?thesis using u Inr Some inv g(1)
        by (auto simp: pebble_updateState_def spec_updateState_def split: option.splits
            intro: meets_refused meets_kept)
    next
      case False
      then have c: "checkStateWrite snap st = None" "State snap \<noteq> st" by auto
      let ?snap = "(if vd \<noteq> [] then snap\<lparr>State := st, ClaimMissingVerdict := vd\<rparr>
                    else snap\<lparr>State := st\<rparr>)\<lparr>LastUpdatedAt := now_write e\<rparr>"
      obtain r1 d' where w: "writeLocked P J cfg (Some ?snap) ?snap (db s) = (r1, d')" by fastforce
      show ?thesis
      proof (rule meets_write [OF inv w, where x = True])
        show "s' = s\<lparr>db := d'\<rparr>" using u w Inr Some c
          by (auto simp: pebble_updateState_def Let_def split: sum.splits if_splits)
        show "SessionID ?snap = sid" using g(2) by simp
        show "spec_updateState sid st vd (if pebble_live J cfg contents e s sid then pebble_view J cfg contents s sid else None)
              = Inr (True, Some (canon ?snap))"
          unfolding g(1) using c by (simp add: spec_updateState_def)
        show "r = Inr True \<or> (\<exists>err. is_store_failure err \<and> r = Inl err)" if "r1 = Inr b" for b
          using that u w Inr Some c by (auto simp: pebble_updateState_def Let_def split: if_splits)
        show "r = Inl err" if "r1 = Inl err" for err
          using that u w Inr Some c by (auto simp: pebble_updateState_def Let_def split: if_splits)
      qed
    qed
  qed
qed

lemma stamp_fields [simp]: "SessionID (stamp t p) = SessionID p" "canon (stamp t p) = canon p"
  by (auto simp: stamp_def Let_def)

lemma pebble_Save_ok:
  assumes inv: "pebble_inv P J cfg contents s" and sv: "pebble_Save P J cfg e snap s = ((err, snap'), s')"
  shows "meets (spec_Save snap) (pebble_live J cfg contents e s (SessionID snap)) (SessionID snap)
           (pebble_view J cfg contents s) (unit_result err) (pebble_view J cfg contents s')
         \<and> canon snap' = canon snap \<and> pebble_inv P J cfg contents s'"
proof (cases "closed s")
  case True
  then have "err = Some StoreClosed" "s' = s" "snap' = snap" using sv by (auto simp: pebble_Save_def saveLocked_def)
  then show ?thesis using inv by (auto intro: meets_failed simp: is_store_failure_def)
next
  case False
  show ?thesis
  proof (cases "getLocked P J cfg (now_read e) (db s) (SessionID snap)")
    case (Inl er)
    then have "err = Some er" "s' = s" "snap' = snap" using sv False by (auto simp: pebble_Save_def saveLocked_def)
    then show ?thesis using inv getLocked_err [OF Inl] by (auto intro: meets_failed)
  next
    case (Inr prev)
    let ?st = "stamp (now_write e) snap"
    let ?w = "case prev of None \<Rightarrow> ?st
                | Some p \<Rightarrow> ?st\<lparr>RelayCount := RelayCount p, TotalComputeUnits := TotalComputeUnits p\<rparr>"
    obtain r1 d' where w: "writeLocked P J cfg prev ?w (db s) = (r1, d')" by fastforce
    have out: "snap' = ?st" "s' = s\<lparr>db := d'\<rparr>"
      "r1 = Inl er \<Longrightarrow> err = Some er" "r1 = Inr b \<Longrightarrow> err = syncTx e b" for er b
      using sv w False Inr by (auto simp: pebble_Save_def saveLocked_def Let_def split: sum.splits)
    have prev: "(if pebble_live J cfg contents e s (SessionID snap) then pebble_view J cfg contents s (SessionID snap) else None)
       = map_option canon prev"
      using getLocked_None [OF inv, of e "SessionID snap"] getLocked_Some(1) [OF inv, of e "SessionID snap"] Inr
      by (cases prev) auto
    have "meets (spec_Save snap) (pebble_live J cfg contents e s (SessionID snap)) (SessionID snap)
           (pebble_view J cfg contents s) (unit_result err) (pebble_view J cfg contents s')
         \<and> pebble_inv P J cfg contents s'"
    proof (rule meets_write [OF inv w out(2)])
      show "SessionID ?w = SessionID snap" by (simp split: option.splits)
      show "spec_Save snap (if pebble_live J cfg contents e s (SessionID snap)
              then pebble_view J cfg contents s (SessionID snap) else None) = Inr ((), Some (canon ?w))"
        unfolding prev by (cases prev) (simp_all add: spec_Save_def)
      show "unit_result err = Inr () \<or> (\<exists>er. is_store_failure er \<and> unit_result err = Inl er)" if "r1 = Inr b" for b
        using out(4) [OF that] syncTx_failure [of e b] by (cases "syncTx e b") auto
      show "unit_result err = Inl er" if "r1 = Inl er" for er using out(3) [OF that] by simp
    qed
    then show ?thesis using out(1) by simp
  qed
qed

lemma pebble_CreateIfAbsent_ok:
  assumes inv: "pebble_inv P J cfg contents s" and cr: "pebble_CreateIfAbsent P J cfg e snap s = ((r, snap'), s')"
  shows "meets (spec_CreateIfAbsent snap) (pebble_live J cfg contents e s (SessionID snap)) (SessionID snap)
           (pebble_view J cfg contents s) r (pebble_view J cfg contents s')
         \<and> canon snap' = canon snap \<and> pebble_inv P J cfg contents s'"
proof (cases "closed s")
  case True
  then have "r = Inl StoreClosed" "s' = s" "snap' = snap"
    using cr by (auto simp: pebble_CreateIfAbsent_def createIfAbsentLocked_def)
  then show ?thesis using inv by (auto intro: meets_failed simp: is_store_failure_def)
next
  case False
  show ?thesis
  proof (cases "getLocked P J cfg (now_read e) (db s) (SessionID snap)")
    case (Inl er)
    then have "r = Inl er" "s' = s" "snap' = snap"
      using cr False by (auto simp: pebble_CreateIfAbsent_def createIfAbsentLocked_def)
    then show ?thesis using inv getLocked_err [OF Inl] by (auto intro: meets_failed)
  next
    case (Inr prev)
    show ?thesis
    proof (cases prev)
      case (Some p)
      then have "r = Inr False" "s' = s" "snap' = snap"
        using cr False Inr by (auto simp: pebble_CreateIfAbsent_def createIfAbsentLocked_def)
      then show ?thesis using inv getLocked_Some(1) [OF inv, of e "SessionID snap" p] Inr Some
        by (auto intro: meets_kept simp: spec_CreateIfAbsent_def)
    next
      case None
      let ?st = "stamp (now_write e) snap"
      obtain r1 d' where w: "writeLocked P J cfg None ?st (db s) = (r1, d')" by fastforce
      have out: "snap' = ?st" "s' = s\<lparr>db := d'\<rparr>" "r1 = Inl er \<Longrightarrow> r = Inl er"
        "r1 = Inr b \<Longrightarrow> r = (case syncTx e b of None \<Rightarrow> Inr True | Some er \<Rightarrow> Inl er)" for er b
        using cr w False Inr None
        by (auto simp: pebble_CreateIfAbsent_def createIfAbsentLocked_def Let_def split: sum.splits option.splits)
      have "meets (spec_CreateIfAbsent snap) (pebble_live J cfg contents e s (SessionID snap)) (SessionID snap)
           (pebble_view J cfg contents s) r (pebble_view J cfg contents s') \<and> pebble_inv P J cfg contents s'"
      proof (rule meets_write [OF inv w out(2)])
        show "SessionID ?st = SessionID snap" by simp
        show "spec_CreateIfAbsent snap (if pebble_live J cfg contents e s (SessionID snap)
                then pebble_view J cfg contents s (SessionID snap) else None) = Inr (True, Some (canon ?st))"
          unfolding getLocked_None [OF inv Inr [unfolded None]] by (simp add: spec_CreateIfAbsent_def)
        show "r = Inr True \<or> (\<exists>er. is_store_failure er \<and> r = Inl er)" if "r1 = Inr b" for b
          using out(4) [OF that] syncTx_failure by (cases "syncTx e b") auto
        show "r = Inl er" if "r1 = Inl er" for er using out(3) [OF that] .
      qed
      then show ?thesis using out(1) by simp
    qed
  qed
qed

lemma pebble_Delete_ok:
  assumes inv: "pebble_inv P J cfg contents s" and d: "pebble_Delete P cfg e sid s = (err, s')"
  shows "meets spec_Delete (pebble_live J cfg contents e s sid) sid
           (pebble_view J cfg contents s) (unit_result err) (pebble_view J cfg contents s')
         \<and> pebble_inv P J cfg contents s'"
proof -
  obtain er d' where c: "db_Commit P [BDelete (session_key cfg sid)] (db s) = (er, d')" by fastforce
  then have out: "s' = s\<lparr>db := d'\<rparr>" "err = map_option StoreFailure er"
    using d by (auto simp: pebble_Delete_def split: option.splits)
  have P: "pebble_ok P contents" and J: "json_ok J" and wf: "pebble_wf J cfg (contents (db s))"
    using inv by (simp_all add: pebble_inv_def)
  have "contents d' = (contents (db s))(session_key cfg sid := None) \<or> er \<noteq> None \<and> contents d' = contents (db s)"
    using pebble_commit [OF P c] by simp
  then have "(contents d' = (contents (db s))(session_key cfg sid := None)
      \<and> pebble_view J cfg contents s' = (pebble_view J cfg contents s)(sid := None)
      \<or> er \<noteq> None \<and> contents d' = contents (db s) \<and> pebble_view J cfg contents s' = pebble_view J cfg contents s)"
    using out(1) by (auto simp: pebble_view_def pebble_raw_def)
  then show ?thesis using P J wf out
    by (cases er) (auto simp: meets_def Let_def spec_Delete_def is_store_failure_def pebble_inv_def pebble_wf_def
        split: if_splits)
qed

lemma finish_reactivation_cases:
  assumes "finish_reactivation e (Inr (from, b), s1) = (r, s')" "From from \<noteq> []"
  shows "s' = s1 \<and> (r = Inr from \<or> (\<exists>err. is_store_failure err \<and> r = Inl err))"
  using assms syncTx_failure [of e b] by (auto simp: finish_reactivation_def split: option.splits)

lemma reactivation_states_nonempty:
  "canReactivateClaimed st \<Longrightarrow> st \<noteq> []" "canReactivateProved st h \<Longrightarrow> st \<noteq> []"
  by (auto simp: canReactivateClaimed_def canReactivateProved_def)

lemma finish_noReactivation [simp]: "finish_reactivation e (Inr (noReactivation, b), s1) = (Inr noReactivation, s1)"
  by (simp add: finish_reactivation_def noReactivation_def)

lemma finish_Inl [simp]: "finish_reactivation e (Inl err, s1) = (Inl err, s1)"
  by (simp add: finish_reactivation_def)

lemma pebble_ReactivateClaimed_ok:
  assumes inv: "pebble_inv P J cfg contents s"
    and u: "pebble_ReactivateClaimed P J cfg e sid root h s = (r, s')"
  shows "meets (spec_ReactivateClaimed sid root h) (pebble_live J cfg contents e s sid) sid
           (pebble_view J cfg contents s) r (pebble_view J cfg contents s') \<and> pebble_inv P J cfg contents s'"
proof (cases "getLocked P J cfg (now_read e) (db s) sid")
  case (Inl err)
  then have "r = Inl err" "s' = s" using u by (auto simp: pebble_ReactivateClaimed_def reactivateClaimedLocked_def)
  then show ?thesis using inv getLocked_err [OF Inl] by (auto intro: meets_failed)
next
  case (Inr x)
  show ?thesis
  proof (cases x)
    case None
    then have "r = Inl (SessionNotFound sid)" "s' = s"
      using u Inr by (auto simp: pebble_ReactivateClaimed_def reactivateClaimedLocked_def)
    then show ?thesis using inv getLocked_None [OF inv, of e sid] Inr None
      by (auto intro!: meets_refused simp: spec_ReactivateClaimed_def)
  next
    case (Some p)
    note g = getLocked_Some [OF inv, of e sid p, unfolded Inr Some, OF refl]
    show ?thesis
    proof (cases "canReactivateClaimed (State p)")
      case False
      then have "r = Inr noReactivation" "s' = s"
        using u Inr Some by (auto simp: pebble_ReactivateClaimed_def reactivateClaimedLocked_def)
      then show ?thesis using inv g(1) False by (auto intro: meets_kept simp: spec_ReactivateClaimed_def)
    next
      case True
      let ?snap = "p\<lparr>State := SessionStateClaimed, ClaimMissingVerdict := [], ClaimedRootHash := root,
                     ClaimTxHash := (if h \<noteq> [] then h else ClaimTxHash p), LastUpdatedAt := now_write e\<rparr>"
      let ?from = "\<lparr>From = State p, ReVerdict = ClaimMissingVerdict p,
                    ReClaimTxHash = ClaimTxHash p, ReProofTxHash = []\<rparr>"
      obtain r1 d' where w: "writeLocked P J cfg (Some p) ?snap (db s) = (r1, d')" by fastforce
      have nz: "State p \<noteq> []" using reactivation_states_nonempty(1) [OF True] .
      have l: "reactivateClaimedLocked P J cfg e sid root h s
        = (case r1 of Inl er \<Rightarrow> (Inl er, s\<lparr>db := d'\<rparr>) | Inr b \<Rightarrow> (Inr (?from, b), s\<lparr>db := d'\<rparr>))"
        using w Inr Some True by (simp add: reactivateClaimedLocked_def Let_def split: sum.splits)
      have fin: "r1 = Inr b \<Longrightarrow> s' = s\<lparr>db := d'\<rparr> \<and> (r = Inr ?from \<or> (\<exists>err. is_store_failure err \<and> r = Inl err))"
        and fin2: "r1 = Inl er \<Longrightarrow> s' = s\<lparr>db := d'\<rparr> \<and> r = Inl er" for b er
        using u l nz finish_reactivation_cases [of e ?from b "s\<lparr>db := d'\<rparr>" r s']
        by (simp_all add: pebble_ReactivateClaimed_def)
      show ?thesis
      proof (rule meets_write [OF inv w])
        show "s' = s\<lparr>db := d'\<rparr>" using fin fin2 by (cases r1) auto
        show "SessionID ?snap = sid" using g(2) by simp
        show "spec_ReactivateClaimed sid root h (if pebble_live J cfg contents e s sid then pebble_view J cfg contents s sid else None)
              = Inr (?from, Some (canon ?snap))"
          unfolding g(1) using True by (simp add: spec_ReactivateClaimed_def)
        show "r = Inr ?from \<or> (\<exists>err. is_store_failure err \<and> r = Inl err)" if "r1 = Inr b" for b
          using fin [OF that] by blast
        show "r = Inl er" if "r1 = Inl er" for er using fin2 [OF that] by blast
      qed
    qed
  qed
qed

lemma pebble_ReactivateProved_ok:
  assumes inv: "pebble_inv P J cfg contents s"
    and u: "pebble_ReactivateProved P J cfg e sid h s = (r, s')"
  shows "meets (spec_ReactivateProved sid h) (pebble_live J cfg contents e s sid) sid
           (pebble_view J cfg contents s) r (pebble_view J cfg contents s') \<and> pebble_inv P J cfg contents s'"
proof (cases "getLocked P J cfg (now_read e) (db s) sid")
  case (Inl err)
  then have "r = Inl err" "s' = s" using u by (auto simp: pebble_ReactivateProved_def reactivateProvedLocked_def)
  then show ?thesis using inv getLocked_err [OF Inl] by (auto intro: meets_failed)
next
  case (Inr x)
  show ?thesis
  proof (cases x)
    case None
    then have "r = Inl (SessionNotFound sid)" "s' = s"
      using u Inr by (auto simp: pebble_ReactivateProved_def reactivateProvedLocked_def)
    then show ?thesis using inv getLocked_None [OF inv, of e sid] Inr None
      by (auto intro!: meets_refused simp: spec_ReactivateProved_def)
  next
    case (Some p)
    note g = getLocked_Some [OF inv, of e sid p, unfolded Inr Some, OF refl]
    show ?thesis
    proof (cases "canReactivateProved (State p) (ProofTxHash p)")
      case False
      then have "r = Inr noReactivation" "s' = s"
        using u Inr Some by (auto simp: pebble_ReactivateProved_def reactivateProvedLocked_def)
      then show ?thesis using inv g(1) False by (auto intro: meets_kept simp: spec_ReactivateProved_def)
    next
      case True
      let ?snap = "p\<lparr>State := SessionStateProved,
                     ProofTxHash := (if ProofTxHash p = [] then h else ProofTxHash p), LastUpdatedAt := now_write e\<rparr>"
      let ?from = "\<lparr>From = State p, ReVerdict = [], ReClaimTxHash = ClaimTxHash p, ReProofTxHash = ProofTxHash p\<rparr>"
      obtain r1 d' where w: "writeLocked P J cfg (Some p) ?snap (db s) = (r1, d')" by fastforce
      have nz: "State p \<noteq> []" using reactivation_states_nonempty(2) [OF True] .
      have l: "reactivateProvedLocked P J cfg e sid h s
        = (case r1 of Inl er \<Rightarrow> (Inl er, s\<lparr>db := d'\<rparr>) | Inr b \<Rightarrow> (Inr (?from, b), s\<lparr>db := d'\<rparr>))"
        using w Inr Some True by (simp add: reactivateProvedLocked_def Let_def split: sum.splits)
      have fin: "r1 = Inr b \<Longrightarrow> s' = s\<lparr>db := d'\<rparr> \<and> (r = Inr ?from \<or> (\<exists>err. is_store_failure err \<and> r = Inl err))"
        and fin2: "r1 = Inl er \<Longrightarrow> s' = s\<lparr>db := d'\<rparr> \<and> r = Inl er" for b er
        using u l nz finish_reactivation_cases [of e ?from b "s\<lparr>db := d'\<rparr>" r s']
        by (simp_all add: pebble_ReactivateProved_def)
      show ?thesis
      proof (rule meets_write [OF inv w])
        show "s' = s\<lparr>db := d'\<rparr>" using fin fin2 by (cases r1) auto
        show "SessionID ?snap = sid" using g(2) by simp
        show "spec_ReactivateProved sid h (if pebble_live J cfg contents e s sid then pebble_view J cfg contents s sid else None)
              = Inr (?from, Some (canon ?snap))"
          unfolding g(1) using True by (simp add: spec_ReactivateProved_def)
        show "r = Inr ?from \<or> (\<exists>err. is_store_failure err \<and> r = Inl err)" if "r1 = Inr b" for b
          using fin [OF that] by blast
        show "r = Inl er" if "r1 = Inl er" for er using fin2 [OF that] by blast
      qed
    qed
  qed
qed

lemma pebble_IncrementRelayCount_ok:
  assumes inv: "pebble_inv P J cfg contents s"
    and u: "pebble_IncrementRelayCount P J cfg e sid cu s = (err, s')"
  shows "meets (spec_IncrementRelayCount sid cu) (pebble_live J cfg contents e s sid) sid
           (pebble_view J cfg contents s) (unit_result err) (pebble_view J cfg contents s')
         \<and> pebble_inv P J cfg contents s'"
proof (cases "getLocked P J cfg (now_read e) (db s) sid")
  case (Inl er)
  then have "err = Some er" "s' = s" using u by (auto simp: pebble_IncrementRelayCount_def)
  then show ?thesis using inv getLocked_err [OF Inl] by (auto intro: meets_failed)
next
  case (Inr x)
  show ?thesis
  proof (cases x)
    case None
    then have "err = Some (SessionNotFound sid)" "s' = s" using u Inr by (auto simp: pebble_IncrementRelayCount_def)
    then show ?thesis using inv getLocked_None [OF inv, of e sid] Inr None
      by (auto intro!: meets_refused simp: spec_IncrementRelayCount_def)
  next
    case (Some p)
    note g = getLocked_Some [OF inv, of e sid p, unfolded Inr Some, OF refl]
    show ?thesis
    proof (cases "IsTerminal (State p)")
      case True
      then have "err = Some ErrSessionTerminal" "s' = s" using u Inr Some by (auto simp: pebble_IncrementRelayCount_def)
      then show ?thesis using inv g(1) True by (auto intro!: meets_refused simp: spec_IncrementRelayCount_def)
    next
      case False
      let ?snap = "p\<lparr>RelayCount := i64 (RelayCount p + 1), TotalComputeUnits := TotalComputeUnits p + cu,
                     LastUpdatedAt := now_write e\<rparr>"
      obtain r1 d' where w: "writeLocked P J cfg (Some ?snap) ?snap (db s) = (r1, d')" by fastforce
      have out: "s' = s\<lparr>db := d'\<rparr>" "err = err_of r1"
        using u w Inr Some False by (auto simp: pebble_IncrementRelayCount_def Let_def split: sum.splits)
      show ?thesis
      proof (rule meets_write [OF inv w out(1)])
        show "SessionID ?snap = sid" using g(2) by simp
        show "spec_IncrementRelayCount sid cu (if pebble_live J cfg contents e s sid then pebble_view J cfg contents s sid else None)
              = Inr ((), Some (canon ?snap))"
          unfolding g(1) using False by (simp add: spec_IncrementRelayCount_def)
      qed (use out(2) in auto)
    qed
  qed
qed

lemma pebble_Get_ok:
  assumes inv: "pebble_inv P J cfg contents s"
  shows "pebble_Get P J cfg e sid s = Inr x
      \<Longrightarrow> map_option canon x = (if pebble_live J cfg contents e s sid then pebble_view J cfg contents s sid else None)"
    and "pebble_Get P J cfg e sid s = Inr (Some snap) \<Longrightarrow> SessionID snap = sid"
    and "pebble_Get P J cfg e sid s = Inl why \<Longrightarrow> is_store_failure why"
  unfolding pebble_Get_def
  subgoal
    using getLocked_None [OF inv, of e sid] getLocked_Some(1) [OF inv, of e sid] by (cases x) auto
  subgoal
    by (rule getLocked_Some(2) [OF inv])
  subgoal
    by (rule getLocked_err)
  done

lemma pebbleSessionStore_sel [simp]:
  "Save (pebbleSessionStore P J cfg) = pebble_Save P J cfg"
  "CreateIfAbsent (pebbleSessionStore P J cfg) = pebble_CreateIfAbsent P J cfg"
  "Get (pebbleSessionStore P J cfg) = pebble_Get P J cfg"
  "Delete (pebbleSessionStore P J cfg) = pebble_Delete P cfg"
  "UpdateState (pebbleSessionStore P J cfg) = pebble_UpdateState P J cfg"
  "MarkClaimMissing (pebbleSessionStore P J cfg) = pebble_MarkClaimMissing P J cfg"
  "MarkClaimTxError (pebbleSessionStore P J cfg) = pebble_MarkClaimTxError P J cfg"
  "ReactivateClaimed (pebbleSessionStore P J cfg) = pebble_ReactivateClaimed P J cfg"
  "ReactivateProved (pebbleSessionStore P J cfg) = pebble_ReactivateProved P J cfg"
  "IncrementRelayCount (pebbleSessionStore P J cfg) = pebble_IncrementRelayCount P J cfg"
  by (simp_all add: pebbleSessionStore_def)

lemma pebble_drop_ok:
  assumes "pebble_inv P J cfg contents s"
    and "(let (r, s') = pebble_updateState P J cfg e sid st vd s in (err_of r, s')) = (err, s')"
  shows "meets (drop_flag (spec_updateState sid st vd)) (pebble_live J cfg contents e s sid) sid
           (pebble_view J cfg contents s) (unit_result err) (pebble_view J cfg contents s')
       \<and> pebble_inv P J cfg contents s'"
proof -
  obtain r where u: "pebble_updateState P J cfg e sid st vd s = (r, s')" and err: "err = err_of r"
    using assms(2) by (auto simp: Let_def split: prod.splits)
  from pebble_updateState_ok [OF assms(1) u] show ?thesis unfolding err unit_result_err_of
    by (blast intro: meets_drop)
qed

interpretation pebble: session_store
  "pebbleSessionStore P J cfg" "pebble_view J cfg contents" "pebble_live J cfg contents"
  "pebble_inv P J cfg contents" "\<lambda>e. True" "\<lambda>snap. True" "\<lambda>sid. True"
  "\<lambda>s sid cu. True"
  for P :: "'d pebble" and J cfg contents
proof (unfold_locales, goal_cases)
  case 1
  show ?case by simp
next
  case 2
  show ?case by simp
next
  case (3 s e sid x)
  then show ?case using pebble_Get_ok(1) [OF 3(1)] by (simp only: pebbleSessionStore_sel)
next
  case (4 s e sid snap)
  then show ?case using pebble_Get_ok(2) [OF 4(1)] by (simp only: pebbleSessionStore_sel)
next
  case (5 s e sid why)
  then show ?case using pebble_Get_ok(3) [OF 5(1)] by (simp only: pebbleSessionStore_sel)
next
  case (6 s e snap err snap' s')
  then show ?case using pebble_Save_ok [OF 6(1)] by (simp only: pebbleSessionStore_sel)
next
  case (7 s e snap r snap' s')
  then show ?case using pebble_CreateIfAbsent_ok [OF 7(1)] by (simp only: pebbleSessionStore_sel)
next
  case (8 s e sid err s')
  then show ?case using pebble_Delete_ok [OF 8(1)] by (simp only: pebbleSessionStore_sel)
next
  case (9 s e sid st err s')
  then show ?case
    using pebble_drop_ok [OF 9(1)] by (simp only: pebbleSessionStore_sel pebble_UpdateState_def)
next
  case (10 s e sid v err s')
  then show ?case
    using pebble_drop_ok [OF 10(1)] by (simp only: pebbleSessionStore_sel pebble_MarkClaimMissing_def)
next
  case (11 s e sid v r s')
  then show ?case
    using pebble_updateState_ok [OF 11(1)] by (simp only: pebbleSessionStore_sel pebble_MarkClaimTxError_def)
next
  case (12 s e sid root h re s')
  then show ?case using pebble_ReactivateClaimed_ok [OF 12(1)] by (simp only: pebbleSessionStore_sel)
next
  case (13 s e sid h re s')
  then show ?case using pebble_ReactivateProved_ok [OF 13(1)] by (simp only: pebbleSessionStore_sel)
next
  case (14 s e sid cu err s')
  then show ?case using pebble_IncrementRelayCount_ok [OF 14(1)] by (simp only: pebbleSessionStore_sel)
next
  case (15 s e sid cu err s')
  then show ?case using pebble_IncrementRelayCount_ok [OF 15(1)] meets_counted
    by (simp only: pebbleSessionStore_sel) blast
qed

end
