(* ===== verification/Redis_Server.thy ===== *)
theory Redis_Server
  imports Strconv
begin

text \<open>
  The Redis server and the client library as the sources use them. Neither is part of the repository:
  the commands are the fields of a record over an abstract keyspace \<open>'k\<close>, and \<open>redis_ok\<close> states what
  their documentation promises, with \<open>kv\<close> reading the value stored at a key. A round trip can lose its
  request or its reply; a transaction runs all its commands and reports the first error.
\<close>

section \<open>Commands\<close>

datatype rval = RHash "string \<rightharpoonup> string" | RString string | RSet "string set"

record 'k redis =
  EXISTS :: "'k \<Rightarrow> string \<Rightarrow> bool"
  KTYPE :: "'k \<Rightarrow> string \<Rightarrow> string"
  HGET :: "'k \<Rightarrow> string \<Rightarrow> string \<Rightarrow> (string, string option) result"
  HGETALL :: "'k \<Rightarrow> string \<Rightarrow> (string, (string \<times> string) list) result"
  GETSTR :: "'k \<Rightarrow> string \<Rightarrow> (string, string option) result"
  SMEMBERS :: "'k \<Rightarrow> string \<Rightarrow> (string, string list) result"
  HSET :: "string \<Rightarrow> (string \<times> string) list \<Rightarrow> 'k \<Rightarrow> string option \<times> 'k"
  HDEL :: "string \<Rightarrow> string list \<Rightarrow> 'k \<Rightarrow> string option \<times> 'k"
  HINCRBY :: "string \<Rightarrow> string \<Rightarrow> string \<Rightarrow> 'k \<Rightarrow> string option \<times> 'k"
  EXPIRE :: "string \<Rightarrow> int \<Rightarrow> 'k \<Rightarrow> 'k"
  EXPIRE_FOR :: "string \<Rightarrow> duration \<Rightarrow> 'k \<Rightarrow> 'k"
  SADD :: "string \<Rightarrow> string \<Rightarrow> 'k \<Rightarrow> string option \<times> 'k"
  SREM :: "string \<Rightarrow> string \<Rightarrow> 'k \<Rightarrow> string option \<times> 'k"
  DEL :: "string \<Rightarrow> 'k \<Rightarrow> 'k"

text \<open>
  \<open>EXPIRE\<close> is the command with its seconds, as the scripts issue it; \<open>EXPIRE_FOR\<close> the client's method
  that takes a duration. \<open>HINCRBY\<close> takes its increment as text.
\<close>

definition wrong_type :: "string \<Rightarrow> bool" where
  "wrong_type m = Contains m ''WRONGTYPE''"

fun hset :: "(string \<rightharpoonup> string) \<Rightarrow> (string \<times> string) list \<Rightarrow> (string \<rightharpoonup> string)" where
  "hset f [] = f"
| "hset f ((k, v) # kvs) = hset (f(k \<mapsto> v)) kvs"

definition hdel :: "(string \<rightharpoonup> string) \<Rightarrow> string list \<Rightarrow> (string \<rightharpoonup> string)" where
  "hdel f ks = (\<lambda>k. if k \<in> set ks then None else f k)"

section \<open>What Redis documents\<close>

definition redis_reads_ok :: "'k redis \<Rightarrow> ('k \<Rightarrow> string \<Rightarrow> rval option) \<Rightarrow> bool" where
  "redis_reads_ok R kv =
     (\<forall>k key. EXISTS R k key = (kv k key \<noteq> None)
       \<and> (case kv k key of
            None \<Rightarrow> KTYPE R k key = ''none'' \<and> (\<forall>fld. HGET R k key fld = Inr None) \<and> HGETALL R k key = Inr []
                \<and> GETSTR R k key = Inr None
          | Some (RHash f) \<Rightarrow> KTYPE R k key = ''hash'' \<and> (\<forall>fld. HGET R k key fld = Inr (f fld))
                \<and> (\<exists>kvs. HGETALL R k key = Inr kvs \<and> map_of kvs = f)
                \<and> (\<exists>m. GETSTR R k key = Inl m \<and> wrong_type m)
          | Some (RString v) \<Rightarrow> KTYPE R k key = ''string'' \<and> GETSTR R k key = Inr (Some v)
                \<and> (\<exists>m. HGETALL R k key = Inl m \<and> wrong_type m)
                \<and> (\<forall>fld. \<exists>m. HGET R k key fld = Inl m \<and> wrong_type m)
          | Some (RSet _) \<Rightarrow> KTYPE R k key = ''set''
                \<and> (\<exists>m. GETSTR R k key = Inl m \<and> wrong_type m)
                \<and> (\<exists>m. HGETALL R k key = Inl m \<and> wrong_type m)
                \<and> (\<forall>fld. \<exists>m. HGET R k key fld = Inl m \<and> wrong_type m)))"

text \<open>Writing to a hash, and creating it when the key is absent.\<close>

definition redis_hset_ok :: "'k redis \<Rightarrow> ('k \<Rightarrow> string \<Rightarrow> rval option) \<Rightarrow> bool" where
  "redis_hset_ok R kv =
     (\<forall>k key kvs. kvs \<noteq> [] \<longrightarrow>
        (case kv k key of
           None \<Rightarrow> fst (HSET R key kvs k) = None
               \<and> kv (snd (HSET R key kvs k)) = (kv k)(key \<mapsto> RHash (hset Map.empty kvs))
         | Some (RHash f) \<Rightarrow> fst (HSET R key kvs k) = None
               \<and> kv (snd (HSET R key kvs k)) = (kv k)(key \<mapsto> RHash (hset f kvs))
         | Some _ \<Rightarrow> (\<exists>m. fst (HSET R key kvs k) = Some m \<and> wrong_type m)
               \<and> kv (snd (HSET R key kvs k)) = kv k))"

text \<open>Removing fields of a hash; a hash without fields is no key.\<close>

definition redis_hdel_ok :: "'k redis \<Rightarrow> ('k \<Rightarrow> string \<Rightarrow> rval option) \<Rightarrow> bool" where
  "redis_hdel_ok R kv =
     (\<forall>k key flds f. kv k key = Some (RHash f) \<longrightarrow>
        fst (HDEL R key flds k) = None
        \<and> kv (snd (HDEL R key flds k))
            = (kv k)(key := (if hdel f flds = Map.empty then None else Some (RHash (hdel f flds)))))"

text \<open>
  Counting in a hash: the field and the increment are signed 64-bit decimals, the sum is written back
  as one, and an increment that does not parse or leaves the range is an error that changes nothing.
\<close>

definition redis_hincrby_ok :: "'k redis \<Rightarrow> ('k \<Rightarrow> string \<Rightarrow> rval option) \<Rightarrow> bool" where
  "redis_hincrby_ok R kv =
     (\<forall>k key fld by f n. kv k key = Some (RHash f) \<and> f fld = Some (FormatInt n) \<longrightarrow>
        (case ParseInt by of
           Some d \<Rightarrow>
             if in_i64 n \<and> in_i64 (n + d)
             then fst (HINCRBY R key fld by k) = None
                  \<and> kv (snd (HINCRBY R key fld by k)) = (kv k)(key \<mapsto> RHash (f(fld \<mapsto> FormatInt (n + d))))
             else (\<exists>m. fst (HINCRBY R key fld by k) = Some m \<and> \<not> wrong_type m)
                  \<and> kv (snd (HINCRBY R key fld by k)) = kv k
         | None \<Rightarrow> (\<exists>m. fst (HINCRBY R key fld by k) = Some m \<and> \<not> wrong_type m)
                  \<and> kv (snd (HINCRBY R key fld by k)) = kv k))"

text \<open>A lifetime of a second or more removes nothing now; sets are kept at their own key.\<close>

definition redis_keys_ok :: "'k redis \<Rightarrow> ('k \<Rightarrow> string \<Rightarrow> rval option) \<Rightarrow> bool" where
  "redis_keys_ok R kv =
     ((\<forall>k key secs. 0 < secs \<longrightarrow> kv (EXPIRE R key secs k) = kv k)
      \<and> (\<forall>k key d. 10 ^ 9 \<le> d \<longrightarrow> kv (EXPIRE_FOR R key d k) = kv k)
      \<and> (\<forall>k key m key'. key' \<noteq> key \<longrightarrow> kv (snd (SADD R key m k)) key' = kv k key')
      \<and> (\<forall>k key m key'. key' \<noteq> key \<longrightarrow> kv (snd (SREM R key m k)) key' = kv k key')
      \<and> (\<forall>k key. kv (DEL R key k) = (kv k)(key := None)))"

definition redis_ok :: "'k redis \<Rightarrow> ('k \<Rightarrow> string \<Rightarrow> rval option) \<Rightarrow> bool" where
  "redis_ok R kv = (redis_reads_ok R kv \<and> redis_hset_ok R kv \<and> redis_hdel_ok R kv
     \<and> redis_hincrby_ok R kv \<and> redis_keys_ok R kv)"

section \<open>Transactions and round trips\<close>

datatype rcmd =
    CDel string
  | CHSet string "(string \<times> string) list"
  | CHDel string "string list"
  | CExpire string duration
  | CSAdd string string
  | CSRem string string

fun exec_cmd :: "'k redis \<Rightarrow> rcmd \<Rightarrow> 'k \<Rightarrow> string option \<times> 'k" where
  "exec_cmd R (CDel key) k = (None, DEL R key k)"
| "exec_cmd R (CHSet key kvs) k = HSET R key kvs k"
| "exec_cmd R (CHDel key flds) k = HDEL R key flds k"
| "exec_cmd R (CExpire key d) k = (None, EXPIRE_FOR R key d k)"
| "exec_cmd R (CSAdd key m) k = SADD R key m k"
| "exec_cmd R (CSRem key m) k = SREM R key m k"

fun run_tx :: "'k redis \<Rightarrow> rcmd list \<Rightarrow> 'k \<Rightarrow> string option \<times> 'k" where
  "run_tx R [] k = (None, k)"
| "run_tx R (c # cs) k =
     (let (e1, k1) = exec_cmd R c k; (e2, k2) = run_tx R cs k1
      in (if e1 = None then e2 else e1, k2))"

text \<open>What became of one round trip, and what the client sees of it.\<close>

datatype fate = Delivered | LostRequest string | LostReply string

definition trip :: "fate \<Rightarrow> ('k \<Rightarrow> (string, 'r) result \<times> 'k) \<Rightarrow> 'k \<Rightarrow> (string, 'r) result \<times> 'k" where
  "trip x f k =
     (case x of Delivered \<Rightarrow> f k | LostRequest m \<Rightarrow> (Inl m, k) | LostReply m \<Rightarrow> (Inl m, snd (f k)))"

definition read_trip :: "fate \<Rightarrow> (string, 'r) result \<Rightarrow> (string, 'r) result" where
  "read_trip x r = (case x of Delivered \<Rightarrow> r | LostRequest m \<Rightarrow> Inl m | LostReply m \<Rightarrow> Inl m)"

definition exec_tx :: "'k redis \<Rightarrow> fate \<Rightarrow> rcmd list \<Rightarrow> 'k \<Rightarrow> string option \<times> 'k" where
  "exec_tx R x cs k =
     (let (r, k') = trip x (\<lambda>k. case run_tx R cs k of (None, k') \<Rightarrow> (Inr (), k') | (Some m, k') \<Rightarrow> (Inl m, k')) k
      in (err_of r, k'))"

section \<open>Scripts\<close>

text \<open>
  A script is a function over the commands; an error it returns and an error of a command it issues
  both reach the client as an error reply. \<open>Text\<close>, \<open>Int64\<close> and \<open>StringSlice\<close> are how the client reads a
  reply.
\<close>

datatype lua = LNil | LInt int | LStr string | LList "string list"

type_synonym 'k script = "'k \<Rightarrow> (string, lua) result \<times> 'k"

definition Text :: "lua \<Rightarrow> (string, string) result" where
  "Text r = (case r of LStr s \<Rightarrow> Inr s | LNil \<Rightarrow> Inl ''redis: nil'' | _ \<Rightarrow> Inl ''redis: unexpected type'')"

definition Int64 :: "lua \<Rightarrow> (string, int) result" where
  "Int64 r = (case r of LInt n \<Rightarrow> Inr n | LNil \<Rightarrow> Inl ''redis: nil'' | _ \<Rightarrow> Inl ''redis: unexpected type'')"

definition StringSlice :: "lua \<Rightarrow> (string, string list) result" where
  "StringSlice r = (case r of LList xs \<Rightarrow> Inr xs | LNil \<Rightarrow> Inl ''redis: nil'' | _ \<Rightarrow> Inl ''redis: unexpected type'')"

definition read_reply :: "(lua \<Rightarrow> (string, 'r) result) \<Rightarrow> (string, lua) result \<Rightarrow> (string, 'r) result" where
  "read_reply f r = (case r of Inl m \<Rightarrow> Inl m | Inr x \<Rightarrow> f x)"

text \<open>The next command of a script, after one that may have raised an error.\<close>

definition after :: "string option \<times> 'k \<Rightarrow> 'k script \<Rightarrow> (string, lua) result \<times> 'k" where
  "after step rest = (case step of (Some m, k) \<Rightarrow> (Inl m, k) | (None, k) \<Rightarrow> rest k)"

definition lua_or :: "string option \<Rightarrow> string" where
  "lua_or x = (case x of None \<Rightarrow> [] | Some v \<Rightarrow> v)"

section \<open>Facts\<close>

lemma after_simps [simp]: "after (Some m, k) rest = (Inl m, k)" "after (None, k) rest = rest k"
  by (simp_all add: after_def)

lemma lua_or_simps [simp]: "lua_or None = []" "lua_or (Some v) = v"
  by (simp_all add: lua_or_def)

lemma reply_simps [simp]:
  "Text (LStr v) = Inr v" "Text LNil = Inl ''redis: nil''" "Int64 (LInt n) = Inr n" "StringSlice (LList xs) = Inr xs"
  "read_reply g (Inl m) = Inl m" "read_reply g (Inr x) = g x"
  by (simp_all add: Text_def Int64_def StringSlice_def read_reply_def)

lemma trip_simps [simp]:
  "trip Delivered f k = f k" "trip (LostRequest m) f k = (Inl m, k)" "trip (LostReply m) f k = (Inl m, snd (f k))"
  "read_trip Delivered r = r" "read_trip (LostRequest m) r = Inl m" "read_trip (LostReply m) r = Inl m"
  by (simp_all add: trip_def read_trip_def)

lemma hset_append [simp]: "hset f (xs @ ys) = hset (hset f xs) ys"
  by (induction xs arbitrary: f) auto

lemma hdel_simps [simp]: "hdel f ks k = (if k \<in> set ks then None else f k)" "hdel f [] = f"
  by (simp_all add: hdel_def)

lemma redis_exists: "redis_ok R kv \<Longrightarrow> EXISTS R k key = (kv k key \<noteq> None)"
  by (simp add: redis_ok_def redis_reads_ok_def)

lemma redis_absent:
  assumes redis: "redis_ok R kv" and k: "kv k key = None"
  shows "HGETALL R k key = Inr []" "GETSTR R k key = Inr None"
  using assms unfolding redis_ok_def redis_reads_ok_def by (auto dest!: spec [of _ k] spec [of _ key])

lemma redis_hash:
  assumes redis: "redis_ok R kv" and k: "kv k key = Some (RHash f)"
  shows "KTYPE R k key = ''hash''" "HGET R k key fld = Inr (f fld)"
    "\<exists>kvs. HGETALL R k key = Inr kvs \<and> map_of kvs = f"
  using assms unfolding redis_ok_def redis_reads_ok_def by (auto dest!: spec [of _ k] spec [of _ key])

lemma redis_HSET:
  assumes redis: "redis_ok R kv" and k: "kv k key = Some (RHash f)" "kvs \<noteq> []"
  shows "\<exists>k'. HSET R key kvs k = (None, k') \<and> kv k' = (kv k)(key \<mapsto> RHash (hset f kvs))"
proof -
  have "fst (HSET R key kvs k) = None \<and> kv (snd (HSET R key kvs k)) = (kv k)(key \<mapsto> RHash (hset f kvs))"
    using assms unfolding redis_ok_def redis_hset_ok_def by (auto dest!: spec [of _ k] spec [of _ key])
  then show ?thesis by (cases "HSET R key kvs k") simp
qed

lemma redis_HSET_new:
  assumes redis: "redis_ok R kv" and k: "kv k key = None" "kvs \<noteq> []"
  shows "\<exists>k'. HSET R key kvs k = (None, k') \<and> kv k' = (kv k)(key \<mapsto> RHash (hset Map.empty kvs))"
proof -
  have "fst (HSET R key kvs k) = None \<and> kv (snd (HSET R key kvs k)) = (kv k)(key \<mapsto> RHash (hset Map.empty kvs))"
    using assms unfolding redis_ok_def redis_hset_ok_def by (auto dest!: spec [of _ k] spec [of _ key])
  then show ?thesis by (cases "HSET R key kvs k") simp
qed

lemma redis_HDEL:
  assumes redis: "redis_ok R kv" and k: "kv k key = Some (RHash f)" "f x = Some v" "x \<notin> set flds"
  shows "\<exists>k'. HDEL R key flds k = (None, k') \<and> kv k' = (kv k)(key \<mapsto> RHash (hdel f flds))"
proof -
  have "hdel f flds x \<noteq> None" using assms(3,4) by simp
  then have "hdel f flds \<noteq> Map.empty" by metis
  moreover have "fst (HDEL R key flds k) = None \<and> kv (snd (HDEL R key flds k))
      = (kv k)(key := (if hdel f flds = Map.empty then None else Some (RHash (hdel f flds))))"
    using redis k unfolding redis_ok_def redis_hdel_ok_def by blast
  ultimately show ?thesis by (cases "HDEL R key flds k") simp
qed

lemma redis_HINCRBY:
  assumes redis: "redis_ok R kv" and k: "kv k key = Some (RHash f)" "f fld = Some (FormatInt n)"
  obtains d k' where "ParseInt by = Some d" "in_i64 n" "in_i64 (n + d)" "HINCRBY R key fld by k = (None, k')"
      "kv k' = (kv k)(key \<mapsto> RHash (f(fld \<mapsto> FormatInt (n + d))))"
  | m k' where "\<not> (\<exists>d. ParseInt by = Some d \<and> in_i64 n \<and> in_i64 (n + d))"
      "HINCRBY R key fld by k = (Some m, k')" "\<not> wrong_type m" "kv k' = kv k"
proof -
  have h: "case ParseInt by of
           Some d \<Rightarrow>
             if in_i64 n \<and> in_i64 (n + d)
             then fst (HINCRBY R key fld by k) = None
                  \<and> kv (snd (HINCRBY R key fld by k)) = (kv k)(key \<mapsto> RHash (f(fld \<mapsto> FormatInt (n + d))))
             else (\<exists>m. fst (HINCRBY R key fld by k) = Some m \<and> \<not> wrong_type m)
                  \<and> kv (snd (HINCRBY R key fld by k)) = kv k
         | None \<Rightarrow> (\<exists>m. fst (HINCRBY R key fld by k) = Some m \<and> \<not> wrong_type m)
                  \<and> kv (snd (HINCRBY R key fld by k)) = kv k"
    using assms unfolding redis_ok_def redis_hincrby_ok_def by blast
  obtain e k' where c: "HINCRBY R key fld by k = (e, k')" by (cases "HINCRBY R key fld by k")
  show ?thesis
  proof (cases "\<exists>d. ParseInt by = Some d \<and> in_i64 n \<and> in_i64 (n + d)")
    case True
    then obtain d where d: "ParseInt by = Some d" "in_i64 n" "in_i64 (n + d)" by blast
    with h c have "e = None" "kv k' = (kv k)(key \<mapsto> RHash (f(fld \<mapsto> FormatInt (n + d))))" by simp_all
    then show ?thesis using that(1) d c by blast
  next
    case False
    then have "(\<exists>m. e = Some m \<and> \<not> wrong_type m) \<and> kv k' = kv k"
      using h c by (auto split: option.splits if_splits)
    then show ?thesis using that(2) False c by blast
  qed
qed

lemma redis_frame:
  assumes redis: "redis_ok R kv"
  shows
  "0 < secs \<Longrightarrow> kv (EXPIRE R key secs k) = kv k"
  "10 ^ 9 \<le> d \<Longrightarrow> kv (EXPIRE_FOR R key d k) = kv k"
  "key' \<noteq> key \<Longrightarrow> kv (snd (SADD R key m k)) key' = kv k key'"
  "key' \<noteq> key \<Longrightarrow> kv (snd (SREM R key m k)) key' = kv k key'"
  "kv (DEL R key k) = (kv k)(key := None)"
  using redis by (simp_all add: redis_ok_def redis_keys_ok_def)

end
