(* ===== verification/Redis_Sessions.thy ===== *)
theory Redis_Sessions
  imports Session_Store Redis_Server Redis_Keys
begin

text \<open>
  The Redis session store of \<open>src/miner/session_store.go\<close>: the hash codec of a snapshot, the Lua
  scripts, and the methods of \<open>RedisSessionStore\<close>. Redis is the parameter \<open>R\<close>, the RFC 3339 rendering of
  times the parameter \<open>T\<close>, \<open>encoding/json\<close> the parameter \<open>J\<close> (legacy keys only), and \<open>L\<close> renders the
  number a script passes to a counting command. The round trips of one call run with no other client's
  command between them.
\<close>

section \<open>Configuration and keys\<close>

record redis_config =
  rc_kb :: KeyBuilder
  rc_supplier :: string
  rc_ttl :: duration

record 'k redis_store =
  keyspace :: 'k
  redis_closed :: bool

text \<open>\<open>NewRedisSessionStore\<close>: an unset lifetime becomes two hours.\<close>

definition NewRedisSessionStore :: "KeyBuilder \<Rightarrow> string \<Rightarrow> duration \<Rightarrow> redis_config" where
  "NewRedisSessionStore kb supplier ttl =
     \<lparr>rc_kb = kb, rc_supplier = supplier, rc_ttl = (if ttl = 0 then 2 * 3600 * 10 ^ 9 else ttl)\<rparr>"

definition sessionKey :: "redis_config \<Rightarrow> string \<Rightarrow> string" where
  "sessionKey c sid = MinerSessionKey (rc_kb c) (rc_supplier c) sid"

definition supplierSessionsKey :: "redis_config \<Rightarrow> string" where
  "supplierSessionsKey c = MinerSessionsIndexKey (rc_kb c) (rc_supplier c)"

definition stateIndexKey :: "redis_config \<Rightarrow> SessionState \<Rightarrow> string" where
  "stateIndexKey c st = MinerSessionStateIndexKey (rc_kb c) (rc_supplier c) st"

text \<open>The whole seconds of the lifetime, towards zero.\<close>

definition ttl_seconds :: "redis_config \<Rightarrow> int" where
  "ttl_seconds c = (if rc_ttl c < 0 then - ((- rc_ttl c) div 10 ^ 9) else rc_ttl c div 10 ^ 9)"

section \<open>The hash codec\<close>

record time_codec =
  Format :: "time \<Rightarrow> string"
  ParseTime :: "string \<Rightarrow> time option"

definition hfSessionID :: string where [field_names]: "hfSessionID = ''session_id''"
definition hfSupplierOperator :: string where [field_names]: "hfSupplierOperator = ''supplier_operator_address''"
definition hfServiceID :: string where [field_names]: "hfServiceID = ''service_id''"
definition hfApplicationAddress :: string where [field_names]: "hfApplicationAddress = ''application_address''"
definition hfSessionStartHeight :: string where [field_names]: "hfSessionStartHeight = ''session_start_height''"
definition hfSessionEndHeight :: string where [field_names]: "hfSessionEndHeight = ''session_end_height''"
definition hfState :: string where [field_names]: "hfState = ''state''"
definition hfRelayCount :: string where [field_names]: "hfRelayCount = ''relay_count''"
definition hfTotalComputeUnits :: string where [field_names]: "hfTotalComputeUnits = ''total_compute_units''"
definition hfClaimedRootHash :: string where [field_names]: "hfClaimedRootHash = ''claimed_root_hash''"
definition hfClaimTxHash :: string where [field_names]: "hfClaimTxHash = ''claim_tx_hash''"
definition hfClaimMissingVerdict :: string where [field_names]: "hfClaimMissingVerdict = ''claim_missing_verdict''"
definition hfProofTxHash :: string where [field_names]: "hfProofTxHash = ''proof_tx_hash''"
definition hfCreatedAt :: string where [field_names]: "hfCreatedAt = ''created_at''"
definition hfLastUpdatedAt :: string where [field_names]: "hfLastUpdatedAt = ''last_updated_at''"

lemma hf_neq [simp]:
  "hfSessionID \<noteq> hfSupplierOperator" "hfSessionID \<noteq> hfServiceID" "hfSessionID \<noteq> hfApplicationAddress"
  "hfSessionID \<noteq> hfSessionStartHeight" "hfSessionID \<noteq> hfSessionEndHeight" "hfSessionID \<noteq> hfState"
  "hfSessionID \<noteq> hfRelayCount" "hfSessionID \<noteq> hfTotalComputeUnits" "hfSessionID \<noteq> hfClaimedRootHash"
  "hfSessionID \<noteq> hfClaimTxHash" "hfSessionID \<noteq> hfClaimMissingVerdict" "hfSessionID \<noteq> hfProofTxHash"
  "hfSessionID \<noteq> hfCreatedAt" "hfSessionID \<noteq> hfLastUpdatedAt"
  "hfSupplierOperator \<noteq> hfSessionID" "hfSupplierOperator \<noteq> hfServiceID" "hfSupplierOperator \<noteq> hfApplicationAddress"
  "hfSupplierOperator \<noteq> hfSessionStartHeight" "hfSupplierOperator \<noteq> hfSessionEndHeight" "hfSupplierOperator \<noteq> hfState"
  "hfSupplierOperator \<noteq> hfRelayCount" "hfSupplierOperator \<noteq> hfTotalComputeUnits" "hfSupplierOperator \<noteq> hfClaimedRootHash"
  "hfSupplierOperator \<noteq> hfClaimTxHash" "hfSupplierOperator \<noteq> hfClaimMissingVerdict" "hfSupplierOperator \<noteq> hfProofTxHash"
  "hfSupplierOperator \<noteq> hfCreatedAt" "hfSupplierOperator \<noteq> hfLastUpdatedAt"
  "hfServiceID \<noteq> hfSessionID" "hfServiceID \<noteq> hfSupplierOperator" "hfServiceID \<noteq> hfApplicationAddress"
  "hfServiceID \<noteq> hfSessionStartHeight" "hfServiceID \<noteq> hfSessionEndHeight" "hfServiceID \<noteq> hfState"
  "hfServiceID \<noteq> hfRelayCount" "hfServiceID \<noteq> hfTotalComputeUnits" "hfServiceID \<noteq> hfClaimedRootHash"
  "hfServiceID \<noteq> hfClaimTxHash" "hfServiceID \<noteq> hfClaimMissingVerdict" "hfServiceID \<noteq> hfProofTxHash"
  "hfServiceID \<noteq> hfCreatedAt" "hfServiceID \<noteq> hfLastUpdatedAt"
  "hfApplicationAddress \<noteq> hfSessionID" "hfApplicationAddress \<noteq> hfSupplierOperator" "hfApplicationAddress \<noteq> hfServiceID"
  "hfApplicationAddress \<noteq> hfSessionStartHeight" "hfApplicationAddress \<noteq> hfSessionEndHeight" "hfApplicationAddress \<noteq> hfState"
  "hfApplicationAddress \<noteq> hfRelayCount" "hfApplicationAddress \<noteq> hfTotalComputeUnits" "hfApplicationAddress \<noteq> hfClaimedRootHash"
  "hfApplicationAddress \<noteq> hfClaimTxHash" "hfApplicationAddress \<noteq> hfClaimMissingVerdict" "hfApplicationAddress \<noteq> hfProofTxHash"
  "hfApplicationAddress \<noteq> hfCreatedAt" "hfApplicationAddress \<noteq> hfLastUpdatedAt"
  "hfSessionStartHeight \<noteq> hfSessionID" "hfSessionStartHeight \<noteq> hfSupplierOperator" "hfSessionStartHeight \<noteq> hfServiceID"
  "hfSessionStartHeight \<noteq> hfApplicationAddress" "hfSessionStartHeight \<noteq> hfSessionEndHeight" "hfSessionStartHeight \<noteq> hfState"
  "hfSessionStartHeight \<noteq> hfRelayCount" "hfSessionStartHeight \<noteq> hfTotalComputeUnits" "hfSessionStartHeight \<noteq> hfClaimedRootHash"
  "hfSessionStartHeight \<noteq> hfClaimTxHash" "hfSessionStartHeight \<noteq> hfClaimMissingVerdict" "hfSessionStartHeight \<noteq> hfProofTxHash"
  "hfSessionStartHeight \<noteq> hfCreatedAt" "hfSessionStartHeight \<noteq> hfLastUpdatedAt"
  "hfSessionEndHeight \<noteq> hfSessionID" "hfSessionEndHeight \<noteq> hfSupplierOperator" "hfSessionEndHeight \<noteq> hfServiceID"
  "hfSessionEndHeight \<noteq> hfApplicationAddress" "hfSessionEndHeight \<noteq> hfSessionStartHeight" "hfSessionEndHeight \<noteq> hfState"
  "hfSessionEndHeight \<noteq> hfRelayCount" "hfSessionEndHeight \<noteq> hfTotalComputeUnits" "hfSessionEndHeight \<noteq> hfClaimedRootHash"
  "hfSessionEndHeight \<noteq> hfClaimTxHash" "hfSessionEndHeight \<noteq> hfClaimMissingVerdict" "hfSessionEndHeight \<noteq> hfProofTxHash"
  "hfSessionEndHeight \<noteq> hfCreatedAt" "hfSessionEndHeight \<noteq> hfLastUpdatedAt"
  "hfState \<noteq> hfSessionID" "hfState \<noteq> hfSupplierOperator" "hfState \<noteq> hfServiceID"
  "hfState \<noteq> hfApplicationAddress" "hfState \<noteq> hfSessionStartHeight" "hfState \<noteq> hfSessionEndHeight"
  "hfState \<noteq> hfRelayCount" "hfState \<noteq> hfTotalComputeUnits" "hfState \<noteq> hfClaimedRootHash"
  "hfState \<noteq> hfClaimTxHash" "hfState \<noteq> hfClaimMissingVerdict" "hfState \<noteq> hfProofTxHash"
  "hfState \<noteq> hfCreatedAt" "hfState \<noteq> hfLastUpdatedAt"
  "hfRelayCount \<noteq> hfSessionID" "hfRelayCount \<noteq> hfSupplierOperator" "hfRelayCount \<noteq> hfServiceID"
  "hfRelayCount \<noteq> hfApplicationAddress" "hfRelayCount \<noteq> hfSessionStartHeight" "hfRelayCount \<noteq> hfSessionEndHeight"
  "hfRelayCount \<noteq> hfState" "hfRelayCount \<noteq> hfTotalComputeUnits" "hfRelayCount \<noteq> hfClaimedRootHash"
  "hfRelayCount \<noteq> hfClaimTxHash" "hfRelayCount \<noteq> hfClaimMissingVerdict" "hfRelayCount \<noteq> hfProofTxHash"
  "hfRelayCount \<noteq> hfCreatedAt" "hfRelayCount \<noteq> hfLastUpdatedAt"
  "hfTotalComputeUnits \<noteq> hfSessionID" "hfTotalComputeUnits \<noteq> hfSupplierOperator" "hfTotalComputeUnits \<noteq> hfServiceID"
  "hfTotalComputeUnits \<noteq> hfApplicationAddress" "hfTotalComputeUnits \<noteq> hfSessionStartHeight" "hfTotalComputeUnits \<noteq> hfSessionEndHeight"
  "hfTotalComputeUnits \<noteq> hfState" "hfTotalComputeUnits \<noteq> hfRelayCount" "hfTotalComputeUnits \<noteq> hfClaimedRootHash"
  "hfTotalComputeUnits \<noteq> hfClaimTxHash" "hfTotalComputeUnits \<noteq> hfClaimMissingVerdict" "hfTotalComputeUnits \<noteq> hfProofTxHash"
  "hfTotalComputeUnits \<noteq> hfCreatedAt" "hfTotalComputeUnits \<noteq> hfLastUpdatedAt"
  "hfClaimedRootHash \<noteq> hfSessionID" "hfClaimedRootHash \<noteq> hfSupplierOperator" "hfClaimedRootHash \<noteq> hfServiceID"
  "hfClaimedRootHash \<noteq> hfApplicationAddress" "hfClaimedRootHash \<noteq> hfSessionStartHeight" "hfClaimedRootHash \<noteq> hfSessionEndHeight"
  "hfClaimedRootHash \<noteq> hfState" "hfClaimedRootHash \<noteq> hfRelayCount" "hfClaimedRootHash \<noteq> hfTotalComputeUnits"
  "hfClaimedRootHash \<noteq> hfClaimTxHash" "hfClaimedRootHash \<noteq> hfClaimMissingVerdict" "hfClaimedRootHash \<noteq> hfProofTxHash"
  "hfClaimedRootHash \<noteq> hfCreatedAt" "hfClaimedRootHash \<noteq> hfLastUpdatedAt"
  "hfClaimTxHash \<noteq> hfSessionID" "hfClaimTxHash \<noteq> hfSupplierOperator" "hfClaimTxHash \<noteq> hfServiceID"
  "hfClaimTxHash \<noteq> hfApplicationAddress" "hfClaimTxHash \<noteq> hfSessionStartHeight" "hfClaimTxHash \<noteq> hfSessionEndHeight"
  "hfClaimTxHash \<noteq> hfState" "hfClaimTxHash \<noteq> hfRelayCount" "hfClaimTxHash \<noteq> hfTotalComputeUnits"
  "hfClaimTxHash \<noteq> hfClaimedRootHash" "hfClaimTxHash \<noteq> hfClaimMissingVerdict" "hfClaimTxHash \<noteq> hfProofTxHash"
  "hfClaimTxHash \<noteq> hfCreatedAt" "hfClaimTxHash \<noteq> hfLastUpdatedAt"
  "hfClaimMissingVerdict \<noteq> hfSessionID" "hfClaimMissingVerdict \<noteq> hfSupplierOperator" "hfClaimMissingVerdict \<noteq> hfServiceID"
  "hfClaimMissingVerdict \<noteq> hfApplicationAddress" "hfClaimMissingVerdict \<noteq> hfSessionStartHeight" "hfClaimMissingVerdict \<noteq> hfSessionEndHeight"
  "hfClaimMissingVerdict \<noteq> hfState" "hfClaimMissingVerdict \<noteq> hfRelayCount" "hfClaimMissingVerdict \<noteq> hfTotalComputeUnits"
  "hfClaimMissingVerdict \<noteq> hfClaimedRootHash" "hfClaimMissingVerdict \<noteq> hfClaimTxHash" "hfClaimMissingVerdict \<noteq> hfProofTxHash"
  "hfClaimMissingVerdict \<noteq> hfCreatedAt" "hfClaimMissingVerdict \<noteq> hfLastUpdatedAt"
  "hfProofTxHash \<noteq> hfSessionID" "hfProofTxHash \<noteq> hfSupplierOperator" "hfProofTxHash \<noteq> hfServiceID"
  "hfProofTxHash \<noteq> hfApplicationAddress" "hfProofTxHash \<noteq> hfSessionStartHeight" "hfProofTxHash \<noteq> hfSessionEndHeight"
  "hfProofTxHash \<noteq> hfState" "hfProofTxHash \<noteq> hfRelayCount" "hfProofTxHash \<noteq> hfTotalComputeUnits"
  "hfProofTxHash \<noteq> hfClaimedRootHash" "hfProofTxHash \<noteq> hfClaimTxHash" "hfProofTxHash \<noteq> hfClaimMissingVerdict"
  "hfProofTxHash \<noteq> hfCreatedAt" "hfProofTxHash \<noteq> hfLastUpdatedAt"
  "hfCreatedAt \<noteq> hfSessionID" "hfCreatedAt \<noteq> hfSupplierOperator" "hfCreatedAt \<noteq> hfServiceID"
  "hfCreatedAt \<noteq> hfApplicationAddress" "hfCreatedAt \<noteq> hfSessionStartHeight" "hfCreatedAt \<noteq> hfSessionEndHeight"
  "hfCreatedAt \<noteq> hfState" "hfCreatedAt \<noteq> hfRelayCount" "hfCreatedAt \<noteq> hfTotalComputeUnits"
  "hfCreatedAt \<noteq> hfClaimedRootHash" "hfCreatedAt \<noteq> hfClaimTxHash" "hfCreatedAt \<noteq> hfClaimMissingVerdict"
  "hfCreatedAt \<noteq> hfProofTxHash" "hfCreatedAt \<noteq> hfLastUpdatedAt"
  "hfLastUpdatedAt \<noteq> hfSessionID" "hfLastUpdatedAt \<noteq> hfSupplierOperator" "hfLastUpdatedAt \<noteq> hfServiceID"
  "hfLastUpdatedAt \<noteq> hfApplicationAddress" "hfLastUpdatedAt \<noteq> hfSessionStartHeight" "hfLastUpdatedAt \<noteq> hfSessionEndHeight"
  "hfLastUpdatedAt \<noteq> hfState" "hfLastUpdatedAt \<noteq> hfRelayCount" "hfLastUpdatedAt \<noteq> hfTotalComputeUnits"
  "hfLastUpdatedAt \<noteq> hfClaimedRootHash" "hfLastUpdatedAt \<noteq> hfClaimTxHash" "hfLastUpdatedAt \<noteq> hfClaimMissingVerdict"
  "hfLastUpdatedAt \<noteq> hfProofTxHash" "hfLastUpdatedAt \<noteq> hfCreatedAt"
  by (simp_all add: field_names)

definition encodeSnapshotMetadata :: "time_codec \<Rightarrow> SessionSnapshot \<Rightarrow> (string \<times> string) list" where
  "encodeSnapshotMetadata T snap =
     [(hfSessionID, SessionID snap),
      (hfSupplierOperator, SupplierOperatorAddress snap),
      (hfServiceID, ServiceID snap),
      (hfApplicationAddress, ApplicationAddress snap),
      (hfSessionStartHeight, FormatInt (SessionStartHeight snap)),
      (hfSessionEndHeight, FormatInt (SessionEndHeight snap)),
      (hfState, State snap),
      (hfCreatedAt, Format T (CreatedAt snap)),
      (hfLastUpdatedAt, Format T (LastUpdatedAt snap))]
     @ (if ClaimedRootHash snap \<noteq> [] then [(hfClaimedRootHash, ClaimedRootHash snap)] else [])
     @ (if ClaimTxHash snap \<noteq> [] then [(hfClaimTxHash, ClaimTxHash snap)] else [])
     @ (if ProofTxHash snap \<noteq> [] then [(hfProofTxHash, ProofTxHash snap)] else [])
     @ (if ClaimMissingVerdict snap \<noteq> [] then [(hfClaimMissingVerdict, ClaimMissingVerdict snap)] else [])"

definition encodeSnapshot :: "time_codec \<Rightarrow> SessionSnapshot \<Rightarrow> (string \<times> string) list" where
  "encodeSnapshot T snap =
     encodeSnapshotMetadata T snap
     @ [(hfRelayCount, FormatInt (RelayCount snap)),
        (hfTotalComputeUnits, FormatUint (TotalComputeUnits snap))]"

text \<open>One optional field: absent or empty is the zero value, anything else has to parse.\<close>

definition decode_field :: "(string \<Rightarrow> 'a option) \<Rightarrow> 'a \<Rightarrow> string \<Rightarrow> (string \<rightharpoonup> string) \<Rightarrow> (string, 'a) result" where
  "decode_field parse z fld flds =
     (let v = lua_or (flds fld) in
      if v = [] then Inr z
      else case parse v of None \<Rightarrow> Inl (''decode '' @ fld) | Some x \<Rightarrow> Inr x)"

definition decode_root :: "(string \<rightharpoonup> string) \<Rightarrow> string" where
  "decode_root flds =
     (case flds hfClaimedRootHash of
        None \<Rightarrow> []
      | Some v \<Rightarrow> if v = [] then [] else if length v \<noteq> SMSTRootLen then [] else v)"

definition decode_fields :: "time_codec \<Rightarrow> (string \<rightharpoonup> string) \<Rightarrow> (string, SessionSnapshot) result" where
  "decode_fields T flds =
     (case decode_field ParseInt 0 hfSessionStartHeight flds of Inl e \<Rightarrow> Inl e | Inr start \<Rightarrow>
      case decode_field ParseInt 0 hfSessionEndHeight flds of Inl e \<Rightarrow> Inl e | Inr end_height \<Rightarrow>
      case decode_field ParseInt 0 hfRelayCount flds of Inl e \<Rightarrow> Inl e | Inr relays \<Rightarrow>
      case decode_field ParseUint 0 hfTotalComputeUnits flds of Inl e \<Rightarrow> Inl e | Inr units \<Rightarrow>
      case decode_field (ParseTime T) zero_time hfCreatedAt flds of Inl e \<Rightarrow> Inl e | Inr created \<Rightarrow>
      case decode_field (ParseTime T) zero_time hfLastUpdatedAt flds of Inl e \<Rightarrow> Inl e | Inr updated \<Rightarrow>
      Inr \<lparr>SessionID = lua_or (flds hfSessionID),
           SupplierOperatorAddress = lua_or (flds hfSupplierOperator),
           ServiceID = lua_or (flds hfServiceID),
           ApplicationAddress = lua_or (flds hfApplicationAddress),
           SessionStartHeight = start, SessionEndHeight = end_height,
           State = lua_or (flds hfState),
           RelayCount = relays, TotalComputeUnits = units,
           ClaimedRootHash = decode_root flds,
           ClaimTxHash = lua_or (flds hfClaimTxHash),
           ProofTxHash = lua_or (flds hfProofTxHash),
           ClaimMissingVerdict = lua_or (flds hfClaimMissingVerdict),
           LastUpdatedAt = updated, CreatedAt = created\<rparr>)"

definition decodeSnapshot :: "time_codec \<Rightarrow> (string \<times> string) list \<Rightarrow> (string, SessionSnapshot option) result" where
  "decodeSnapshot T flds =
     (if flds = [] then Inr None
      else case decode_fields T (map_of flds) of Inl e \<Rightarrow> Inl e | Inr snap \<Rightarrow> Inr (Some snap))"

section \<open>The scripts\<close>

definition createIfAbsentScript :: "'k redis \<Rightarrow> string \<Rightarrow> int \<Rightarrow> (string \<times> string) list \<Rightarrow> 'k script" where
  "createIfAbsentScript R key ttl kvs k =
     (if EXISTS R k key then (Inr (LInt 0), k)
      else after (HSET R key kvs k) (\<lambda>k. (Inr (LInt 1), EXPIRE R key ttl k)))"

definition updateStateScript ::
  "'k redis \<Rightarrow> string \<Rightarrow> SessionState \<Rightarrow> string \<Rightarrow> int \<Rightarrow> string \<Rightarrow> 'k script" where
  "updateStateScript R key newState now ttl verdict k =
     (if \<not> EXISTS R k key then (Inl ''session not found'', k)
      else if KTYPE R k key \<noteq> ''hash'' then (Inl ''legacy key'', k)
      else case HGET R k key hfState of Inl e \<Rightarrow> (Inl e, k) | Inr old_state \<Rightarrow>
      if (newState = SessionStateClaimWindowClosed \<or> newState = SessionStateClaimTxError)
         \<and> luaHoldsClaimOnChain old_state
      then (Inl ''claim already on chain'', k)
      else case (if newState = SessionStateActive then HGET R k key hfClaimTxHash else Inr None) of
        Inl e \<Rightarrow> (Inl e, k) | Inr claim_tx_hash \<Rightarrow>
      if newState = SessionStateActive
         \<and> (old_state \<noteq> Some SessionStateClaiming \<or> lua_or claim_tx_hash \<noteq> [])
      then (Inl ''not an unsent claim'', k)
      else case (if newState = SessionStateClaimed then HGET R k key hfProofTxHash else Inr None) of
        Inl e \<Rightarrow> (Inl e, k) | Inr proof_tx_hash \<Rightarrow>
      if newState = SessionStateClaimed
         \<and> (lua_or proof_tx_hash \<noteq> [] \<or> old_state = Some SessionStateProved
            \<or> old_state = Some SessionStateProbabilisticProved
            \<or> old_state = Some SessionStateProofWindowClosed \<or> old_state = Some SessionStateProofTxError)
      then (Inl ''not an unsent proof'', k)
      else after (HSET R key [(hfState, newState), (hfLastUpdatedAt, now)] k) (\<lambda>k.
           after (if verdict \<noteq> [] \<and> old_state \<noteq> Some newState
                  then HSET R key [(hfClaimMissingVerdict, verdict)] k else (None, k)) (\<lambda>k.
           (Inr (case old_state of None \<Rightarrow> LNil | Some st \<Rightarrow> LStr st), EXPIRE R key ttl k))))"

definition reactivateClaimedScript ::
  "'k redis \<Rightarrow> string \<Rightarrow> string \<Rightarrow> string \<Rightarrow> string \<Rightarrow> int \<Rightarrow> 'k script" where
  "reactivateClaimedScript R key root txHash now ttl k =
     (if \<not> EXISTS R k key then (Inl ''session not found'', k)
      else if KTYPE R k key \<noteq> ''hash'' then (Inl ''legacy key'', k)
      else case HGET R k key hfState of Inl e \<Rightarrow> (Inl e, k) | Inr old_state \<Rightarrow>
      if old_state \<noteq> Some SessionStateActive \<and> old_state \<noteq> Some SessionStateClaiming
         \<and> old_state \<noteq> Some SessionStateClaimWindowClosed \<and> old_state \<noteq> Some SessionStateClaimTxError
         \<and> old_state \<noteq> Some SessionStateClaimMissing
      then (Inr (LList [[], [], []]), k)
      else case HGET R k key hfClaimMissingVerdict of Inl e \<Rightarrow> (Inl e, k) | Inr old_verdict \<Rightarrow>
      case HGET R k key hfClaimTxHash of Inl e \<Rightarrow> (Inl e, k) | Inr old_tx_hash \<Rightarrow>
      after (HSET R key [(hfState, SessionStateClaimed), (hfClaimedRootHash, root), (hfLastUpdatedAt, now)] k) (\<lambda>k.
      after (HDEL R key [hfClaimMissingVerdict] k) (\<lambda>k.
      after (if txHash \<noteq> [] then HSET R key [(hfClaimTxHash, txHash)] k else (None, k)) (\<lambda>k.
      (Inr (LList [lua_or old_state, lua_or old_verdict, lua_or old_tx_hash]), EXPIRE R key ttl k)))))"

definition reactivateProvedScript ::
  "'k redis \<Rightarrow> string \<Rightarrow> string \<Rightarrow> string \<Rightarrow> int \<Rightarrow> 'k script" where
  "reactivateProvedScript R key txHash now ttl k =
     (if \<not> EXISTS R k key then (Inl ''session not found'', k)
      else if KTYPE R k key \<noteq> ''hash'' then (Inl ''legacy key'', k)
      else case HGET R k key hfState of Inl e \<Rightarrow> (Inl e, k) | Inr old_state \<Rightarrow>
      case HGET R k key hfProofTxHash of Inl e \<Rightarrow> (Inl e, k) | Inr proof \<Rightarrow>
      let old_proof = lua_or proof in
      if \<not> luaCanReactivateProved old_state old_proof then (Inr (LList [[], [], [], []]), k)
      else after (HSET R key [(hfState, SessionStateProved), (hfLastUpdatedAt, now)] k) (\<lambda>k.
           after (if old_proof = [] \<and> txHash \<noteq> [] then HSET R key [(hfProofTxHash, txHash)] k else (None, k)) (\<lambda>k.
           let k = EXPIRE R key ttl k in
           case HGET R k key hfClaimTxHash of Inl e \<Rightarrow> (Inl e, k) | Inr claim_tx_hash \<Rightarrow>
           (Inr (LList [lua_or old_state, [], lua_or claim_tx_hash, old_proof]), k))))"

definition incrementRelayCountScript ::
  "'k redis \<Rightarrow> string \<Rightarrow> string \<Rightarrow> string \<Rightarrow> int \<Rightarrow> 'k script" where
  "incrementRelayCountScript R key units now ttl k =
     (if \<not> EXISTS R k key then (Inr (LInt 1), k)
      else case HGET R k key hfState of Inl e \<Rightarrow> (Inl e, k) | Inr state \<Rightarrow>
      if luaIsTerminal state then (Inr (LInt 2), k)
      else after (HINCRBY R key hfRelayCount ''1'' k) (\<lambda>k.
           after (HINCRBY R key hfTotalComputeUnits units k) (\<lambda>k.
           after (HSET R key [(hfLastUpdatedAt, now)] k) (\<lambda>k.
           (Inr (LInt 0), EXPIRE R key ttl k)))))"

section \<open>The methods\<close>

text \<open>
  What one call meets: its clock, the clock of a \<open>Save\<close> it makes, and the fate of every round trip it
  can make; the fields starting with \<open>save\<close> are those of \<open>Save\<close>, called directly or from another method.
\<close>

record redis_env =
  clock :: time
  save_clock :: time
  on_read :: fate
  on_legacy :: fate
  on_script :: fate
  on_retry :: fate
  on_write :: fate
  on_index :: fate
  save_read :: fate
  save_legacy :: fate
  save_type :: fate
  save_write :: fate

record 'k redis_params =
  server :: "'k redis"
  json_codec :: json
  times :: time_codec
  lua_number :: "uint64 \<Rightarrow> string"

definition isWrongTypeErr :: "string \<Rightarrow> bool" where
  "isWrongTypeErr m = Contains m ''WRONGTYPE''"

text \<open>A failure keeps the text of the error it wraps, so \<open>isWrongTypeErr\<close> reads the wrapped text.\<close>

definition getHash :: "'k redis_params \<Rightarrow> fate \<Rightarrow> string \<Rightarrow> 'k \<Rightarrow> (string, SessionSnapshot option) result" where
  "getHash P x key k =
     (case read_trip x (HGETALL (server P) k key) of
        Inl m \<Rightarrow> Inl (''failed to hgetall session snapshot '' @ key @ '': '' @ m)
      | Inr flds \<Rightarrow> decodeSnapshot (times P) flds)"

definition getLegacyJSON :: "'k redis_params \<Rightarrow> fate \<Rightarrow> string \<Rightarrow> 'k \<Rightarrow> (string, SessionSnapshot option) result" where
  "getLegacyJSON P x key k =
     (case read_trip x (GETSTR (server P) k key) of
        Inl m \<Rightarrow> Inl (''failed to get legacy session snapshot '' @ key @ '': '' @ m)
      | Inr None \<Rightarrow> Inr None
      | Inr (Some data) \<Rightarrow>
         (case Unmarshal (json_codec P) data of
            Inl m \<Rightarrow> Inl (''failed to unmarshal legacy session snapshot: '' @ m)
          | Inr snap \<Rightarrow> Inr (Some snap)))"

definition get_session ::
  "'k redis_params \<Rightarrow> redis_config \<Rightarrow> fate \<Rightarrow> fate \<Rightarrow> string \<Rightarrow> 'k \<Rightarrow> (string, SessionSnapshot option) result" where
  "get_session P c x y sid k =
     (let key = sessionKey c sid in
      case getHash P x key k of
        Inr snap \<Rightarrow> Inr snap
      | Inl m \<Rightarrow> if \<not> isWrongTypeErr m then Inl m else getLegacyJSON P y key k)"

definition redis_Get ::
  "'k redis_params \<Rightarrow> redis_config \<Rightarrow> redis_env \<Rightarrow> string \<Rightarrow> 'k redis_store
   \<Rightarrow> (store_error, SessionSnapshot option) result" where
  "redis_Get P c e sid s =
     (case get_session P c (on_read e) (on_legacy e) sid (keyspace s) of
        Inl m \<Rightarrow> Inl (StoreFailure m) | Inr x \<Rightarrow> Inr x)"

definition stale_fields :: "SessionSnapshot \<Rightarrow> string list" where
  "stale_fields snap =
     (if ClaimedRootHash snap = [] then [hfClaimedRootHash] else [])
     @ (if ClaimTxHash snap = [] then [hfClaimTxHash] else [])
     @ (if ProofTxHash snap = [] then [hfProofTxHash] else [])
     @ (if ClaimMissingVerdict snap = [] then [hfClaimMissingVerdict] else [])"

definition stamped_at :: "time \<Rightarrow> SessionSnapshot \<Rightarrow> SessionSnapshot" where
  "stamped_at now snap =
     snap\<lparr>LastUpdatedAt := now, CreatedAt := (if CreatedAt snap = zero_time then now else CreatedAt snap)\<rparr>"

definition save_cmds ::
  "time_codec \<Rightarrow> redis_config \<Rightarrow> SessionSnapshot \<Rightarrow> SessionSnapshot option \<Rightarrow> bool \<Rightarrow> rcmd list" where
  "save_cmds T c snap existing isLegacyKey =
     (let key = sessionKey c (SessionID snap); sid = SessionID snap;
          oldState = (case existing of None \<Rightarrow> [] | Some p \<Rightarrow> State p)
      in (if isLegacyKey then [CDel key, CHSet key (encodeSnapshot T snap)]
          else if existing = None then [CHSet key (encodeSnapshot T snap)]
          else CHSet key (encodeSnapshotMetadata T snap)
               # (if stale_fields snap \<noteq> [] then [CHDel key (stale_fields snap)] else []))
         @ [CExpire key (rc_ttl c),
            CSAdd (supplierSessionsKey c) sid,
            CExpire (supplierSessionsKey c) (rc_ttl c),
            CSAdd (stateIndexKey c (State snap)) sid,
            CExpire (stateIndexKey c (State snap)) (rc_ttl c)]
         @ (if oldState \<noteq> [] \<and> oldState \<noteq> State snap then [CSRem (stateIndexKey c oldState) sid] else []))"

definition redis_Save ::
  "'k redis_params \<Rightarrow> redis_config \<Rightarrow> redis_env \<Rightarrow> SessionSnapshot \<Rightarrow> 'k redis_store
   \<Rightarrow> (store_error option \<times> SessionSnapshot) \<times> 'k redis_store" where
  "redis_Save P c e snap s =
     (if redis_closed s then ((Some StoreClosed, snap), s)
      else
        let k = keyspace s;
            existing = (case get_session P c (save_read e) (save_legacy e) (SessionID snap) k of
                          Inl _ \<Rightarrow> None | Inr x \<Rightarrow> x);
            snap = stamped_at (save_clock e) snap;
            key = sessionKey c (SessionID snap);
            isLegacyKey = (existing \<noteq> None
               \<and> read_trip (save_type e) (Inr (KTYPE (server P) k key)) = Inr ''string'');
            (err, k') = exec_tx (server P) (save_write e) (save_cmds (times P) c snap existing isLegacyKey) k
        in ((map_option (\<lambda>m. StoreFailure (''failed to save session snapshot: '' @ m)) err, snap), s\<lparr>keyspace := k'\<rparr>))"

definition index_cmds :: "redis_config \<Rightarrow> SessionSnapshot \<Rightarrow> rcmd list" where
  "index_cmds c snap =
     [CSAdd (supplierSessionsKey c) (SessionID snap), CExpire (supplierSessionsKey c) (rc_ttl c),
      CSAdd (stateIndexKey c (State snap)) (SessionID snap), CExpire (stateIndexKey c (State snap)) (rc_ttl c)]"

definition redis_CreateIfAbsent ::
  "'k redis_params \<Rightarrow> redis_config \<Rightarrow> redis_env \<Rightarrow> SessionSnapshot \<Rightarrow> 'k redis_store
   \<Rightarrow> ((store_error, bool) result \<times> SessionSnapshot) \<times> 'k redis_store" where
  "redis_CreateIfAbsent P c e snap s =
     (if redis_closed s then ((Inl StoreClosed, snap), s)
      else
        let snap = stamped_at (clock e) snap;
            key = sessionKey c (SessionID snap);
            (r, k1) = trip (on_script e)
              (createIfAbsentScript (server P) key (ttl_seconds c) (encodeSnapshot (times P) snap)) (keyspace s)
        in case read_reply Int64 r of
             Inl m \<Rightarrow> ((Inl (StoreFailure (''failed to create-if-absent session snapshot: '' @ m)), snap), s\<lparr>keyspace := k1\<rparr>)
           | Inr n \<Rightarrow>
               if n \<noteq> 1 then ((Inr False, snap), s\<lparr>keyspace := k1\<rparr>)
               else ((Inr True, snap), s\<lparr>keyspace := snd (exec_tx (server P) (on_index e) (index_cmds c snap) k1)\<rparr>))"

definition redis_Delete ::
  "'k redis_params \<Rightarrow> redis_config \<Rightarrow> redis_env \<Rightarrow> string \<Rightarrow> 'k redis_store \<Rightarrow> store_error option \<times> 'k redis_store" where
  "redis_Delete P c e sid s =
     (case redis_Get P c e sid s of
        Inl err \<Rightarrow> (Some err, s)
      | Inr None \<Rightarrow> (None, s)
      | Inr (Some snap) \<Rightarrow>
          let (err, k') = exec_tx (server P) (on_write e)
                [CDel (sessionKey c sid), CSRem (supplierSessionsKey c) sid,
                 CSRem (stateIndexKey c (State snap)) sid] (keyspace s)
          in (map_option (\<lambda>m. StoreFailure (''failed to delete session snapshot: '' @ m)) err, s\<lparr>keyspace := k'\<rparr>))"

definition reindexState ::
  "'k redis_params \<Rightarrow> redis_config \<Rightarrow> fate \<Rightarrow> string \<Rightarrow> SessionState \<Rightarrow> SessionState \<Rightarrow> 'k \<Rightarrow> 'k" where
  "reindexState P c x sid oldState newState k =
     snd (exec_tx (server P) x
       ([CSAdd (stateIndexKey c newState) sid, CExpire (stateIndexKey c newState) (rc_ttl c)]
        @ (if oldState \<noteq> [] \<and> oldState \<noteq> newState then [CSRem (stateIndexKey c oldState) sid] else [])) k)"

definition redis_updateState ::
  "'k redis_params \<Rightarrow> redis_config \<Rightarrow> redis_env \<Rightarrow> string \<Rightarrow> SessionState \<Rightarrow> string \<Rightarrow> 'k redis_store
   \<Rightarrow> (store_error, bool) result \<times> 'k redis_store" where
  "redis_updateState P c e sid newState verdict s =
     (let key = sessionKey c sid;
          (r, k1) = trip (on_script e)
            (updateStateScript (server P) key newState (Format (times P) (clock e)) (ttl_seconds c) verdict) (keyspace s);
          s1 = s\<lparr>keyspace := k1\<rparr>
      in case read_reply Text r of
           Inl m \<Rightarrow>
             if Contains m ''session not found'' then (Inl (SessionNotFound sid), s1)
             else if Contains m ''claim already on chain'' then (Inl (ErrClaimAlreadyOnChain sid newState), s1)
             else if Contains m ''not an unsent claim'' \<or> Contains m ''not an unsent proof''
             then (Inl (ErrSessionNotDeferred sid newState), s1)
             else if Contains m ''legacy key'' then
               (case redis_Get P c e sid s1 of
                  Inl err \<Rightarrow> (Inl err, s1)
                | Inr None \<Rightarrow> (Inl (SessionNotFound sid), s1)
                | Inr (Some snap) \<Rightarrow>
                   (case checkStateWrite snap newState of
                      Some err \<Rightarrow> (Inl err, s1)
                    | None \<Rightarrow>
                       (let flipped = (State snap \<noteq> newState);
                            snap = snap\<lparr>State := newState,
                              ClaimMissingVerdict := (if verdict \<noteq> [] then verdict else ClaimMissingVerdict snap)\<rparr>
                        in case redis_Save P c e snap s1 of
                             ((Some err, _), s2) \<Rightarrow> (Inl err, s2)
                           | ((None, _), s2) \<Rightarrow> (Inr flipped, s2))))
             else (Inl (StoreFailure (''failed to update session state: '' @ m)), s1)
         | Inr oldState \<Rightarrow>
             if oldState = newState then (Inr False, s1)
             else (Inr True, s1\<lparr>keyspace := reindexState P c (on_index e) sid oldState newState k1\<rparr>))"

definition redis_UpdateState ::
  "'k redis_params \<Rightarrow> redis_config \<Rightarrow> redis_env \<Rightarrow> string \<Rightarrow> SessionState \<Rightarrow> 'k redis_store
   \<Rightarrow> store_error option \<times> 'k redis_store" where
  "redis_UpdateState P c e sid newState s = apfst err_of (redis_updateState P c e sid newState [] s)"

definition redis_MarkClaimMissing ::
  "'k redis_params \<Rightarrow> redis_config \<Rightarrow> redis_env \<Rightarrow> string \<Rightarrow> string \<Rightarrow> 'k redis_store
   \<Rightarrow> store_error option \<times> 'k redis_store" where
  "redis_MarkClaimMissing P c e sid verdict s =
     apfst err_of (redis_updateState P c e sid SessionStateClaimMissing verdict s)"

definition redis_MarkClaimTxError ::
  "'k redis_params \<Rightarrow> redis_config \<Rightarrow> redis_env \<Rightarrow> string \<Rightarrow> string \<Rightarrow> 'k redis_store
   \<Rightarrow> (store_error, bool) result \<times> 'k redis_store" where
  "redis_MarkClaimTxError P c e sid verdict s = redis_updateState P c e sid SessionStateClaimTxError verdict s"

definition redis_ReactivateClaimed ::
  "'k redis_params \<Rightarrow> redis_config \<Rightarrow> redis_env \<Rightarrow> string \<Rightarrow> string \<Rightarrow> string \<Rightarrow> 'k redis_store
   \<Rightarrow> (store_error, Reactivation) result \<times> 'k redis_store" where
  "redis_ReactivateClaimed P c e sid root txHash s =
     (let (r, k1) = trip (on_script e)
            (reactivateClaimedScript (server P) (sessionKey c sid) root txHash
               (Format (times P) (clock e)) (ttl_seconds c)) (keyspace s);
          s1 = s\<lparr>keyspace := k1\<rparr>
      in case read_reply StringSlice r of
           Inl m \<Rightarrow>
             if Contains m ''session not found'' then (Inl (SessionNotFound sid), s1)
             else if Contains m ''legacy key'' then (Inl (LegacyKey sid), s1)
             else (Inl (StoreFailure (''failed to reactivate session: '' @ m)), s1)
         | Inr res \<Rightarrow>
             if length res \<noteq> 3 then (Inl (BadReply sid), s1)
             else if res ! 0 = [] then (Inr noReactivation, s1)
             else (Inr \<lparr>From = res ! 0, ReVerdict = res ! 1, ReClaimTxHash = res ! 2, ReProofTxHash = []\<rparr>,
                   s1\<lparr>keyspace := reindexState P c (on_index e) sid (res ! 0) SessionStateClaimed k1\<rparr>))"

definition redis_ReactivateProved ::
  "'k redis_params \<Rightarrow> redis_config \<Rightarrow> redis_env \<Rightarrow> string \<Rightarrow> string \<Rightarrow> 'k redis_store
   \<Rightarrow> (store_error, Reactivation) result \<times> 'k redis_store" where
  "redis_ReactivateProved P c e sid txHash s =
     (let (r, k1) = trip (on_script e)
            (reactivateProvedScript (server P) (sessionKey c sid) txHash
               (Format (times P) (clock e)) (ttl_seconds c)) (keyspace s);
          s1 = s\<lparr>keyspace := k1\<rparr>
      in case read_reply StringSlice r of
           Inl m \<Rightarrow>
             if Contains m ''session not found'' then (Inl (SessionNotFound sid), s1)
             else (Inl (StoreFailure (''failed to move session to proved: '' @ m)), s1)
         | Inr res \<Rightarrow>
             if length res \<noteq> 4 then (Inl (BadReply sid), s1)
             else if res ! 0 = [] then (Inr noReactivation, s1)
             else (Inr \<lparr>From = res ! 0, ReVerdict = [], ReClaimTxHash = res ! 2, ReProofTxHash = res ! 3\<rparr>,
                   s1\<lparr>keyspace := reindexState P c (on_index e) sid (res ! 0) SessionStateProved k1\<rparr>))"

definition migrateLegacyKey ::
  "'k redis_params \<Rightarrow> redis_config \<Rightarrow> redis_env \<Rightarrow> string \<Rightarrow> 'k redis_store \<Rightarrow> store_error option \<times> 'k redis_store" where
  "migrateLegacyKey P c e sid s =
     (case getLegacyJSON P (on_legacy e) (sessionKey c sid) (keyspace s) of
        Inl m \<Rightarrow> (Some (StoreFailure m), s)
      | Inr None \<Rightarrow> (None, s)
      | Inr (Some snap) \<Rightarrow> (case redis_Save P c e snap s of ((err, _), s') \<Rightarrow> (err, s')))"

definition count_result :: "string \<Rightarrow> (string, int) result \<Rightarrow> store_error option" where
  "count_result sid r =
     (case r of
        Inl m \<Rightarrow> Some (StoreFailure (''failed to increment relay count: '' @ m))
      | Inr n \<Rightarrow> if n = 0 then None else if n = 1 then Some (SessionNotFound sid)
                else if n = 2 then Some ErrSessionTerminal else Some (BadReply sid))"

definition redis_IncrementRelayCount ::
  "'k redis_params \<Rightarrow> redis_config \<Rightarrow> redis_env \<Rightarrow> string \<Rightarrow> uint64 \<Rightarrow> 'k redis_store
   \<Rightarrow> store_error option \<times> 'k redis_store" where
  "redis_IncrementRelayCount P c e sid computeUnits s =
     (let script = incrementRelayCountScript (server P) (sessionKey c sid) (lua_number P computeUnits)
                     (Format (times P) (clock e)) (ttl_seconds c);
          (r, k1) = trip (on_script e) script (keyspace s);
          s1 = s\<lparr>keyspace := k1\<rparr>
      in case read_reply Int64 r of
           Inl m \<Rightarrow>
             if isWrongTypeErr m then
               (case migrateLegacyKey P c e sid s1 of
                  (Some err, s2) \<Rightarrow> (Some (StoreFailure ''failed to migrate legacy session key''), s2)
                | (None, s2) \<Rightarrow>
                    let (r2, k2) = trip (on_retry e) script (keyspace s2)
                    in (count_result sid (read_reply Int64 r2), s2\<lparr>keyspace := k2\<rparr>))
             else (count_result sid (Inl m), s1)
         | Inr n \<Rightarrow> (count_result sid (Inr n), s1))"

text \<open>
  \<open>GetBySupplier\<close>, \<open>GetByState\<close> and the loop they share: a session that cannot be read, is gone, or is
  in another state is left out. The environment of the i-th read is \<open>e i\<close>.
\<close>

fun fetchSessions ::
  "'k redis_params \<Rightarrow> redis_config \<Rightarrow> (nat \<Rightarrow> redis_env) \<Rightarrow> string list \<Rightarrow> SessionState \<Rightarrow> 'k redis_store
   \<Rightarrow> SessionSnapshot list" where
  "fetchSessions P c e [] filterState s = []"
| "fetchSessions P c e (sid # sids) filterState s =
     (case redis_Get P c (e 0) sid s of
        Inr (Some snap) \<Rightarrow>
          if filterState \<noteq> [] \<and> State snap \<noteq> filterState then [] else [snap]
      | _ \<Rightarrow> []) @ fetchSessions P c (\<lambda>i. e (Suc i)) sids filterState s"

definition redis_GetBySupplier ::
  "'k redis_params \<Rightarrow> redis_config \<Rightarrow> fate \<Rightarrow> (nat \<Rightarrow> redis_env) \<Rightarrow> 'k redis_store
   \<Rightarrow> (store_error, SessionSnapshot list) result" where
  "redis_GetBySupplier P c x e s =
     (case read_trip x (SMEMBERS (server P) (keyspace s) (supplierSessionsKey c)) of
        Inl m \<Rightarrow> Inl (StoreFailure (''failed to get session IDs: '' @ m))
      | Inr sids \<Rightarrow> Inr (fetchSessions P c e sids [] s))"

definition redis_GetByState ::
  "'k redis_params \<Rightarrow> redis_config \<Rightarrow> fate \<Rightarrow> (nat \<Rightarrow> redis_env) \<Rightarrow> SessionState \<Rightarrow> 'k redis_store
   \<Rightarrow> (store_error, SessionSnapshot list) result" where
  "redis_GetByState P c x e state s =
     (case read_trip x (SMEMBERS (server P) (keyspace s) (stateIndexKey c state)) of
        Inl m \<Rightarrow> Inl (StoreFailure (''failed to get session IDs by state: '' @ m))
      | Inr sids \<Rightarrow> Inr (fetchSessions P c e sids state s))"

definition redis_Close :: "'k redis_store \<Rightarrow> 'k redis_store" where
  "redis_Close s = s\<lparr>redis_closed := True\<rparr>"

definition redisSessionStore :: "'k redis_params \<Rightarrow> redis_config \<Rightarrow> (redis_env, 'k redis_store) SessionStore" where
  "redisSessionStore P c =
     \<lparr>Save = redis_Save P c, CreateIfAbsent = redis_CreateIfAbsent P c, Get = redis_Get P c,
      Delete = redis_Delete P c, UpdateState = redis_UpdateState P c,
      MarkClaimMissing = redis_MarkClaimMissing P c, MarkClaimTxError = redis_MarkClaimTxError P c,
      ReactivateClaimed = redis_ReactivateClaimed P c, ReactivateProved = redis_ReactivateProved P c,
      IncrementRelayCount = redis_IncrementRelayCount P c\<rparr>"

end
