(* ===== verification/Redis_Contract.thy ===== *)
theory Redis_Contract
  imports Redis_Sessions Session_Money
begin

text \<open>
  The Redis session store keeps to the contract of \<open>Session_Store\<close>: the round trip of the hash codec,
  what each script does to the session hash, what each method does to the sessions, and the
  interpretation \<open>redis\<close> of \<open>session_store\<close>.
\<close>

section \<open>What the store relies on\<close>

text \<open>
  RFC 3339 renders the instants of the years 0 to 9999 and reads them back to the nanosecond. A Lua
  number below two to the 53 reaches a command as that integer; what a larger one is rendered as is
  left open, except that it is no negative number.
\<close>

definition rfc3339 :: "time \<Rightarrow> bool" where
  "rfc3339 t \<longleftrightarrow> zero_time - 366 * 86400 * 10 ^ 9 \<le> t \<and> t < 253402300800 * 10 ^ 9"

definition times_ok :: "time_codec \<Rightarrow> bool" where
  "times_ok T = (\<forall>t. rfc3339 t \<longrightarrow> Format T t \<noteq> [] \<and> ParseTime T (Format T t) = Some t)"

definition lua_number_ok :: "(uint64 \<Rightarrow> string) \<Rightarrow> bool" where
  "lua_number_ok L =
     ((\<forall>cu. unat cu < 2 ^ 53 \<longrightarrow> L cu = FormatUint cu)
      \<and> (\<forall>cu d. ParseInt (L cu) = Some d \<longrightarrow> 0 \<le> d))"

text \<open>
  Session IDs are hashes: without a colon, and not the word \<open>index\<close>, so no session key is an index key.
  No key spells \<open>WRONGTYPE\<close>, which the store looks for in an error that quotes the key.
\<close>

definition redis_sid :: "string \<Rightarrow> bool" where
  "redis_sid sid \<longleftrightarrow> colon_free sid \<and> sid \<noteq> ''index'' \<and> CHR ''W'' \<notin> set sid"

definition plain_config :: "redis_config \<Rightarrow> bool" where
  "plain_config c \<longleftrightarrow> CHR ''W'' \<notin> set (BasePrefix (rc_kb c)) \<and> CHR ''W'' \<notin> set (rc_supplier c) \<and> 10 ^ 9 \<le> rc_ttl c"

section \<open>The codec\<close>

definition field_is :: "(string \<Rightarrow> 'a option) \<Rightarrow> 'a \<Rightarrow> string option \<Rightarrow> 'a \<Rightarrow> bool" where
  "field_is parse z v x = (if lua_or v = [] then x = z else parse (lua_or v) = Some x)"

lemma decode_field_Inr: "decode_field parse z fld flds = Inr x \<longleftrightarrow> field_is parse z (flds fld) x"
  by (auto simp: decode_field_def field_is_def Let_def split: option.splits)

lemma decode_root_eq: "decode_root flds = usable_root (lua_or (flds hfClaimedRootHash))"
  by (auto simp: decode_root_def usable_root_def split: option.splits)

lemma sum_case_Inr: "(case r of Inl e \<Rightarrow> Inl e | Inr x \<Rightarrow> g x) = Inr y \<longleftrightarrow> (\<exists>x. r = Inr x \<and> g x = Inr y)"
  by (cases r) simp_all

lemma decode_iff:
  "decode_fields T f = Inr p \<longleftrightarrow>
     field_is ParseInt 0 (f hfSessionStartHeight) (SessionStartHeight p)
   \<and> field_is ParseInt 0 (f hfSessionEndHeight) (SessionEndHeight p)
   \<and> field_is ParseInt 0 (f hfRelayCount) (RelayCount p)
   \<and> field_is ParseUint 0 (f hfTotalComputeUnits) (TotalComputeUnits p)
   \<and> field_is (ParseTime T) zero_time (f hfCreatedAt) (CreatedAt p)
   \<and> field_is (ParseTime T) zero_time (f hfLastUpdatedAt) (LastUpdatedAt p)
   \<and> SessionID p = lua_or (f hfSessionID)
   \<and> SupplierOperatorAddress p = lua_or (f hfSupplierOperator)
   \<and> ServiceID p = lua_or (f hfServiceID)
   \<and> ApplicationAddress p = lua_or (f hfApplicationAddress)
   \<and> State p = lua_or (f hfState)
   \<and> ClaimedRootHash p = usable_root (lua_or (f hfClaimedRootHash))
   \<and> ClaimTxHash p = lua_or (f hfClaimTxHash)
   \<and> ProofTxHash p = lua_or (f hfProofTxHash)
   \<and> ClaimMissingVerdict p = lua_or (f hfClaimMissingVerdict)"
  by (cases p) (auto simp: decode_fields_def sum_case_Inr decode_field_Inr decode_root_eq)

text \<open>What a well-formed session hash holds, and the snapshot it is read as.\<close>

definition stored :: "time_codec \<Rightarrow> string \<Rightarrow> (string \<rightharpoonup> string) \<Rightarrow> SessionSnapshot \<Rightarrow> bool" where
  "stored T sid f p \<longleftrightarrow>
     decode_fields T f = Inr p \<and> f hfSessionID = Some sid \<and> f hfState \<noteq> None
     \<and> f hfRelayCount = Some (FormatInt (RelayCount p)) \<and> in_i64 (RelayCount p)
     \<and> f hfTotalComputeUnits = Some (FormatUint (TotalComputeUnits p)) \<and> rfc3339 (CreatedAt p)"

lemma stored_id: "stored T sid f p \<Longrightarrow> SessionID p = sid"
  by (simp add: stored_def decode_iff)

definition snap_ok :: "SessionSnapshot \<Rightarrow> bool" where
  "snap_ok p \<longleftrightarrow> redis_sid (SessionID p) \<and> in_i64 (SessionStartHeight p) \<and> in_i64 (SessionEndHeight p)
     \<and> in_i64 (RelayCount p) \<and> rfc3339 (CreatedAt p)"

lemma field_is_Format:
  "in_i64 n \<Longrightarrow> field_is ParseInt 0 (Some (FormatInt n)) x \<longleftrightarrow> x = n"
  "field_is ParseUint 0 (Some (FormatUint w)) y \<longleftrightarrow> y = w"
  "times_ok T \<Longrightarrow> rfc3339 t \<Longrightarrow> field_is (ParseTime T) zero_time (Some (Format T t)) u \<longleftrightarrow> u = t"
  by (auto simp: field_is_def ParseInt_FormatInt times_ok_def)

lemma field_is_range:
  "field_is ParseInt 0 v n \<Longrightarrow> in_i64 n"
  by (auto simp: field_is_def in_i64_def [of 0] dest: ParseInt_range split: if_splits)

lemma stored_snap_ok: "stored T sid f p \<Longrightarrow> redis_sid sid \<Longrightarrow> snap_ok p"
  unfolding stored_def decode_iff snap_ok_def
  by (auto dest: field_is_range)

text \<open>Writing a whole snapshot, and writing the metadata over a stored session.\<close>

lemma encode_stored:
  assumes "times_ok T" "snap_ok p" "rfc3339 (LastUpdatedAt p)"
  shows "stored T (SessionID p) (hset Map.empty (encodeSnapshot T p)) (p\<lparr>ClaimedRootHash := usable_root (ClaimedRootHash p)\<rparr>)"
  using assms
  by (simp add: stored_def decode_iff encodeSnapshot_def encodeSnapshotMetadata_def snap_ok_def field_is_Format
      usable_root_def)

lemma metadata_stored:
  assumes "times_ok T" "snap_ok p" "rfc3339 (LastUpdatedAt p)" "stored T sid f q" "SessionID p = sid"
  shows "stored T sid (hdel (hset f (encodeSnapshotMetadata T p)) (stale_fields p))
     (p\<lparr>ClaimedRootHash := usable_root (ClaimedRootHash p),
        RelayCount := RelayCount q, TotalComputeUnits := TotalComputeUnits q\<rparr>)"
  using assms
  by (simp add: stored_def decode_iff encodeSnapshotMetadata_def stale_fields_def snap_ok_def field_is_Format
      usable_root_def)

section \<open>Keys\<close>

lemma redis_key_inject [simp]: "sessionKey c sid = sessionKey c sid' \<longleftrightarrow> sid = sid'"
  by (simp add: sessionKey_def key_defs)

lemma session_key_not_index [simp]:
  assumes "redis_sid sid"
  shows "sessionKey c sid \<noteq> supplierSessionsKey c" "sessionKey c sid \<noteq> stateIndexKey c st"
proof -
  show "sessionKey c sid \<noteq> supplierSessionsKey c"
    using assms by (simp add: sessionKey_def supplierSessionsKey_def key_defs redis_sid_def)
  have "sid \<noteq> ''state:'' @ st" using assms by (auto simp: redis_sid_def colon_free_def)
  then show "sessionKey c sid \<noteq> stateIndexKey c st"
    by (simp add: sessionKey_def stateIndexKey_def key_defs)
qed

lemma Contains_skip:
  "p \<notin> set x \<Longrightarrow> Contains (x @ y) (p # ps) = Contains y (p # ps)"
  by (induction x) auto

lemma plain_key: "plain_config c \<Longrightarrow> redis_sid sid \<Longrightarrow> CHR ''W'' \<notin> set (sessionKey c sid)"
  by (simp add: plain_config_def redis_sid_def sessionKey_def key_defs)

lemma key_error:
  assumes "plain_config c" "redis_sid sid"
  shows "isWrongTypeErr (''failed to hgetall session snapshot '' @ sessionKey c sid @ '': '' @ m) = isWrongTypeErr m"
proof -
  have "CHR ''W'' \<notin> set (''failed to hgetall session snapshot '' @ sessionKey c sid @ '': '')"
    using plain_key [OF assms] by simp
  from Contains_skip [OF this, of m "''RONGTYPE''"] show ?thesis by (simp add: isWrongTypeErr_def)
qed

section \<open>The sessions in the keyspace\<close>

definition slot_view :: "time_codec \<Rightarrow> rval option \<Rightarrow> SessionSnapshot option" where
  "slot_view T v =
     (case v of Some (RHash f) \<Rightarrow> (case decode_fields T f of Inl _ \<Rightarrow> None | Inr p \<Rightarrow> Some (canon p)) | _ \<Rightarrow> None)"

definition slot_ok :: "time_codec \<Rightarrow> string \<Rightarrow> rval option \<Rightarrow> bool" where
  "slot_ok T sid v \<longleftrightarrow> v = None \<or> (\<exists>f p. v = Some (RHash f) \<and> stored T sid f p)"

definition redis_view ::
  "'k redis_params \<Rightarrow> ('k \<Rightarrow> string \<Rightarrow> rval option) \<Rightarrow> redis_config \<Rightarrow> 'k redis_store \<Rightarrow> view" where
  "redis_view P kv c s sid =
     (if redis_sid sid then slot_view (times P) (kv (keyspace s) (sessionKey c sid)) else None)"

definition redis_inv ::
  "'k redis_params \<Rightarrow> ('k \<Rightarrow> string \<Rightarrow> rval option) \<Rightarrow> redis_config \<Rightarrow> 'k redis_store \<Rightarrow> bool" where
  "redis_inv P kv c s \<longleftrightarrow>
     redis_ok (server P) kv \<and> times_ok (times P) \<and> lua_number_ok (lua_number P) \<and> plain_config c
     \<and> (\<forall>sid. redis_sid sid \<longrightarrow> slot_ok (times P) sid (kv (keyspace s) (sessionKey c sid)))"

text \<open>No error a round trip ends with spells one of the markers the store looks for.\<close>

definition plain_error :: "string \<Rightarrow> bool" where
  "plain_error m \<longleftrightarrow>
     \<not> Contains m ''session not found'' \<and> \<not> Contains m ''claim already on chain''
     \<and> \<not> Contains m ''not an unsent claim'' \<and> \<not> Contains m ''not an unsent proof''
     \<and> \<not> Contains m ''legacy key'' \<and> \<not> Contains m ''WRONGTYPE''"

definition plain_fate :: "fate \<Rightarrow> bool" where
  "plain_fate x = (case x of Delivered \<Rightarrow> True | LostRequest m \<Rightarrow> plain_error m | LostReply m \<Rightarrow> plain_error m)"

text \<open>
  What the contract needs of a call: readable clocks, plain errors, and that the read \<open>Save\<close> starts with
  is answered (\<open>Save\<close> takes a session it could not read for a new one).
\<close>

definition redis_call_ok :: "redis_env \<Rightarrow> bool" where
  "redis_call_ok e \<longleftrightarrow> rfc3339 (clock e) \<and> rfc3339 (save_clock e) \<and> plain_fate (on_read e)
     \<and> plain_fate (on_script e) \<and> save_read e = Delivered"

definition redis_room ::
  "'k redis_params \<Rightarrow> ('k \<Rightarrow> string \<Rightarrow> rval option) \<Rightarrow> redis_config \<Rightarrow> 'k redis_store \<Rightarrow> string \<Rightarrow> uint64 \<Rightarrow> bool" where
  "redis_room P kv c s sid cu \<longleftrightarrow>
     unat cu < 2 ^ 53
     \<and> (case redis_view P kv c s sid of
          None \<Rightarrow> True
        | Some p \<Rightarrow> RelayCount p < 2 ^ 63 - 1 \<and> unat (TotalComputeUnits p) + unat cu < 2 ^ 63)"

lemma slot_view_stored: "stored T sid f p \<Longrightarrow> slot_view T (Some (RHash f)) = Some (canon p)"
  by (simp add: slot_view_def stored_def)

lemma slot_view_None [simp]: "slot_view T None = None"
  by (simp add: slot_view_def)

lemma slot_cases:
  assumes "redis_inv P kv c s" "redis_sid sid"
  obtains (absent) "kv (keyspace s) (sessionKey c sid) = None" "redis_view P kv c s sid = None"
  | (there) f p where "kv (keyspace s) (sessionKey c sid) = Some (RHash f)" "stored (times P) sid f p"
      "redis_view P kv c s sid = Some (canon p)"
proof -
  have "slot_ok (times P) sid (kv (keyspace s) (sessionKey c sid))"
    using assms by (simp add: redis_inv_def)
  then show ?thesis
  proof (unfold slot_ok_def, elim disjE exE conjE)
    assume "kv (keyspace s) (sessionKey c sid) = None"
    then show ?thesis using absent assms(2) by (simp add: redis_view_def)
  next
    fix f p assume "kv (keyspace s) (sessionKey c sid) = Some (RHash f)" "stored (times P) sid f p"
    then show ?thesis using there assms(2) slot_view_stored by (simp add: redis_view_def)
  qed
qed

text \<open>A new keyspace that differs in one session slot, and in keys that hold no session.\<close>

definition slot_set ::
  "('k \<Rightarrow> string \<Rightarrow> rval option) \<Rightarrow> redis_config \<Rightarrow> 'k \<Rightarrow> string \<Rightarrow> rval option \<Rightarrow> 'k \<Rightarrow> bool" where
  "slot_set kv c k sid v k' \<longleftrightarrow>
     (\<forall>i. redis_sid i \<longrightarrow> kv k' (sessionKey c i) = (if i = sid then v else kv k (sessionKey c i)))"

lemma slot_set_view:
  assumes "slot_set kv c (keyspace s) sid v k'" "redis_sid sid"
  shows "redis_view P kv c (s\<lparr>keyspace := k'\<rparr>) = (redis_view P kv c s)(sid := slot_view (times P) v)"
  using assms by (auto simp: slot_set_def redis_view_def fun_eq_iff)

lemma slot_set_inv:
  assumes "slot_set kv c (keyspace s) sid v k'" "redis_inv P kv c s" "slot_ok (times P) sid v"
  shows "redis_inv P kv c (s\<lparr>keyspace := k'\<rparr>)"
  using assms by (auto simp: slot_set_def redis_inv_def)

lemma slot_set_same: "slot_set kv c k sid (kv k (sessionKey c sid)) k"
  by (simp add: slot_set_def)

lemma slot_set_upd: "kv k' = (kv k)(sessionKey c sid := v) \<Longrightarrow> slot_set kv c k sid v k'"
  by (simp add: slot_set_def)

lemma slot_set_trans:
  "slot_set kv c k sid v k' \<Longrightarrow> slot_set kv c k' sid w k'' \<Longrightarrow> slot_set kv c k sid w k''"
  by (simp add: slot_set_def)

text \<open>Index maintenance leaves every session slot alone.\<close>

definition index_cmd :: "redis_config \<Rightarrow> rcmd \<Rightarrow> bool" where
  "index_cmd c x =
     (case x of
        CSAdd key _ \<Rightarrow> key = supplierSessionsKey c \<or> (\<exists>st. key = stateIndexKey c st)
      | CSRem key _ \<Rightarrow> key = supplierSessionsKey c \<or> (\<exists>st. key = stateIndexKey c st)
      | CExpire _ d \<Rightarrow> d = rc_ttl c
      | _ \<Rightarrow> False)"

definition sessions_kept :: "('k \<Rightarrow> string \<Rightarrow> rval option) \<Rightarrow> redis_config \<Rightarrow> 'k \<Rightarrow> 'k \<Rightarrow> bool" where
  "sessions_kept kv c k k' \<longleftrightarrow> (\<forall>i. redis_sid i \<longrightarrow> kv k' (sessionKey c i) = kv k (sessionKey c i))"

lemma sessions_kept_refl [simp]: "sessions_kept kv c k k"
  by (simp add: sessions_kept_def)

lemma sessions_kept_trans: "sessions_kept kv c k k' \<Longrightarrow> sessions_kept kv c k' k'' \<Longrightarrow> sessions_kept kv c k k''"
  by (simp add: sessions_kept_def)

lemma slot_set_kept: "slot_set kv c k sid v k' \<Longrightarrow> sessions_kept kv c k' k'' \<Longrightarrow> slot_set kv c k sid v k''"
  by (simp add: slot_set_def sessions_kept_def)

lemma index_cmd_kept:
  assumes "redis_ok R kv" "plain_config c" "index_cmd c x"
  shows "sessions_kept kv c k (snd (exec_cmd R x k))"
  using assms redis_frame [OF assms(1)]
  by (cases x) (auto simp: index_cmd_def sessions_kept_def plain_config_def)

lemma run_index_kept:
  assumes "redis_ok R kv" "plain_config c" "\<forall>x \<in> set cs. index_cmd c x"
  shows "sessions_kept kv c k (snd (run_tx R cs k))"
  using assms(3)
proof (induction cs arbitrary: k)
  case (Cons x cs)
  have "sessions_kept kv c k (snd (exec_cmd R x k))" using index_cmd_kept [OF assms(1,2)] Cons.prems by simp
  then show ?case using Cons sessions_kept_trans by (fastforce simp: split_beta)
qed simp

lemma run_tx_append:
  "snd (run_tx R (xs @ ys) k) = snd (run_tx R ys (snd (run_tx R xs k)))"
  by (induction xs arbitrary: k) (simp_all add: split_beta)

lemma exec_tx_outcome:
  assumes "exec_tx R x cs k = (err, k')"
  shows "k' = k \<and> err \<noteq> None \<or> k' = snd (run_tx R cs k)"
  using assms by (cases x) (auto simp: exec_tx_def split: prod.splits option.splits)

lemma reindex_kept:
  assumes "redis_ok (server P) kv" "plain_config c"
  shows "sessions_kept kv c k (reindexState P c x sid oldState newState k)"
proof -
  let ?cs = "[CSAdd (stateIndexKey c newState) sid, CExpire (stateIndexKey c newState) (rc_ttl c)]
        @ (if oldState \<noteq> [] \<and> oldState \<noteq> newState then [CSRem (stateIndexKey c oldState) sid] else [])"
  have "\<forall>y \<in> set ?cs. index_cmd c y" by (auto simp: index_cmd_def)
  note run_index_kept [OF assms this]
  moreover obtain err k' where "exec_tx (server P) x ?cs k = (err, k')" by (cases "exec_tx (server P) x ?cs k")
  ultimately show ?thesis using exec_tx_outcome unfolding reindexState_def by (metis sessions_kept_refl snd_conv)
qed

section \<open>Reading\<close>

lemma get_session_delivered:
  assumes "redis_inv P kv c s" "redis_sid sid"
  shows "get_session P c Delivered y sid (keyspace s) = Inr x \<Longrightarrow>
           (case x of None \<Rightarrow> kv (keyspace s) (sessionKey c sid) = None
            | Some p \<Rightarrow> \<exists>f. kv (keyspace s) (sessionKey c sid) = Some (RHash f) \<and> stored (times P) sid f p)"
    and "\<exists>x. get_session P c Delivered y sid (keyspace s) = Inr x"
proof -
  have r: "redis_ok (server P) kv" using assms(1) by (simp add: redis_inv_def)
  have "\<exists>x. get_session P c Delivered y sid (keyspace s) = Inr x \<and>
     (case x of None \<Rightarrow> kv (keyspace s) (sessionKey c sid) = None
      | Some p \<Rightarrow> \<exists>f. kv (keyspace s) (sessionKey c sid) = Some (RHash f) \<and> stored (times P) sid f p)"
    using assms
  proof (cases rule: slot_cases)
    case absent
    then show ?thesis using redis_absent [OF r absent(1)]
      by (simp add: get_session_def getHash_def decodeSnapshot_def)
  next
    case (there f p)
    from redis_hash(3) [OF r there(1)] obtain kvs
      where kvs: "HGETALL (server P) (keyspace s) (sessionKey c sid) = Inr kvs" "map_of kvs = f" by blast
    have "f hfSessionID \<noteq> None" using there(2) by (simp add: stored_def)
    then have "kvs \<noteq> []" using kvs(2) by auto
    then have "get_session P c Delivered y sid (keyspace s) = Inr (Some p)"
      using kvs there(2) by (simp add: get_session_def getHash_def decodeSnapshot_def stored_def)
    then show ?thesis using there by auto
  qed
  then show "get_session P c Delivered y sid (keyspace s) = Inr x \<Longrightarrow>
           (case x of None \<Rightarrow> kv (keyspace s) (sessionKey c sid) = None
            | Some p \<Rightarrow> \<exists>f. kv (keyspace s) (sessionKey c sid) = Some (RHash f) \<and> stored (times P) sid f p)"
    and "\<exists>x. get_session P c Delivered y sid (keyspace s) = Inr x" by auto
qed

lemma get_session_plain:
  assumes "redis_inv P kv c s" "redis_sid sid" "plain_fate x" "get_session P c x y sid (keyspace s) = Inr r"
  shows "get_session P c Delivered y sid (keyspace s) = Inr r"
proof -
  have "plain_config c" using assms(1) by (simp add: redis_inv_def)
  note key_error [OF this assms(2)]
  then show ?thesis using assms(3,4)
    by (cases x) (auto simp: get_session_def Let_def getHash_def plain_fate_def plain_error_def isWrongTypeErr_def)
qed

lemma redis_Get_ok:
  assumes "redis_inv P kv c s" "redis_call_ok e" "redis_sid sid"
  shows "redis_Get P c e sid s = Inr x \<Longrightarrow> map_option canon x = redis_view P kv c s sid"
    and "redis_Get P c e sid s = Inr (Some snap) \<Longrightarrow> SessionID snap = sid \<and> snap_ok snap"
    and "redis_Get P c e sid s = Inl why \<Longrightarrow> is_store_failure why"
proof -
  have get: "case r of None \<Rightarrow> kv (keyspace s) (sessionKey c sid) = None
      | Some p \<Rightarrow> \<exists>f. kv (keyspace s) (sessionKey c sid) = Some (RHash f) \<and> stored (times P) sid f p"
    if "redis_Get P c e sid s = Inr r" for r
  proof -
    have "get_session P c (on_read e) (on_legacy e) sid (keyspace s) = Inr r"
      using that by (simp add: redis_Get_def split: sum.splits)
    from get_session_plain [OF assms(1,3) _ this] get_session_delivered(1) [OF assms(1,3)] assms(2)
    show ?thesis by (simp add: redis_call_ok_def)
  qed
  show "map_option canon x = redis_view P kv c s sid" if "redis_Get P c e sid s = Inr x"
    using get [OF that] assms(3) by (cases x) (auto simp: redis_view_def slot_view_stored)
  show "SessionID snap = sid \<and> snap_ok snap" if "redis_Get P c e sid s = Inr (Some snap)"
    using get [OF that] stored_id stored_snap_ok [OF _ assms(3)] by auto
  show "is_store_failure why" if "redis_Get P c e sid s = Inl why"
    using that by (auto simp: redis_Get_def is_store_failure_def split: sum.splits)
qed

section \<open>Saving and deleting\<close>

lemma canon_root [simp]: "canon (p\<lparr>ClaimedRootHash := usable_root (ClaimedRootHash p)\<rparr>) = canon p"
  by (simp add: canon_def usable_root_def)

lemma canon_stamped_at [simp]: "canon (stamped_at t p) = canon p"
  by (simp add: stamped_at_def)

lemma stamped_at_ok: "snap_ok p \<Longrightarrow> rfc3339 t \<Longrightarrow> snap_ok (stamped_at t p) \<and> rfc3339 (LastUpdatedAt (stamped_at t p))"
  by (simp add: snap_ok_def stamped_at_def)

lemma stamped_at_fields [simp]: "SessionID (stamped_at t p) = SessionID p" "State (stamped_at t p) = State p"
  by (simp_all add: stamped_at_def)

text \<open>What the transaction of \<open>Save\<close> leaves, for a new session and for a stored one.\<close>

lemma save_tail_kept:
  assumes "redis_ok R kv" "plain_config c" "redis_sid sid"
  shows "sessions_kept kv c k (snd (run_tx R
    ([CExpire (sessionKey c sid) (rc_ttl c), CSAdd (supplierSessionsKey c) sid,
      CExpire (supplierSessionsKey c) (rc_ttl c), CSAdd (stateIndexKey c st) sid,
      CExpire (stateIndexKey c st) (rc_ttl c)]
     @ (if old \<noteq> [] \<and> old \<noteq> st then [CSRem (stateIndexKey c old) sid] else [])) k))"
  by (rule run_index_kept [OF assms(1,2)]) (auto simp: index_cmd_def)

lemma save_new:
  assumes "redis_ok R kv" "times_ok T" "plain_config c" "snap_ok p" "rfc3339 (LastUpdatedAt p)"
    and "kv k (sessionKey c (SessionID p)) = None"
  shows "\<exists>f q. slot_set kv c k (SessionID p) (Some (RHash f)) (snd (run_tx R (save_cmds T c p None False) k))
     \<and> stored T (SessionID p) f q \<and> canon q = canon p"
proof -
  have "encodeSnapshot T p \<noteq> []" by (simp add: encodeSnapshot_def)
  from redis_HSET_new [OF assms(1,6) this] obtain k1 where
    k1: "HSET R (sessionKey c (SessionID p)) (encodeSnapshot T p) k = (None, k1)"
    "kv k1 = (kv k)(sessionKey c (SessionID p) \<mapsto> RHash (hset Map.empty (encodeSnapshot T p)))" by blast
  have "redis_sid (SessionID p)" using assms(4) by (simp add: snap_ok_def)
  note tail = save_tail_kept [OF assms(1,3) this, of k1 "State p" "[]"]
  have "snd (run_tx R (save_cmds T c p None False) k) = snd (run_tx R
    ([CExpire (sessionKey c (SessionID p)) (rc_ttl c), CSAdd (supplierSessionsKey c) (SessionID p),
      CExpire (supplierSessionsKey c) (rc_ttl c), CSAdd (stateIndexKey c (State p)) (SessionID p),
      CExpire (stateIndexKey c (State p)) (rc_ttl c)]) k1)"
    using k1(1) by (simp add: save_cmds_def Let_def split_beta)
  then have "slot_set kv c k (SessionID p) (Some (RHash (hset Map.empty (encodeSnapshot T p))))
      (snd (run_tx R (save_cmds T c p None False) k))"
    using slot_set_kept [OF slot_set_upd [OF k1(2)]] tail by simp
  then show ?thesis using encode_stored [OF assms(2,4,5)] canon_root by blast
qed

lemma save_over:
  assumes "redis_ok R kv" "times_ok T" "plain_config c" "snap_ok p" "rfc3339 (LastUpdatedAt p)"
    and "kv k (sessionKey c (SessionID p)) = Some (RHash f0)" "stored T (SessionID p) f0 q0"
  shows "\<exists>f q. slot_set kv c k (SessionID p) (Some (RHash f)) (snd (run_tx R (save_cmds T c p (Some q0) False) k))
     \<and> stored T (SessionID p) f q
     \<and> canon q = canon p\<lparr>RelayCount := RelayCount q0, TotalComputeUnits := TotalComputeUnits q0\<rparr>"
proof -
  let ?key = "sessionKey c (SessionID p)" and ?meta = "encodeSnapshotMetadata T p"
  let ?f = "hdel (hset f0 ?meta) (stale_fields p)"
  let ?head = "CHSet ?key ?meta # (if stale_fields p \<noteq> [] then [CHDel ?key (stale_fields p)] else [])"
  let ?tail = "[CExpire ?key (rc_ttl c), CSAdd (supplierSessionsKey c) (SessionID p),
      CExpire (supplierSessionsKey c) (rc_ttl c), CSAdd (stateIndexKey c (State p)) (SessionID p),
      CExpire (stateIndexKey c (State p)) (rc_ttl c)]
     @ (if State q0 \<noteq> [] \<and> State q0 \<noteq> State p then [CSRem (stateIndexKey c (State q0)) (SessionID p)] else [])"
  have sid: "redis_sid (SessionID p)" using assms(4) by (simp add: snap_ok_def)
  have "?meta \<noteq> []" by (simp add: encodeSnapshotMetadata_def)
  from redis_HSET [OF assms(1,6) this] obtain k1 where
    k1: "HSET R ?key ?meta k = (None, k1)" "kv k1 = (kv k)(?key \<mapsto> RHash (hset f0 ?meta))" by blast
  have fs: "hset f0 ?meta hfSessionID = Some (SessionID p)"
    by (simp add: encodeSnapshotMetadata_def)
  have head: "kv (snd (run_tx R ?head k)) = (kv k)(?key \<mapsto> RHash ?f)"
  proof (cases "stale_fields p = []")
    case True
    then show ?thesis using k1 by simp
  next
    case False
    have "kv k1 ?key = Some (RHash (hset f0 ?meta))" using k1(2) by simp
    from redis_HDEL [OF assms(1) this fs, of "stale_fields p"]
    obtain k2 where "HDEL R ?key (stale_fields p) k1 = (None, k2)" "kv k2 = (kv k1)(?key \<mapsto> RHash ?f)"
      by (auto simp: stale_fields_def)
    then show ?thesis using False k1 by simp
  qed
  have "save_cmds T c p (Some q0) False = ?head @ ?tail" by (simp add: save_cmds_def Let_def)
  then have "snd (run_tx R (save_cmds T c p (Some q0) False) k) = snd (run_tx R ?tail (snd (run_tx R ?head k)))"
    by (simp only: run_tx_append)
  with slot_set_kept [OF slot_set_upd [OF head] save_tail_kept [OF assms(1,3) sid, of _ "State p" "State q0"]]
  have "slot_set kv c k (SessionID p) (Some (RHash ?f)) (snd (run_tx R (save_cmds T c p (Some q0) False) k))" by (simp only:)
  moreover have "stored T (SessionID p) ?f (p\<lparr>ClaimedRootHash := usable_root (ClaimedRootHash p),
        RelayCount := RelayCount q0, TotalComputeUnits := TotalComputeUnits q0\<rparr>)"
    using metadata_stored [OF assms(2,4,5,7)] by simp
  moreover have "canon (p\<lparr>ClaimedRootHash := usable_root (ClaimedRootHash p),
        RelayCount := RelayCount q0, TotalComputeUnits := TotalComputeUnits q0\<rparr>)
      = canon p\<lparr>RelayCount := RelayCount q0, TotalComputeUnits := TotalComputeUnits q0\<rparr>"
    by (simp add: canon_def usable_root_def)
  ultimately show ?thesis by blast
qed

text \<open>A call that ran its write, or failed to, and whose write is what its specification says.\<close>

lemma write_meets:
  assumes "redis_inv P kv c s" "redis_sid sid"
    and "f (redis_view P kv c s sid) = Inr (x, slot_view (times P) v)" "slot_ok (times P) sid v"
    and "r = Inr x \<or> (\<exists>m. r = Inl m \<and> is_store_failure m)"
    and "slot_set kv c (keyspace s) sid v k' \<or> k' = keyspace s \<and> r \<noteq> Inr x"
  shows "meets f True sid (redis_view P kv c s) r (redis_view P kv c (s\<lparr>keyspace := k'\<rparr>))
     \<and> redis_inv P kv c (s\<lparr>keyspace := k'\<rparr>)"
  using assms(6)
proof (elim disjE conjE)
  assume w: "slot_set kv c (keyspace s) sid v k'"
  from slot_set_view [OF this assms(2)] slot_set_inv [OF this assms(1,4)] show ?thesis
    using assms(3,5) by (auto simp: meets_def)
next
  assume "k' = keyspace s" "r \<noteq> Inr x"
  then show ?thesis using assms(1,5) by (auto simp: meets_def)
qed

lemma kept_meets:
  assumes "redis_inv P kv c s" "sessions_kept kv c (keyspace s) k'"
    and "f (redis_view P kv c s sid) = Inr (x, redis_view P kv c s sid)" "r = Inr x"
  shows "meets f True sid (redis_view P kv c s) r (redis_view P kv c (s\<lparr>keyspace := k'\<rparr>))
     \<and> redis_inv P kv c (s\<lparr>keyspace := k'\<rparr>)"
proof -
  have "redis_view P kv c (s\<lparr>keyspace := k'\<rparr>) = redis_view P kv c s"
    using assms(2) by (auto simp: redis_view_def sessions_kept_def fun_eq_iff)
  moreover have "redis_inv P kv c (s\<lparr>keyspace := k'\<rparr>)"
    using assms(1,2) by (simp add: redis_inv_def sessions_kept_def)
  ultimately show ?thesis using assms(3,4) by (simp add: meets_def)
qed

lemma failed_meets:
  assumes "redis_inv P kv c s" "is_store_failure err"
  shows "meets f True sid (redis_view P kv c s) (Inl err) (redis_view P kv c s) \<and> redis_inv P kv c s"
  using assms by (simp add: meets_failed)

lemma refused_meets:
  assumes "redis_inv P kv c s" "f (redis_view P kv c s sid) = Inl err"
  shows "meets f True sid (redis_view P kv c s) (Inl err) (redis_view P kv c s) \<and> redis_inv P kv c s"
  using assms by (simp add: meets_refused)

lemma is_store_failure_simps [simp]:
  "is_store_failure (StoreFailure m)" "is_store_failure StoreClosed" "is_store_failure (BadReply m)"
  "\<not> is_store_failure (SessionNotFound i)" "\<not> is_store_failure ErrSessionTerminal"
  by (simp_all add: is_store_failure_def)

lemma save_cmds_written:
  assumes "redis_inv P kv c s" "snap_ok p" "rfc3339 (LastUpdatedAt p)"
    and "get_session P c Delivered y (SessionID p) (keyspace s) = Inr existing"
  shows "\<exists>f q. slot_set kv c (keyspace s) (SessionID p) (Some (RHash f))
            (snd (run_tx (server P) (save_cmds (times P) c p existing False) (keyspace s)))
     \<and> stored (times P) (SessionID p) f q \<and> spec_Save p (redis_view P kv c s (SessionID p)) = Inr ((), Some (canon q))"
proof -
  have r: "redis_ok (server P) kv" "times_ok (times P)" "plain_config c" using assms(1) by (simp_all add: redis_inv_def)
  have sid: "redis_sid (SessionID p)" using assms(2) by (simp add: snap_ok_def)
  note get = get_session_delivered(1) [OF assms(1) sid assms(4)]
  show ?thesis
  proof (cases existing)
    case None
    then have none: "kv (keyspace s) (sessionKey c (SessionID p)) = None" using get by simp
    then have "redis_view P kv c s (SessionID p) = None" by (simp add: redis_view_def)
    moreover from save_new [OF r assms(2,3) none] obtain f q where
      "slot_set kv c (keyspace s) (SessionID p) (Some (RHash f))
         (snd (run_tx (server P) (save_cmds (times P) c p None False) (keyspace s)))"
      "stored (times P) (SessionID p) f q" "canon q = canon p" by blast
    ultimately show ?thesis using None by (intro exI [of _ f] exI [of _ q]) (simp add: spec_Save_def)
  next
    case (Some q0)
    then obtain f0 where f0: "kv (keyspace s) (sessionKey c (SessionID p)) = Some (RHash f0)"
      "stored (times P) (SessionID p) f0 q0" using get by auto
    then have "redis_view P kv c s (SessionID p) = Some (canon q0)"
      using sid by (simp add: redis_view_def slot_view_stored)
    moreover from save_over [OF r assms(2,3) f0] obtain f q where
      "slot_set kv c (keyspace s) (SessionID p) (Some (RHash f))
         (snd (run_tx (server P) (save_cmds (times P) c p (Some q0) False) (keyspace s)))"
      "stored (times P) (SessionID p) f q"
      "canon q = canon p\<lparr>RelayCount := RelayCount q0, TotalComputeUnits := TotalComputeUnits q0\<rparr>" by blast
    ultimately show ?thesis using Some by (intro exI [of _ f] exI [of _ q]) (simp add: spec_Save_def)
  qed
qed

lemma redis_Save_ok:
  assumes "redis_inv P kv c s" "redis_call_ok e" "snap_ok snap" "redis_Save P c e snap s = ((err, snap'), s')"
  shows "meets (spec_Save snap) True (SessionID snap) (redis_view P kv c s) (unit_result err) (redis_view P kv c s')
     \<and> canon snap' = canon snap \<and> redis_inv P kv c s'"
proof (cases "redis_closed s")
  case True
  then show ?thesis using assms(1,4) by (auto simp: redis_Save_def failed_meets)
next
  case False
  let ?p = "stamped_at (save_clock e) snap"
  have sid: "redis_sid (SessionID snap)" using assms(3) by (simp add: snap_ok_def)
  have p: "snap_ok ?p" "rfc3339 (LastUpdatedAt ?p)" using stamped_at_ok assms(2,3) by (simp_all add: redis_call_ok_def)
  have rd: "save_read e = Delivered" using assms(2) by (simp add: redis_call_ok_def)
  obtain existing where ex: "get_session P c Delivered (save_legacy e) (SessionID snap) (keyspace s) = Inr existing"
    using get_session_delivered(2) [OF assms(1) sid] by blast
  have not_legacy: "existing \<noteq> None \<Longrightarrow>
      read_trip (save_type e) (Inr (KTYPE (server P) (keyspace s) (sessionKey c (SessionID snap)))) \<noteq> Inr ''string''"
    using get_session_delivered(1) [OF assms(1) sid ex] redis_hash(1) [of "server P" kv "keyspace s"] assms(1)
    by (cases "save_type e") (auto simp: redis_inv_def)
  obtain er k' where tx: "exec_tx (server P) (save_write e) (save_cmds (times P) c ?p existing False) (keyspace s) = (er, k')"
    by (cases "exec_tx (server P) (save_write e) (save_cmds (times P) c ?p existing False) (keyspace s)")
  have out: "err = map_option (\<lambda>m. StoreFailure (''failed to save session snapshot: '' @ m)) er"
    "snap' = ?p" "s' = s\<lparr>keyspace := k'\<rparr>"
    using assms(4) False rd ex tx not_legacy
    by (cases existing; simp add: redis_Save_def Let_def)+
  have ex': "get_session P c Delivered (save_legacy e) (SessionID ?p) (keyspace s) = Inr existing" using ex by simp
  from save_cmds_written [OF assms(1) p ex'] obtain f q where
    w: "slot_set kv c (keyspace s) (SessionID snap) (Some (RHash f))
            (snd (run_tx (server P) (save_cmds (times P) c ?p existing False) (keyspace s)))"
    "stored (times P) (SessionID snap) f q"
    "spec_Save ?p (redis_view P kv c s (SessionID snap)) = Inr ((), Some (canon q))" by auto
  have "spec_Save snap = spec_Save ?p" by (simp add: spec_Save_def fun_eq_iff split: option.splits)
  with w(2,3) have spec: "spec_Save snap (redis_view P kv c s (SessionID snap)) = Inr ((), slot_view (times P) (Some (RHash f)))"
    by (simp add: slot_view_stored)
  have "slot_ok (times P) (SessionID snap) (Some (RHash f))" using w(2) by (auto simp: slot_ok_def)
  from write_meets [where f = "spec_Save snap", OF assms(1) sid spec this, of "unit_result err" k'] exec_tx_outcome [OF tx] w(1)
  show ?thesis unfolding out by (cases er) auto
qed

lemma redis_Delete_ok:
  assumes "redis_inv P kv c s" "redis_call_ok e" "redis_sid sid" "redis_Delete P c e sid s = (err, s')"
  shows "meets spec_Delete True sid (redis_view P kv c s) (unit_result err) (redis_view P kv c s') \<and> redis_inv P kv c s'"
proof -
  have r: "redis_ok (server P) kv" "plain_config c" using assms(1) by (simp_all add: redis_inv_def)
  consider (bad) er where "redis_Get P c e sid s = Inl er" | (none) "redis_Get P c e sid s = Inr None"
    | (some) p where "redis_Get P c e sid s = Inr (Some p)"
    by (cases "redis_Get P c e sid s") (auto simp: not_None_eq [symmetric])
  then show ?thesis
  proof cases
    case bad
    then show ?thesis using assms(4) failed_meets [OF assms(1) redis_Get_ok(3) [OF assms(1-3) bad], of spec_Delete sid]
      by (auto simp: redis_Delete_def)
  next
    case none
    then have "redis_view P kv c s sid = None" using redis_Get_ok(1) [OF assms(1-3) none] by simp
    then show ?thesis using assms(1,4) none kept_meets [of P kv c s "keyspace s" spec_Delete sid "()"]
      by (auto simp: redis_Delete_def spec_Delete_def)
  next
    case (some p)
    let ?cs = "[CDel (sessionKey c sid), CSRem (supplierSessionsKey c) sid, CSRem (stateIndexKey c (State p)) sid]"
    obtain er k' where tx: "exec_tx (server P) (on_write e) ?cs (keyspace s) = (er, k')"
      by (cases "exec_tx (server P) (on_write e) ?cs (keyspace s)")
    have out: "err = map_option (\<lambda>m. StoreFailure (''failed to delete session snapshot: '' @ m)) er"
      "s' = s\<lparr>keyspace := k'\<rparr>"
      using assms(4) some tx by (simp_all add: redis_Delete_def)
    have "\<forall>x \<in> set (tl ?cs). index_cmd c x" by (auto simp: index_cmd_def)
    from run_index_kept [OF r this, of "DEL (server P) (sessionKey c sid) (keyspace s)"]
    have w: "slot_set kv c (keyspace s) sid None (snd (run_tx (server P) ?cs (keyspace s)))"
      using slot_set_kept [OF slot_set_upd [of kv, OF redis_frame(5) [OF r(1), of "sessionKey c sid" "keyspace s"]]]
      by (simp add: split_beta)
    have "spec_Delete (redis_view P kv c s sid) = Inr ((), slot_view (times P) None)" by (simp add: spec_Delete_def)
    from write_meets [where f = spec_Delete, OF assms(1,3) this, of "unit_result err" k'] exec_tx_outcome [OF tx] w
    show ?thesis unfolding out by (cases er) (auto simp: slot_ok_def)
  qed
qed

section \<open>The scripts\<close>

lemma stored_state:
  assumes "stored T sid f p" "times_ok T" "rfc3339 now"
  shows "stored T sid (hset f [(hfState, st), (hfLastUpdatedAt, Format T now)]) (p\<lparr>State := st, LastUpdatedAt := now\<rparr>)"
  using assms by (simp add: stored_def decode_iff field_is_Format)

lemma stored_field:
  assumes "stored T sid f p"
  shows "stored T sid (hset f [(hfClaimMissingVerdict, v)]) (p\<lparr>ClaimMissingVerdict := v\<rparr>)"
    and "stored T sid (hset f [(hfClaimTxHash, v)]) (p\<lparr>ClaimTxHash := v\<rparr>)"
    and "stored T sid (hset f [(hfProofTxHash, v)]) (p\<lparr>ProofTxHash := v\<rparr>)"
    and "stored T sid (hdel f [hfClaimMissingVerdict]) (p\<lparr>ClaimMissingVerdict := []\<rparr>)"
  using assms by (simp_all add: stored_def decode_iff field_is_Format)

lemma stored_claimed:
  assumes "stored T sid f p" "times_ok T" "rfc3339 now"
  shows "stored T sid (hset f [(hfState, st), (hfClaimedRootHash, root), (hfLastUpdatedAt, Format T now)])
     (p\<lparr>State := st, ClaimedRootHash := usable_root root, LastUpdatedAt := now\<rparr>)"
  using assms by (simp add: stored_def decode_iff field_is_Format)

lemma stored_read:
  assumes "stored T sid f p"
  shows "f hfState = Some (State p)" "lua_or (f hfClaimTxHash) = ClaimTxHash p"
    "lua_or (f hfProofTxHash) = ProofTxHash p" "lua_or (f hfClaimMissingVerdict) = ClaimMissingVerdict p"
proof -
  have d: "State p = lua_or (f hfState)" "ClaimTxHash p = lua_or (f hfClaimTxHash)"
    "ProofTxHash p = lua_or (f hfProofTxHash)" "ClaimMissingVerdict p = lua_or (f hfClaimMissingVerdict)"
    "f hfState \<noteq> None"
    using assms unfolding stored_def decode_iff by blast+
  show "f hfState = Some (State p)" using d(1,5) by auto
  show "lua_or (f hfClaimTxHash) = ClaimTxHash p" "lua_or (f hfProofTxHash) = ProofTxHash p"
    "lua_or (f hfClaimMissingVerdict) = ClaimMissingVerdict p" using d(2-4) by simp_all
qed

lemma lua_can_reactivate_claimed:
  "(Some st \<noteq> Some SessionStateActive \<and> Some st \<noteq> Some SessionStateClaiming
      \<and> Some st \<noteq> Some SessionStateClaimWindowClosed \<and> Some st \<noteq> Some SessionStateClaimTxError
      \<and> Some st \<noteq> Some SessionStateClaimMissing) \<longleftrightarrow> \<not> canReactivateClaimed st"
  by (simp add: canReactivateClaimed_def)

text \<open>A step of a script on a session hash: it writes, and the session is still well formed.\<close>

definition wrote ::
  "('k \<Rightarrow> string \<Rightarrow> rval option) \<Rightarrow> time_codec \<Rightarrow> string \<Rightarrow> string \<Rightarrow> 'k \<Rightarrow> SessionSnapshot \<Rightarrow> 'k \<Rightarrow> bool" where
  "wrote kv T key sid k p k' \<longleftrightarrow> (\<exists>f. kv k' = (kv k)(key \<mapsto> RHash f) \<and> stored T sid f p)"

lemma wrote_HSET:
  assumes "redis_ok R kv" "wrote kv T key sid k0 p k" "kvs \<noteq> []"
    and "\<And>f. stored T sid f p \<Longrightarrow> stored T sid (hset f kvs) q"
  shows "\<exists>k'. HSET R key kvs k = (None, k') \<and> wrote kv T key sid k0 q k'"
proof -
  obtain f where f: "kv k = (kv k0)(key \<mapsto> RHash f)" "stored T sid f p" using assms(2) by (auto simp: wrote_def)
  then have "kv k key = Some (RHash f)" by simp
  from redis_HSET [OF assms(1) this assms(3)] obtain k' where
    k': "HSET R key kvs k = (None, k')" "kv k' = (kv k)(key \<mapsto> RHash (hset f kvs))" by blast
  then have "kv k' = (kv k0)(key \<mapsto> RHash (hset f kvs))" by (simp only: f(1) fun_upd_upd)
  with k'(1) show ?thesis using assms(4) [OF f(2)] unfolding wrote_def by blast
qed

lemma wrote_HDEL:
  assumes "redis_ok R kv" "wrote kv T key sid k0 p k"
  shows "\<exists>k'. HDEL R key [hfClaimMissingVerdict] k = (None, k') \<and> wrote kv T key sid k0 (p\<lparr>ClaimMissingVerdict := []\<rparr>) k'"
proof -
  obtain f where f: "kv k = (kv k0)(key \<mapsto> RHash f)" "stored T sid f p" using assms(2) by (auto simp: wrote_def)
  then have k: "kv k key = Some (RHash f)" "f hfSessionID = Some sid" by (simp_all add: stored_def)
  have "\<exists>k'. HDEL R key [hfClaimMissingVerdict] k = (None, k')
      \<and> kv k' = (kv k)(key \<mapsto> RHash (hdel f [hfClaimMissingVerdict]))"
    by (rule redis_HDEL [OF assms(1) k]) simp
  then obtain k' where k': "HDEL R key [hfClaimMissingVerdict] k = (None, k')"
    "kv k' = (kv k)(key \<mapsto> RHash (hdel f [hfClaimMissingVerdict]))" by blast
  then have "kv k' = (kv k0)(key \<mapsto> RHash (hdel f [hfClaimMissingVerdict]))" by (simp only: f(1) fun_upd_upd)
  with k'(1) show ?thesis using stored_field(4) [OF f(2)] unfolding wrote_def by blast
qed

lemma wrote_EXPIRE:
  "redis_ok R kv \<Longrightarrow> 0 < secs \<Longrightarrow> wrote kv T key sid k0 p k \<Longrightarrow> wrote kv T key sid k0 p (EXPIRE R key secs k)"
  by (simp add: wrote_def redis_frame(1))

lemma wrote_HGET:
  "redis_ok R kv \<Longrightarrow> wrote kv T key sid k0 p k \<Longrightarrow> \<exists>f. HGET R k key fld = Inr (f fld) \<and> stored T sid f p"
  by (auto simp: wrote_def dest: redis_hash(2) [of R kv k key])

lemma wrote_start: "kv k key = Some (RHash f) \<Longrightarrow> stored T sid f p \<Longrightarrow> wrote kv T key sid k p k"
  by (auto simp: wrote_def fun_eq_iff)

definition moved :: "SessionState \<Rightarrow> string \<Rightarrow> time \<Rightarrow> SessionSnapshot \<Rightarrow> SessionSnapshot" where
  "moved st verdict now p =
     (if verdict \<noteq> [] \<and> State p \<noteq> st then (p\<lparr>State := st, LastUpdatedAt := now\<rparr>)\<lparr>ClaimMissingVerdict := verdict\<rparr>
      else p\<lparr>State := st, LastUpdatedAt := now\<rparr>)"

lemma update_script:
  assumes "redis_ok R kv" "times_ok T" "0 < ttl" "rfc3339 now" "kv k key = Some (RHash f)" "stored T sid f p"
  shows "case checkStateWrite p st of
      Some (ErrClaimAlreadyOnChain _ _) \<Rightarrow>
        updateStateScript R key st (Format T now) ttl verdict k = (Inl ''claim already on chain'', k)
    | Some _ \<Rightarrow> updateStateScript R key st (Format T now) ttl verdict k \<in>
                  {(Inl ''not an unsent claim'', k), (Inl ''not an unsent proof'', k)}
    | None \<Rightarrow> \<exists>k'. updateStateScript R key st (Format T now) ttl verdict k = (Inr (LStr (State p)), k')
                  \<and> wrote kv T key sid k (moved st verdict now p) k'"
proof -
  note rd = redis_exists [OF assms(1)] redis_hash(1,2) [OF assms(1,5)] stored_read [OF assms(6)]
  have "wrote kv T key sid k p k" using wrote_start assms(5,6) by metis
  from wrote_HSET [OF assms(1) this, of "[(hfState, st), (hfLastUpdatedAt, Format T now)]"
      "p\<lparr>State := st, LastUpdatedAt := now\<rparr>"] stored_state [OF _ assms(2,4)]
  obtain k1 where k1: "HSET R key [(hfState, st), (hfLastUpdatedAt, Format T now)] k = (None, k1)"
    "wrote kv T key sid k (p\<lparr>State := st, LastUpdatedAt := now\<rparr>) k1" by blast
  from wrote_HSET [OF assms(1) k1(2), of "[(hfClaimMissingVerdict, verdict)]"] stored_field(1)
  obtain k2 where k2: "HSET R key [(hfClaimMissingVerdict, verdict)] k1 = (None, k2)"
    "wrote kv T key sid k ((p\<lparr>State := st, LastUpdatedAt := now\<rparr>)\<lparr>ClaimMissingVerdict := verdict\<rparr>) k2" by blast
  let ?tail = "after (HSET R key [(hfState, st), (hfLastUpdatedAt, Format T now)] k) (\<lambda>k.
           after (if verdict \<noteq> [] \<and> State p \<noteq> st
                  then HSET R key [(hfClaimMissingVerdict, verdict)] k else (None, k)) (\<lambda>k.
           (Inr (LStr (State p)), EXPIRE R key ttl k)))"
  have tail: "\<exists>k'. ?tail = (Inr (LStr (State p)), k') \<and> wrote kv T key sid k (moved st verdict now p) k'"
    using k1 k2 wrote_EXPIRE [OF assms(1,3)] by (simp add: moved_def)
  show ?thesis
  proof (cases "checkStateWrite p st")
    case None
    then have "updateStateScript R key st (Format T now) ttl verdict k = ?tail"
      using assms(5) by (auto simp: updateStateScript_def checkStateWrite_def rd lua_holds_claim_twin split: if_splits)
    then show ?thesis using None tail by simp
  next
    case (Some e)
    then show ?thesis using assms(5)
      by (auto simp: updateStateScript_def checkStateWrite_def rd lua_holds_claim_twin split: if_splits)
  qed
qed

lemma claimed_script:
  assumes "redis_ok R kv" "times_ok T" "0 < ttl" "rfc3339 now" "kv k key = Some (RHash f)" "stored T sid f p"
  shows "if \<not> canReactivateClaimed (State p)
    then reactivateClaimedScript R key root h (Format T now) ttl k = (Inr (LList [[], [], []]), k)
    else \<exists>k'. reactivateClaimedScript R key root h (Format T now) ttl k
          = (Inr (LList [State p, ClaimMissingVerdict p, ClaimTxHash p]), k')
        \<and> wrote kv T key sid k (p\<lparr>State := SessionStateClaimed, ClaimedRootHash := usable_root root,
              LastUpdatedAt := now, ClaimMissingVerdict := [],
              ClaimTxHash := (if h = [] then ClaimTxHash p else h)\<rparr>) k'"
proof -
  note rd = redis_exists [OF assms(1)] redis_hash(1,2) [OF assms(1,5)] stored_read [OF assms(6)]
  let ?kvs = "[(hfState, SessionStateClaimed), (hfClaimedRootHash, root), (hfLastUpdatedAt, Format T now)]"
  let ?p = "p\<lparr>State := SessionStateClaimed, ClaimedRootHash := usable_root root, LastUpdatedAt := now\<rparr>"
  have "wrote kv T key sid k p k" using wrote_start assms(5,6) by metis
  from wrote_HSET [OF assms(1) this, of ?kvs ?p] stored_claimed [OF _ assms(2,4)]
  obtain k1 where k1: "HSET R key ?kvs k = (None, k1)" "wrote kv T key sid k ?p k1" by blast
  from wrote_HDEL [OF assms(1) k1(2)]
  obtain k2 where k2: "HDEL R key [hfClaimMissingVerdict] k1 = (None, k2)"
    "wrote kv T key sid k (?p\<lparr>ClaimMissingVerdict := []\<rparr>) k2" by blast
  from wrote_HSET [OF assms(1) k2(2), of "[(hfClaimTxHash, h)]"] stored_field(2)
  obtain k3 where k3: "HSET R key [(hfClaimTxHash, h)] k2 = (None, k3)"
    "wrote kv T key sid k (?p\<lparr>ClaimMissingVerdict := [], ClaimTxHash := h\<rparr>) k3" by blast
  have guard: "(State p \<noteq> SessionStateActive \<and> State p \<noteq> SessionStateClaiming
         \<and> State p \<noteq> SessionStateClaimWindowClosed \<and> State p \<noteq> SessionStateClaimTxError
         \<and> State p \<noteq> SessionStateClaimMissing) = (\<not> canReactivateClaimed (State p))"
    by (simp add: canReactivateClaimed_def)
  show ?thesis
    using k1 k2 k3 wrote_EXPIRE [OF assms(1,3)] assms(5)
    by (cases "h = []") (simp_all add: reactivateClaimedScript_def rd guard)
qed

lemma proved_script:
  assumes "redis_ok R kv" "times_ok T" "0 < ttl" "rfc3339 now" "kv k key = Some (RHash f)" "stored T sid f p"
  shows "if \<not> canReactivateProved (State p) (ProofTxHash p)
    then reactivateProvedScript R key h (Format T now) ttl k = (Inr (LList [[], [], [], []]), k)
    else \<exists>k'. reactivateProvedScript R key h (Format T now) ttl k
          = (Inr (LList [State p, [], ClaimTxHash p, ProofTxHash p]), k')
        \<and> wrote kv T key sid k (p\<lparr>State := SessionStateProved, LastUpdatedAt := now,
              ProofTxHash := (if ProofTxHash p = [] then h else ProofTxHash p)\<rparr>) k'"
proof -
  note rd = redis_exists [OF assms(1)] redis_hash(1,2) [OF assms(1,5)] stored_read [OF assms(6)]
  let ?kvs = "[(hfState, SessionStateProved), (hfLastUpdatedAt, Format T now)]"
  let ?p = "p\<lparr>State := SessionStateProved, LastUpdatedAt := now\<rparr>"
  have "wrote kv T key sid k p k" using wrote_start assms(5,6) by metis
  from wrote_HSET [OF assms(1) this, of ?kvs ?p] stored_state [OF _ assms(2,4)]
  obtain k1 where k1: "HSET R key ?kvs k = (None, k1)" "wrote kv T key sid k ?p k1" by blast
  from wrote_HSET [OF assms(1) k1(2), of "[(hfProofTxHash, h)]"] stored_field(3)
  obtain k2 where k2: "HSET R key [(hfProofTxHash, h)] k1 = (None, k2)"
    "wrote kv T key sid k (?p\<lparr>ProofTxHash := h\<rparr>) k2" by blast
  have out: "wrote kv T key sid k q k' \<Longrightarrow> ClaimTxHash q = ClaimTxHash p
     \<Longrightarrow> \<exists>v. HGET R k' key hfClaimTxHash = Inr v \<and> lua_or v = ClaimTxHash p" for k' q
    using wrote_HGET [OF assms(1)] stored_read(2) by metis
  note e1 = wrote_EXPIRE [OF assms(1,3) k1(2)] and e2 = wrote_EXPIRE [OF assms(1,3) k2(2)]
  obtain v1 where v1: "HGET R (EXPIRE R key ttl k1) key hfClaimTxHash = Inr v1" "lua_or v1 = ClaimTxHash p"
    using out [OF e1] by auto
  obtain v2 where v2: "HGET R (EXPIRE R key ttl k2) key hfClaimTxHash = Inr v2" "lua_or v2 = ClaimTxHash p"
    using out [OF e2] by auto
  have same: "p\<lparr>State := SessionStateProved, LastUpdatedAt := now, ProofTxHash := ProofTxHash p\<rparr> = ?p" by simp
  have nil: "ProofTxHash p = [] \<Longrightarrow> p\<lparr>State := SessionStateProved, LastUpdatedAt := now, ProofTxHash := []\<rparr> = ?p"
    using same by simp
  show ?thesis
    using k1(1) k2(1) v1 v2 e1 e2 assms(5) same
    by (cases "ProofTxHash p = []"; cases "h = []")
       (simp_all add: reactivateProvedScript_def rd Let_def lua_can_reactivate_proved_twin nil)
qed

lemma FormatUint_FormatInt: "FormatUint w = FormatInt (uint w)"
  by (simp add: FormatUint_def FormatInt_def)

lemma FormatInt_FormatUint:
  assumes "0 \<le> n" "in_i64 n"
  shows "FormatInt n = FormatUint (word_of_int n)"
  using assms by (simp add: FormatUint_FormatInt in_i64_def unsigned_of_int take_bit_int_eq_self)

lemma stored_counters:
  assumes "stored T sid f p"
  shows "in_i64 n \<Longrightarrow> stored T sid (f(hfRelayCount \<mapsto> FormatInt n)) (p\<lparr>RelayCount := n\<rparr>)"
    and "stored T sid (f(hfTotalComputeUnits \<mapsto> FormatUint w)) (p\<lparr>TotalComputeUnits := w\<rparr>)"
    and "times_ok T \<Longrightarrow> rfc3339 now \<Longrightarrow> stored T sid (hset f [(hfLastUpdatedAt, Format T now)]) (p\<lparr>LastUpdatedAt := now\<rparr>)"
  using assms by (simp_all add: stored_def decode_iff field_is_Format)

lemma ParseInt_one: "ParseInt ''1'' = Some 1"
  by (simp add: ParseInt_def ParseNat_def digit_of_def in_i64_def)

lemma wrote_relay:
  assumes "redis_ok R kv" "wrote kv T key sid k0 p k"
  obtains k' where "in_i64 (RelayCount p + 1)" "HINCRBY R key hfRelayCount ''1'' k = (None, k')"
      "wrote kv T key sid k0 (p\<lparr>RelayCount := RelayCount p + 1\<rparr>) k'"
  | m k' where "\<not> in_i64 (RelayCount p + 1)" "HINCRBY R key hfRelayCount ''1'' k = (Some m, k')" "\<not> wrong_type m"
      "wrote kv T key sid k0 p k'"
proof -
  obtain f where f: "kv k = (kv k0)(key \<mapsto> RHash f)" "stored T sid f p" using assms(2) by (auto simp: wrote_def)
  then have k: "kv k key = Some (RHash f)" "f hfRelayCount = Some (FormatInt (RelayCount p))" "in_i64 (RelayCount p)"
    by (simp_all add: stored_def)
  show ?thesis
  proof (rule redis_HINCRBY [OF assms(1) k(1,2), of "''1''"])
    fix d k' assume d: "ParseInt ''1'' = Some d" "in_i64 (RelayCount p + d)"
      "HINCRBY R key hfRelayCount ''1'' k = (None, k')"
      and u: "kv k' = (kv k)(key \<mapsto> RHash (f(hfRelayCount \<mapsto> FormatInt (RelayCount p + d))))"
    have one: "d = 1" using d(1) by (simp add: ParseInt_one)
    have "kv k' = (kv k0)(key \<mapsto> RHash (f(hfRelayCount \<mapsto> FormatInt (RelayCount p + d))))"
      by (simp only: u f(1) fun_upd_upd)
    with stored_counters(1) [OF f(2) d(2)] have "wrote kv T key sid k0 (p\<lparr>RelayCount := RelayCount p + d\<rparr>) k'"
      unfolding wrote_def by blast
    then show ?thesis using that(1) d one by simp
  next
    fix m k' assume m: "\<nexists>d. ParseInt ''1'' = Some d \<and> in_i64 (RelayCount p) \<and> in_i64 (RelayCount p + d)"
      "HINCRBY R key hfRelayCount ''1'' k = (Some m, k')" "\<not> wrong_type m" and u: "kv k' = kv k"
    have "wrote kv T key sid k0 p k'" using assms(2) u by (simp add: wrote_def)
    then show ?thesis using that(2) m k(3) by (simp add: ParseInt_one)
  qed
qed

lemma wrote_units:
  assumes "redis_ok R kv" "wrote kv T key sid k0 p k" "\<And>d. ParseInt units = Some d \<Longrightarrow> 0 \<le> d"
  obtains d k' where "ParseInt units = Some d" "HINCRBY R key hfTotalComputeUnits units k = (None, k')"
      "wrote kv T key sid k0 (p\<lparr>TotalComputeUnits := word_of_int (uint (TotalComputeUnits p) + d)\<rparr>) k'"
  | m k' where "\<not> (\<exists>d. ParseInt units = Some d \<and> in_i64 (uint (TotalComputeUnits p) + d))"
      "HINCRBY R key hfTotalComputeUnits units k = (Some m, k')" "\<not> wrong_type m" "wrote kv T key sid k0 p k'"
proof -
  obtain f where f: "kv k = (kv k0)(key \<mapsto> RHash f)" "stored T sid f p" using assms(2) by (auto simp: wrote_def)
  let ?n = "uint (TotalComputeUnits p)"
  have k: "kv k key = Some (RHash f)" "f hfTotalComputeUnits = Some (FormatInt ?n)"
    using f by (simp_all add: stored_def FormatUint_FormatInt)
  show ?thesis
  proof (rule redis_HINCRBY [OF assms(1) k(1,2), of units])
    fix d k' assume d: "ParseInt units = Some d" "in_i64 (?n + d)"
      "HINCRBY R key hfTotalComputeUnits units k = (None, k')"
      and u: "kv k' = (kv k)(key \<mapsto> RHash (f(hfTotalComputeUnits \<mapsto> FormatInt (?n + d))))"
    have "0 \<le> ?n + d" using assms(3) [OF d(1)] by simp
    from FormatInt_FormatUint [OF this d(2)]
    have "kv k' = (kv k0)(key \<mapsto> RHash (f(hfTotalComputeUnits \<mapsto> FormatUint (word_of_int (?n + d)))))"
      by (simp only: u f(1) fun_upd_upd)
    with stored_counters(2) [OF f(2)]
    have "wrote kv T key sid k0 (p\<lparr>TotalComputeUnits := word_of_int (?n + d)\<rparr>) k'"
      unfolding wrote_def by blast
    then show ?thesis using that(1) d by blast
  next
    fix m k' assume m: "\<nexists>d. ParseInt units = Some d \<and> in_i64 ?n \<and> in_i64 (?n + d)"
      "HINCRBY R key hfTotalComputeUnits units k = (Some m, k')" "\<not> wrong_type m" and u: "kv k' = kv k"
    have w: "wrote kv T key sid k0 p k'" using assms(2) u by (simp add: wrote_def)
    have "in_i64 ?n" if "in_i64 (?n + d)" "ParseInt units = Some d" for d
    proof -
      have "0 \<le> d" "?n + d < 2 ^ 63" "0 \<le> ?n" using assms(3) that by (simp_all add: in_i64_def)
      then show ?thesis unfolding in_i64_def by linarith
    qed
    then show ?thesis using that(2) m w by blast
  qed
qed

lemma count_script:
  assumes "redis_ok R kv" "times_ok T" "0 < ttl" "rfc3339 now" "kv k key = Some (RHash f)" "stored T sid f p"
    and "\<And>d. ParseInt units = Some d \<Longrightarrow> 0 \<le> d" "\<not> IsTerminal (State p)"
  obtains d k' where "ParseInt units = Some d"
      "incrementRelayCountScript R key units (Format T now) ttl k = (Inr (LInt 0), k')" "in_i64 (RelayCount p + 1)"
      "wrote kv T key sid k (p\<lparr>RelayCount := RelayCount p + 1,
         TotalComputeUnits := word_of_int (uint (TotalComputeUnits p) + d), LastUpdatedAt := now\<rparr>) k'"
  | m k' q where "\<not> (in_i64 (RelayCount p + 1) \<and> (\<exists>d. ParseInt units = Some d \<and> in_i64 (uint (TotalComputeUnits p) + d)))"
      "incrementRelayCountScript R key units (Format T now) ttl k = (Inl m, k')" "\<not> wrong_type m"
      "wrote kv T key sid k q k'" "q = p\<lparr>RelayCount := RelayCount q, TotalComputeUnits := TotalComputeUnits q\<rparr>"
proof -
  have start: "wrote kv T key sid k p k" using wrote_start assms(5,6) by metis
  have script: "incrementRelayCountScript R key units (Format T now) ttl k =
     after (HINCRBY R key hfRelayCount ''1'' k) (\<lambda>k.
           after (HINCRBY R key hfTotalComputeUnits units k) (\<lambda>k.
           after (HSET R key [(hfLastUpdatedAt, Format T now)] k) (\<lambda>k. (Inr (LInt 0), EXPIRE R key ttl k))))"
    using assms(5,8) stored_read(1) [OF assms(6)]
    by (simp add: incrementRelayCountScript_def redis_exists [OF assms(1)] redis_hash(2) [OF assms(1,5)] lua_terminal_twin)
  show ?thesis
  proof (rule wrote_relay [OF assms(1) start])
    fix k1 assume c: "in_i64 (RelayCount p + 1)" "HINCRBY R key hfRelayCount ''1'' k = (None, k1)"
      "wrote kv T key sid k (p\<lparr>RelayCount := RelayCount p + 1\<rparr>) k1"
    let ?p = "p\<lparr>RelayCount := RelayCount p + 1\<rparr>"
    show ?thesis
    proof (rule wrote_units [OF assms(1) c(3) assms(7)])
      fix d k2 assume u: "ParseInt units = Some d" "HINCRBY R key hfTotalComputeUnits units k1 = (None, k2)"
        and w: "wrote kv T key sid k (?p\<lparr>TotalComputeUnits := word_of_int (uint (TotalComputeUnits ?p) + d)\<rparr>) k2"
      from wrote_HSET [OF assms(1) w, of "[(hfLastUpdatedAt, Format T now)]"] stored_counters(3) [OF _ assms(2,4)]
      obtain k3 where k3: "HSET R key [(hfLastUpdatedAt, Format T now)] k2 = (None, k3)"
        "wrote kv T key sid k (?p\<lparr>TotalComputeUnits := word_of_int (uint (TotalComputeUnits ?p) + d),
            LastUpdatedAt := now\<rparr>) k3" by blast
      have "incrementRelayCountScript R key units (Format T now) ttl k = (Inr (LInt 0), EXPIRE R key ttl k3)"
        by (simp only: script c(2) u(2) k3(1) after_simps)
      from that(1) [OF u(1) this c(1)] wrote_EXPIRE [OF assms(1,3) k3(2)] show ?thesis by simp
    next
      fix m k2 assume u: "\<nexists>d. ParseInt units = Some d \<and> in_i64 (uint (TotalComputeUnits ?p) + d)"
        "HINCRBY R key hfTotalComputeUnits units k1 = (Some m, k2)" "\<not> wrong_type m" "wrote kv T key sid k ?p k2"
      have s: "incrementRelayCountScript R key units (Format T now) ttl k = (Inl m, k2)"
        by (simp only: script c(2) u(2) after_simps)
      show ?thesis by (rule that(2) [OF _ s u(3,4)]) (use u(1) in simp_all)
    qed
  next
    fix m k1 assume c: "\<not> in_i64 (RelayCount p + 1)" "HINCRBY R key hfRelayCount ''1'' k = (Some m, k1)"
      "\<not> wrong_type m" "wrote kv T key sid k p k1"
    have s: "incrementRelayCountScript R key units (Format T now) ttl k = (Inl m, k1)"
      by (simp only: script c(2) after_simps)
    show ?thesis by (rule that(2) [OF _ s c(3,4)]) (use c(1) in simp_all)
  qed
qed

section \<open>The methods\<close>

lemma trip_cases:
  assumes "trip x f k = (r, k')" "plain_fate x"
  obtains "f k = (r, k')" | m where "r = Inl m" "plain_error m" "k' = k \<or> k' = snd (f k)"
  using assms by (cases x) (auto simp: plain_fate_def)

lemma ttl_seconds_pos: "plain_config c \<Longrightarrow> 0 < ttl_seconds c"
proof -
  assume "plain_config c"
  then have "10 ^ 9 \<le> rc_ttl c" by (simp add: plain_config_def)
  then have "1 \<le> rc_ttl c div 10 ^ 9" using zdiv_mono1 [of "10 ^ 9" "rc_ttl c" "10 ^ 9"] by simp
  then show ?thesis using \<open>10 ^ 9 \<le> rc_ttl c\<close> by (simp add: ttl_seconds_def)
qed

lemma wrote_slot_set:
  assumes "wrote kv T (sessionKey c sid) sid k p k'"
  obtains f where "slot_set kv c k sid (Some (RHash f)) k'" "stored T sid f p"
  using assms slot_set_upd unfolding wrote_def by metis

text \<open>A script that wrote \<open>q\<close>, and what the index maintenance after it leaves.\<close>

lemma wrote_meets:
  assumes "redis_inv P kv c s" "redis_sid sid" "wrote kv (times P) (sessionKey c sid) sid (keyspace s) q k1"
    and "sessions_kept kv c k1 k'"
    and "f (redis_view P kv c s sid) = Inr (x, Some (canon q))"
    and "r = Inr x \<or> (\<exists>m. r = Inl m \<and> is_store_failure m)"
  shows "meets f True sid (redis_view P kv c s) r (redis_view P kv c (s\<lparr>keyspace := k'\<rparr>))
     \<and> redis_inv P kv c (s\<lparr>keyspace := k'\<rparr>)"
proof -
  from wrote_slot_set [OF assms(3)] obtain h where h:
    "slot_set kv c (keyspace s) sid (Some (RHash h)) k1" "stored (times P) sid h q" by blast
  have "slot_ok (times P) sid (Some (RHash h))" using h(2) by (auto simp: slot_ok_def)
  moreover have "f (redis_view P kv c s sid) = Inr (x, slot_view (times P) (Some (RHash h)))"
    using assms(5) by (simp add: slot_view_stored [OF h(2)])
  ultimately show ?thesis
    using write_meets [where f = f, OF assms(1,2) _ _ assms(6)] slot_set_kept [OF h(1) assms(4)] by blast
qed

lemma lost_meets:
  assumes "redis_inv P kv c s" "redis_sid sid" "is_store_failure err"
    and "k' = keyspace s \<or> wrote kv (times P) (sessionKey c sid) sid (keyspace s) q k'"
    and "f (redis_view P kv c s sid) = Inr (x, Some (canon q))"
  shows "meets f True sid (redis_view P kv c s) (Inl err) (redis_view P kv c (s\<lparr>keyspace := k'\<rparr>))
     \<and> redis_inv P kv c (s\<lparr>keyspace := k'\<rparr>)"
  using assms(4)
proof
  assume "k' = keyspace s"
  then show ?thesis using failed_meets [OF assms(1,3)] by simp
next
  assume "wrote kv (times P) (sessionKey c sid) sid (keyspace s) q k'"
  from wrote_meets [where f = f and r = "Inl err", OF assms(1,2) this sessions_kept_refl assms(5)] assms(3)
  show ?thesis by blast
qed

lemma spec_updateState_moved:
  assumes "checkStateWrite p st = None"
  shows "spec_updateState sid st verdict (Some (canon p)) = Inr (State p \<noteq> st, Some (canon (moved st verdict now p)))"
proof -
  have "checkStateWrite (canon p) st = None" using assms by simp
  then show ?thesis unfolding spec_updateState_def moved_def by (auto simp: canon_def)
qed

lemma marker_simps:
  "Contains ''session not found'' ''session not found''"
  "Contains ''claim already on chain'' ''claim already on chain''"
  "\<not> Contains ''claim already on chain'' ''session not found''"
  "Contains ''not an unsent claim'' ''not an unsent claim''"
  "\<not> Contains ''not an unsent claim'' ''session not found''"
  "\<not> Contains ''not an unsent claim'' ''claim already on chain''"
  "Contains ''not an unsent proof'' ''not an unsent proof''"
  "\<not> Contains ''not an unsent proof'' ''session not found''"
  "\<not> Contains ''not an unsent proof'' ''claim already on chain''"
  by simp_all

lemma checkStateWrite_errors:
  assumes "checkStateWrite p st = Some err"
  shows "err = ErrClaimAlreadyOnChain (SessionID p) st \<or> err = ErrSessionNotDeferred (SessionID p) st"
  using assms by (auto simp: checkStateWrite_def split: if_splits)

text \<open>
  A method that runs one script: when the reply arrives it does what its specification says, and when
  it is lost the method reports a failure and the script either did not run or did what the
  specification says.
\<close>

lemma script_meets:
  assumes "redis_inv P kv c s" "redis_sid sid" "plain_fate x" "trip x script (keyspace s) = (rep, k1)"
    and lost: "\<And>m. rep = Inl m \<Longrightarrow> plain_error m \<Longrightarrow> \<exists>why. (r, s') = (Inl (StoreFailure why), s\<lparr>keyspace := k1\<rparr>)"
    and ran: "script (keyspace s) = (rep, k1) \<Longrightarrow>
        meets f True sid (redis_view P kv c s) r (redis_view P kv c s') \<and> redis_inv P kv c s'"
    and wrote: "snd (script (keyspace s)) = keyspace s
        \<or> (\<exists>q y. wrote kv (times P) (sessionKey c sid) sid (keyspace s) q (snd (script (keyspace s)))
               \<and> f (redis_view P kv c s sid) = Inr (y, Some (canon q)))"
  shows "meets f True sid (redis_view P kv c s) r (redis_view P kv c s') \<and> redis_inv P kv c s'"
  using assms(4,3)
proof (rule trip_cases)
  assume "script (keyspace s) = (rep, k1)"
  then show ?thesis by (rule ran)
next
  fix m assume m: "rep = Inl m" "plain_error m" and k1: "k1 = keyspace s \<or> k1 = snd (script (keyspace s))"
  from lost [OF m] obtain why where out: "r = Inl (StoreFailure why)" "s' = s\<lparr>keyspace := k1\<rparr>" by auto
  from k1 wrote consider "k1 = keyspace s"
    | q y where "wrote kv (times P) (sessionKey c sid) sid (keyspace s) q k1"
        "f (redis_view P kv c s sid) = Inr (y, Some (canon q))" by blast
  then show ?thesis
  proof cases
    case 1
    then show ?thesis unfolding out using failed_meets [where f = f, OF assms(1)] assms(1) by simp
  next
    case 2
    show ?thesis unfolding out
      by (rule lost_meets [where f = f, OF assms(1,2) is_store_failure_simps(1) disjI2 [OF 2(1)] 2(2)])
  qed
qed

lemma script_env:
  assumes "redis_inv P kv c s" "redis_call_ok e"
  shows "redis_ok (server P) kv" "times_ok (times P)" "plain_config c" "0 < ttl_seconds c" "rfc3339 (clock e)"
    "plain_fate (on_script e)"
  using assms ttl_seconds_pos by (simp_all add: redis_inv_def redis_call_ok_def)

text \<open>The same for the three scripts that look the session up first: absent, refused, or written.\<close>

lemma updateState_delivered:
  assumes "redis_inv P kv c s" "redis_call_ok e" "redis_sid sid"
    and script: "script = updateStateScript (server P) (sessionKey c sid) st (Format (times P) (clock e)) (ttl_seconds c) verdict"
  obtains "script (keyspace s) = (Inl ''session not found'', keyspace s)"
      "spec_updateState sid st verdict (redis_view P kv c s sid) = Inl (SessionNotFound sid)"
  | "script (keyspace s) = (Inl ''claim already on chain'', keyspace s)"
      "spec_updateState sid st verdict (redis_view P kv c s sid) = Inl (ErrClaimAlreadyOnChain sid st)"
  | m where "script (keyspace s) = (Inl m, keyspace s)" "m = ''not an unsent claim'' \<or> m = ''not an unsent proof''"
      "spec_updateState sid st verdict (redis_view P kv c s sid) = Inl (ErrSessionNotDeferred sid st)"
  | old k2 q where "script (keyspace s) = (Inr (LStr old), k2)"
      "wrote kv (times P) (sessionKey c sid) sid (keyspace s) q k2"
      "spec_updateState sid st verdict (redis_view P kv c s sid) = Inr (old \<noteq> st, Some (canon q))"
  using assms(1,3)
proof (cases rule: slot_cases)
  case absent
  have "script (keyspace s) = (Inl ''session not found'', keyspace s)"
    using absent(1) redis_exists [OF script_env(1) [OF assms(1,2)]] by (simp add: script updateStateScript_def)
  then show ?thesis using that(1) absent(2) by (simp add: spec_updateState_def)
next
  case (there f p)
  note ran = update_script [OF script_env(1,2,4,5) [OF assms(1,2)] there(1,2), of st verdict, folded script]
  have id: "SessionID p = sid" using stored_id [OF there(2)] .
  show ?thesis
  proof (cases "checkStateWrite p st")
    case None
    then show ?thesis using ran that(4) there(3) spec_updateState_moved [OF None] by auto
  next
    case (Some err)
    have "spec_updateState sid st verdict (redis_view P kv c s sid) = Inl err"
      using there(3) Some by (simp add: spec_updateState_def)
    then show ?thesis using checkStateWrite_errors [OF Some] ran Some id that(2,3) by auto
  qed
qed

lemma redis_updateState_ok:
  assumes "redis_inv P kv c s" "redis_call_ok e" "redis_sid sid" "redis_updateState P c e sid st verdict s = (r, s')"
  shows "meets (spec_updateState sid st verdict) True sid (redis_view P kv c s) r (redis_view P kv c s')
     \<and> redis_inv P kv c s'"
proof -
  let ?spec = "spec_updateState sid st verdict"
  define script where
    "script = updateStateScript (server P) (sessionKey c sid) st (Format (times P) (clock e)) (ttl_seconds c) verdict"
  obtain rep k1 where t: "trip (on_script e) script (keyspace s) = (rep, k1)"
    by (cases "trip (on_script e) script (keyspace s)")
  note def = assms(4) [unfolded redis_updateState_def Let_def, folded script_def]
  show ?thesis
  proof (rule script_meets [where f = ?spec, OF assms(1,3) script_env(6) [OF assms(1,2)] t])
    fix m assume "rep = Inl m" "plain_error m"
    then show "\<exists>why. (r, s') = (Inl (StoreFailure why), s\<lparr>keyspace := k1\<rparr>)"
      using def t by (auto simp: plain_error_def)
  next
    assume del: "script (keyspace s) = (rep, k1)"
    from assms(1-3) script_def show "meets ?spec True sid (redis_view P kv c s) r (redis_view P kv c s') \<and> redis_inv P kv c s'"
    proof (rule updateState_delivered)
      assume sc: "script (keyspace s) = (Inl ''session not found'', keyspace s)"
        and spec: "?spec (redis_view P kv c s sid) = Inl (SessionNotFound sid)"
      then have "r = Inl (SessionNotFound sid)" "s' = s" using del def t by (auto simp: Let_def marker_simps)
      then show ?thesis using refused_meets [where f = ?spec, OF assms(1) spec] by simp
    next
      assume sc: "script (keyspace s) = (Inl ''claim already on chain'', keyspace s)"
        and spec: "?spec (redis_view P kv c s sid) = Inl (ErrClaimAlreadyOnChain sid st)"
      then have "r = Inl (ErrClaimAlreadyOnChain sid st)" "s' = s" using del def t by (auto simp: Let_def marker_simps)
      then show ?thesis using refused_meets [where f = ?spec, OF assms(1) spec] by simp
    next
      fix m assume sc: "script (keyspace s) = (Inl m, keyspace s)" "m = ''not an unsent claim'' \<or> m = ''not an unsent proof''"
        and spec: "?spec (redis_view P kv c s sid) = Inl (ErrSessionNotDeferred sid st)"
      then have "r = Inl (ErrSessionNotDeferred sid st)" "s' = s" using del def t by (auto simp: Let_def marker_simps)
      then show ?thesis using refused_meets [where f = ?spec, OF assms(1) spec] by simp
    next
      fix old k2 q assume sc: "script (keyspace s) = (Inr (LStr old), k2)"
        and w: "wrote kv (times P) (sessionKey c sid) sid (keyspace s) q k2"
        and spec: "?spec (redis_view P kv c s sid) = Inr (old \<noteq> st, Some (canon q))"
      let ?k = "if old = st then k2 else reindexState P c (on_index e) sid old st k2"
      have out: "r = Inr (old \<noteq> st)" "s' = s\<lparr>keyspace := ?k\<rparr>" using del def t sc by (auto split: if_splits)
      have "sessions_kept kv c k2 ?k" using reindex_kept [OF script_env(1,3) [OF assms(1,2)]] by simp
      from wrote_meets [where f = ?spec, OF assms(1,3) w this spec] show ?thesis unfolding out by blast
    qed
  next
    from assms(1-3) script_def show "snd (script (keyspace s)) = keyspace s
        \<or> (\<exists>q y. wrote kv (times P) (sessionKey c sid) sid (keyspace s) q (snd (script (keyspace s)))
               \<and> ?spec (redis_view P kv c s sid) = Inr (y, Some (canon q)))"
      by (rule updateState_delivered) auto
  qed
qed

text \<open>The two reactivations: absent, at or past the state already, or flipped.\<close>

lemma reactivation_delivered:
  assumes "redis_inv P kv c s" "redis_call_ok e" "redis_sid sid"
  shows "script = reactivateClaimedScript (server P) (sessionKey c sid) root h (Format (times P) (clock e)) (ttl_seconds c)
     \<Longrightarrow> (script (keyspace s) = (Inl ''session not found'', keyspace s)
             \<and> spec_ReactivateClaimed sid root h (redis_view P kv c s sid) = Inl (SessionNotFound sid))
       \<or> (script (keyspace s) = (Inr (LList [[], [], []]), keyspace s)
             \<and> spec_ReactivateClaimed sid root h (redis_view P kv c s sid) = Inr (noReactivation, redis_view P kv c s sid))
       \<or> (\<exists>st vd tx k2 q. script (keyspace s) = (Inr (LList [st, vd, tx]), k2) \<and> st \<noteq> []
             \<and> wrote kv (times P) (sessionKey c sid) sid (keyspace s) q k2
             \<and> spec_ReactivateClaimed sid root h (redis_view P kv c s sid)
                 = Inr (\<lparr>From = st, ReVerdict = vd, ReClaimTxHash = tx, ReProofTxHash = []\<rparr>, Some (canon q)))"
    and "script' = reactivateProvedScript (server P) (sessionKey c sid) h (Format (times P) (clock e)) (ttl_seconds c)
     \<Longrightarrow> (script' (keyspace s) = (Inl ''session not found'', keyspace s)
             \<and> spec_ReactivateProved sid h (redis_view P kv c s sid) = Inl (SessionNotFound sid))
       \<or> (script' (keyspace s) = (Inr (LList [[], [], [], []]), keyspace s)
             \<and> spec_ReactivateProved sid h (redis_view P kv c s sid) = Inr (noReactivation, redis_view P kv c s sid))
       \<or> (\<exists>st tx pf k2 q. script' (keyspace s) = (Inr (LList [st, [], tx, pf]), k2) \<and> st \<noteq> []
             \<and> wrote kv (times P) (sessionKey c sid) sid (keyspace s) q k2
             \<and> spec_ReactivateProved sid h (redis_view P kv c s sid)
                 = Inr (\<lparr>From = st, ReVerdict = [], ReClaimTxHash = tx, ReProofTxHash = pf\<rparr>, Some (canon q)))"
proof -
  note R = script_env [OF assms(1,2)]
  let ?view = "redis_view P kv c s sid"
  show "(script (keyspace s) = (Inl ''session not found'', keyspace s)
             \<and> spec_ReactivateClaimed sid root h ?view = Inl (SessionNotFound sid))
       \<or> (script (keyspace s) = (Inr (LList [[], [], []]), keyspace s)
             \<and> spec_ReactivateClaimed sid root h ?view = Inr (noReactivation, ?view))
       \<or> (\<exists>st vd tx k2 q. script (keyspace s) = (Inr (LList [st, vd, tx]), k2) \<and> st \<noteq> []
             \<and> wrote kv (times P) (sessionKey c sid) sid (keyspace s) q k2
             \<and> spec_ReactivateClaimed sid root h ?view
                 = Inr (\<lparr>From = st, ReVerdict = vd, ReClaimTxHash = tx, ReProofTxHash = []\<rparr>, Some (canon q)))"
    if sc: "script = reactivateClaimedScript (server P) (sessionKey c sid) root h (Format (times P) (clock e)) (ttl_seconds c)"
    using assms(1,3)
  proof (cases rule: slot_cases)
    case absent
    then show ?thesis using redis_exists [OF R(1)]
      by (simp add: sc reactivateClaimedScript_def spec_ReactivateClaimed_def)
  next
    case (there f p)
    note ran = claimed_script [OF R(1,2,4,5) there(1,2), of root h, folded sc]
    show ?thesis
    proof (cases "canReactivateClaimed (State p)")
      case False
      then show ?thesis using ran there(3) by (simp add: spec_ReactivateClaimed_def)
    next
      case True
      let ?q = "p\<lparr>State := SessionStateClaimed, ClaimedRootHash := usable_root root, LastUpdatedAt := clock e,
        ClaimMissingVerdict := [], ClaimTxHash := (if h = [] then ClaimTxHash p else h)\<rparr>"
      have "spec_ReactivateClaimed sid root h ?view = Inr (\<lparr>From = State p, ReVerdict = ClaimMissingVerdict p,
          ReClaimTxHash = ClaimTxHash p, ReProofTxHash = []\<rparr>, Some (canon ?q))"
        using there(3) True by (simp add: spec_ReactivateClaimed_def canon_def usable_root_def)
      moreover have "State p \<noteq> []" using True by (auto simp: canReactivateClaimed_def)
      moreover from ran True obtain k2 where
        "script (keyspace s) = (Inr (LList [State p, ClaimMissingVerdict p, ClaimTxHash p]), k2)"
        "wrote kv (times P) (sessionKey c sid) sid (keyspace s) ?q k2" by auto
      ultimately show ?thesis by blast
    qed
  qed
  show "(script' (keyspace s) = (Inl ''session not found'', keyspace s)
             \<and> spec_ReactivateProved sid h ?view = Inl (SessionNotFound sid))
       \<or> (script' (keyspace s) = (Inr (LList [[], [], [], []]), keyspace s)
             \<and> spec_ReactivateProved sid h ?view = Inr (noReactivation, ?view))
       \<or> (\<exists>st tx pf k2 q. script' (keyspace s) = (Inr (LList [st, [], tx, pf]), k2) \<and> st \<noteq> []
             \<and> wrote kv (times P) (sessionKey c sid) sid (keyspace s) q k2
             \<and> spec_ReactivateProved sid h ?view
                 = Inr (\<lparr>From = st, ReVerdict = [], ReClaimTxHash = tx, ReProofTxHash = pf\<rparr>, Some (canon q)))"
    if sc: "script' = reactivateProvedScript (server P) (sessionKey c sid) h (Format (times P) (clock e)) (ttl_seconds c)"
    using assms(1,3)
  proof (cases rule: slot_cases)
    case absent
    then show ?thesis using redis_exists [OF R(1)]
      by (simp add: sc reactivateProvedScript_def spec_ReactivateProved_def)
  next
    case (there f p)
    note ran = proved_script [OF R(1,2,4,5) there(1,2), of h, folded sc]
    show ?thesis
    proof (cases "canReactivateProved (State p) (ProofTxHash p)")
      case False
      then show ?thesis using ran there(3) by (simp add: spec_ReactivateProved_def)
    next
      case True
      let ?q = "p\<lparr>State := SessionStateProved, LastUpdatedAt := clock e,
        ProofTxHash := (if ProofTxHash p = [] then h else ProofTxHash p)\<rparr>"
      have "spec_ReactivateProved sid h ?view = Inr (\<lparr>From = State p, ReVerdict = [],
          ReClaimTxHash = ClaimTxHash p, ReProofTxHash = ProofTxHash p\<rparr>, Some (canon ?q))"
        using there(3) True by (simp add: spec_ReactivateProved_def canon_def)
      moreover have "State p \<noteq> []" using True by (auto simp: canReactivateProved_def)
      moreover from ran True obtain k2 where
        "script' (keyspace s) = (Inr (LList [State p, [], ClaimTxHash p, ProofTxHash p]), k2)"
        "wrote kv (times P) (sessionKey c sid) sid (keyspace s) ?q k2" by auto
      ultimately show ?thesis by blast
    qed
  qed
qed

lemma redis_ReactivateClaimed_ok:
  assumes "redis_inv P kv c s" "redis_call_ok e" "redis_sid sid" "redis_ReactivateClaimed P c e sid root h s = (r, s')"
  shows "meets (spec_ReactivateClaimed sid root h) True sid (redis_view P kv c s) r (redis_view P kv c s')
     \<and> redis_inv P kv c s'"
proof -
  let ?spec = "spec_ReactivateClaimed sid root h"
  define script where
    "script = reactivateClaimedScript (server P) (sessionKey c sid) root h (Format (times P) (clock e)) (ttl_seconds c)"
  obtain rep k1 where t: "trip (on_script e) script (keyspace s) = (rep, k1)"
    by (cases "trip (on_script e) script (keyspace s)")
  note def = assms(4) [unfolded redis_ReactivateClaimed_def Let_def, folded script_def]
  note cases3 = reactivation_delivered(1) [OF assms(1-3) script_def]
  show ?thesis
  proof (rule script_meets [where f = ?spec, OF assms(1,3) script_env(6) [OF assms(1,2)] t])
    fix m assume "rep = Inl m" "plain_error m"
    then show "\<exists>why. (r, s') = (Inl (StoreFailure why), s\<lparr>keyspace := k1\<rparr>)"
      using def t by (auto simp: plain_error_def)
  next
    assume del: "script (keyspace s) = (rep, k1)"
    from cases3 show "meets ?spec True sid (redis_view P kv c s) r (redis_view P kv c s') \<and> redis_inv P kv c s'"
    proof (elim disjE exE conjE)
      assume "script (keyspace s) = (Inl ''session not found'', keyspace s)"
        and spec: "?spec (redis_view P kv c s sid) = Inl (SessionNotFound sid)"
      then have "r = Inl (SessionNotFound sid)" "s' = s" using del def t by (auto simp: Let_def marker_simps)
      then show ?thesis using refused_meets [where f = ?spec, OF assms(1) spec] by simp
    next
      assume "script (keyspace s) = (Inr (LList [[], [], []]), keyspace s)"
        and spec: "?spec (redis_view P kv c s sid) = Inr (noReactivation, redis_view P kv c s sid)"
      then have "r = Inr noReactivation" "s' = s" using del def t by (auto simp: Let_def)
      then show ?thesis using kept_meets [where f = ?spec and k' = "keyspace s", OF assms(1) _ spec] by simp
    next
      fix st vd tx k2 q assume sc: "script (keyspace s) = (Inr (LList [st, vd, tx]), k2)" "st \<noteq> []"
        and w: "wrote kv (times P) (sessionKey c sid) sid (keyspace s) q k2"
        and spec: "?spec (redis_view P kv c s sid)
            = Inr (\<lparr>From = st, ReVerdict = vd, ReClaimTxHash = tx, ReProofTxHash = []\<rparr>, Some (canon q))"
      have out: "r = Inr \<lparr>From = st, ReVerdict = vd, ReClaimTxHash = tx, ReProofTxHash = []\<rparr>"
        "s' = s\<lparr>keyspace := reindexState P c (on_index e) sid st SessionStateClaimed k2\<rparr>"
        using del def t sc by (auto simp: Let_def)
      from wrote_meets [where f = ?spec, OF assms(1,3) w reindex_kept [OF script_env(1,3) [OF assms(1,2)]] spec]
      show ?thesis unfolding out by blast
    qed
  next
    from cases3 show "snd (script (keyspace s)) = keyspace s
        \<or> (\<exists>q y. wrote kv (times P) (sessionKey c sid) sid (keyspace s) q (snd (script (keyspace s)))
               \<and> ?spec (redis_view P kv c s sid) = Inr (y, Some (canon q)))" by auto
  qed
qed

lemma redis_ReactivateProved_ok:
  assumes "redis_inv P kv c s" "redis_call_ok e" "redis_sid sid" "redis_ReactivateProved P c e sid h s = (r, s')"
  shows "meets (spec_ReactivateProved sid h) True sid (redis_view P kv c s) r (redis_view P kv c s')
     \<and> redis_inv P kv c s'"
proof -
  let ?spec = "spec_ReactivateProved sid h"
  define script where
    "script = reactivateProvedScript (server P) (sessionKey c sid) h (Format (times P) (clock e)) (ttl_seconds c)"
  obtain rep k1 where t: "trip (on_script e) script (keyspace s) = (rep, k1)"
    by (cases "trip (on_script e) script (keyspace s)")
  note def = assms(4) [unfolded redis_ReactivateProved_def Let_def, folded script_def]
  note cases3 = reactivation_delivered(2) [OF assms(1-3) script_def]
  show ?thesis
  proof (rule script_meets [where f = ?spec, OF assms(1,3) script_env(6) [OF assms(1,2)] t])
    fix m assume "rep = Inl m" "plain_error m"
    then show "\<exists>why. (r, s') = (Inl (StoreFailure why), s\<lparr>keyspace := k1\<rparr>)"
      using def t by (auto simp: plain_error_def)
  next
    assume del: "script (keyspace s) = (rep, k1)"
    from cases3 show "meets ?spec True sid (redis_view P kv c s) r (redis_view P kv c s') \<and> redis_inv P kv c s'"
    proof (elim disjE exE conjE)
      assume "script (keyspace s) = (Inl ''session not found'', keyspace s)"
        and spec: "?spec (redis_view P kv c s sid) = Inl (SessionNotFound sid)"
      then have "r = Inl (SessionNotFound sid)" "s' = s" using del def t by (auto simp: Let_def marker_simps)
      then show ?thesis using refused_meets [where f = ?spec, OF assms(1) spec] by simp
    next
      assume "script (keyspace s) = (Inr (LList [[], [], [], []]), keyspace s)"
        and spec: "?spec (redis_view P kv c s sid) = Inr (noReactivation, redis_view P kv c s sid)"
      then have "r = Inr noReactivation" "s' = s" using del def t by (auto simp: Let_def)
      then show ?thesis using kept_meets [where f = ?spec and k' = "keyspace s", OF assms(1) _ spec] by simp
    next
      fix st tx pf k2 q assume sc: "script (keyspace s) = (Inr (LList [st, [], tx, pf]), k2)" "st \<noteq> []"
        and w: "wrote kv (times P) (sessionKey c sid) sid (keyspace s) q k2"
        and spec: "?spec (redis_view P kv c s sid)
            = Inr (\<lparr>From = st, ReVerdict = [], ReClaimTxHash = tx, ReProofTxHash = pf\<rparr>, Some (canon q))"
      have out: "r = Inr \<lparr>From = st, ReVerdict = [], ReClaimTxHash = tx, ReProofTxHash = pf\<rparr>"
        "s' = s\<lparr>keyspace := reindexState P c (on_index e) sid st SessionStateProved k2\<rparr>"
        using del def t sc by (auto simp: Let_def numeral_3_eq_3)
      from wrote_meets [where f = ?spec, OF assms(1,3) w reindex_kept [OF script_env(1,3) [OF assms(1,2)]] spec]
      show ?thesis unfolding out by blast
    qed
  next
    from cases3 show "snd (script (keyspace s)) = keyspace s
        \<or> (\<exists>q y. wrote kv (times P) (sessionKey c sid) sid (keyspace s) q (snd (script (keyspace s)))
               \<and> ?spec (redis_view P kv c s sid) = Inr (y, Some (canon q)))" by auto
  qed
qed

lemma create_script:
  assumes "redis_ok R kv" "times_ok T" "0 < ttl" "snap_ok p" "rfc3339 (LastUpdatedAt p)"
  shows "kv k key = None \<Longrightarrow> \<exists>k'. createIfAbsentScript R key ttl (encodeSnapshot T p) k = (Inr (LInt 1), k')
       \<and> wrote kv T key (SessionID p) k (p\<lparr>ClaimedRootHash := usable_root (ClaimedRootHash p)\<rparr>) k'"
    and "kv k key \<noteq> None \<Longrightarrow> createIfAbsentScript R key ttl (encodeSnapshot T p) k = (Inr (LInt 0), k)"
proof -
  show "createIfAbsentScript R key ttl (encodeSnapshot T p) k = (Inr (LInt 0), k)" if "kv k key \<noteq> None"
    using that by (simp add: createIfAbsentScript_def redis_exists [OF assms(1)])
  assume none: "kv k key = None"
  have "encodeSnapshot T p \<noteq> []" by (simp add: encodeSnapshot_def)
  from redis_HSET_new [OF assms(1) none this] obtain k1 where k1: "HSET R key (encodeSnapshot T p) k = (None, k1)"
    "kv k1 = (kv k)(key \<mapsto> RHash (hset Map.empty (encodeSnapshot T p)))" by blast
  with encode_stored [OF assms(2,4,5)]
  have "wrote kv T key (SessionID p) k (p\<lparr>ClaimedRootHash := usable_root (ClaimedRootHash p)\<rparr>) k1"
    unfolding wrote_def by blast
  from wrote_EXPIRE [OF assms(1,3) this] k1(1) none
  show "\<exists>k'. createIfAbsentScript R key ttl (encodeSnapshot T p) k = (Inr (LInt 1), k')
       \<and> wrote kv T key (SessionID p) k (p\<lparr>ClaimedRootHash := usable_root (ClaimedRootHash p)\<rparr>) k'"
    by (simp add: createIfAbsentScript_def redis_exists [OF assms(1)])
qed

lemma index_kept:
  assumes "redis_ok R kv" "plain_config c"
  shows "sessions_kept kv c k (snd (exec_tx R x (index_cmds c snap) k))"
proof -
  have "\<forall>y \<in> set (index_cmds c snap). index_cmd c y" by (auto simp: index_cmd_def index_cmds_def)
  note run_index_kept [OF assms this]
  moreover obtain err k' where "exec_tx R x (index_cmds c snap) k = (err, k')"
    by (cases "exec_tx R x (index_cmds c snap) k")
  ultimately show ?thesis using exec_tx_outcome by (metis sessions_kept_refl snd_conv)
qed

lemma redis_CreateIfAbsent_ok:
  assumes "redis_inv P kv c s" "redis_call_ok e" "snap_ok snap" "redis_CreateIfAbsent P c e snap s = ((r, snap'), s')"
  shows "meets (spec_CreateIfAbsent snap) True (SessionID snap) (redis_view P kv c s) r (redis_view P kv c s')
     \<and> canon snap' = canon snap \<and> redis_inv P kv c s'"
proof (cases "redis_closed s")
  case True
  then show ?thesis using assms(1,4) by (auto simp: redis_CreateIfAbsent_def failed_meets)
next
  case False
  let ?p = "stamped_at (clock e) snap" and ?spec = "spec_CreateIfAbsent snap" and ?sid = "SessionID snap"
  let ?q = "?p\<lparr>ClaimedRootHash := usable_root (ClaimedRootHash ?p)\<rparr>"
  note R = script_env [OF assms(1,2)]
  have sid: "redis_sid ?sid" using assms(3) by (simp add: snap_ok_def)
  have p: "snap_ok ?p" "rfc3339 (LastUpdatedAt ?p)" using stamped_at_ok [OF assms(3) R(5)] by simp_all
  define script where "script = createIfAbsentScript (server P) (sessionKey c ?sid) (ttl_seconds c) (encodeSnapshot (times P) ?p)"
  obtain rep k1 where t: "trip (on_script e) script (keyspace s) = (rep, k1)"
    by (cases "trip (on_script e) script (keyspace s)")
  note def = assms(4) [unfolded redis_CreateIfAbsent_def Let_def stamped_at_fields, folded script_def]
  have snap': "snap' = ?p"
    using def t False by (auto split: sum.splits if_splits)
  note ran = create_script [OF R(1,2,4) p, of "keyspace s" "sessionKey c ?sid", unfolded stamped_at_fields, folded script_def]
  have two: "(\<exists>k2. script (keyspace s) = (Inr (LInt 1), k2)
        \<and> wrote kv (times P) (sessionKey c ?sid) ?sid (keyspace s) ?q k2
        \<and> ?spec (redis_view P kv c s ?sid) = Inr (True, Some (canon ?q)))
     \<or> (script (keyspace s) = (Inr (LInt 0), keyspace s)
        \<and> ?spec (redis_view P kv c s ?sid) = Inr (False, redis_view P kv c s ?sid))"
    using assms(1) sid
  proof (cases rule: slot_cases)
    case absent
    then show ?thesis using ran(1) [OF absent(1)] canon_root [of ?p] by (auto simp: spec_CreateIfAbsent_def)
  next
    case (there f q)
    then show ?thesis using ran(2) by (simp add: spec_CreateIfAbsent_def)
  qed
  have "meets ?spec True ?sid (redis_view P kv c s) r (redis_view P kv c s') \<and> redis_inv P kv c s'"
  proof (rule script_meets [where f = ?spec, OF assms(1) sid R(6) t])
    fix m assume "rep = Inl m" "plain_error m"
    then show "\<exists>why. (r, s') = (Inl (StoreFailure why), s\<lparr>keyspace := k1\<rparr>)" using def t False by auto
  next
    assume del: "script (keyspace s) = (rep, k1)"
    from two show "meets ?spec True ?sid (redis_view P kv c s) r (redis_view P kv c s') \<and> redis_inv P kv c s'"
    proof (elim disjE exE conjE)
      fix k2 assume sc: "script (keyspace s) = (Inr (LInt 1), k2)"
        and w: "wrote kv (times P) (sessionKey c ?sid) ?sid (keyspace s) ?q k2"
        and spec: "?spec (redis_view P kv c s ?sid) = Inr (True, Some (canon ?q))"
      have out: "r = Inr True" "s' = s\<lparr>keyspace := snd (exec_tx (server P) (on_index e) (index_cmds c ?p) k2)\<rparr>"
        using del def t sc False by auto
      from wrote_meets [where f = ?spec, OF assms(1) sid w index_kept [OF R(1,3)] spec] show ?thesis
        unfolding out by blast
    next
      assume sc: "script (keyspace s) = (Inr (LInt 0), keyspace s)"
        and spec: "?spec (redis_view P kv c s ?sid) = Inr (False, redis_view P kv c s ?sid)"
      have "r = Inr False" "s' = s" using del def t sc False by auto
      then show ?thesis using kept_meets [where f = ?spec and k' = "keyspace s", OF assms(1) _ spec] by simp
    qed
  next
    from two show "snd (script (keyspace s)) = keyspace s
        \<or> (\<exists>q y. wrote kv (times P) (sessionKey c ?sid) ?sid (keyspace s) q (snd (script (keyspace s)))
               \<and> ?spec (redis_view P kv c s ?sid) = Inr (y, Some (canon q)))" by (metis snd_conv)
  qed
  then show ?thesis using snap' by simp
qed

subsection \<open>Counting a relay\<close>

lemma lua_number_nonneg: "lua_number_ok L \<Longrightarrow> ParseInt (L cu) = Some d \<Longrightarrow> 0 \<le> d"
  by (simp add: lua_number_ok_def)

lemma room_units:
  assumes "lua_number_ok L" "unat cu < 2 ^ 53" "unat w + unat cu < 2 ^ 63"
  shows "ParseInt (L cu) = Some (uint cu)" "in_i64 (uint w + uint cu)" "word_of_int (uint w + uint cu) = w + cu"
proof -
  have cu: "uint cu = int (unat cu)" and w: "uint w = int (unat w)" by simp_all
  have "unat cu < 2 ^ 63" using assms(3) by linarith
  then have "int (unat cu) < 2 ^ 63" by (simp only: of_nat_less_numeral_power_cancel_iff)
  then have "in_i64 (uint cu)" unfolding in_i64_def cu by (intro conjI) linarith+
  then show "ParseInt (L cu) = Some (uint cu)"
    using assms(1,2) by (simp add: lua_number_ok_def FormatUint_FormatInt ParseInt_FormatInt)
  have "int (unat w + unat cu) < 2 ^ 63" using assms(3) by (simp only: of_nat_less_numeral_power_cancel_iff)
  then show "in_i64 (uint w + uint cu)" unfolding in_i64_def cu w by (intro conjI) linarith+
  show "word_of_int (uint w + uint cu) = w + cu" by simp
qed

text \<open>
  What the counting script does to the session: nothing when it is absent or terminal, otherwise it
  changes the counters and nothing else of the snapshot, and with room it counts exactly this relay.
\<close>

lemma count_delivered:
  assumes "redis_inv P kv c s" "redis_call_ok e" "redis_sid sid"
    and "script = incrementRelayCountScript (server P) (sessionKey c sid) (lua_number P cu) (Format (times P) (clock e)) (ttl_seconds c)"
  shows "(script (keyspace s) = (Inr (LInt 1), keyspace s) \<and> redis_view P kv c s sid = None)
    \<or> (\<exists>p. script (keyspace s) = (Inr (LInt 2), keyspace s) \<and> redis_view P kv c s sid = Some p \<and> IsTerminal (State p))
    \<or> (\<exists>p q rep k2. script (keyspace s) = (rep, k2) \<and> redis_view P kv c s sid = Some (canon p)
         \<and> wrote kv (times P) (sessionKey c sid) sid (keyspace s) q k2
         \<and> canon q = (canon p)\<lparr>RelayCount := RelayCount q, TotalComputeUnits := TotalComputeUnits q\<rparr>
         \<and> (rep = Inr (LInt 0) \<or> (\<exists>m. rep = Inl m \<and> \<not> wrong_type m))
         \<and> (redis_room P kv c s sid cu \<longrightarrow> rep = Inr (LInt 0)
              \<and> spec_IncrementRelayCount sid cu (redis_view P kv c s sid) = Inr ((), Some (canon q))))"
  using assms(1,3)
proof (cases rule: slot_cases)
  case absent
  then show ?thesis using redis_exists [OF script_env(1) [OF assms(1,2)]]
    by (simp add: assms(4) incrementRelayCountScript_def)
next
  case (there f p)
  note R = script_env [OF assms(1,2)]
  have L: "lua_number_ok (lua_number P)" using assms(1) by (simp add: redis_inv_def)
  show ?thesis
  proof (cases "IsTerminal (State p)")
    case True
    then show ?thesis using there redis_exists [OF R(1)] redis_hash(2) [OF R(1) there(1)] stored_read(1) [OF there(2)]
      by (simp add: assms(4) incrementRelayCountScript_def lua_terminal_twin)
  next
    case False
    have fits: "in_i64 (RelayCount p + 1) \<and> (\<exists>d. ParseInt (lua_number P cu) = Some d \<and> in_i64 (uint (TotalComputeUnits p) + d))"
      if "redis_room P kv c s sid cu"
    proof -
      have "RelayCount p < 2 ^ 63 - 1" "unat cu < 2 ^ 53" "unat (TotalComputeUnits p) + unat cu < 2 ^ 63"
        using that there(3) by (simp_all add: redis_room_def)
      moreover have "in_i64 (RelayCount p)" using there(2) by (simp add: stored_def)
      ultimately show ?thesis using room_units(1,2) [OF L] by (auto simp: in_i64_def)
    qed
    show ?thesis
    proof (rule count_script [OF R(1,2,4,5) there(1,2) lua_number_nonneg [OF L, of cu] False])
      fix d k' assume d: "ParseInt (lua_number P cu) = Some d" "in_i64 (RelayCount p + 1)"
        and sc: "incrementRelayCountScript (server P) (sessionKey c sid) (lua_number P cu) (Format (times P) (clock e))
            (ttl_seconds c) (keyspace s) = (Inr (LInt 0), k')"
        and w: "wrote kv (times P) (sessionKey c sid) sid (keyspace s) (p\<lparr>RelayCount := RelayCount p + 1,
            TotalComputeUnits := word_of_int (uint (TotalComputeUnits p) + d), LastUpdatedAt := clock e\<rparr>) k'"
      let ?q = "p\<lparr>RelayCount := RelayCount p + 1,
            TotalComputeUnits := word_of_int (uint (TotalComputeUnits p) + d), LastUpdatedAt := clock e\<rparr>"
      have "spec_IncrementRelayCount sid cu (Some (canon p)) = Inr ((), Some (canon ?q))" if "redis_room P kv c s sid cu"
      proof -
        have "unat cu < 2 ^ 53" "unat (TotalComputeUnits p) + unat cu < 2 ^ 63"
          using that there(3) by (simp_all add: redis_room_def)
        from room_units [OF L this] d(1)
        have "word_of_int (uint (TotalComputeUnits p) + d) = TotalComputeUnits p + cu" by simp
        then show ?thesis using False i64_id [OF d(2)] by (simp add: spec_IncrementRelayCount_def)
      qed
      then show ?thesis using there(3) sc w unfolding assms(4)
        by (intro disjI2) (rule exI [of _ p], rule exI [of _ ?q], simp)
    next
      fix m k' q assume
        sc: "incrementRelayCountScript (server P) (sessionKey c sid) (lua_number P cu) (Format (times P) (clock e))
            (ttl_seconds c) (keyspace s) = (Inl m, k')" "\<not> wrong_type m"
        and w: "wrote kv (times P) (sessionKey c sid) sid (keyspace s) q k'"
        and q: "q = p\<lparr>RelayCount := RelayCount q, TotalComputeUnits := TotalComputeUnits q\<rparr>"
        and no: "\<not> (in_i64 (RelayCount p + 1)
          \<and> (\<exists>d. ParseInt (lua_number P cu) = Some d \<and> in_i64 (uint (TotalComputeUnits p) + d)))"
      have "canon q = (canon p)\<lparr>RelayCount := RelayCount q, TotalComputeUnits := TotalComputeUnits q\<rparr>"
        using arg_cong [OF q, of canon] by simp
      then show ?thesis using there(3) sc w no fits unfolding assms(4)
        by (intro disjI2) (rule exI [of _ p], rule exI [of _ q], blast)
    qed
  qed
qed

lemma count_outcome:
  assumes "redis_inv P kv c s" "redis_call_ok e" "redis_sid sid" "redis_IncrementRelayCount P c e sid cu s = (err, s')"
    and sc: "script = incrementRelayCountScript (server P) (sessionKey c sid) (lua_number P cu) (Format (times P) (clock e)) (ttl_seconds c)"
    and t: "trip (on_script e) script (keyspace s) = (rep, k1)"
  shows "err = count_result sid (read_reply Int64 rep) \<and> s' = s\<lparr>keyspace := k1\<rparr>"
proof -
  have "\<not> isWrongTypeErr m" if "read_reply Int64 rep = Inl m" for m
    using t script_env(6) [OF assms(1,2)]
  proof (rule trip_cases)
    assume "script (keyspace s) = (rep, k1)"
    then show ?thesis using count_delivered [OF assms(1-3) sc] that
      by (auto simp: isWrongTypeErr_def wrong_type_def)
  next
    fix m' assume "rep = Inl m'" "plain_error m'"
    then show ?thesis using that by (simp add: isWrongTypeErr_def plain_error_def)
  qed
  then show ?thesis using assms(4) t
    by (cases "read_reply Int64 rep") (auto simp: redis_IncrementRelayCount_def Let_def sc)
qed

lemma redis_IncrementRelayCount_ok:
  assumes "redis_inv P kv c s" "redis_call_ok e" "redis_sid sid" "redis_room P kv c s sid cu"
    and "redis_IncrementRelayCount P c e sid cu s = (err, s')"
  shows "meets (spec_IncrementRelayCount sid cu) True sid (redis_view P kv c s) (unit_result err) (redis_view P kv c s')"
proof -
  let ?spec = "spec_IncrementRelayCount sid cu"
  define script where
    "script = incrementRelayCountScript (server P) (sessionKey c sid) (lua_number P cu) (Format (times P) (clock e)) (ttl_seconds c)"
  obtain rep k1 where t: "trip (on_script e) script (keyspace s) = (rep, k1)"
    by (cases "trip (on_script e) script (keyspace s)")
  have out: "err = count_result sid (read_reply Int64 rep)" "s' = s\<lparr>keyspace := k1\<rparr>"
    using count_outcome [OF assms(1-3,5) script_def t] by simp_all
  note three = count_delivered [OF assms(1-3) script_def]
  have "meets ?spec True sid (redis_view P kv c s) (unit_result err) (redis_view P kv c s') \<and> redis_inv P kv c s'"
  proof (rule script_meets [where f = ?spec, OF assms(1,3) script_env(6) [OF assms(1,2)] t])
    fix m assume "rep = Inl m" "plain_error m"
    then show "\<exists>why. (unit_result err, s') = (Inl (StoreFailure why), s\<lparr>keyspace := k1\<rparr>)"
      by (auto simp: out count_result_def)
  next
    assume del: "script (keyspace s) = (rep, k1)"
    from three consider
        "script (keyspace s) = (Inr (LInt 1), keyspace s)" "redis_view P kv c s sid = None"
      | p where "script (keyspace s) = (Inr (LInt 2), keyspace s)" "redis_view P kv c s sid = Some p" "IsTerminal (State p)"
      | q k2 where "script (keyspace s) = (Inr (LInt 0), k2)" "wrote kv (times P) (sessionKey c sid) sid (keyspace s) q k2"
          "?spec (redis_view P kv c s sid) = Inr ((), Some (canon q))"
      using assms(4) by (elim disjE exE conjE) simp_all
    then show "meets ?spec True sid (redis_view P kv c s) (unit_result err) (redis_view P kv c s')
        \<and> redis_inv P kv c s'"
    proof cases
      case 1
      then show ?thesis using del refused_meets [where f = ?spec and sid = sid, OF assms(1)]
        by (auto simp: out count_result_def spec_IncrementRelayCount_def)
    next
      case 2
      then show ?thesis using del refused_meets [where f = ?spec and sid = sid, OF assms(1)]
        by (auto simp: out count_result_def spec_IncrementRelayCount_def)
    next
      case (3 q k2)
      then have "unit_result err = Inr ()" "s' = s\<lparr>keyspace := k2\<rparr>" using del by (auto simp: out count_result_def)
      then show ?thesis
        using wrote_meets [where f = ?spec and r = "Inr ()", OF assms(1,3) 3(2) sessions_kept_refl 3(3)] by simp
    qed
  next
    from three assms(4) show "snd (script (keyspace s)) = keyspace s
        \<or> (\<exists>q y. wrote kv (times P) (sessionKey c sid) sid (keyspace s) q (snd (script (keyspace s)))
               \<and> ?spec (redis_view P kv c s sid) = Inr (y, Some (canon q)))" by (metis snd_conv)
  qed
  then show ?thesis ..
qed

lemma redis_IncrementRelayCount_frame:
  assumes "redis_inv P kv c s" "redis_call_ok e" "redis_sid sid" "redis_IncrementRelayCount P c e sid cu s = (err, s')"
  shows "counted (redis_view P kv c s) sid (redis_view P kv c s') \<and> redis_inv P kv c s'"
proof -
  define script where
    "script = incrementRelayCountScript (server P) (sessionKey c sid) (lua_number P cu) (Format (times P) (clock e)) (ttl_seconds c)"
  obtain rep k1 where t: "trip (on_script e) script (keyspace s) = (rep, k1)"
    by (cases "trip (on_script e) script (keyspace s)")
  have s': "s' = s\<lparr>keyspace := k1\<rparr>"
    using count_outcome [OF assms script_def t] by simp
  from t script_env(6) [OF assms(1,2)] have "k1 = keyspace s \<or> k1 = snd (script (keyspace s))"
    by (rule trip_cases) auto
  with count_delivered [OF assms(1-3) script_def]
  consider "k1 = keyspace s"
    | p q where "redis_view P kv c s sid = Some (canon p)" "wrote kv (times P) (sessionKey c sid) sid (keyspace s) q k1"
        "canon q = (canon p)\<lparr>RelayCount := RelayCount q, TotalComputeUnits := TotalComputeUnits q\<rparr>"
    by (metis snd_conv)
  then show ?thesis
  proof cases
    case 1
    then show ?thesis using assms(1) s' by (simp add: counted_def)
  next
    case (2 p q)
    from wrote_slot_set [OF 2(2)] obtain f where f: "slot_set kv c (keyspace s) sid (Some (RHash f)) k1"
      "stored (times P) sid f q" by blast
    have "redis_view P kv c s' = (redis_view P kv c s)(sid := Some (canon q))"
      using slot_set_view [OF f(1) assms(3)] slot_view_stored [OF f(2)] s' by simp
    then have "counted (redis_view P kv c s) sid (redis_view P kv c s')"
      using 2(1,3) unfolding counted_def by metis
    moreover have "slot_ok (times P) sid (Some (RHash f))" using f(2) by (auto simp: slot_ok_def)
    ultimately show ?thesis using slot_set_inv [OF f(1) assms(1)] s' by simp
  qed
qed

section \<open>The contract\<close>

lemma redis_drop_ok:
  assumes "redis_inv P kv c s" "redis_call_ok e" "redis_sid sid"
    and "apfst err_of (redis_updateState P c e sid st verdict s) = (err, s')"
  shows "meets (drop_flag (spec_updateState sid st verdict)) True sid (redis_view P kv c s) (unit_result err)
      (redis_view P kv c s') \<and> redis_inv P kv c s'"
proof -
  obtain r where r: "redis_updateState P c e sid st verdict s = (r, s')" "err = err_of r"
    using assms(4) by (cases "redis_updateState P c e sid st verdict s") auto
  note ok = redis_updateState_ok [OF assms(1-3) r(1)]
  from meets_drop [OF conjunct1 [OF ok]] conjunct2 [OF ok] show ?thesis by (simp add: r(2))
qed

lemma redisSessionStore_sel:
  "Save (redisSessionStore P c) = redis_Save P c" "CreateIfAbsent (redisSessionStore P c) = redis_CreateIfAbsent P c"
  "Get (redisSessionStore P c) = redis_Get P c" "Delete (redisSessionStore P c) = redis_Delete P c"
  "UpdateState (redisSessionStore P c) = redis_UpdateState P c"
  "MarkClaimMissing (redisSessionStore P c) = redis_MarkClaimMissing P c"
  "MarkClaimTxError (redisSessionStore P c) = redis_MarkClaimTxError P c"
  "ReactivateClaimed (redisSessionStore P c) = redis_ReactivateClaimed P c"
  "ReactivateProved (redisSessionStore P c) = redis_ReactivateProved P c"
  "IncrementRelayCount (redisSessionStore P c) = redis_IncrementRelayCount P c"
  by (simp_all add: redisSessionStore_def)

interpretation redis: session_store
  "redisSessionStore P c" "redis_view P kv c" "\<lambda>e s sid. True" "redis_inv P kv c" redis_call_ok snap_ok redis_sid
  "redis_room P kv c"
  for P :: "'k redis_params" and kv c
proof (unfold_locales, goal_cases)
  case (1 snap h)
  then show ?case by (simp add: snap_ok_def)
next
  case (2 snap)
  then show ?case by (simp add: snap_ok_def)
next
  case (3 s e sid x)
  then show ?case using redis_Get_ok(1) [OF 3(1-3)] by (simp add: redisSessionStore_sel)
next
  case (4 s e sid snap)
  then show ?case using redis_Get_ok(2) [OF 4(1-3)] by (simp add: redisSessionStore_sel)
next
  case (5 s e sid why)
  then show ?case using redis_Get_ok(3) [OF 5(1-3)] by (simp add: redisSessionStore_sel)
next
  case (6 s e snap err snap' s')
  then show ?case using redis_Save_ok [OF 6(1-3)] by (simp only: redisSessionStore_sel)
next
  case (7 s e snap r snap' s')
  then show ?case using redis_CreateIfAbsent_ok [OF 7(1-3)] by (simp only: redisSessionStore_sel)
next
  case (8 s e sid err s')
  then show ?case using redis_Delete_ok [OF 8(1-3)] by (simp only: redisSessionStore_sel)
next
  case (9 s e sid st err s')
  then show ?case using redis_drop_ok [OF 9(1-3)] by (simp only: redisSessionStore_sel redis_UpdateState_def)
next
  case (10 s e sid v err s')
  then show ?case using redis_drop_ok [OF 10(1-3)] by (simp only: redisSessionStore_sel redis_MarkClaimMissing_def)
next
  case (11 s e sid v r s')
  then show ?case using redis_updateState_ok [OF 11(1-3)] by (simp only: redisSessionStore_sel redis_MarkClaimTxError_def)
next
  case (12 s e sid root h re s')
  then show ?case using redis_ReactivateClaimed_ok [OF 12(1-3)] by (simp only: redisSessionStore_sel)
next
  case (13 s e sid h re s')
  then show ?case using redis_ReactivateProved_ok [OF 13(1-3)] by (simp only: redisSessionStore_sel)
next
  case (14 s e sid cu err s')
  then show ?case using redis_IncrementRelayCount_ok [OF 14(1-4)] by (simp only: redisSessionStore_sel)
next
  case (15 s e sid cu err s')
  then show ?case using redis_IncrementRelayCount_frame [OF 15(1-3)] by (simp only: redisSessionStore_sel)
qed

section \<open>Answered calls\<close>

text \<open>When its round trips are answered, a method answers what its specification says.\<close>

lemma redis_Get_answers:
  assumes "redis_inv P kv c s" "redis_call_ok e" "redis_sid sid" "on_read e = Delivered"
  shows "\<exists>x. redis_Get P c e sid s = Inr x \<and> map_option canon x = redis_view P kv c s sid"
proof -
  obtain x where "get_session P c Delivered (on_legacy e) sid (keyspace s) = Inr x"
    using get_session_delivered(2) [OF assms(1,3)] by blast
  then have "redis_Get P c e sid s = Inr x" using assms(4) by (simp add: redis_Get_def)
  then show ?thesis using redis_Get_ok(1) [OF assms(1-3)] by blast
qed

lemma redis_updateState_answers:
  assumes "redis_inv P kv c s" "redis_call_ok e" "redis_sid sid" "on_script e = Delivered"
  shows "fst (redis_updateState P c e sid st verdict s)
    = map_sum id fst (spec_updateState sid st verdict (redis_view P kv c s sid))"
proof -
  define script where
    "script = updateStateScript (server P) (sessionKey c sid) st (Format (times P) (clock e)) (ttl_seconds c) verdict"
  from assms(1-3) script_def show ?thesis
    by (rule updateState_delivered)
       (auto simp: redis_updateState_def Let_def script_def [symmetric] assms(4) marker_simps)
qed

lemma redis_ReactivateClaimed_answers:
  assumes "redis_inv P kv c s" "redis_call_ok e" "redis_sid sid" "on_script e = Delivered"
  shows "fst (redis_ReactivateClaimed P c e sid root h s)
    = map_sum id fst (spec_ReactivateClaimed sid root h (redis_view P kv c s sid))"
proof -
  define script where
    "script = reactivateClaimedScript (server P) (sessionKey c sid) root h (Format (times P) (clock e)) (ttl_seconds c)"
  from reactivation_delivered(1) [OF assms(1-3) script_def] show ?thesis
    by (auto simp: redis_ReactivateClaimed_def Let_def script_def [symmetric] assms(4) marker_simps)
qed

end
