(* ===== verification/Pebble_Mem.thy ===== *)
theory Pebble_Mem
  imports Pebble_DB
begin

text \<open>
  Two concrete databases the witnesses run on: one that is its contents, and one that is a list of
  entries, whose iterator sorts. Both meet \<open>pebble_ok\<close>.
\<close>

section \<open>A database that is its contents\<close>

definition mem_pebble :: "contents pebble" where
  "mem_pebble =
     \<lparr>db_Get = (\<lambda>d k. Inr (d k)), db_Commit = (\<lambda>ops d. (None, apply_batch ops d)),
      db_Iter = (\<lambda>d lo hi. Inl ''no iterator'')\<rparr>"

lemma mem_pebble_ok: "pebble_ok mem_pebble (\<lambda>d. d)"
  by (simp add: pebble_ok_def mem_pebble_def)

section \<open>A database that is a list of entries\<close>

fun ins_entry :: "string \<Rightarrow> string \<Rightarrow> (string \<times> string) list \<Rightarrow> (string \<times> string) list" where
  "ins_entry k v [] = [(k, v)]"
| "ins_entry k v ((k', v') # kvs) =
     (if k = k' then (k, v) # kvs
      else if bytes_less k k' then (k, v) # (k', v') # kvs
      else (k', v') # ins_entry k v kvs)"

definition tidy :: "(string \<times> string) list \<Rightarrow> (string \<times> string) list" where
  "tidy kvs = foldr (\<lambda>(k, v). ins_entry k v) kvs []"

fun list_op :: "(string \<times> string) list \<Rightarrow> batch_op \<Rightarrow> (string \<times> string) list" where
  "list_op d (BSet k v) = (k, v) # d"
| "list_op d (BDelete k) = filter (\<lambda>(q, _). q \<noteq> k) d"
| "list_op d (BDeleteRange lo hi) = filter (\<lambda>(q, _). hi = None \<or> \<not> in_range lo hi q) d"

definition list_pebble :: "(string \<times> string) list pebble" where
  "list_pebble =
     \<lparr>db_Get = (\<lambda>d k. Inr (map_of d k)), db_Commit = (\<lambda>ops d. (None, foldl list_op d ops)),
      db_Iter = (\<lambda>d lo hi. Inr (tidy (filter (\<lambda>(k, _). in_range lo hi k) d)))\<rparr>"

lemma bytes_less_trans: "bytes_less a b \<Longrightarrow> bytes_less b c \<Longrightarrow> bytes_less a c"
proof (induction a b arbitrary: c rule: bytes_less.induct)
  case (2 y ys)
  then show ?case by (cases c) auto
next
  case (3 x xs y ys)
  then show ?case by (cases c) auto
qed simp

lemma bytes_less_total: "a \<noteq> b \<Longrightarrow> \<not> bytes_less a b \<Longrightarrow> bytes_less b a"
proof (induction a b rule: bytes_less.induct)
  case (1 xs)
  then show ?case by (cases xs) auto
next
  case (3 x xs y ys)
  show ?case
  proof (cases "x = y")
    case False
    then have "of_char x \<noteq> (of_char y :: nat)" using of_char_eq_iff [of x y, where ?'a = nat] by blast
    moreover have "\<not> of_char x < (of_char y :: nat)" using 3(3) by simp
    ultimately have "of_char y < (of_char x :: nat)" by linarith
    then show ?thesis by simp
  qed (use 3 in auto)
qed simp

lemma map_of_ins: "map_of (ins_entry k v kvs) = (map_of kvs)(k \<mapsto> v)"
  by (induction k v kvs rule: ins_entry.induct) auto

lemma keys_ins: "fst ` set (ins_entry k v kvs) = insert k (fst ` set kvs)"
  by (induction k v kvs rule: ins_entry.induct) auto

lemma sorted_ins: "sorted_wrt bytes_less (map fst kvs) \<Longrightarrow> sorted_wrt bytes_less (map fst (ins_entry k v kvs))"
proof (induction k v kvs rule: ins_entry.induct)
  case (2 k v k' v' kvs)
  then show ?case using bytes_less_total [of k k'] by (auto simp: keys_ins image_image dest: bytes_less_trans)
qed simp

lemma tidy_ok: "sorted_wrt bytes_less (map fst (tidy kvs)) \<and> map_of (tidy kvs) = map_of kvs"
  unfolding tidy_def by (induction kvs) (auto simp: sorted_ins map_of_ins)

lemma map_of_filter_key: "map_of (filter (\<lambda>(q, _). p q) d) k = (if p k then map_of d k else None)"
  by (induction d) auto

lemma list_op_apply: "map_of (list_op d op) = apply_op (map_of d) op"
  by (cases op) (auto simp: map_of_filter_key fun_eq_iff)

lemma list_ops_apply: "map_of (foldl list_op d ops) = apply_batch ops (map_of d)"
  by (induction ops arbitrary: d) (simp_all add: list_op_apply)

lemma list_pebble_ok: "pebble_ok list_pebble map_of"
proof -
  have "(k, v) \<in> set (tidy kvs) \<longleftrightarrow> map_of kvs k = Some v" for k v kvs
  proof -
    have "distinct (map fst (tidy kvs))"
      using tidy_ok [of kvs] by (metis bytes_less_distinct)
    then show ?thesis using tidy_ok [of kvs] by (metis map_of_eq_Some_iff)
  qed
  then show ?thesis
    using tidy_ok by (simp add: pebble_ok_def list_pebble_def list_ops_apply map_of_filter_key)
qed

end
