(* ===== verification/Witness_Stores.thy ===== *)
theory Witness_Stores
  imports Redis_Contract Pebble_Sessions Pebble_Mem
begin

text \<open>
  Small concrete services the witnesses run on, beside the databases of \<open>Pebble_Mem\<close>: a Redis that is an
  association list, a JSON codec over a table of snapshots, and a decimal rendering of times. Each
  meets what the development states of the service it stands for.
\<close>

section \<open>JSON\<close>

fun index_of :: "'a list \<Rightarrow> 'a \<Rightarrow> nat option" where
  "index_of [] x = None"
| "index_of (y # ys) x = (if x = y then Some 0 else map_option Suc (index_of ys x))"

lemma index_of_nth: "index_of xs x = Some i \<Longrightarrow> i < length xs \<and> xs ! i = x"
  by (induction xs arbitrary: i) (auto split: if_splits)

definition table_json :: "SessionSnapshot list \<Rightarrow> json" where
  "table_json table =
     \<lparr>Marshal = (\<lambda>snap. case index_of table snap of None \<Rightarrow> Inl ''unsupported'' | Some i \<Rightarrow> Inr (replicate i (CHR ''x''))),
      Unmarshal = (\<lambda>data. if length data < length table then Inr (table ! length data) else Inl ''unexpected end'')\<rparr>"

lemma table_json_ok: "json_ok (table_json table)"
  by (auto simp: json_ok_def table_json_def dest!: index_of_nth split: option.splits)

section \<open>Times and numbers\<close>

definition decimal_times :: time_codec where
  "decimal_times =
     \<lparr>Format = FormatInt,
      ParseTime = (\<lambda>s. if s \<noteq> [] \<and> hd s = CHR ''-'' then map_option (\<lambda>n. - int n) (ParseNat (tl s))
                       else map_option int (ParseNat s))\<rparr>"

lemma decimal_times_ok: "times_ok decimal_times"
proof -
  have "ParseTime decimal_times (FormatInt t) = Some t" for t
    using hd_FormatNat [of "nat t"] by (simp add: decimal_times_def FormatInt_def)
  then show ?thesis by (simp add: times_ok_def) (simp add: decimal_times_def)
qed

lemma FormatUint_number: "lua_number_ok FormatUint"
proof -
  have "0 \<le> d" if "ParseInt (FormatUint cu) = Some d" for cu d
    using that hd_FormatNat [of "unat cu"]
    by (auto simp: ParseInt_def FormatUint_def Let_def split: if_splits)
  then show ?thesis by (simp add: lua_number_ok_def)
qed

section \<open>A Redis\<close>

datatype sval = SHash "(string \<times> string) list" | SString string | SSet "string list"

type_synonym mem = "(string \<times> sval) list"

definition sval_of :: "sval \<Rightarrow> rval" where
  "sval_of v = (case v of SHash h \<Rightarrow> RHash (map_of h) | SString s \<Rightarrow> RString s | SSet xs \<Rightarrow> RSet (set xs))"

definition mem_kv :: "mem \<Rightarrow> string \<Rightarrow> rval option" where
  "mem_kv k key = map_option sval_of (map_of k key)"

definition mem_del :: "string \<Rightarrow> mem \<Rightarrow> mem" where
  "mem_del key k = filter (\<lambda>x. fst x \<noteq> key) k"

definition mem_hset :: "string \<Rightarrow> (string \<times> string) list \<Rightarrow> mem \<Rightarrow> string option \<times> mem" where
  "mem_hset key kvs k =
     (case map_of k key of
        None \<Rightarrow> (None, (key, SHash (rev kvs)) # k)
      | Some (SHash h) \<Rightarrow> (None, (key, SHash (rev kvs @ h)) # k)
      | Some _ \<Rightarrow> (Some ''WRONGTYPE'', k))"

definition mem_hdel :: "string \<Rightarrow> string list \<Rightarrow> mem \<Rightarrow> string option \<times> mem" where
  "mem_hdel key flds k =
     (case map_of k key of
        None \<Rightarrow> (None, k)
      | Some (SHash h) \<Rightarrow>
          (let h' = filter (\<lambda>x. fst x \<notin> set flds) h in
           (None, if h' = [] then mem_del key k else (key, SHash h') # k))
      | Some _ \<Rightarrow> (Some ''WRONGTYPE'', k))"

definition mem_hincrby :: "string \<Rightarrow> string \<Rightarrow> string \<Rightarrow> mem \<Rightarrow> string option \<times> mem" where
  "mem_hincrby key fld by k =
     (case map_of k key of
        Some (SHash h) \<Rightarrow>
         (case (ParseInt (lua_or (map_of h fld)), ParseInt by) of
            (Some n, Some d) \<Rightarrow>
              if in_i64 (n + d) then (None, (key, SHash ((fld, FormatInt (n + d)) # h)) # k)
              else (Some ''ERR overflow'', k)
          | _ \<Rightarrow> (Some ''ERR not an integer'', k))
      | _ \<Rightarrow> (Some ''ERR not a hash'', k))"

definition mem_sadd :: "string \<Rightarrow> string \<Rightarrow> mem \<Rightarrow> string option \<times> mem" where
  "mem_sadd key m k =
     (case map_of k key of
        None \<Rightarrow> (None, (key, SSet [m]) # k)
      | Some (SSet xs) \<Rightarrow> (None, (key, SSet (m # xs)) # k)
      | Some _ \<Rightarrow> (Some ''WRONGTYPE'', k))"

definition mem_srem :: "string \<Rightarrow> string \<Rightarrow> mem \<Rightarrow> string option \<times> mem" where
  "mem_srem key m k =
     (case map_of k key of
        None \<Rightarrow> (None, k)
      | Some (SSet xs) \<Rightarrow> (None, (key, SSet (removeAll m xs)) # k)
      | Some _ \<Rightarrow> (Some ''WRONGTYPE'', k))"

definition mem_redis :: "mem redis" where
  "mem_redis =
     \<lparr>EXISTS = (\<lambda>k key. map_of k key \<noteq> None),
      KTYPE = (\<lambda>k key. case map_of k key of None \<Rightarrow> ''none'' | Some (SHash _) \<Rightarrow> ''hash''
                 | Some (SString _) \<Rightarrow> ''string'' | Some (SSet _) \<Rightarrow> ''set''),
      HGET = (\<lambda>k key fld. case map_of k key of None \<Rightarrow> Inr None | Some (SHash h) \<Rightarrow> Inr (map_of h fld)
                 | Some _ \<Rightarrow> Inl ''WRONGTYPE''),
      HGETALL = (\<lambda>k key. case map_of k key of None \<Rightarrow> Inr [] | Some (SHash h) \<Rightarrow> Inr h | Some _ \<Rightarrow> Inl ''WRONGTYPE''),
      GETSTR = (\<lambda>k key. case map_of k key of None \<Rightarrow> Inr None | Some (SString v) \<Rightarrow> Inr (Some v) | Some _ \<Rightarrow> Inl ''WRONGTYPE''),
      SMEMBERS = (\<lambda>k key. case map_of k key of None \<Rightarrow> Inr [] | Some (SSet xs) \<Rightarrow> Inr xs | Some _ \<Rightarrow> Inl ''WRONGTYPE''),
      HSET = mem_hset, HDEL = mem_hdel, HINCRBY = mem_hincrby,
      EXPIRE = (\<lambda>key secs k. if 0 < secs then k else mem_del key k),
      EXPIRE_FOR = (\<lambda>key d k. if 0 < d then k else mem_del key k),
      SADD = mem_sadd, SREM = mem_srem, DEL = mem_del\<rparr>"

lemma map_of_del: "map_of (filter (\<lambda>x. fst x \<noteq> key) k) = (map_of k)(key := None)"
  by (induction k) auto

lemma mem_kv_simps [simp]:
  "mem_kv ((key, v) # k) = (mem_kv k)(key \<mapsto> sval_of v)"
  "mem_kv (mem_del key k) = (mem_kv k)(key := None)"
  by (auto simp: mem_kv_def mem_del_def map_of_del fun_eq_iff)

lemma map_of_hset: "f ++ map_of (rev kvs) = hset f kvs"
proof (induction kvs arbitrary: f)
  case (Cons x kvs)
  obtain k v where x: "x = (k, v)" by (cases x)
  have "hset f (x # kvs) = f(k \<mapsto> v) ++ map_of (rev kvs)" by (simp only: x hset.simps Cons.IH)
  moreover have "f ++ map_of (rev (x # kvs)) = (f ++ [k \<mapsto> v]) ++ map_of (rev kvs)" by (simp add: x)
  ultimately show ?case by simp
qed simp

lemma map_of_hdel: "map_of (filter (\<lambda>x. fst x \<notin> set flds) h) = hdel (map_of h) flds"
  by (induction h) (auto simp: hdel_def fun_eq_iff)

lemma mem_kv_hash: "mem_kv k key = Some (RHash f) \<Longrightarrow> \<exists>h. map_of k key = Some (SHash h) \<and> f = map_of h"
  by (cases "map_of k key") (auto simp: mem_kv_def sval_of_def split: sval.splits)

lemma hdel_empty: "map_of h = Map.empty \<longleftrightarrow> h = []"
  by (cases h) (auto simp: fun_eq_iff)

lemma wrong_type_word [simp]: "wrong_type ''WRONGTYPE''"
  by (simp add: wrong_type_def)

lemma mem_redis_ok: "redis_ok mem_redis mem_kv"
proof -
  have "redis_reads_ok mem_redis mem_kv"
    unfolding redis_reads_ok_def
  proof (intro allI)
    fix k key
    show "EXISTS mem_redis k key = (mem_kv k key \<noteq> None)
       \<and> (case mem_kv k key of
            None \<Rightarrow> KTYPE mem_redis k key = ''none'' \<and> (\<forall>fld. HGET mem_redis k key fld = Inr None)
                \<and> HGETALL mem_redis k key = Inr [] \<and> GETSTR mem_redis k key = Inr None
          | Some (RHash f) \<Rightarrow> KTYPE mem_redis k key = ''hash'' \<and> (\<forall>fld. HGET mem_redis k key fld = Inr (f fld))
                \<and> (\<exists>kvs. HGETALL mem_redis k key = Inr kvs \<and> map_of kvs = f)
                \<and> (\<exists>m. GETSTR mem_redis k key = Inl m \<and> wrong_type m)
          | Some (RString v) \<Rightarrow> KTYPE mem_redis k key = ''string'' \<and> GETSTR mem_redis k key = Inr (Some v)
                \<and> (\<exists>m. HGETALL mem_redis k key = Inl m \<and> wrong_type m)
                \<and> (\<forall>fld. \<exists>m. HGET mem_redis k key fld = Inl m \<and> wrong_type m)
          | Some (RSet _) \<Rightarrow> KTYPE mem_redis k key = ''set''
                \<and> (\<exists>m. GETSTR mem_redis k key = Inl m \<and> wrong_type m)
                \<and> (\<exists>m. HGETALL mem_redis k key = Inl m \<and> wrong_type m)
                \<and> (\<forall>fld. \<exists>m. HGET mem_redis k key fld = Inl m \<and> wrong_type m))"
      by (cases "map_of k key") (auto simp: mem_kv_def mem_redis_def sval_of_def split: sval.splits)
  qed
  moreover have "redis_hset_ok mem_redis mem_kv"
    unfolding redis_hset_ok_def
  proof (intro allI impI)
    fix k key kvs
    show "case mem_kv k key of
           None \<Rightarrow> fst (HSET mem_redis key kvs k) = None
               \<and> mem_kv (snd (HSET mem_redis key kvs k)) = (mem_kv k)(key \<mapsto> RHash (hset Map.empty kvs))
         | Some (RHash f) \<Rightarrow> fst (HSET mem_redis key kvs k) = None
               \<and> mem_kv (snd (HSET mem_redis key kvs k)) = (mem_kv k)(key \<mapsto> RHash (hset f kvs))
         | Some _ \<Rightarrow> (\<exists>m. fst (HSET mem_redis key kvs k) = Some m \<and> wrong_type m)
               \<and> mem_kv (snd (HSET mem_redis key kvs k)) = mem_kv k"
    proof (cases "map_of k key")
      case None
      then show ?thesis using map_of_hset [of Map.empty kvs]
        by (simp add: mem_kv_def [of k key] mem_redis_def mem_hset_def sval_of_def)
    next
      case (Some v)
      then show ?thesis
        by (cases v) (simp_all add: mem_kv_def [of k key] mem_redis_def mem_hset_def sval_of_def map_of_hset)
    qed
  qed
  moreover have "redis_hdel_ok mem_redis mem_kv"
    unfolding redis_hdel_ok_def
  proof (intro allI impI)
    fix k key flds f assume "mem_kv k key = Some (RHash f)"
    from mem_kv_hash [OF this] obtain h where h: "map_of k key = Some (SHash h)" "f = map_of h" by blast
    have "hdel f flds = Map.empty \<longleftrightarrow> filter (\<lambda>x. fst x \<notin> set flds) h = []"
      by (simp only: h(2) map_of_hdel [symmetric] hdel_empty)
    then show "fst (HDEL mem_redis key flds k) = None \<and> mem_kv (snd (HDEL mem_redis key flds k))
        = (mem_kv k)(key := (if hdel f flds = Map.empty then None else Some (RHash (hdel f flds))))"
      using h map_of_hdel [of flds h]
      by (auto simp: mem_redis_def mem_hdel_def Let_def sval_of_def)
  qed
  moreover have "redis_hincrby_ok mem_redis mem_kv"
    unfolding redis_hincrby_ok_def
  proof (intro allI impI)
    fix k key fld amt f n assume a: "mem_kv k key = Some (RHash f) \<and> f fld = Some (FormatInt n)"
    then obtain h where h: "map_of k key = Some (SHash h)" "f = map_of h" using mem_kv_hash by blast
    have n: "ParseInt (FormatInt n) = (if in_i64 n then Some n else None)"
    proof (cases "in_i64 n")
      case False
      then show ?thesis using hd_FormatNat [of "nat n"] by (auto simp: ParseInt_def FormatInt_def Let_def)
    qed (simp add: ParseInt_FormatInt)
    have nw: "\<not> wrong_type ''ERR overflow''" "\<not> wrong_type ''ERR not an integer''" by (simp_all add: wrong_type_def)
    show "case ParseInt amt of
           Some d \<Rightarrow>
             if in_i64 n \<and> in_i64 (n + d)
             then fst (HINCRBY mem_redis key fld amt k) = None
                  \<and> mem_kv (snd (HINCRBY mem_redis key fld amt k)) = (mem_kv k)(key \<mapsto> RHash (f(fld \<mapsto> FormatInt (n + d))))
             else (\<exists>m. fst (HINCRBY mem_redis key fld amt k) = Some m \<and> \<not> wrong_type m)
                  \<and> mem_kv (snd (HINCRBY mem_redis key fld amt k)) = mem_kv k
         | None \<Rightarrow> (\<exists>m. fst (HINCRBY mem_redis key fld amt k) = Some m \<and> \<not> wrong_type m)
                  \<and> mem_kv (snd (HINCRBY mem_redis key fld amt k)) = mem_kv k"
      using a h nw by (auto simp: mem_redis_def mem_hincrby_def sval_of_def n split: option.splits)
  qed
  moreover have "redis_keys_ok mem_redis mem_kv"
    by (auto simp: redis_keys_ok_def mem_redis_def mem_sadd_def mem_srem_def split: option.splits sval.splits)
  ultimately show ?thesis by (simp add: redis_ok_def)
qed

section \<open>Example stores\<close>

definition demo_redis :: "mem redis_params" where
  "demo_redis = \<lparr>server = mem_redis, json_codec = table_json [], times = decimal_times, lua_number = FormatUint\<rparr>"

definition demo_config :: redis_config where
  "demo_config = NewRedisSessionStore (NewKeyBuilder \<lparr>BasePrefix = []\<rparr>) ''pokt1s'' 0"

definition demo_env :: redis_env where
  "demo_env =
     \<lparr>clock = 0, save_clock = 0, on_read = Delivered, on_legacy = Delivered, on_script = Delivered,
      on_retry = Delivered, on_write = Delivered, on_index = Delivered, save_read = Delivered,
      save_legacy = Delivered, save_type = Delivered, save_write = Delivered\<rparr>"

definition demo_snap :: "SessionState \<Rightarrow> SessionSnapshot" where
  "demo_snap st =
     \<lparr>SessionID = ''s1'', SupplierOperatorAddress = ''pokt1s'', ServiceID = ''eth'', ApplicationAddress = ''app'',
      SessionStartHeight = 101, SessionEndHeight = 110, State = st, RelayCount = 7, TotalComputeUnits = 70,
      ClaimedRootHash = [], ClaimTxHash = [], ProofTxHash = [], ClaimMissingVerdict = [],
      LastUpdatedAt = 0, CreatedAt = 0\<rparr>"

definition redis_empty :: "mem redis_store" where
  "redis_empty = \<lparr>keyspace = [], redis_closed = False\<rparr>"

definition redis_with :: "SessionSnapshot \<Rightarrow> mem redis_store" where
  "redis_with p =
     \<lparr>keyspace = [(sessionKey demo_config (SessionID p), SHash (rev (encodeSnapshot decimal_times p)))],
      redis_closed = False\<rparr>"

lemma demo_env_ok [simp]: "redis_call_ok demo_env"
  by (simp add: redis_call_ok_def demo_env_def plain_fate_def rfc3339_def zero_time_def)

lemma demo_plain: "plain_config demo_config"
  by (simp add: plain_config_def demo_config_def NewRedisSessionStore_def NewKeyBuilder_def WithDefaults_def
      DefaultRedisNamespaceConfig_def)

lemma demo_sid [simp]: "redis_sid ''s1''"
  by (simp add: redis_sid_def colon_free_def)

lemma demo_snap_ok [simp]: "snap_ok (demo_snap st)"
  by (simp add: snap_ok_def demo_snap_def in_i64_def rfc3339_def zero_time_def)

lemma demo_snap_fields [simp]:
  "SessionID (demo_snap st) = ''s1''" "State (demo_snap st) = st" "RelayCount (demo_snap st) = 7"
  "TotalComputeUnits (demo_snap st) = 70" "ClaimTxHash (demo_snap st) = []" "ProofTxHash (demo_snap st) = []"
  "LastUpdatedAt (demo_snap st) = 0" "ClaimMissingVerdict (demo_snap st) = []"
  by (simp_all add: demo_snap_def)

lemma redis_empty_ok [simp]: "redis_inv demo_redis mem_kv demo_config redis_empty"
  by (simp add: redis_inv_def demo_redis_def mem_redis_ok decimal_times_ok FormatUint_number demo_plain redis_empty_def
      mem_kv_def slot_ok_def)

lemma demo_stored:
  assumes "snap_ok p" "rfc3339 (LastUpdatedAt p)"
  shows "mem_kv (keyspace (redis_with p)) (sessionKey demo_config sid)
    = (if sid = SessionID p then Some (RHash (hset Map.empty (encodeSnapshot decimal_times p))) else None)"
  using map_of_hset [of Map.empty "encodeSnapshot decimal_times p"]
  by (simp add: redis_with_def mem_kv_def sval_of_def)

lemma redis_with_ok:
  assumes "snap_ok p" "rfc3339 (LastUpdatedAt p)"
  shows "redis_inv demo_redis mem_kv demo_config (redis_with p)"
    and "redis_view demo_redis mem_kv demo_config (redis_with p) (SessionID p) = Some (canon p)"
proof -
  note st = encode_stored [OF decimal_times_ok assms]
  show "redis_inv demo_redis mem_kv demo_config (redis_with p)"
    using st by (auto simp: redis_inv_def demo_redis_def mem_redis_ok decimal_times_ok FormatUint_number demo_plain
        demo_stored [OF assms] slot_ok_def)
  show "redis_view demo_redis mem_kv demo_config (redis_with p) (SessionID p) = Some (canon p)"
    using assms slot_view_stored [OF st]
    by (simp add: redis_view_def demo_redis_def demo_stored [OF assms] snap_ok_def del: canon_update)
qed

lemma rfc3339_zero [simp]: "rfc3339 0"
  by (simp add: rfc3339_def zero_time_def)

lemma demo_redis_ok [simp]:
  "redis_inv demo_redis mem_kv demo_config (redis_with (demo_snap st))"
  "redis_view demo_redis mem_kv demo_config (redis_with (demo_snap st)) ''s1'' = Some (canon (demo_snap st))"
  using redis_with_ok [of "demo_snap st"] by simp_all

text \<open>The same session in the standalone store.\<close>

definition demo_pebble_config :: pebble_config where
  "demo_pebble_config = \<lparr>supplier = ''pokt1s'', ttl = sessionTTL 0\<rparr>"

definition demo_pebble_env :: pebble_env where
  "demo_pebble_env = \<lparr>now_read = 0, now_write = 0, wal_sync = None\<rparr>"

definition pebble_with :: "SessionSnapshot \<Rightarrow> contents pebble_store" where
  "pebble_with p = \<lparr>db = [session_key demo_pebble_config (SessionID p) \<mapsto> []], closed = False\<rparr>"

lemma table_json_first [simp]: "Unmarshal (table_json (p # ps)) [] = Inr p"
  by (simp add: table_json_def)

lemma pebble_with_ok:
  "pebble_inv mem_pebble (table_json (p # ps)) demo_pebble_config (\<lambda>d. d) (pebble_with p)"
  "pebble_view (table_json (p # ps)) demo_pebble_config (\<lambda>d. d) (pebble_with p) (SessionID p) = Some (canon p)"
  "LastUpdatedAt p = 0 \<Longrightarrow>
     pebble_live (table_json (p # ps)) demo_pebble_config (\<lambda>d. d) demo_pebble_env (pebble_with p) (SessionID p)"
  by (simp_all add: pebble_inv_def mem_pebble_ok table_json_ok pebble_wf_def pebble_with_def pebble_view_def pebble_raw_def
      pebble_live_def expired_def demo_pebble_config_def demo_pebble_env_def sessionTTL_def)

end
