(* ===== verification/Session_Props.thy ===== *)
theory Session_Props
  imports Witness_Stores
begin

text \<open>
  The properties of the session stores, the coordinator over them, and the money books.
\<close>

section \<open>Money\<close>


definition demo_calls :: "redis_env coord_call list" where
  "demo_calls =
     [(\<lambda>_. demo_env, ''s1'', SessionClaimed (replicate 48 CHR ''r'') ''tx''),
      (\<lambda>_. demo_env\<lparr>on_script := LostReply ''i/o timeout''\<rparr>, ''s1'', ClaimObserved (replicate 48 CHR ''r'') ''tx''),
      (\<lambda>_. demo_env, ''s1'', ProofSubmittedOp ''ptx'')]"

lemma demo_timeout_ok [simp]: "redis_call_ok (demo_env\<lparr>on_script := LostReply ''i/o timeout''\<rparr>)"
  by (simp add: redis_call_ok_def demo_env_def plain_fate_def plain_error_def)



definition demo_claimed :: SessionSnapshot where
  "demo_claimed = (demo_snap SessionStateClaiming)\<lparr>State := SessionStateClaimed,
     ClaimedRootHash := replicate 48 CHR ''r'', ClaimTxHash := ''tx''\<rparr>"

definition demo_pebble_calls :: "pebble_env coord_call list" where
  "demo_pebble_calls =
     [(\<lambda>_. demo_pebble_env, ''s1'', SessionClaimed (replicate 48 CHR ''r'') ''tx''),
      (\<lambda>_. demo_pebble_env, ''s1'', ClaimObserved (replicate 48 CHR ''r'') ''tx'')]"


text \<open>
  (C16) Reinstating a session takes back what declaring its claim missing had counted: the relays,
  compute units and session put in the lost or the forgone book by \<open>OnClaimMissing\<close> are the ones
  \<open>OnClaimObservedOnChain\<close> reinstates from that book, and nothing is reinstated from the other.
\<close>

theorem redis_missing_reinstated:
  assumes "redis_inv P kv c s" "\<And>i. redis_call_ok (e i)" "\<And>i. redis_call_ok (f i)" "redis_sid sid"
    and "\<not> coord_closed co"
    and "OnClaimMissing (redisSessionStore P c) co e sid s = (None, s1, ev1)"
    and "redis_Get P c (e 0) sid s = Inr (Some cur)"
    and "State cur \<noteq> SessionStateClaimMissing" "\<not> IsSuccess (State cur)"
    and "OnClaimObservedOnChain (redisSessionStore P c) co f sid root h s1 = (None, s2, ev2)"
    and "redis_Get P c (f 0) sid s1 = Inr (Some seen)"
  shows "failed_amounts ''Lost'' (SupplierOperatorAddress cur) (ServiceID cur) ''claim_missing'' ev1
       = reinstated_amounts ClaimMissingLost (SupplierOperatorAddress cur) (ServiceID cur) ''claim_missing'' ev2
     \<and> failed_amounts ''Forgone'' (SupplierOperatorAddress cur) (ServiceID cur) ''claim_missing'' ev1
       = reinstated_amounts ClaimMissingForgone (SupplierOperatorAddress cur) (ServiceID cur) ''claim_missing'' ev2"
  using redis.claim_missing_reversed [OF assms(1-6) _ assms(8-10)] assms(7,11) by (simp add: redisSessionStore_sel)

lemma demo_answered [simp]: "on_read demo_env = Delivered" "on_script demo_env = Delivered"
  by (simp_all add: demo_env_def)

lemma demo_open [simp]: "\<not> coord_closed NewSessionCoordinator" "onSessionCreated NewSessionCoordinator = None"
  by (simp_all add: NewSessionCoordinator_def)

lemma demo_missing_run:
  obtains s1 ev1 cur where
    "OnClaimMissing (redisSessionStore demo_redis demo_config) NewSessionCoordinator (\<lambda>_. demo_env) ''s1''
       (redis_with (demo_snap SessionStateClaiming)) = (None, s1, ev1)"
    "redis_Get demo_redis demo_config demo_env ''s1'' (redis_with (demo_snap SessionStateClaiming)) = Inr (Some cur)"
    "State cur = SessionStateClaiming"
proof -
  let ?s = "redis_with (demo_snap SessionStateClaiming)"
  from redis_Get_answers [OF demo_redis_ok(1) demo_env_ok demo_sid, of SessionStateClaiming]
  obtain cur where g: "redis_Get demo_redis demo_config demo_env ''s1'' ?s = Inr (Some cur)"
    and c: "canon cur = canon (demo_snap SessionStateClaiming)" by (auto simp: map_option_case split: option.splits)
  have st: "State cur = SessionStateClaiming" using arg_cong [OF c, of State] by simp
  let ?vd = "ClaimMissingVerdictFor (State cur)"
  have "fst (redis_updateState demo_redis demo_config demo_env ''s1'' SessionStateClaimMissing ?vd ?s) = Inr True"
    by (simp add: redis_updateState_answers [OF demo_redis_ok(1) demo_env_ok demo_sid] spec_updateState_def
        checkStateWrite_def)
  then have "fst (redis_MarkClaimMissing demo_redis demo_config demo_env ''s1'' ?vd ?s) = None"
    by (simp add: redis_MarkClaimMissing_def)
  then have "fst (OnClaimMissing (redisSessionStore demo_redis demo_config) NewSessionCoordinator (\<lambda>_. demo_env) ''s1'' ?s) = None"
    using g st
    by (cases "redis_MarkClaimMissing demo_redis demo_config demo_env ''s1'' ?vd ?s")
       (simp add: OnClaimMissing_def redisSessionStore_sel IsSuccess_def Let_def)
  then show ?thesis using that g st
    by (cases "OnClaimMissing (redisSessionStore demo_redis demo_config) NewSessionCoordinator (\<lambda>_. demo_env) ''s1'' ?s") auto
qed

theorem redis_missing_reinstated_witness:
  "\<exists>s1 ev1 s2 ev2.
     OnClaimMissing (redisSessionStore demo_redis demo_config) NewSessionCoordinator (\<lambda>_. demo_env) ''s1''
       (redis_with (demo_snap SessionStateClaiming)) = (None, s1, ev1)
   \<and> OnClaimObservedOnChain (redisSessionStore demo_redis demo_config) NewSessionCoordinator (\<lambda>_. demo_env) ''s1''
       (replicate 48 CHR ''r'') ''tx'' s1 = (None, s2, ev2)
   \<and> failed_amounts ''Forgone'' ''pokt1s'' ''eth'' ''claim_missing'' ev1
       = reinstated_amounts ClaimMissingForgone ''pokt1s'' ''eth'' ''claim_missing'' ev2"
proof -
  let ?S = "redisSessionStore demo_redis demo_config" and ?e = "\<lambda>_::nat. demo_env"
  let ?s = "redis_with (demo_snap SessionStateClaiming)"
  obtain s1 ev1 cur where run: "OnClaimMissing ?S NewSessionCoordinator ?e ''s1'' ?s = (None, s1, ev1)"
    and g: "redis_Get demo_redis demo_config demo_env ''s1'' ?s = Inr (Some cur)" "State cur = SessionStateClaiming"
    by (rule demo_missing_run)
  have gS: "Get ?S demo_env ''s1'' ?s = Inr (Some cur)" using g by (simp add: redisSessionStore_sel)
  have notyet: "State cur \<noteq> SessionStateClaimMissing" "\<not> IsSuccess (State cur)" using g by (simp_all add: IsSuccess_def)
  from redis.claim_missing_marked [OF demo_redis_ok(1) demo_env_ok demo_sid demo_open(1) run gS notyet]
  have i: "redis_inv demo_redis mem_kv demo_config s1"
    and v: "redis_view demo_redis mem_kv demo_config s1 ''s1'' = Some ((canon cur)\<lparr>State := SessionStateClaimMissing,
       ClaimMissingVerdict := ClaimMissingVerdictFor (State cur)\<rparr>)" by blast+
  from redis_Get_answers [OF i demo_env_ok demo_sid] v
  obtain seen where g1: "redis_Get demo_redis demo_config demo_env ''s1'' s1 = Inr (Some seen)"
    by (auto simp: map_option_case split: option.splits)
  have "\<exists>r. fst (redis_ReactivateClaimed demo_redis demo_config demo_env ''s1'' (replicate 48 CHR ''r'') ''tx'' s1) = Inr r"
    by (simp add: redis_ReactivateClaimed_answers [OF i demo_env_ok demo_sid] v spec_ReactivateClaimed_def)
  then have "fst (OnClaimObservedOnChain ?S NewSessionCoordinator ?e ''s1'' (replicate 48 CHR ''r'') ''tx'' s1) = None"
    by (auto simp: OnClaimObservedOnChain_def redisSessionStore_sel SMSTRootLen_def Let_def split: prod.splits)
  then obtain s2 ev2 where
    run2: "OnClaimObservedOnChain ?S NewSessionCoordinator ?e ''s1'' (replicate 48 CHR ''r'') ''tx'' s1 = (None, s2, ev2)"
    by (cases "OnClaimObservedOnChain ?S NewSessionCoordinator ?e ''s1'' (replicate 48 CHR ''r'') ''tx'' s1") auto
  have c: "canon cur = canon (demo_snap SessionStateClaiming)"
    using redis_Get_ok(1) [OF demo_redis_ok(1) demo_env_ok demo_sid g(1)] by simp
  have owner: "SupplierOperatorAddress cur = ''pokt1s''" "ServiceID cur = ''eth''"
    using arg_cong [OF c, of SupplierOperatorAddress] arg_cong [OF c, of ServiceID] unfolding canon_owner
    by (simp_all add: demo_snap_def)
  from redis_missing_reinstated [OF demo_redis_ok(1) demo_env_ok demo_env_ok demo_sid demo_open(1) run g(1) notyet run2 g1]
  have "failed_amounts ''Forgone'' ''pokt1s'' ''eth'' ''claim_missing'' ev1
       = reinstated_amounts ClaimMissingForgone ''pokt1s'' ''eth'' ''claim_missing'' ev2" unfolding owner by (rule conjunct2)
  with run run2 show ?thesis by blast
qed

section \<open>What the stores promise\<close>

lemma spec_Create_Inr:
  "spec_CreateIfAbsent snap p = Inr (b, q) \<Longrightarrow> (b \<longleftrightarrow> p = None) \<and> q = (if b then Some (canon snap) else p)"
  by (cases p) (auto simp: spec_CreateIfAbsent_def)

lemma spec_Save_Some:
  "spec_Save snap (Some p) = Inr (x, q) \<Longrightarrow>
     q = Some (canon snap\<lparr>RelayCount := RelayCount p, TotalComputeUnits := TotalComputeUnits p\<rparr>)"
  by (auto simp: spec_Save_def)

lemma spec_Increment_Some:
  "\<not> IsTerminal (State p) \<Longrightarrow> spec_IncrementRelayCount sid cu (Some p) = Inr (x, q) \<Longrightarrow>
     q = Some (p\<lparr>RelayCount := i64 (RelayCount p + 1), TotalComputeUnits := TotalComputeUnits p + cu\<rparr>)"
  by (auto simp: spec_IncrementRelayCount_def)

text \<open>
  (C20) First write wins: \<open>CreateIfAbsent\<close> over Redis answers true exactly when the session was not there,
  then stores the snapshot, and otherwise leaves the stored session as it is; no other session changes.
\<close>

theorem redis_first_write_wins:
  assumes "redis_inv P kv c s" "redis_call_ok e" "snap_ok snap"
    and "redis_CreateIfAbsent P c e snap s = ((Inr created, snap'), s')"
  shows "(created \<longleftrightarrow> redis_view P kv c s (SessionID snap) = None)
    \<and> redis_view P kv c s' (SessionID snap)
        = (if created then Some (canon snap) else redis_view P kv c s (SessionID snap))
    \<and> (\<forall>i. i \<noteq> SessionID snap \<longrightarrow> redis_view P kv c s' i = redis_view P kv c s i)"
proof -
  have m: "meets (spec_CreateIfAbsent snap) True (SessionID snap) (redis_view P kv c s) (Inr created) (redis_view P kv c s')"
    using redis_CreateIfAbsent_ok [OF assms] by blast
  from meets_Inr [OF m] have f: "spec_CreateIfAbsent snap (redis_view P kv c s (SessionID snap))
      = Inr (created, redis_view P kv c s' (SessionID snap))" by simp
  have "(created \<longleftrightarrow> redis_view P kv c s (SessionID snap) = None)
    \<and> redis_view P kv c s' (SessionID snap)
        = (if created then Some (canon snap) else redis_view P kv c s (SessionID snap))"
    using spec_Create_Inr [OF f] .
  then show ?thesis using meets_other [OF m] by blast
qed

theorem redis_first_write_wins_witness:
  "\<exists>created snap' s'. redis_CreateIfAbsent demo_redis demo_config demo_env (demo_snap SessionStateActive) redis_empty
       = ((Inr created, snap'), s') \<and> created
     \<and> redis_view demo_redis mem_kv demo_config s' ''s1'' = Some (canon (demo_snap SessionStateActive))"
proof -
  note R = script_env [OF redis_empty_ok demo_env_ok]
  let ?p = "stamped_at (clock demo_env) (demo_snap SessionStateActive)"
  have p: "snap_ok ?p" "rfc3339 (LastUpdatedAt ?p)" using stamped_at_ok [OF demo_snap_ok R(5)] by simp_all
  have none: "mem_kv (keyspace redis_empty) (sessionKey demo_config ''s1'') = None" by (simp add: redis_empty_def mem_kv_def)
  from create_script(1) [OF R(1,2,4) p none] obtain k' where
    "createIfAbsentScript (server demo_redis) (sessionKey demo_config ''s1'') (ttl_seconds demo_config)
       (encodeSnapshot (times demo_redis) ?p) (keyspace redis_empty) = (Inr (LInt 1), k')" by blast
  then obtain snap' s' where run: "redis_CreateIfAbsent demo_redis demo_config demo_env (demo_snap SessionStateActive) redis_empty
       = ((Inr True, snap'), s')"
    by (simp add: redis_CreateIfAbsent_def redis_empty_def Let_def)
  from redis_first_write_wins [OF redis_empty_ok demo_env_ok demo_snap_ok run]
  have "redis_view demo_redis mem_kv demo_config s' ''s1'' = Some (canon (demo_snap SessionStateActive))" by simp
  with run show ?thesis by blast
qed

lemma redis_Save_runs:
  assumes "redis_inv P kv c s" "redis_call_ok e" "snap_ok snap" "\<not> redis_closed s" "save_write e = Delivered"
    and "get_session P c Delivered (save_legacy e) (SessionID snap) (keyspace s) = Inr existing"
  shows "snd (redis_Save P c e snap s) = s\<lparr>keyspace := snd (run_tx (server P)
     (save_cmds (times P) c (stamped_at (save_clock e) snap) existing False) (keyspace s))\<rparr>"
proof -
  have sid: "redis_sid (SessionID snap)" using assms(3) by (simp add: snap_ok_def)
  have "save_read e = Delivered" using assms(2) by (simp add: redis_call_ok_def)
  moreover have "existing \<noteq> None \<Longrightarrow>
      read_trip (save_type e) (Inr (KTYPE (server P) (keyspace s) (sessionKey c (SessionID snap)))) \<noteq> Inr ''string''"
    using get_session_delivered(1) [OF assms(1) sid assms(6)] redis_hash(1) [of "server P" kv "keyspace s"] assms(1)
    by (cases "save_type e") (auto simp: redis_inv_def)
  ultimately show ?thesis using assms(4-6)
    by (cases existing) (auto simp: redis_Save_def Let_def exec_tx_def split: prod.splits option.splits)
qed

text \<open>
  (C21) Saving a stored session keeps its counters: a \<open>Save\<close> over Redis whose first read is answered
  and whose transaction runs stores the snapshot with the relay and compute-unit counts Redis held,
  not the ones in the snapshot.
\<close>

theorem redis_save_keeps_counters:
  assumes "redis_inv P kv c s" "redis_call_ok e" "snap_ok snap" "redis_view P kv c s (SessionID snap) = Some p"
    and "\<not> redis_closed s" "save_write e = Delivered"
  shows "redis_view P kv c (snd (redis_Save P c e snap s)) (SessionID snap)
    = Some (canon snap\<lparr>RelayCount := RelayCount p, TotalComputeUnits := TotalComputeUnits p\<rparr>)"
proof -
  let ?q = "stamped_at (save_clock e) snap"
  have sid: "redis_sid (SessionID snap)" using assms(3) by (simp add: snap_ok_def)
  have q: "snap_ok ?q" "rfc3339 (LastUpdatedAt ?q)" using stamped_at_ok assms(2,3) by (simp_all add: redis_call_ok_def)
  from get_session_delivered(2) [OF assms(1) sid] obtain existing
    where ex: "get_session P c Delivered (save_legacy e) (SessionID snap) (keyspace s) = Inr existing" by blast
  from save_cmds_written [OF assms(1) q, unfolded stamped_at_fields, OF ex] obtain f r where
    w: "slot_set kv c (keyspace s) (SessionID snap) (Some (RHash f))
          (snd (run_tx (server P) (save_cmds (times P) c ?q existing False) (keyspace s)))"
    "stored (times P) (SessionID snap) f r"
    "spec_Save ?q (redis_view P kv c s (SessionID snap)) = Inr ((), Some (canon r))" by blast
  have "redis_view P kv c (snd (redis_Save P c e snap s)) (SessionID snap) = Some (canon r)"
    by (simp only: redis_Save_runs [OF assms(1-3,5,6) ex] slot_set_view [OF w(1) sid] slot_view_stored [OF w(2)] fun_upd_same)
  moreover have "canon r = canon ?q\<lparr>RelayCount := RelayCount p, TotalComputeUnits := TotalComputeUnits p\<rparr>"
    using w(3) spec_Save_Some unfolding assms(4) by blast
  ultimately show ?thesis by simp
qed

theorem redis_save_keeps_counters_witness:
  "redis_view demo_redis mem_kv demo_config
        (snd (redis_Save demo_redis demo_config demo_env
           ((demo_snap SessionStateProving)\<lparr>RelayCount := 0, TotalComputeUnits := 0\<rparr>)
           (redis_with (demo_snap SessionStateActive)))) ''s1''
     = Some (canon (demo_snap SessionStateProving))"
proof -
  let ?p = "(demo_snap SessionStateProving)\<lparr>RelayCount := 0, TotalComputeUnits := 0\<rparr>"
  have "snap_ok ?p" "SessionID ?p = ''s1''" using demo_snap_ok [of SessionStateProving]
    by (simp_all add: snap_ok_def in_i64_def)
  moreover have "\<not> redis_closed (redis_with (demo_snap SessionStateActive))" "save_write demo_env = Delivered"
    by (simp_all add: redis_with_def demo_env_def)
  ultimately have "redis_view demo_redis mem_kv demo_config
        (snd (redis_Save demo_redis demo_config demo_env ?p (redis_with (demo_snap SessionStateActive)))) ''s1''
     = Some (canon ?p\<lparr>RelayCount := 7, TotalComputeUnits := 70\<rparr>)"
    using redis_save_keeps_counters [OF demo_redis_ok(1) demo_env_ok, of ?p] demo_redis_ok(2) by simp
  then show ?thesis by (simp add: canon_def demo_snap_def)
qed

lemma encode_over:
  assumes "times_ok T" "snap_ok p" "rfc3339 (LastUpdatedAt p)" "stored T (SessionID p) f q0"
  shows "\<exists>q. stored T (SessionID p) (hset f (encodeSnapshot T p)) q
     \<and> RelayCount q = RelayCount p \<and> TotalComputeUnits q = TotalComputeUnits p"
proof -
  let ?q = "p\<lparr>ClaimedRootHash := usable_root (if ClaimedRootHash p = [] then lua_or (f hfClaimedRootHash) else ClaimedRootHash p),
    ClaimTxHash := (if ClaimTxHash p = [] then lua_or (f hfClaimTxHash) else ClaimTxHash p),
    ProofTxHash := (if ProofTxHash p = [] then lua_or (f hfProofTxHash) else ProofTxHash p),
    ClaimMissingVerdict := (if ClaimMissingVerdict p = [] then lua_or (f hfClaimMissingVerdict) else ClaimMissingVerdict p)\<rparr>"
  have "stored T (SessionID p) (hset f (encodeSnapshot T p)) ?q"
    using assms
    by (simp add: stored_def decode_iff encodeSnapshot_def encodeSnapshotMetadata_def snap_ok_def field_is_Format)
  then show ?thesis by (rule exI [of _ ?q, OF conjI]) simp
qed

text \<open>
  (C22) A \<open>Save\<close> whose first read fails does touch the counters: it takes the session for a new one and
  writes the counts of the snapshot over the ones Redis held.
\<close>

theorem redis_save_unread_resets_counters:
  assumes "redis_inv P kv c s" "rfc3339 (save_clock e)" "snap_ok snap" "\<not> redis_closed s"
    and "redis_view P kv c s (SessionID snap) = Some p"
    and "save_read e = LostRequest m" "plain_error m" "save_write e = Delivered"
  shows "\<exists>q. redis_view P kv c (snd (redis_Save P c e snap s)) (SessionID snap) = Some q
     \<and> RelayCount q = RelayCount snap \<and> TotalComputeUnits q = TotalComputeUnits snap"
proof -
  let ?q = "stamped_at (save_clock e) snap" and ?sid = "SessionID snap"
  let ?key = "sessionKey c ?sid" and ?cmds = "save_cmds (times P) c ?q None False"
  have R: "redis_ok (server P) kv" "times_ok (times P)" "plain_config c" using assms(1) by (simp_all add: redis_inv_def)
  have sid: "redis_sid ?sid" using assms(3) by (simp add: snap_ok_def)
  have q: "snap_ok ?q" "rfc3339 (LastUpdatedAt ?q)" using stamped_at_ok [OF assms(3,2)] by simp_all
  have "\<not> isWrongTypeErr (''failed to hgetall session snapshot '' @ ?key @ '': '' @ m)"
    using key_error [OF R(3) sid, of m] assms(7) by (simp add: isWrongTypeErr_def plain_error_def)
  then have "\<exists>why. get_session P c (save_read e) (save_legacy e) ?sid (keyspace s) = Inl why"
    using assms(6) by (simp add: get_session_def getHash_def)
  then have run: "snd (redis_Save P c e snap s) = s\<lparr>keyspace := snd (run_tx (server P) ?cmds (keyspace s))\<rparr>"
    using assms(4,8) by (auto simp: redis_Save_def Let_def exec_tx_def split: prod.splits option.splits)
  obtain f p0 where f: "kv (keyspace s) ?key = Some (RHash f)" "stored (times P) ?sid f p0"
    using assms(1) sid assms(5) by (cases rule: slot_cases) auto
  have "encodeSnapshot (times P) ?q \<noteq> []" by (simp add: encodeSnapshot_def)
  from redis_HSET [OF R(1) f(1) this] obtain k1 where k1: "HSET (server P) ?key (encodeSnapshot (times P) ?q) (keyspace s) = (None, k1)"
    "kv k1 = (kv (keyspace s))(?key \<mapsto> RHash (hset f (encodeSnapshot (times P) ?q)))" by blast
  have "snd (run_tx (server P) ?cmds (keyspace s)) = snd (run_tx (server P)
    ([CExpire ?key (rc_ttl c), CSAdd (supplierSessionsKey c) ?sid, CExpire (supplierSessionsKey c) (rc_ttl c),
      CSAdd (stateIndexKey c (State snap)) ?sid, CExpire (stateIndexKey c (State snap)) (rc_ttl c)]) k1)"
    using k1(1) by (simp add: save_cmds_def Let_def split_beta)
  then have "slot_set kv c (keyspace s) ?sid (Some (RHash (hset f (encodeSnapshot (times P) ?q))))
      (snd (run_tx (server P) ?cmds (keyspace s)))"
    using slot_set_kept [OF slot_set_upd [OF k1(2)] save_tail_kept [OF R(1,3) sid, of _ "State snap" "[]"]] by simp
  note view = slot_set_view [where P = P, OF this sid]
  from encode_over [OF R(2) q, unfolded stamped_at_fields, OF f(2)] obtain r where
    r: "stored (times P) ?sid (hset f (encodeSnapshot (times P) ?q)) r" "RelayCount r = RelayCount ?q"
    "TotalComputeUnits r = TotalComputeUnits ?q" by blast
  have "redis_view P kv c (snd (redis_Save P c e snap s)) ?sid = Some (canon r)"
    by (simp only: run view slot_view_stored [OF r(1)] fun_upd_same)
  moreover have "RelayCount r = RelayCount snap" "TotalComputeUnits r = TotalComputeUnits snap"
    using r(2,3) by (simp_all add: stamped_at_def)
  ultimately show ?thesis by simp
qed

theorem redis_save_unread_resets_counters_witness:
  "\<exists>q. redis_view demo_redis mem_kv demo_config
        (snd (redis_Save demo_redis demo_config (demo_env\<lparr>save_read := LostRequest ''i/o timeout''\<rparr>)
           ((demo_snap SessionStateActive)\<lparr>RelayCount := 0, TotalComputeUnits := 0\<rparr>)
           (redis_with (demo_snap SessionStateActive)))) ''s1'' = Some q
     \<and> RelayCount q = 0 \<and> TotalComputeUnits q = 0
     \<and> RelayCount (canon (demo_snap SessionStateActive)) = 7"
proof -
  let ?e = "demo_env\<lparr>save_read := LostRequest ''i/o timeout''\<rparr>"
  let ?p = "(demo_snap SessionStateActive)\<lparr>RelayCount := 0, TotalComputeUnits := 0\<rparr>"
  have "rfc3339 (save_clock ?e)" "save_read ?e = LostRequest ''i/o timeout''" "save_write ?e = Delivered"
    by (simp_all add: demo_env_def)
  moreover have "snap_ok ?p" "SessionID ?p = ''s1''" using demo_snap_ok [of SessionStateActive]
    by (simp_all add: snap_ok_def in_i64_def)
  moreover have "plain_error ''i/o timeout''" by (simp add: plain_error_def)
  moreover have "\<not> redis_closed (redis_with (demo_snap SessionStateActive))" by (simp add: redis_with_def)
  ultimately show ?thesis
    using redis_save_unread_resets_counters [OF demo_redis_ok(1), of ?e ?p] demo_redis_ok(2) by simp
qed



text \<open>
  A finished session counts no relay: counting into a terminal session over Redis changes nothing
  in the store, whatever becomes of the round trip, and reports the terminal error or a store failure.
\<close>

theorem redis_terminal_counts_nothing:
  assumes "redis_inv P kv c s" "redis_call_ok e" "redis_sid sid"
    and "redis_view P kv c s sid = Some p" "IsTerminal (State p)"
  shows "snd (redis_IncrementRelayCount P c e sid cu s) = s
     \<and> (\<exists>why. fst (redis_IncrementRelayCount P c e sid cu s) = Some why
            \<and> (why = ErrSessionTerminal \<or> is_store_failure why))"
proof -
  define script where
    "script = incrementRelayCountScript (server P) (sessionKey c sid) (lua_number P cu) (Format (times P) (clock e)) (ttl_seconds c)"
  obtain rep k1 where t: "trip (on_script e) script (keyspace s) = (rep, k1)"
    by (cases "trip (on_script e) script (keyspace s)")
  obtain err s' where run: "redis_IncrementRelayCount P c e sid cu s = (err, s')"
    by (cases "redis_IncrementRelayCount P c e sid cu s")
  note out = count_outcome [OF assms(1-3) run script_def t]
  have two: "script (keyspace s) = (Inr (LInt 2), keyspace s)"
    using assms(1,3)
  proof (cases rule: slot_cases)
    case (there f q)
    have "State q = State p" using there(3) assms(4) by auto
    then show ?thesis
      using there assms(5) redis_exists [OF script_env(1) [OF assms(1,2)]]
        redis_hash(2) [OF script_env(1) [OF assms(1,2)] there(1)] stored_read(1) [OF there(2)]
      by (simp add: script_def incrementRelayCountScript_def lua_terminal_twin)
  qed (use assms(4) in simp)
  from t script_env(6) [OF assms(1,2)] show ?thesis
    by (rule trip_cases) (use two run out in \<open>auto simp: count_result_def\<close>)
qed

theorem redis_terminal_counts_nothing_witness:
  "snd (redis_IncrementRelayCount demo_redis demo_config demo_env ''s1'' 5 (redis_with (demo_snap SessionStateProved)))
     = redis_with (demo_snap SessionStateProved)"
  using redis_terminal_counts_nothing [OF demo_redis_ok(1) demo_env_ok demo_sid demo_redis_ok(2)]
  by (simp add: IsTerminal_def)

text \<open>
  (C17) The Redis scripts refine the state-write contract: whatever becomes of its round trips, a state
  write with a verdict does what \<open>spec_updateState\<close> says of the session, or refuses as it says, or
  reports a store failure having done all of it or nothing; no other session changes and the hashes
  stay well formed.
\<close>

theorem redis_state_write_refines:
  assumes "redis_inv P kv c s" "redis_call_ok e" "redis_sid sid"
  shows "case redis_updateState P c e sid st verdict s of (r, s') \<Rightarrow>
     meets (spec_updateState sid st verdict) True sid (redis_view P kv c s) r (redis_view P kv c s')
     \<and> redis_inv P kv c s'"
  using redis_updateState_ok [OF assms] by (cases "redis_updateState P c e sid st verdict s") simp

theorem redis_state_write_refines_witness:
  "case redis_updateState demo_redis demo_config (demo_env\<lparr>on_script := LostReply ''i/o timeout''\<rparr>) ''s1''
       SessionStateClaimTxError ClaimTxErrorAttempt (redis_with (demo_snap SessionStateClaimed)) of (r, s') \<Rightarrow>
     meets (spec_updateState ''s1'' SessionStateClaimTxError ClaimTxErrorAttempt) True ''s1''
       (redis_view demo_redis mem_kv demo_config (redis_with (demo_snap SessionStateClaimed))) r
       (redis_view demo_redis mem_kv demo_config s')
     \<and> redis_inv demo_redis mem_kv demo_config s'"
  by (rule redis_state_write_refines [OF demo_redis_ok(1) demo_timeout_ok demo_sid])

text \<open>
  (C18) The claimed flip over Redis is the one the contract describes, and an answered call answers it:
  the reactivation names the state, verdict and transaction hash the session had, and the session ends
  in the claimed state with the root and hash given.
\<close>

theorem redis_reactivation_answers:
  assumes "redis_inv P kv c s" "redis_call_ok e" "redis_sid sid" "on_script e = Delivered"
    and "redis_view P kv c s sid = Some p" "canReactivateClaimed (State p)"
  shows "fst (redis_ReactivateClaimed P c e sid root h s)
      = Inr \<lparr>From = State p, ReVerdict = ClaimMissingVerdict p, ReClaimTxHash = ClaimTxHash p, ReProofTxHash = []\<rparr>
    \<and> redis_view P kv c (snd (redis_ReactivateClaimed P c e sid root h s)) = (redis_view P kv c s)(sid \<mapsto>
        p\<lparr>State := SessionStateClaimed, ClaimMissingVerdict := [], ClaimedRootHash := usable_root root,
          ClaimTxHash := (if h = [] then ClaimTxHash p else h)\<rparr>)"
proof -
  obtain r s' where run: "redis_ReactivateClaimed P c e sid root h s = (r, s')"
    by (cases "redis_ReactivateClaimed P c e sid root h s")
  have r: "r = Inr \<lparr>From = State p, ReVerdict = ClaimMissingVerdict p, ReClaimTxHash = ClaimTxHash p, ReProofTxHash = []\<rparr>"
    using redis_ReactivateClaimed_answers [OF assms(1-4), of root h] run assms(5,6)
    by (simp add: spec_ReactivateClaimed_def)
  have "meets (spec_ReactivateClaimed sid root h) True sid (redis_view P kv c s) r (redis_view P kv c s')"
    using redis_ReactivateClaimed_ok [OF assms(1-3) run] by blast
  then show ?thesis using assms(5,6) run r by (auto simp: meets_def spec_ReactivateClaimed_def)
qed

theorem redis_reactivation_answers_witness:
  "From (projr (fst (redis_ReactivateClaimed demo_redis demo_config demo_env ''s1'' (replicate 48 CHR ''r'') ''tx''
      (redis_with (demo_snap SessionStateClaimTxError))))) = SessionStateClaimTxError"
  using redis_reactivation_answers [OF demo_redis_ok(1) demo_env_ok demo_sid demo_answered(2) demo_redis_ok(2)]
  by (simp add: canReactivateClaimed_def)

section \<open>Two stores, one behaviour\<close>


definition demo_lost :: SessionSnapshot where
  "demo_lost = (demo_snap SessionStateClaimed)\<lparr>State := SessionStateClaimMissing, ClaimMissingVerdict := ClaimMissingLost\<rparr>"


text \<open>
  (C24) Reading back what was written: decoding the hash fields \<open>encodeSnapshot\<close> produces yields the
  snapshot, with a root of the wrong length dropped.
\<close>

theorem snapshot_roundtrip:
  assumes "times_ok T" "snap_ok p" "rfc3339 (LastUpdatedAt p)"
  shows "decodeSnapshot T (encodeSnapshot T p)
    = Inr (Some (p\<lparr>ClaimedRootHash := usable_root (ClaimedRootHash p)\<rparr>))"
proof -
  have "decode_fields T (map_of (encodeSnapshot T p)) = Inr (p\<lparr>ClaimedRootHash := usable_root (ClaimedRootHash p)\<rparr>)"
    using assms
    by (simp add: decode_iff encodeSnapshot_def encodeSnapshotMetadata_def snap_ok_def field_is_Format usable_root_def)
  then show ?thesis by (simp add: decodeSnapshot_def encodeSnapshot_def)
qed

theorem snapshot_roundtrip_witness:
  "decodeSnapshot decimal_times (encodeSnapshot decimal_times (demo_snap SessionStateProving))
     = Inr (Some (demo_snap SessionStateProving))"
  using snapshot_roundtrip [OF decimal_times_ok demo_snap_ok, of SessionStateProving]
  by (simp add: demo_snap_def usable_root_def)

text \<open>
  The predicates the Lua scripts carry are the Go ones, on every state a session hash can hold.
\<close>

theorem lua_twins:
  "luaIsTerminal (Some st) = IsTerminal st \<and> luaHoldsClaimOnChain (Some st) = HoldsClaimOnChain st
   \<and> luaCanReactivateProved (Some st) h = canReactivateProved st h"
  by (simp add: lua_terminal_twin lua_holds_claim_twin lua_can_reactivate_proved_twin)

section \<open>Deferred submissions\<close>

text \<open>
  A deferred claim rewinds an unsent claim only: \<open>OnClaimDeferred\<close> over Redis succeeds only on a
  session in the claiming state that carries no claim transaction hash, and then makes it active again.
\<close>

theorem redis_deferral_unsent_only:
  assumes "redis_inv P kv c s" "\<And>i. redis_call_ok (e i)" "redis_sid sid" "\<not> coord_closed co"
    and "OnClaimDeferred (redisSessionStore P c) co e sid s = (None, s', evs)"
  shows "\<exists>p. redis_view P kv c s sid = Some p \<and> State p = SessionStateClaiming \<and> ClaimTxHash p = []
     \<and> redis_view P kv c s' sid = Some (p\<lparr>State := SessionStateActive\<rparr>) \<and> evs = []"
proof -
  obtain err s1 where u: "UpdateState (redisSessionStore P c) (e 0) sid SessionStateActive s = (err, s1)"
    by (cases "UpdateState (redisSessionStore P c) (e 0) sid SessionStateActive s")
  have out: "err = None" "s1 = s'" "evs = []"
    using assms(4,5) u by (auto simp: OnClaimDeferred_def split: option.splits)
  have "meets (drop_flag (spec_updateState sid SessionStateActive [])) True sid (redis_view P kv c s) (Inr ()) (redis_view P kv c s')"
    using redis.UpdateState_ok [OF assms(1,2,3) u] out by simp
  from meets_Inr [OF this] obtain b where
    b: "spec_updateState sid SessionStateActive [] (redis_view P kv c s sid) = Inr (b, redis_view P kv c s' sid)"
    by (auto simp: drop_flag_Inr)
  from updateState_Some [OF this] obtain p q where p: "redis_view P kv c s sid = Some p"
    and q: "redis_view P kv c s' sid = Some q" by blast
  from updateState_cases [of sid SessionStateActive "[]" p b q] b p q have chk: "checkStateWrite p SessionStateActive = None"
    and "State p = SessionStateActive \<and> q = p \<or> q = p\<lparr>State := SessionStateActive\<rparr>" by auto
  moreover have "State p = SessionStateClaiming" "ClaimTxHash p = []"
    using chk by (auto simp: checkStateWrite_def split: if_splits)
  ultimately show ?thesis using p q out by auto
qed

theorem redis_deferral_unsent_only_witness:
  "\<exists>s' evs p. OnClaimDeferred (redisSessionStore demo_redis demo_config) NewSessionCoordinator (\<lambda>_. demo_env) ''s1''
       (redis_with (demo_snap SessionStateClaiming)) = (None, s', evs)
     \<and> redis_view demo_redis mem_kv demo_config s' ''s1'' = Some (p\<lparr>State := SessionStateActive\<rparr>)"
proof -
  let ?s = "redis_with (demo_snap SessionStateClaiming)"
  have "fst (redis_updateState demo_redis demo_config demo_env ''s1'' SessionStateActive [] ?s) = Inr True"
    by (simp add: redis_updateState_answers [OF demo_redis_ok(1) demo_env_ok demo_sid] spec_updateState_def checkStateWrite_def)
  then have "fst (redis_UpdateState demo_redis demo_config demo_env ''s1'' SessionStateActive ?s) = None"
    by (simp add: redis_UpdateState_def)
  then obtain s' evs where run: "OnClaimDeferred (redisSessionStore demo_redis demo_config) NewSessionCoordinator
      (\<lambda>_. demo_env) ''s1'' ?s = (None, s', evs)"
    by (cases "redis_UpdateState demo_redis demo_config demo_env ''s1'' SessionStateActive ?s")
       (simp add: OnClaimDeferred_def redisSessionStore_sel)
  from redis_deferral_unsent_only [OF demo_redis_ok(1) demo_env_ok demo_sid demo_open(1) run] run show ?thesis by blast
qed

end
