(* ===== verification/KV_Pebble.thy ===== *)
theory KV_Pebble
  imports Pebble_DB Strconv
begin

text \<open>
  \<open>kv.Pebble\<close> of \<open>src/storage/kv/pebble.go\<close>: strings with a time to live, sets and compare-and-delete
  locks over the embedded database. Every write runs under the store's mutex, so each is one step; the
  clock readings of one call are \<open>c 0\<close>, \<open>c 1\<close>, ... in the order the code takes them. The store is
  compared with two views: the live string under a key at a time, and the live members of a set.
  A call that fails may have applied its batch (\<open>Pebble_DB\<close>); a value the code returns beside a non-nil
  error is not modelled.
\<close>

section \<open>Key layout and value codec\<close>

abbreviation NUL :: char where "NUL \<equiv> CHR 0x00"

definition stringPrefix :: string where "stringPrefix = ''kv'' @ [NUL]"
definition setPrefix :: string where "setPrefix = ''kvs'' @ [NUL]"
definition setMetaPrefix :: string where "setMetaPrefix = ''kvsx'' @ [NUL]"

definition StringKey :: "string \<Rightarrow> string" where "StringKey key = stringPrefix @ key"
definition setMemberPrefix :: "string \<Rightarrow> string" where "setMemberPrefix key = setPrefix @ key @ [NUL]"
definition setMetaKey :: "string \<Rightarrow> string" where "setMetaKey key = setMetaPrefix @ key"

text \<open>\<open>upperBound\<close> is the loop of \<open>keyUpperBound\<close>.\<close>

definition upperBound :: "string \<Rightarrow> string option" where
  "upperBound prefix = keyUpperBound prefix"

text \<open>\<open>Time.UnixMilli\<close> and its inverse \<open>time.UnixMilli\<close>.\<close>

definition UnixMilli :: "time \<Rightarrow> int" where "UnixMilli t = t div 10 ^ 6"
definition of_millis :: "int \<Rightarrow> time" where "of_millis ms = ms * 10 ^ 6"

definition EncodeValue :: "time \<Rightarrow> string \<Rightarrow> string" where
  "EncodeValue expiry value =
     be_bytes (if expiry \<noteq> zero_time then word_of_int (UnixMilli expiry) else 0) @ value"

text \<open>The value, its expiry (the zero time for none) and whether it expired.\<close>

definition DecodeValue :: "string \<Rightarrow> time \<Rightarrow> (string, string \<times> time \<times> bool) result" where
  "DecodeValue raw now =
     (if length raw < 8 then Inl (''kv: stored value of '' @ FormatNat (length raw) @ '' bytes'')
      else
        let ms = be_uint64 (take 8 raw);
            expiry = (if ms \<noteq> 0 then of_millis (sint ms) else zero_time)
        in Inr (drop 8 raw, expiry, ms \<noteq> 0 \<and> \<not> now < expiry))"

definition expiryOf :: "time \<Rightarrow> duration \<Rightarrow> time" where
  "expiryOf now ttl = (if ttl \<le> 0 then zero_time else now + ttl)"

section \<open>The operations\<close>

datatype kv_error = KVFailure string | KVNotFound

record kv_entry =
  en_Key :: string
  en_Value :: string
  en_TTL :: duration

type_synonym clock = "nat \<Rightarrow> time"

definition kv_raw :: "'d pebble \<Rightarrow> 'd \<Rightarrow> string \<Rightarrow> (string, string option) result" where
  "kv_raw P d key = db_Get P d key"

text \<open>A live string's value and expiry.\<close>

definition getString :: "'d pebble \<Rightarrow> time \<Rightarrow> 'd \<Rightarrow> string \<Rightarrow> (string, (string \<times> time) option) result" where
  "getString P now d key =
     (case kv_raw P d (StringKey key) of
        Inl m \<Rightarrow> Inl m
      | Inr None \<Rightarrow> Inr None
      | Inr (Some raw) \<Rightarrow>
         (case DecodeValue raw now of
            Inl m \<Rightarrow> Inl m
          | Inr (value, expiry, expired) \<Rightarrow> if expired then Inr None else Inr (Some (value, expiry))))"

definition setLive :: "'d pebble \<Rightarrow> time \<Rightarrow> 'd \<Rightarrow> string \<Rightarrow> (string, bool) result" where
  "setLive P now d key =
     (case kv_raw P d (setMetaKey key) of
        Inl m \<Rightarrow> Inl m
      | Inr None \<Rightarrow> Inr False
      | Inr (Some raw) \<Rightarrow>
         (case DecodeValue raw now of Inl m \<Rightarrow> Inl m | Inr (_, _, expired) \<Rightarrow> Inr (\<not> expired)))"

definition kv_commit :: "'d pebble \<Rightarrow> batch_op list \<Rightarrow> 'd \<Rightarrow> string option \<times> 'd" where
  "kv_commit P ops d = db_Commit P ops d"

definition kv_Get :: "'d pebble \<Rightarrow> time \<Rightarrow> 'd \<Rightarrow> string \<Rightarrow> (kv_error, string) result" where
  "kv_Get P now d key =
     (case getString P now d key of
        Inl m \<Rightarrow> Inl (KVFailure m)
      | Inr None \<Rightarrow> Inl KVNotFound
      | Inr (Some (value, _)) \<Rightarrow> Inr value)"

fun kv_MGet :: "'d pebble \<Rightarrow> clock \<Rightarrow> 'd \<Rightarrow> string list \<Rightarrow> (string, string option list) result" where
  "kv_MGet P c d [] = Inr []"
| "kv_MGet P c d (key # keys) =
     (case getString P (c 0) d key of
        Inl m \<Rightarrow> Inl m
      | Inr x \<Rightarrow>
         (case kv_MGet P (\<lambda>i. c (Suc i)) d keys of
            Inl m \<Rightarrow> Inl m
          | Inr xs \<Rightarrow> Inr (map_option fst x # xs)))"

definition kv_Set :: "'d pebble \<Rightarrow> time \<Rightarrow> string \<Rightarrow> string \<Rightarrow> duration \<Rightarrow> 'd \<Rightarrow> string option \<times> 'd" where
  "kv_Set P now key value ttl d =
     kv_commit P [BSet (StringKey key) (EncodeValue (expiryOf now ttl) value)] d"

definition kv_SetAll :: "'d pebble \<Rightarrow> time \<Rightarrow> kv_entry list \<Rightarrow> 'd \<Rightarrow> string option \<times> 'd" where
  "kv_SetAll P now entries d =
     kv_commit P (map (\<lambda>e. BSet (StringKey (en_Key e)) (EncodeValue (expiryOf now (en_TTL e)) (en_Value e))) entries) d"

definition kv_SetKeepTTL :: "'d pebble \<Rightarrow> time \<Rightarrow> string \<Rightarrow> string \<Rightarrow> 'd \<Rightarrow> string option \<times> 'd" where
  "kv_SetKeepTTL P now key value d =
     (case getString P now d key of
        Inl m \<Rightarrow> (Some m, d)
      | Inr x \<Rightarrow>
          let expiry = (case x of None \<Rightarrow> zero_time | Some (_, expiry) \<Rightarrow> expiry)
          in kv_commit P [BSet (StringKey key) (EncodeValue expiry value)] d)"

definition kv_SetNX ::
  "'d pebble \<Rightarrow> clock \<Rightarrow> string \<Rightarrow> string \<Rightarrow> duration \<Rightarrow> 'd \<Rightarrow> (string, bool) result \<times> 'd" where
  "kv_SetNX P c key value ttl d =
     (case getString P (c 0) d key of
        Inl m \<Rightarrow> (Inl m, d)
      | Inr (Some _) \<Rightarrow> (Inr False, d)
      | Inr None \<Rightarrow>
         (case kv_commit P [BSet (StringKey key) (EncodeValue (expiryOf (c 1) ttl) value)] d of
            (Some m, d') \<Rightarrow> (Inl m, d')
          | (None, d') \<Rightarrow> (Inr True, d')))"

definition kv_CompareAndDelete ::
  "'d pebble \<Rightarrow> time \<Rightarrow> string \<Rightarrow> string \<Rightarrow> 'd \<Rightarrow> (string, bool) result \<times> 'd" where
  "kv_CompareAndDelete P now key expected d =
     (case getString P now d key of
        Inl m \<Rightarrow> (Inl m, d)
      | Inr None \<Rightarrow> (Inr False, d)
      | Inr (Some (value, _)) \<Rightarrow>
          if value \<noteq> expected then (Inr False, d)
          else (case kv_commit P [BDelete (StringKey key)] d of
                  (Some m, d') \<Rightarrow> (Inl m, d')
                | (None, d') \<Rightarrow> (Inr True, d')))"

definition drop_members :: "string \<Rightarrow> batch_op" where
  "drop_members key = BDeleteRange (setMemberPrefix key) (upperBound (setMemberPrefix key))"

definition kv_Del :: "'d pebble \<Rightarrow> string list \<Rightarrow> 'd \<Rightarrow> string option \<times> 'd" where
  "kv_Del P keys d =
     kv_commit P (concat (map (\<lambda>key. [BDelete (StringKey key), drop_members key, BDelete (setMetaKey key)]) keys)) d"

definition kv_Exists :: "'d pebble \<Rightarrow> clock \<Rightarrow> 'd \<Rightarrow> string \<Rightarrow> (string, bool) result" where
  "kv_Exists P c d key =
     (case getString P (c 0) d key of
        Inl m \<Rightarrow> Inl m
      | Inr (Some _) \<Rightarrow> Inr True
      | Inr None \<Rightarrow> setLive P (c 1) d key)"

text \<open>A non-positive time to live deletes the key, as it does in Redis. The clock is read once more then.\<close>

definition kv_Expire ::
  "'d pebble \<Rightarrow> clock \<Rightarrow> string \<Rightarrow> duration \<Rightarrow> 'd \<Rightarrow> (string, bool) result \<times> 'd" where
  "kv_Expire P c key ttl d =
     (let expiry = (if ttl \<le> 0 then c 1 - 10 ^ 6 else expiryOf (c 0) ttl);
          set_expiry = (\<lambda>stored value. case kv_commit P [BSet stored (EncodeValue expiry value)] d of
                          (Some m, d') \<Rightarrow> (Inl m, d') | (None, d') \<Rightarrow> (Inr True, d'))
      in case getString P (c 2) d key of
           Inl m \<Rightarrow> (Inl m, d)
         | Inr (Some (value, _)) \<Rightarrow> set_expiry (StringKey key) value
         | Inr None \<Rightarrow>
            (case setLive P (c 3) d key of
               Inl m \<Rightarrow> (Inl m, d)
             | Inr False \<Rightarrow> (Inr False, d)
             | Inr True \<Rightarrow> set_expiry (setMetaKey key) []))"

definition not_expired :: "time \<Rightarrow> string \<Rightarrow> bool" where
  "not_expired now raw = (case DecodeValue raw now of Inl _ \<Rightarrow> False | Inr (_, _, expired) \<Rightarrow> \<not> expired)"

definition scan_base :: "'d pebble \<Rightarrow> time \<Rightarrow> 'd \<Rightarrow> string \<Rightarrow> string \<Rightarrow> (string, string list) result" where
  "scan_base P now d prefix base =
     (case db_Iter P d (base @ prefix) (upperBound (base @ prefix)) of
        Inl m \<Rightarrow> Inl m
      | Inr kvs \<Rightarrow> Inr (map (\<lambda>(k, _). drop (length base) k) (filter (\<lambda>(_, v). not_expired now v) kvs)))"

definition kv_ScanPrefix :: "'d pebble \<Rightarrow> time \<Rightarrow> 'd \<Rightarrow> string \<Rightarrow> (string, string list) result" where
  "kv_ScanPrefix P now d prefix =
     (case scan_base P now d prefix stringPrefix of
        Inl m \<Rightarrow> Inl m
      | Inr xs \<Rightarrow> (case scan_base P now d prefix setMetaPrefix of Inl m \<Rightarrow> Inl m | Inr ys \<Rightarrow> Inr (xs @ ys)))"

definition member_key :: "string \<Rightarrow> string \<Rightarrow> string" where
  "member_key key m = setMemberPrefix key @ m"

definition kv_SAdd :: "'d pebble \<Rightarrow> time \<Rightarrow> string \<Rightarrow> string list \<Rightarrow> 'd \<Rightarrow> string option \<times> 'd" where
  "kv_SAdd P now key ms d =
     (if ms = [] then (None, d)
      else case setLive P now d key of
        Inl m \<Rightarrow> (Some m, d)
      | Inr live \<Rightarrow>
          kv_commit P ((if live then [] else [drop_members key, BSet (setMetaKey key) (EncodeValue zero_time [])])
                       @ map (\<lambda>m. BSet (member_key key m) []) ms) d)"

definition setEmpty :: "'d pebble \<Rightarrow> 'd \<Rightarrow> string \<Rightarrow> (string, bool) result" where
  "setEmpty P d key =
     (case db_Iter P d (setMemberPrefix key) (upperBound (setMemberPrefix key)) of
        Inl m \<Rightarrow> Inl m | Inr kvs \<Rightarrow> Inr (kvs = []))"

definition kv_SRem :: "'d pebble \<Rightarrow> time \<Rightarrow> string \<Rightarrow> string list \<Rightarrow> 'd \<Rightarrow> string option \<times> 'd" where
  "kv_SRem P now key ms d =
     (if ms = [] then (None, d)
      else case kv_commit P (map (\<lambda>m. BDelete (member_key key m)) ms) d of
        (Some m, d1) \<Rightarrow> (Some m, d1)
      | (None, d1) \<Rightarrow>
         (case setLive P now d1 key of
            Inl m \<Rightarrow> (Some m, d1)
          | Inr live \<Rightarrow>
              let keep = (if live then (case setEmpty P d1 key of Inl m \<Rightarrow> Inl m | Inr none_left \<Rightarrow> Inr (\<not> none_left))
                          else Inr False)
              in case keep of
                   Inl m \<Rightarrow> (Some m, d1)
                 | Inr True \<Rightarrow> (None, d1)
                 | Inr False \<Rightarrow> kv_commit P [BDelete (setMetaKey key)] d1))"

definition kv_members :: "'d pebble \<Rightarrow> time \<Rightarrow> 'd \<Rightarrow> string \<Rightarrow> (string, string list) result" where
  "kv_members P now d key =
     (case setLive P now d key of
        Inl m \<Rightarrow> Inl m
      | Inr False \<Rightarrow> Inr []
      | Inr True \<Rightarrow>
         (case db_Iter P d (setMemberPrefix key) (upperBound (setMemberPrefix key)) of
            Inl m \<Rightarrow> Inl m
          | Inr kvs \<Rightarrow> Inr (map (\<lambda>(k, _). drop (length (setMemberPrefix key)) k) kvs)))"

definition kv_SMembers :: "'d pebble \<Rightarrow> time \<Rightarrow> 'd \<Rightarrow> string \<Rightarrow> (string, string list) result" where
  "kv_SMembers P now d key = kv_members P now d key"

definition kv_SCard :: "'d pebble \<Rightarrow> time \<Rightarrow> 'd \<Rightarrow> string \<Rightarrow> (string, nat) result" where
  "kv_SCard P now d key = (case kv_members P now d key of Inl m \<Rightarrow> Inl m | Inr xs \<Rightarrow> Inr (length xs))"

definition kv_SIsMember :: "'d pebble \<Rightarrow> time \<Rightarrow> 'd \<Rightarrow> string \<Rightarrow> string \<Rightarrow> (string, bool) result" where
  "kv_SIsMember P now d key m =
     (case setLive P now d key of
        Inl e \<Rightarrow> Inl e
      | Inr False \<Rightarrow> Inr False
      | Inr True \<Rightarrow> (case kv_raw P d (member_key key m) of Inl e \<Rightarrow> Inl e | Inr v \<Rightarrow> Inr (v \<noteq> None)))"

section \<open>The janitor\<close>

definition is_expired :: "time \<Rightarrow> string \<Rightarrow> bool" where
  "is_expired now raw = (case DecodeValue raw now of Inl _ \<Rightarrow> False | Inr (_, _, expired) \<Rightarrow> expired)"

definition expiredKeys :: "'d pebble \<Rightarrow> time \<Rightarrow> 'd \<Rightarrow> string \<Rightarrow> (string, string list) result" where
  "expiredKeys P now d base =
     (case db_Iter P d base (upperBound base) of
        Inl m \<Rightarrow> Inl m
      | Inr kvs \<Rightarrow> Inr (map fst (filter (\<lambda>(_, v). is_expired now v) kvs)))"

text \<open>The deletes of the keys still expired, read again under the lock.\<close>

fun expired_deletes :: "'d pebble \<Rightarrow> time \<Rightarrow> 'd \<Rightarrow> string \<Rightarrow> string list \<Rightarrow> (string, batch_op list) result" where
  "expired_deletes P now d base [] = Inr []"
| "expired_deletes P now d base (key # keys) =
     (case kv_raw P d key of
        Inl m \<Rightarrow> Inl m
      | Inr None \<Rightarrow> expired_deletes P now d base keys
      | Inr (Some raw) \<Rightarrow>
          if \<not> is_expired now raw then expired_deletes P now d base keys
          else (case expired_deletes P now d base keys of
                  Inl m \<Rightarrow> Inl m
                | Inr ops \<Rightarrow>
                    Inr (BDelete key
                         # (if base = setMetaPrefix then [drop_members (drop (length base) key)] else [])
                         @ ops)))"

definition deleteIfExpired :: "'d pebble \<Rightarrow> string \<Rightarrow> string list \<Rightarrow> time \<Rightarrow> 'd \<Rightarrow> string option \<times> 'd" where
  "deleteIfExpired P base keys now d =
     (case expired_deletes P now d base keys of
        Inl m \<Rightarrow> (Some m, d)
      | Inr ops \<Rightarrow> if ops = [] then (None, d) else kv_commit P ops d)"

definition expiredChunk :: nat where "expiredChunk = 1000"

function delete_chunks :: "'d pebble \<Rightarrow> string \<Rightarrow> string list \<Rightarrow> time \<Rightarrow> 'd \<Rightarrow> string option \<times> 'd" where
  "delete_chunks P base keys now d =
     (if keys = [] then (None, d)
      else case deleteIfExpired P base (take expiredChunk keys) now d of
        (Some m, d') \<Rightarrow> (Some m, d')
      | (None, d') \<Rightarrow> delete_chunks P base (drop expiredChunk keys) now d')"
  by auto
termination
  by (relation "measure (\<lambda>(P, base, keys, now, d). length keys)") (auto simp: expiredChunk_def)

declare delete_chunks.simps [simp del]

definition deleteExpired :: "'d pebble \<Rightarrow> time \<Rightarrow> 'd \<Rightarrow> string option \<times> 'd" where
  "deleteExpired P now d =
     (case expiredKeys P now d stringPrefix of
        Inl m \<Rightarrow> (Some m, d)
      | Inr strings \<Rightarrow>
         (case expiredKeys P now d setMetaPrefix of
            Inl m \<Rightarrow> (Some m, d)
          | Inr sets \<Rightarrow>
             (case delete_chunks P stringPrefix strings now d of
                (Some m, d') \<Rightarrow> (Some m, d')
              | (None, d') \<Rightarrow> delete_chunks P setMetaPrefix sets now d')))"

section \<open>Keys do not meet\<close>

lemma upperBound_Some: "\<exists>hi. upperBound (setMemberPrefix key) = Some hi"
  by (simp add: upperBound_def keyUpperBound_def setMemberPrefix_def)

lemma in_members [simp]:
  "in_range (setMemberPrefix key) (upperBound (setMemberPrefix key)) q \<longleftrightarrow> (\<exists>x. q = member_key key x)"
  using upperBound_Some [of key] keyUpperBound_range [of "setMemberPrefix key" _ q]
  by (auto simp: member_key_def upperBound_def)

lemma drop_members_apply [simp]:
  "apply_op m (drop_members key) q = (if \<exists>x. q = member_key key x then None else m q)"
  using upperBound_Some [of key] by (auto simp: drop_members_def)

lemma kv_keys_differ [simp]:
  "StringKey k = StringKey k' \<longleftrightarrow> k = k'"
  "setMetaKey k = setMetaKey k' \<longleftrightarrow> k = k'"
  "StringKey k \<noteq> setMetaKey k'" "setMetaKey k' \<noteq> StringKey k"
  "StringKey k \<noteq> member_key k' x" "member_key k' x \<noteq> StringKey k"
  "setMetaKey k \<noteq> member_key k' x" "member_key k' x \<noteq> setMetaKey k"
  by (simp_all add: StringKey_def setMetaKey_def member_key_def setMemberPrefix_def stringPrefix_def
      setPrefix_def setMetaPrefix_def)

lemma NUL_split:
  "\<lbrakk>NUL \<notin> set k; NUL \<notin> set k'\<rbrakk> \<Longrightarrow> k @ NUL # x = k' @ NUL # x' \<longleftrightarrow> k = k' \<and> x = x'"
  by (metis Cut_append option.inject prod.inject)

lemma member_key_eq [simp]:
  "\<lbrakk>NUL \<notin> set k; NUL \<notin> set k'\<rbrakk> \<Longrightarrow> member_key k x = member_key k' x' \<longleftrightarrow> k = k' \<and> x = x'"
  by (simp add: member_key_def setMemberPrefix_def NUL_split)

lemma drop_member [simp]: "drop (length (setMemberPrefix key)) (member_key key x) = x"
  by (simp add: member_key_def)

section \<open>What the store holds\<close>

text \<open>The live string under a key, with its expiry, and the live members of a set, at a time.\<close>

definition str_view :: "contents \<Rightarrow> time \<Rightarrow> string \<Rightarrow> (string \<times> time) option" where
  "str_view m now k =
     (case m (StringKey k) of None \<Rightarrow> None
      | Some raw \<Rightarrow> (case DecodeValue raw now of Inl _ \<Rightarrow> None
                     | Inr (v, e, expired) \<Rightarrow> if expired then None else Some (v, e)))"

definition set_view :: "contents \<Rightarrow> time \<Rightarrow> string \<Rightarrow> string set" where
  "set_view m now k =
     (case m (setMetaKey k) of None \<Rightarrow> {}
      | Some raw \<Rightarrow> if not_expired now raw then {x. m (member_key k x) \<noteq> None} else {})"

text \<open>What survives the codec: an expiry is kept to the millisecond.\<close>

definition storable :: "time \<Rightarrow> bool" where
  "storable e = (e = zero_time \<or> 0 < UnixMilli e \<and> UnixMilli e < 2 ^ 63)"

definition kept :: "time \<Rightarrow> time" where
  "kept e = (if e = zero_time then zero_time else of_millis (UnixMilli e))"

lemma Decode_Encode:
  assumes "storable e"
  shows "DecodeValue (EncodeValue e v) now = Inr (v, kept e, e \<noteq> zero_time \<and> kept e \<le> now)"
proof (cases "e = zero_time")
  case True
  then show ?thesis by (simp add: DecodeValue_def EncodeValue_def kept_def)
next
  case False
  with assms have r: "0 < UnixMilli e" "UnixMilli e < 2 ^ 63" by (auto simp: storable_def)
  then have s: "sint (word_of_int (UnixMilli e) :: 64 word) = UnixMilli e"
    by (simp add: int_word_sint)
  then have "(word_of_int (UnixMilli e) :: 64 word) \<noteq> 0" using r(1) by (metis less_irrefl sint_0)
  with False s show ?thesis by (auto simp: DecodeValue_def EncodeValue_def kept_def Let_def)
qed

lemma not_expired_Encode: "storable e \<Longrightarrow> not_expired now (EncodeValue e v) \<longleftrightarrow> e = zero_time \<or> now < kept e"
  by (auto simp: not_expired_def Decode_Encode)

lemma str_view_set:
  "storable e \<Longrightarrow> str_view (m(StringKey k := Some (EncodeValue e v))) now k'
     = (if k' = k then if e \<noteq> zero_time \<and> kept e \<le> now then None else Some (v, kept e) else str_view m now k')"
  by (simp add: str_view_def Decode_Encode)

lemma str_view_frame:
  "m' (StringKey k) = m (StringKey k) \<Longrightarrow> str_view m' now k = str_view m now k"
  by (simp add: str_view_def)

lemma set_view_frame:
  "\<lbrakk>m' (setMetaKey k) = m (setMetaKey k); \<And>x. m' (member_key k x) = m (member_key k x)\<rbrakk>
   \<Longrightarrow> set_view m' now k = set_view m now k"
  by (simp add: set_view_def split: option.splits)

lemma decode_expiry_mono:
  "\<lbrakk>DecodeValue raw s = Inr (v, e, x); s \<le> t\<rbrakk> \<Longrightarrow> \<exists>y. DecodeValue raw t = Inr (v, e, y) \<and> (x \<longrightarrow> y)"
  by (auto simp: DecodeValue_def Let_def split: if_splits)

lemma str_view_ages: "\<lbrakk>str_view m s k = None; s \<le> t\<rbrakk> \<Longrightarrow> str_view m t k = None"
  by (cases "m (StringKey k)") (auto simp: str_view_def DecodeValue_def Let_def split: if_splits)

section \<open>Reads\<close>

lemma getString_view:
  assumes "pebble_ok P contents" "getString P now d k = Inr x"
  shows "x = str_view (contents d) now k"
proof -
  obtain v where v: "db_Get P d (StringKey k) = Inr v"
    using assms(2) by (cases "db_Get P d (StringKey k)") (simp_all add: getString_def kv_raw_def)
  have "v = contents d (StringKey k)" using pebble_get [OF assms(1) v] .
  then show ?thesis using assms(2) v
    by (auto simp: getString_def kv_raw_def str_view_def split: sum.splits option.splits prod.splits if_splits)
qed

lemma setLive_view:
  assumes "pebble_ok P contents" "setLive P now d k = Inr x"
  shows "x = (case contents d (setMetaKey k) of None \<Rightarrow> False | Some raw \<Rightarrow> not_expired now raw)"
proof -
  obtain v where v: "db_Get P d (setMetaKey k) = Inr v"
    using assms(2) by (cases "db_Get P d (setMetaKey k)") (simp_all add: setLive_def kv_raw_def)
  have "v = contents d (setMetaKey k)" using pebble_get [OF assms(1) v] .
  then show ?thesis using assms(2) v
    by (auto simp: setLive_def kv_raw_def not_expired_def split: sum.splits option.splits prod.splits if_splits)
qed

lemma set_view_live:
  assumes "pebble_ok P contents" "setLive P now d k = Inr x"
  shows "set_view (contents d) now k = (if x then {y. contents d (member_key k y) \<noteq> None} else {})"
  using setLive_view [OF assms] by (auto simp: set_view_def split: option.splits)

lemma kv_commit_view:
  assumes "pebble_ok P contents" "kv_commit P ops d = (err, d')"
  shows "contents d' = apply_batch ops (contents d) \<or> err \<noteq> None \<and> contents d' = contents d"
  using pebble_commit [OF assms(1) assms(2) [unfolded kv_commit_def]] .

lemma kv_commit_misses:
  assumes "pebble_ok P contents" "kv_commit P ops d = (err, d')" "\<forall>op \<in> set ops. op_misses q op"
  shows "contents d' q = contents d q"
  using pebble_commit_misses [OF assms(1) assms(2) [unfolded kv_commit_def] assms(3)] .

lemma drop_members_misses [simp]:
  "op_misses q (drop_members key) \<longleftrightarrow> (\<nexists>x. q = member_key key x)"
  using upperBound_Some [of key] by (auto simp: drop_members_def)

section \<open>The janitor deletes nothing that is live\<close>

definition janitor_op :: "contents \<Rightarrow> time \<Rightarrow> string \<Rightarrow> string list \<Rightarrow> batch_op \<Rightarrow> bool" where
  "janitor_op m now base keys op =
     (\<exists>key \<in> set keys. (\<exists>raw. m key = Some raw \<and> is_expired now raw)
        \<and> (op = BDelete key \<or> base = setMetaPrefix \<and> op = drop_members (drop (length base) key)))"

lemma expired_deletes_ops:
  assumes "pebble_ok P contents"
  shows "expired_deletes P now d base keys = Inr ops \<Longrightarrow> op \<in> set ops \<Longrightarrow> janitor_op (contents d) now base keys op"
proof (induction keys arbitrary: ops)
  case (Cons key keys)
  obtain v where v: "kv_raw P d key = Inr v" using Cons.prems(1) by (cases "kv_raw P d key") simp_all
  have c: "v = contents d key" using pebble_get [OF assms] v unfolding kv_raw_def by blast
  have mono: "janitor_op (contents d) now base keys op \<Longrightarrow> janitor_op (contents d) now base (key # keys) op"
    by (auto simp: janitor_op_def)
  show ?case
  proof (cases "\<exists>raw. v = Some raw \<and> is_expired now raw")
    case True
    then obtain raw where raw: "v = Some raw" "is_expired now raw" by blast
    with Cons.prems(1) v obtain ops' where ops': "expired_deletes P now d base keys = Inr ops'"
      and ops: "ops = BDelete key # (if base = setMetaPrefix then [drop_members (drop (length base) key)] else []) @ ops'"
      by (auto split: sum.splits)
    have "contents d key = Some raw" using raw(1) c by simp
    then show ?thesis
      using Cons.IH [OF ops'] mono Cons.prems(2) raw unfolding ops
      by (auto simp: janitor_op_def split: if_splits)
  next
    case False
    with Cons.prems(1) v have "expired_deletes P now d base keys = Inr ops" by (auto split: option.splits if_splits)
    from mono [OF Cons.IH [OF this Cons.prems(2)]] show ?thesis .
  qed
qed simp

lemma expired_stays: "\<lbrakk>is_expired now raw; now \<le> t\<rbrakk> \<Longrightarrow> is_expired t raw \<and> \<not> not_expired t raw"
  by (auto simp: is_expired_def not_expired_def DecodeValue_def Let_def split: if_splits)

lemma str_view_expired: "\<lbrakk>m (StringKey k) = Some raw; is_expired t raw\<rbrakk> \<Longrightarrow> str_view m t k = None"
  by (auto simp: str_view_def is_expired_def split: sum.splits)

lemma janitor_only_deletes:
  assumes "\<forall>op \<in> set ops. janitor_op n now base keys op"
  shows "apply_batch ops m q = m q \<or> apply_batch ops m q = None"
  using assms
proof (induction ops arbitrary: m)
  case (Cons op ops)
  then have "apply_batch ops (apply_op m op) q = apply_op m op q \<or> apply_batch ops (apply_op m op) q = None" by simp
  moreover have "apply_op m op q = m q \<or> apply_op m op q = None"
    using Cons.prems by (auto simp: janitor_op_def split: if_splits)
  ultimately show ?case by auto
qed simp

lemma deleteIfExpired_cases:
  assumes "pebble_ok P contents" "deleteIfExpired P base keys now d = (err, d')"
  obtains ops where "\<forall>op \<in> set ops. janitor_op (contents d) now base keys op"
    "contents d' = apply_batch ops (contents d)"
proof (cases "contents d' = contents d")
  case True
  then show ?thesis using that [of "[]"] by simp
next
  case False
  then obtain ops where ops: "expired_deletes P now d base keys = Inr ops" "kv_commit P ops d = (err, d')"
    using assms(2) by (auto simp: deleteIfExpired_def split: sum.splits if_splits)
  then show ?thesis
    using that [of ops] expired_deletes_ops [OF assms(1) ops(1)] kv_commit_view [OF assms(1) ops(2)] False by blast
qed

lemma janitor_keeps:
  assumes "\<forall>op \<in> set ops. janitor_op m now base keys op"
    and keys: "\<forall>key \<in> set keys. \<exists>k. NUL \<notin> set k \<and> key = base @ k"
    and base: "base \<in> {stringPrefix, setMetaPrefix}" and t: "now \<le> t" and k: "NUL \<notin> set k"
  shows "str_view (apply_batch ops m) t k = str_view m t k" (is ?str)
    and "set_view (apply_batch ops m) t k = set_view m t k" (is ?set)
proof -
  let ?m = "apply_batch ops m"
  have hit: "\<exists>op \<in> set ops. \<not> op_misses q op" if "?m q \<noteq> m q" for q
    using batch_misses [of ops q m] that by blast
  have key: "?m q = None \<and> (\<exists>raw. m q = Some raw \<and> is_expired now raw)" if "?m q \<noteq> m q" "\<nexists>k x. q = member_key k x" for q
    using hit [OF that(1)] that assms(1) janitor_only_deletes [OF assms(1), of m q] by (fastforce simp: janitor_op_def)
  show ?str
  proof (cases "?m (StringKey k) = m (StringKey k)")
    case True
    then show ?thesis by (rule str_view_frame)
  next
    case False
    then obtain raw where "?m (StringKey k) = None" "m (StringKey k) = Some raw" "is_expired now raw"
      using key [of "StringKey k"] by auto
    then show ?thesis using expired_stays [OF _ t] str_view_expired [of m k raw t] by (simp add: str_view_def)
  qed
  show ?set
  proof (cases "?m (setMetaKey k) = m (setMetaKey k) \<and> (\<forall>x. ?m (member_key k x) = m (member_key k x))")
    case True
    then show ?thesis by (intro set_view_frame) auto
  next
    case False
    have "\<exists>raw. m (setMetaKey k) = Some raw \<and> is_expired now raw"
    proof (cases "?m (setMetaKey k) = m (setMetaKey k)")
      case True
      with False obtain x where "?m (member_key k x) \<noteq> m (member_key k x)" by blast
      from hit [OF this] obtain op where op: "op \<in> set ops" "\<not> op_misses (member_key k x) op" by blast
      with assms(1) obtain key where key: "key \<in> set keys" "\<exists>raw. m key = Some raw \<and> is_expired now raw"
        "op = BDelete key \<or> base = setMetaPrefix \<and> op = drop_members (drop (length base) key)"
        unfolding janitor_op_def by blast
      from keys key(1) obtain k' where k': "NUL \<notin> set k'" "key = base @ k'" by blast
      have "key \<noteq> member_key k x"
        using base k'(2) kv_keys_differ(5,7) [of k' k x] by (auto simp: StringKey_def setMetaKey_def)
      then have b: "base = setMetaPrefix" "op = drop_members k'" using op(2) key(3) k'(2) by auto
      then have "k' = k" using op(2) k'(1) k by auto
      then show ?thesis using key(2) k'(2) b(1) by (simp add: setMetaKey_def)
    next
      case False
      then show ?thesis using key [of "setMetaKey k"] by auto
    qed
    then obtain raw where raw: "m (setMetaKey k) = Some raw" "is_expired now raw" by blast
    then have "set_view m t k = {}" using expired_stays [OF raw(2) t] by (simp add: set_view_def)
    moreover have "set_view ?m t k = {}"
      using janitor_only_deletes [OF assms(1), of m "setMetaKey k"] raw(1) expired_stays [OF raw(2) t]
      by (auto simp: set_view_def)
    ultimately show ?thesis by simp
  qed
qed

section \<open>Sets\<close>

lemma batch_sets: "apply_batch (map (\<lambda>x. BSet (f x) []) xs) m q = (if q \<in> f ` set xs then Some [] else m q)"
  by (induction xs arbitrary: m) auto

lemma batch_dels: "apply_batch (map (\<lambda>x. BDelete (f x)) xs) m q = (if q \<in> f ` set xs then None else m q)"
  by (induction xs arbitrary: m) auto

lemma storable_zero [simp]: "storable zero_time"
  by (simp add: storable_def)

lemma SAdd_batch:
  assumes "live = (case m (setMetaKey k) of None \<Rightarrow> False | Some raw \<Rightarrow> not_expired now raw)" "NUL \<notin> set k" "xs \<noteq> []"
  defines "m' \<equiv> apply_batch ((if live then [] else [drop_members k, BSet (setMetaKey k) (EncodeValue zero_time [])])
                             @ map (\<lambda>x. BSet (member_key k x) []) xs) m"
  shows "set_view m' now k = set_view m now k \<union> set xs"
    and "\<lbrakk>NUL \<notin> set k'; k' \<noteq> k\<rbrakk> \<Longrightarrow> set_view m' t k' = set_view m t k'"
    and "str_view m' t k'' = str_view m t k''"
proof -
  have mem: "m' (member_key k x) = (if x \<in> set xs then Some [] else if live then m (member_key k x) else None)" for x
    unfolding m'_def using assms(2) by (auto simp: batch_sets image_iff)
  have meta: "m' (setMetaKey k) = (if live then m (setMetaKey k) else Some (EncodeValue zero_time []))"
    unfolding m'_def by (auto simp: batch_sets image_iff)
  show "set_view m' now k = set_view m now k \<union> set xs"
  proof (cases live)
    case True
    then obtain raw where "m (setMetaKey k) = Some raw" "not_expired now raw" using assms(1) by (auto split: option.splits)
    then show ?thesis using True by (auto simp: set_view_def mem meta split: if_splits)
  next
    case False
    then have "set_view m now k = {}" using assms(1) by (auto simp: set_view_def split: option.splits)
    then show ?thesis using False by (auto simp: set_view_def mem meta not_expired_Encode split: if_splits)
  qed
  show "set_view m' t k' = set_view m t k'" if "NUL \<notin> set k'" "k' \<noteq> k"
    unfolding m'_def using that assms(2) by (intro set_view_frame) (auto simp: batch_sets image_iff)
  show "str_view m' t k'' = str_view m t k''"
    unfolding m'_def by (intro str_view_frame) (auto simp: batch_sets image_iff)
qed

lemma SRem_batch:
  fixes m :: contents and xs :: "string list"
  assumes "NUL \<notin> set k"
  defines "m' \<equiv> apply_batch (map (\<lambda>x. BDelete (member_key k x)) xs) m"
  shows "set_view m' t k = set_view m t k - set xs"
    and "\<lbrakk>NUL \<notin> set k'; k' \<noteq> k\<rbrakk> \<Longrightarrow> set_view m' t k' = set_view m t k'"
    and "str_view m' t k'' = str_view m t k''"
proof -
  have mem: "m' (member_key k x) = (if x \<in> set xs then None else m (member_key k x))" for x
    unfolding m'_def using assms(1) by (auto simp: batch_dels image_iff)
  have meta: "m' (setMetaKey k) = m (setMetaKey k)" unfolding m'_def by (auto simp: batch_dels image_iff)
  show "set_view m' t k = set_view m t k - set xs"
    by (auto simp: set_view_def mem meta split: option.splits if_splits)
  show "set_view m' t k' = set_view m t k'" if "NUL \<notin> set k'" "k' \<noteq> k"
    unfolding m'_def using that assms(1) by (intro set_view_frame) (auto simp: batch_dels image_iff)
  show "str_view m' t k'' = str_view m t k''"
    unfolding m'_def by (intro str_view_frame) (auto simp: batch_dels image_iff)
qed

lemma drop_meta_batch:
  "set_view m now k = {} \<Longrightarrow> set_view (apply_batch [BDelete (setMetaKey k)] m) now k = {}"
  "k' \<noteq> k \<Longrightarrow> set_view (apply_batch [BDelete (setMetaKey k)] m) t k' = set_view m t k'"
  "str_view (apply_batch [BDelete (setMetaKey k)] m) t k'' = str_view m t k''"
  by (simp_all add: set_view_def str_view_def split: option.splits)

lemma SAdd_ok:
  assumes "pebble_ok P contents" "kv_SAdd P now k xs d = (None, d')" "NUL \<notin> set k"
  shows "set_view (contents d') now k = set_view (contents d) now k \<union> set xs"
    and "\<lbrakk>NUL \<notin> set k'; k' \<noteq> k\<rbrakk> \<Longrightarrow> set_view (contents d') t k' = set_view (contents d) t k'"
    and "str_view (contents d') t k'' = str_view (contents d) t k''"
proof -
  have "set_view (contents d') now k = set_view (contents d) now k \<union> set xs
     \<and> (NUL \<notin> set k' \<longrightarrow> k' \<noteq> k \<longrightarrow> set_view (contents d') t k' = set_view (contents d) t k')
     \<and> str_view (contents d') t k'' = str_view (contents d) t k''" for t k' k''
  proof (cases "xs = []")
    case True
    then show ?thesis using assms(2) by (auto simp: kv_SAdd_def)
  next
    case False
    then obtain live where live: "setLive P now d k = Inr live"
      and run: "kv_commit P ((if live then [] else [drop_members k, BSet (setMetaKey k) (EncodeValue zero_time [])])
                             @ map (\<lambda>x. BSet (member_key k x) []) xs) d = (None, d')"
      using assms(2) by (auto simp: kv_SAdd_def split: sum.splits)
    from kv_commit_view [OF assms(1) run]
    show ?thesis
      using SAdd_batch(1) [where m = "contents d", OF setLive_view [OF assms(1) live] assms(3) False]
        SAdd_batch(2) [where m = "contents d" and t = t and k' = k', OF setLive_view [OF assms(1) live] assms(3) False]
        SAdd_batch(3) [where m = "contents d" and t = t and k'' = k'', OF setLive_view [OF assms(1) live] assms(3) False]
      by simp
  qed
  then show "set_view (contents d') now k = set_view (contents d) now k \<union> set xs"
    and "\<lbrakk>NUL \<notin> set k'; k' \<noteq> k\<rbrakk> \<Longrightarrow> set_view (contents d') t k' = set_view (contents d) t k'"
    and "str_view (contents d') t k'' = str_view (contents d) t k''" by blast+
qed

lemma setEmpty_view:
  assumes "pebble_ok P contents" "setEmpty P d k = Inr b"
  shows "b \<longleftrightarrow> (\<forall>x. contents d (member_key k x) = None)"
proof -
  obtain kvs where kvs: "db_Iter P d (setMemberPrefix k) (upperBound (setMemberPrefix k)) = Inr kvs" "b \<longleftrightarrow> kvs = []"
    using assms(2) by (auto simp: setEmpty_def split: sum.splits)
  have m: "(q, v) \<in> set kvs \<longleftrightarrow> (\<exists>x. q = member_key k x) \<and> contents d q = Some v" for q v
    using pebble_iter [OF assms(1) kvs(1), of q v] by simp
  show ?thesis
  proof (cases kvs)
    case Nil
    then show ?thesis using m kvs(2) by (metis empty_iff list.set(1) not_None_eq)
  next
    case (Cons kv kvs')
    then have "(fst kv, snd kv) \<in> set kvs" by simp
    then obtain x where "contents d (member_key k x) = Some (snd kv)" using m [of "fst kv" "snd kv"] by auto
    then have "\<not> (\<forall>x. contents d (member_key k x) = None)" by auto
    then show ?thesis using Cons kvs(2) by simp
  qed
qed

lemma SRem_ok:
  assumes "pebble_ok P contents" "kv_SRem P now k xs d = (None, d')" "NUL \<notin> set k"
  shows "set_view (contents d') now k = set_view (contents d) now k - set xs"
    and "\<lbrakk>NUL \<notin> set k'; k' \<noteq> k\<rbrakk> \<Longrightarrow> set_view (contents d') t k' = set_view (contents d) t k'"
    and "str_view (contents d') t k'' = str_view (contents d) t k''"
proof -
  have "set_view (contents d') now k = set_view (contents d) now k - set xs
     \<and> (NUL \<notin> set k' \<longrightarrow> k' \<noteq> k \<longrightarrow> set_view (contents d') t k' = set_view (contents d) t k')
     \<and> str_view (contents d') t k'' = str_view (contents d) t k''" for t k' k''
  proof (cases "xs = []")
    case True
    then show ?thesis using assms(2) by (auto simp: kv_SRem_def)
  next
    case False
    then obtain d1 where d1: "kv_commit P (map (\<lambda>x. BDelete (member_key k x)) xs) d = (None, d1)"
      using assms(2) by (auto simp: kv_SRem_def split: prod.splits option.splits)
    note rem = SRem_batch [OF assms(3), where xs = xs and m = "contents d"]
    have c1: "contents d1 = apply_batch (map (\<lambda>x. BDelete (member_key k x)) xs) (contents d)"
      using kv_commit_view [OF assms(1) d1] by simp
    have "contents d' = contents d1
        \<or> (set_view (contents d1) now k = {} \<and> contents d' = apply_batch [BDelete (setMetaKey k)] (contents d1))"
    proof -
      obtain live where live: "setLive P now d1 k = Inr live"
        using assms(2) False d1 by (auto simp: kv_SRem_def split: sum.splits)
      have fin: "kv_commit P [BDelete (setMetaKey k)] d1 = (None, d') \<Longrightarrow>
          contents d' = apply_batch [BDelete (setMetaKey k)] (contents d1)"
        using kv_commit_view [OF assms(1), of "[BDelete (setMetaKey k)]" d1] by blast
      show ?thesis
      proof (cases live)
        case True
        then obtain b where b: "setEmpty P d1 k = Inr b"
          using assms(2) False d1 live by (auto simp: kv_SRem_def split: sum.splits)
        then show ?thesis
          using assms(2) False d1 live True fin setEmpty_view [OF assms(1) b] set_view_live [OF assms(1) live]
          by (cases b) (auto simp: kv_SRem_def)
      next
        case False
        then show ?thesis
          using assms(2) \<open>xs \<noteq> []\<close> d1 live fin set_view_live [OF assms(1) live] by (auto simp: kv_SRem_def)
      qed
    qed
    then show ?thesis
    proof
      assume "contents d' = contents d1"
      then show ?thesis
        using rem(1) [of now] rem(2) [where t = t and k' = k'] rem(3) [where t = t and k'' = k''] by (simp only: c1) simp
    next
      assume gone: "set_view (contents d1) now k = {} \<and> contents d' = apply_batch [BDelete (setMetaKey k)] (contents d1)"
      then have "set_view (contents d') now k = {}" "set_view (contents d) now k - set xs = {}"
        using drop_meta_batch(1) [of "contents d1" now k] rem(1) [of now] c1 by simp_all
      moreover have "str_view (contents d') t k'' = str_view (contents d) t k''"
        using gone drop_meta_batch(3) [of k "contents d1" t k''] rem(3) [where t = t and k'' = k''] c1 by simp
      moreover have "NUL \<notin> set k' \<longrightarrow> k' \<noteq> k \<longrightarrow> set_view (contents d') t k' = set_view (contents d) t k'"
        using gone drop_meta_batch(2) [of k' k "contents d1" t] rem(2) [where t = t and k' = k'] c1 by simp
      ultimately show ?thesis by simp
    qed
  qed
  then show "set_view (contents d') now k = set_view (contents d) now k - set xs"
    and "\<lbrakk>NUL \<notin> set k'; k' \<noteq> k\<rbrakk> \<Longrightarrow> set_view (contents d') t k' = set_view (contents d) t k'"
    and "str_view (contents d') t k'' = str_view (contents d) t k''" by blast+
qed

lemma SMembers_ok:
  assumes "pebble_ok P contents" "kv_SMembers P now d k = Inr xs"
  shows "set xs = set_view (contents d) now k \<and> distinct xs"
proof -
  obtain live where live: "setLive P now d k = Inr live"
    using assms(2) by (auto simp: kv_SMembers_def kv_members_def split: sum.splits)
  show ?thesis
  proof (cases live)
    case False
    then show ?thesis using assms(2) live set_view_live [OF assms(1) live] by (simp add: kv_SMembers_def kv_members_def)
  next
    case True
    then obtain kvs where kvs: "db_Iter P d (setMemberPrefix k) (upperBound (setMemberPrefix k)) = Inr kvs"
      and xs: "xs = map (\<lambda>(q, _). drop (length (setMemberPrefix k)) q) kvs"
      using assms(2) live by (auto simp: kv_SMembers_def kv_members_def split: sum.splits)
    have m: "(q, v) \<in> set kvs \<longleftrightarrow> (\<exists>x. q = member_key k x) \<and> contents d q = Some v" for q v
      using pebble_iter [OF assms(1) kvs, of q v] by simp
    have "x \<in> set xs \<longleftrightarrow> contents d (member_key k x) \<noteq> None" for x
    proof
      assume "x \<in> set xs"
      then obtain q v where "(q, v) \<in> set kvs" "x = drop (length (setMemberPrefix k)) q" unfolding xs by auto
      then show "contents d (member_key k x) \<noteq> None" using m [of q v] by auto
    next
      assume "contents d (member_key k x) \<noteq> None"
      then obtain v where "(member_key k x, v) \<in> set kvs" using m by auto
      then show "x \<in> set xs" unfolding xs by force
    qed
    then have "set xs = set_view (contents d) now k" using set_view_live [OF assms(1) live] True by auto
    moreover have "distinct xs"
    proof -
      have "sorted_wrt bytes_less (map fst kvs)" using pebble_iter_sorted [OF assms(1) kvs] .
      then have "distinct (map fst kvs)" by (rule bytes_less_distinct)
      moreover have "inj_on (drop (length (setMemberPrefix k))) (set (map fst kvs))"
      proof (rule inj_onI)
        fix q q' assume q: "q \<in> set (map fst kvs)" "q' \<in> set (map fst kvs)"
          and eq: "drop (length (setMemberPrefix k)) q = drop (length (setMemberPrefix k)) q'"
        from q m obtain x x' where "q = member_key k x" "q' = member_key k x'" by auto
        then show "q = q'" using eq by simp
      qed
      ultimately have "distinct (map (drop (length (setMemberPrefix k))) (map fst kvs))"
        by (simp only: distinct_map simp_thms)
      then show ?thesis unfolding xs by (simp add: case_prod_unfold comp_def)
    qed
    ultimately show ?thesis by simp
  qed
qed

end
