(* ===== verification/KV_Props.thy ===== *)
theory KV_Props
  imports KV_Pebble Pebble_Mem
begin

text \<open>Properties of the key-value store over the embedded database.\<close>

section \<open>Calls and runs\<close>

text \<open>
  Everything that writes to the store, one value per call. A janitor pass is the deletes of one chunk,
  whose candidates come from an earlier scan: other calls run in between.
\<close>

datatype kv_call =
    KSet time string string duration
  | KSetAll time "kv_entry list"
  | KSetKeepTTL time string string
  | KSetNX clock string string duration
  | KCompareAndDelete time string string
  | KDel "string list"
  | KExpire clock string duration
  | KSAdd time string "string list"
  | KSRem time string "string list"
  | KJanitor string "string list" time

fun kv_step :: "'d pebble \<Rightarrow> kv_call \<Rightarrow> 'd \<Rightarrow> 'd" where
  "kv_step P (KSet now key value ttl) d = snd (kv_Set P now key value ttl d)"
| "kv_step P (KSetAll now entries) d = snd (kv_SetAll P now entries d)"
| "kv_step P (KSetKeepTTL now key value) d = snd (kv_SetKeepTTL P now key value d)"
| "kv_step P (KSetNX c key value ttl) d = snd (kv_SetNX P c key value ttl d)"
| "kv_step P (KCompareAndDelete now key expected) d = snd (kv_CompareAndDelete P now key expected d)"
| "kv_step P (KDel keys) d = snd (kv_Del P keys d)"
| "kv_step P (KExpire c key ttl) d = snd (kv_Expire P c key ttl d)"
| "kv_step P (KSAdd now key ms) d = snd (kv_SAdd P now key ms d)"
| "kv_step P (KSRem now key ms) d = snd (kv_SRem P now key ms d)"
| "kv_step P (KJanitor base keys now) d = snd (deleteIfExpired P base keys now d)"

definition kv_run :: "'d pebble \<Rightarrow> kv_call list \<Rightarrow> 'd \<Rightarrow> 'd" where
  "kv_run P calls d = foldl (\<lambda>d call. kv_step P call d) d calls"

text \<open>
  A call that respects a lock on \<open>key\<close> holding \<open>value\<close> until \<open>lim\<close>: it does not overwrite, delete or
  expire the key, except through \<open>SetNX\<close>, a \<open>CompareAndDelete\<close> of another value, or the janitor, each
  reading its clock before the lock runs out.
\<close>

fun heeds :: "string \<Rightarrow> string \<Rightarrow> time \<Rightarrow> kv_call \<Rightarrow> bool" where
  "heeds key value lim (KSet now k v ttl) = (k \<noteq> key)"
| "heeds key value lim (KSetAll now entries) = (key \<notin> en_Key ` set entries)"
| "heeds key value lim (KSetKeepTTL now k v) = (k \<noteq> key)"
| "heeds key value lim (KSetNX c k v ttl) = (k = key \<longrightarrow> c 0 < lim)"
| "heeds key value lim (KCompareAndDelete now k expected) = (k = key \<longrightarrow> expected \<noteq> value)"
| "heeds key value lim (KDel keys) = (key \<notin> set keys)"
| "heeds key value lim (KExpire c k ttl) = (k \<noteq> key)"
| "heeds key value lim (KSAdd now k ms) = True"
| "heeds key value lim (KSRem now k ms) = True"
| "heeds key value lim (KJanitor base keys now) = (now < lim)"

lemmas kv_splits = sum.splits option.splits prod.splits if_splits bool.splits

lemma commit_leaves:
  assumes "pebble_ok P contents" "\<forall>op \<in> set ops. op_misses q op"
  shows "contents (snd (kv_commit P ops d)) q = contents d q"
  by (rule kv_commit_misses [OF assms(1) prod.collapse [symmetric] assms(2)])

lemma SAdd_misses:
  assumes "pebble_ok P contents"
  shows "contents (snd (kv_SAdd P now k ms d)) (StringKey key) = contents d (StringKey key)"
  by (auto simp: kv_SAdd_def commit_leaves [OF assms] split: kv_splits)

lemma SRem_misses:
  assumes "pebble_ok P contents"
  shows "contents (snd (kv_SRem P now k ms d)) (StringKey key) = contents d (StringKey key)"
proof -
  have step: "contents d1 (StringKey key) = contents d (StringKey key)"
    if "kv_commit P (map (\<lambda>m. BDelete (member_key k m)) ms) d = (err, d1)" for err d1
    using kv_commit_misses [OF assms that, of "StringKey key"] by auto
  show ?thesis
    by (auto simp: kv_SRem_def Let_def commit_leaves [OF assms] step split: kv_splits)
qed

lemma Expire_misses:
  assumes "pebble_ok P contents" "k \<noteq> key"
  shows "contents (snd (kv_Expire P c k ttl d)) (StringKey key) = contents d (StringKey key)"
proof -
  have step: "contents d1 (StringKey key) = contents d (StringKey key)"
    if "kv_commit P [BSet q v] d = (err, d1)" "q \<noteq> StringKey key" for q v err d1
    using kv_commit_misses [OF assms(1) that(1), of "StringKey key"] that(2) by auto
  show ?thesis
    using assms(2) by (auto simp: kv_Expire_def Let_def dest: step split: kv_splits)
qed

lemma lock_value:
  assumes "m (StringKey key) = Some (EncodeValue e value)" "storable e" "t < kept e \<or> e = zero_time"
  shows "str_view m t key = Some (value, kept e)"
  using assms by (auto simp: str_view_def Decode_Encode)

lemma step_keeps_lock:
  assumes P: "pebble_ok P contents" and lock: "contents d (StringKey key) = Some (EncodeValue e value)"
    and e: "storable e" "e \<noteq> zero_time" and r: "heeds key value (kept e) call"
  shows "contents (kv_step P call d) (StringKey key) = contents d (StringKey key)"
proof (cases call)
  case (KSetNX c k v ttl)
  show ?thesis
  proof (cases "k = key")
    case True
    have "getString P (c 0) d key \<noteq> Inr None"
      using getString_view [OF P, of "c 0" d key] lock_value [where m = "contents d", OF lock e(1)] r KSetNX True by auto
    then show ?thesis using KSetNX True by (auto simp: kv_SetNX_def split: sum.splits option.splits)
  next
    case False
    then show ?thesis using KSetNX
      by (auto simp: kv_SetNX_def dest!: kv_commit_misses [OF P, where q = "StringKey key"] split: kv_splits)
  qed
next
  case (KCompareAndDelete now k expected)
  show ?thesis
  proof (cases "k = key")
    case True
    have "x = value" if "getString P now d key = Inr (Some (x, y))" for x y
      using getString_view [OF P that] lock e(1) by (simp add: str_view_def Decode_Encode split: if_splits)
    then show ?thesis using KCompareAndDelete True r
      by (auto simp: kv_CompareAndDelete_def split: sum.splits option.splits prod.splits)
  next
    case False
    then show ?thesis using KCompareAndDelete
      by (auto simp: kv_CompareAndDelete_def dest!: kv_commit_misses [OF P, where q = "StringKey key"] split: kv_splits)
  qed
next
  case (KJanitor base keys now)
  show ?thesis
  proof -
    obtain err d' where run: "deleteIfExpired P base keys now d = (err, d')" by fastforce
    from deleteIfExpired_cases [OF P run] obtain ops where ops: "\<forall>op \<in> set ops. janitor_op (contents d) now base keys op"
      and d': "contents d' = apply_batch ops (contents d)" by blast
    have "\<not> is_expired now (EncodeValue e value)" using e r KJanitor by (simp add: is_expired_def Decode_Encode)
    then have "op_misses (StringKey key) op" if "janitor_op (contents d) now base keys op" for op
      using that lock by (auto simp: janitor_op_def)
    then have "\<forall>op \<in> set ops. op_misses (StringKey key) op" using ops by blast
    from batch_misses [OF this] show ?thesis using KJanitor run d' by simp
  qed
next
  case (KSAdd now k ms)
  then show ?thesis by (simp add: SAdd_misses [OF P])
next
  case (KSRem now k ms)
  then show ?thesis by (simp add: SRem_misses [OF P])
next
  case (KExpire c k ttl)
  then show ?thesis using r by (simp add: Expire_misses [OF P])
next
  case (KSetAll now entries)
  then show ?thesis using r by (simp add: kv_SetAll_def) (rule commit_leaves [OF P], auto)
next
  case (KDel keys)
  then show ?thesis using r by (simp add: kv_Del_def) (rule commit_leaves [OF P], auto)
qed (use r in \<open>auto simp: kv_Set_def kv_SetKeepTTL_def commit_leaves [OF P] split: kv_splits\<close>)

lemma run_keeps_lock:
  assumes "pebble_ok P contents" "contents d (StringKey key) = Some (EncodeValue e value)" "storable e" "e \<noteq> zero_time"
    and "\<forall>call \<in> set calls. heeds key value (kept e) call"
  shows "contents (kv_run P calls d) (StringKey key) = contents d (StringKey key)"
  using assms(2,5)
proof (induction calls arbitrary: d)
  case Nil
  then show ?case by (simp add: kv_run_def)
next
  case (Cons call calls)
  then have "contents (kv_step P call d) (StringKey key) = contents d (StringKey key)"
    using step_keeps_lock [where contents = contents, OF assms(1) _ assms(3,4)] by simp
  with Cons show ?case by (simp add: kv_run_def)
qed

section \<open>Properties\<close>

text \<open>
  (C34) A lock taken with \<open>SetNX\<close> excludes every other holder until it runs out: whatever calls run in
  between on other keys, other attempts to take it, releases with another holder's value and janitor
  passes included, a second \<open>SetNX\<close> before the expiry does not succeed and does not change the lock.
\<close>

theorem kv_lock_exclusive:
  assumes "pebble_ok P contents" "kv_SetNX P c key value ttl d = (Inr True, d1)" "0 < ttl"
    and "storable (c 1 + ttl)" "c 1 + ttl \<noteq> zero_time"
    and "\<forall>call \<in> set calls. heeds key value (kept (c 1 + ttl)) call"
    and "kv_SetNX P c' key value' ttl' (kv_run P calls d1) = (r, d2)" "c' 0 < kept (c 1 + ttl)"
  shows "r \<noteq> Inr True \<and> str_view (contents d2) (c' 0) key = Some (value, kept (c 1 + ttl))"
proof -
  let ?e = "c 1 + ttl"
  have set: "contents d1 (StringKey key) = Some (EncodeValue ?e value)"
    using assms(2,3) kv_commit_view [OF assms(1), of "[BSet (StringKey key) (EncodeValue ?e value)]" d None d1]
    by (auto simp: kv_SetNX_def expiryOf_def split: kv_splits)
  have keep: "contents (kv_run P calls d1) (StringKey key) = Some (EncodeValue ?e value)"
    using run_keeps_lock [where contents = contents, OF assms(1) set assms(4,5,6)] set by simp
  then have view: "str_view (contents (kv_run P calls d1)) (c' 0) key = Some (value, kept ?e)"
    using lock_value [where m = "contents (kv_run P calls d1)", OF keep assms(4)] assms(8) by blast
  then have "getString P (c' 0) (kv_run P calls d1) key \<noteq> Inr None"
    using getString_view [OF assms(1), of "c' 0" "kv_run P calls d1" key] by auto
  then have "d2 = kv_run P calls d1 \<and> r \<noteq> Inr True" using assms(7) by (auto simp: kv_SetNX_def split: kv_splits)
  with view show ?thesis by simp
qed

theorem kv_lock_exclusive_witness:
  "\<exists>d1. kv_SetNX list_pebble (\<lambda>_. 10 ^ 9) ''lock'' ''a'' (10 ^ 9) [] = (Inr True, d1)
     \<and> fst (kv_SetNX list_pebble (\<lambda>_. 10 ^ 9 + 5) ''lock'' ''b'' (10 ^ 9)
             (kv_run list_pebble [KCompareAndDelete (10 ^ 9 + 1) ''lock'' ''b'', KJanitor stringPrefix [StringKey ''lock''] (10 ^ 9 + 2),
                KSet (10 ^ 9 + 3) ''other'' ''x'' 0] d1)) \<noteq> Inr True"
proof -
  let ?d1 = "[(StringKey ''lock'', EncodeValue (2 * 10 ^ 9) ''a'')]"
  have run: "kv_SetNX list_pebble (\<lambda>_. 10 ^ 9) ''lock'' ''a'' (10 ^ 9) [] = (Inr True, ?d1)"
    by (simp add: kv_SetNX_def getString_def kv_raw_def kv_commit_def list_pebble_def expiryOf_def)
  have e: "storable ((10 ^ 9 :: int) + 10 ^ 9)" "(10 ^ 9 :: int) + 10 ^ 9 \<noteq> zero_time" "kept 2000000000 = 2000000000"
    by (simp_all add: storable_def UnixMilli_def zero_time_def kept_def of_millis_def)
  have "\<forall>call \<in> set [KCompareAndDelete (10 ^ 9 + 1) ''lock'' ''b'', KJanitor stringPrefix [StringKey ''lock''] (10 ^ 9 + 2),
      KSet (10 ^ 9 + 3) ''other'' ''x'' 0]. heeds ''lock'' ''a'' (kept (10 ^ 9 + 10 ^ 9)) call"
    by (simp add: e(3))
  from kv_lock_exclusive [OF list_pebble_ok run _ e(1,2) this prod.collapse [symmetric], of "\<lambda>_. 10 ^ 9 + 5" "''b''" "10 ^ 9"]
  show ?thesis using run e(3) by auto
qed

text \<open>
  (C35) The janitor deletes nothing that is live: whatever candidates its scan found, the deletes of a
  chunk leave every string and every set as they are seen from its clock on.
\<close>

theorem janitor_keeps_live:
  assumes "pebble_ok P contents" "deleteIfExpired P base keys now d = (err, d')"
    and "base \<in> {stringPrefix, setMetaPrefix}" "\<forall>key \<in> set keys. \<exists>k. NUL \<notin> set k \<and> key = base @ k"
    and "now \<le> t" "NUL \<notin> set k"
  shows "str_view (contents d') t k = str_view (contents d) t k
     \<and> set_view (contents d') t k = set_view (contents d) t k"
proof -
  from deleteIfExpired_cases [OF assms(1,2)] obtain ops where
    ops: "\<forall>op \<in> set ops. janitor_op (contents d) now base keys op" "contents d' = apply_batch ops (contents d)" .
  show ?thesis using janitor_keeps [OF ops(1) assms(4,3,5,6)] unfolding ops(2) by blast
qed

text \<open>A database with an expired set of one member and a live string.\<close>

definition demo_kv :: "(string \<times> string) list" where
  "demo_kv = [(setMetaKey ''s'', EncodeValue (10 ^ 9) []), (member_key ''s'' ''m'', []),
              (StringKey ''k'', EncodeValue (3 * 10 ^ 9) ''v'')]"

theorem janitor_keeps_live_witness:
  "str_view (map_of (snd (deleteIfExpired list_pebble setMetaPrefix [setMetaKey ''s''] (2 * 10 ^ 9) demo_kv))) (2 * 10 ^ 9) ''k''
     = Some (''v'', 3 * 10 ^ 9)"
proof -
  have "\<forall>key \<in> set [setMetaKey ''s'']. \<exists>k. NUL \<notin> set k \<and> key = setMetaPrefix @ k"
    by (simp add: setMetaKey_def)
  from janitor_keeps_live [OF list_pebble_ok prod.collapse [symmetric] _ this, where t = "2 * 10 ^ 9" and k = "''k''" and now = "2 * 10 ^ 9" and d = demo_kv]
  have "str_view (map_of (snd (deleteIfExpired list_pebble setMetaPrefix [setMetaKey ''s''] (2 * 10 ^ 9) demo_kv))) (2 * 10 ^ 9) ''k''
      = str_view (map_of demo_kv) (2 * 10 ^ 9) ''k''" by simp
  also have "\<dots> = Some (''v'', 3 * 10 ^ 9)"
    by (simp add: demo_kv_def str_view_def Decode_Encode storable_def UnixMilli_def zero_time_def kept_def of_millis_def)
  finally show ?thesis .
qed

text \<open>
  (C36) The set operations are set operations: at the clock of the call, \<open>SAdd\<close> adds its members, \<open>SRem\<close>
  removes them, \<open>SMembers\<close> lists exactly the members, once each, and no other set and no string changes.
\<close>

theorem kv_set_refines:
  assumes "pebble_ok P contents" "NUL \<notin> set k" "NUL \<notin> set k'" "k' \<noteq> k"
  shows "(kv_SAdd P now k xs d = (None, d1) \<longrightarrow>
            set_view (contents d1) now k = set_view (contents d) now k \<union> set xs
          \<and> set_view (contents d1) t k' = set_view (contents d) t k' \<and> str_view (contents d1) t q = str_view (contents d) t q)
       \<and> (kv_SRem P now k xs d = (None, d2) \<longrightarrow>
            set_view (contents d2) now k = set_view (contents d) now k - set xs
          \<and> set_view (contents d2) t k' = set_view (contents d) t k' \<and> str_view (contents d2) t q = str_view (contents d) t q)
       \<and> (kv_SMembers P now d k = Inr ys \<longrightarrow> set ys = set_view (contents d) now k \<and> distinct ys)"
  by (intro conjI impI;
      erule SAdd_ok(1) [OF assms(1) _ assms(2)] SAdd_ok(2) [OF assms(1) _ assms(2,3,4)] SAdd_ok(3) [OF assms(1) _ assms(2)]
        SRem_ok(1) [OF assms(1) _ assms(2)] SRem_ok(2) [OF assms(1) _ assms(2,3,4)] SRem_ok(3) [OF assms(1) _ assms(2)]
        SMembers_ok [OF assms(1), THEN conjunct1] SMembers_ok [OF assms(1), THEN conjunct2])

theorem kv_set_refines_witness:
  "\<exists>d1. kv_SAdd list_pebble 0 ''s'' [''m''] [] = (None, d1) \<and> set_view (map_of d1) 0 ''s'' = {''m''}"
proof -
  obtain d1 where run: "kv_SAdd list_pebble 0 ''s'' [''m''] [] = (None, d1)"
    by (simp add: kv_SAdd_def setLive_def kv_raw_def kv_commit_def list_pebble_def)
  have "set_view (map_of d1) 0 ''s'' = set_view (map_of []) 0 ''s'' \<union> set [''m'']"
    using kv_set_refines [OF list_pebble_ok, of "''s''" "''t''" 0 "[''m'']" "[]" d1 0 _ d1] run by simp
  then show ?thesis using run by (simp add: set_view_def)
qed

text \<open>
  What \<open>Set\<close> writes, \<open>Get\<close> reads back until the time to live runs out, and not after.
\<close>

theorem kv_set_get:
  assumes "pebble_ok P contents" "kv_Set P now key value ttl d = (None, d')"
    and "storable (expiryOf now ttl)" "kv_Get P t d' key = r" "\<nexists>m. r = Inl (KVFailure m)"
  shows "r = (if expiryOf now ttl \<noteq> zero_time \<and> kept (expiryOf now ttl) \<le> t then Inl KVNotFound else Inr value)"
proof -
  have "contents d' = apply_batch [BSet (StringKey key) (EncodeValue (expiryOf now ttl) value)] (contents d)"
    using kv_commit_view [OF assms(1) assms(2) [unfolded kv_Set_def]] by simp
  then have v: "str_view (contents d') t key
      = (if expiryOf now ttl \<noteq> zero_time \<and> kept (expiryOf now ttl) \<le> t then None else Some (value, kept (expiryOf now ttl)))"
    using str_view_set [OF assms(3)] by simp
  obtain x where x: "getString P t d' key = Inr x" using assms(4,5) by (auto simp: kv_Get_def split: sum.splits)
  show ?thesis using assms(4) x getString_view [OF assms(1) x] v by (auto simp: kv_Get_def split: if_splits)
qed

theorem kv_set_get_witness:
  "kv_Get list_pebble (1000000000) (snd (kv_Set list_pebble 0 ''k'' ''v'' (1000000000) [])) ''k'' = Inl KVNotFound
   \<and> kv_Get list_pebble (1000000000 - 1) (snd (kv_Set list_pebble 0 ''k'' ''v'' (1000000000) [])) ''k'' = Inr ''v''"
proof -
  let ?d = "snd (kv_Set list_pebble 0 ''k'' ''v'' (1000000000) [])"
  have run: "kv_Set list_pebble 0 ''k'' ''v'' (1000000000) [] = (None, ?d)"
    by (simp add: kv_Set_def kv_commit_def list_pebble_def)
  have e: "storable (expiryOf 0 (1000000000))" "kept (expiryOf 0 (1000000000)) = 1000000000" "expiryOf 0 (1000000000) \<noteq> zero_time"
    by (simp_all add: expiryOf_def storable_def UnixMilli_def zero_time_def kept_def of_millis_def)
  have "\<nexists>m. kv_Get list_pebble t ?d ''k'' = Inl (KVFailure m)" for t
    by (simp add: kv_Get_def getString_def kv_Set_def kv_commit_def kv_raw_def list_pebble_def Decode_Encode [OF e(1)] split: kv_splits)
  from kv_set_get [OF list_pebble_ok run e(1) refl this] e show ?thesis by simp
qed

end
