(* ===== verification/Charge_Ledger.thy ===== *)
theory Charge_Ledger
  imports Prelude "HOL-Library.AList"
begin

text \<open>
  \<open>ChargeLedger\<close> of \<open>src/transport/redis/charge_ledger.go\<close>: per consumed counter, what was served and
  not written yet. Each method runs under the ledger's mutex, so each is one step. The map of queued
  charges is an association list, whose order is the order \<open>takeAll\<close> ranges over it; the callback
  \<open>written\<close> set by \<open>OnWritten\<close> is an argument of \<open>ledger_commit\<close>.
\<close>

section \<open>State\<close>

record charge =
  ch_Key :: string
  ch_Supplier :: string
  ch_Amount :: int
  ch_TTL :: duration
  ch_attempts :: int

record ledger =
  ld_pending :: "(string \<times> charge) list"
  ld_writing :: "string \<rightharpoonup> int"

definition NewChargeLedger :: ledger where
  "NewChargeLedger = \<lparr>ld_pending = [], ld_writing = Map.empty\<rparr>"

text \<open>Reading a Go map of integers: a missing key reads as zero.\<close>

definition writing_of :: "ledger \<Rightarrow> string \<Rightarrow> int" where
  "writing_of l key = (case ld_writing l key of None \<Rightarrow> 0 | Some x \<Rightarrow> x)"

definition maxPublishAttempts :: int where "maxPublishAttempts = 10"

section \<open>The operations\<close>

definition ledger_Add :: "string \<Rightarrow> string \<Rightarrow> int \<Rightarrow> duration \<Rightarrow> ledger \<Rightarrow> ledger" where
  "ledger_Add key supplier amount ttl l =
     (if amount \<le> 0 then l
      else case map_of (ld_pending l) key of
        Some c \<Rightarrow> l\<lparr>ld_pending := AList.update key (c\<lparr>ch_Amount := i64 (ch_Amount c + amount)\<rparr>) (ld_pending l)\<rparr>
      | None \<Rightarrow> l\<lparr>ld_pending := AList.update key
            \<lparr>ch_Key = key, ch_Supplier = supplier, ch_Amount = amount, ch_TTL = ttl, ch_attempts = 0\<rparr> (ld_pending l)\<rparr>)"

definition Pending :: "ledger \<Rightarrow> string \<Rightarrow> int" where
  "Pending l key =
     (case map_of (ld_pending l) key of
        Some c \<Rightarrow> i64 (writing_of l key + ch_Amount c)
      | None \<Rightarrow> writing_of l key)"

definition ledger_Drop :: "string \<Rightarrow> ledger \<Rightarrow> ledger" where
  "ledger_Drop key l = l\<lparr>ld_pending := AList.delete key (ld_pending l)\<rparr>"

definition finishLocked :: "string \<Rightarrow> int \<Rightarrow> ledger \<Rightarrow> ledger" where
  "finishLocked key amount l =
     (let left = i64 (writing_of l key - amount)
      in if left \<le> 0 then l\<lparr>ld_writing := (ld_writing l)(key := None)\<rparr>
         else l\<lparr>ld_writing := (ld_writing l)(key \<mapsto> left)\<rparr>)"

definition FinishWrite :: "string \<Rightarrow> int \<Rightarrow> ledger \<Rightarrow> ledger" where
  "FinishWrite key amount l = finishLocked key amount l"

definition take_one :: "string \<times> charge \<Rightarrow> ledger \<Rightarrow> ledger" where
  "take_one = (\<lambda>(key, c) l. l\<lparr>ld_writing := (ld_writing l)(key \<mapsto> i64 (writing_of l key + ch_Amount c)),
                               ld_pending := AList.delete key (ld_pending l)\<rparr>)"

definition takeAll :: "ledger \<Rightarrow> charge list \<times> ledger" where
  "takeAll l = (map snd (ld_pending l), foldl (\<lambda>l kc. take_one kc l) l (ld_pending l))"

definition requeueLocked :: "charge \<Rightarrow> ledger \<Rightarrow> ledger" where
  "requeueLocked c l =
     (case map_of (ld_pending l) (ch_Key c) of
        Some cur \<Rightarrow> l\<lparr>ld_pending := AList.update (ch_Key c)
          (cur\<lparr>ch_Amount := i64 (ch_Amount cur + ch_Amount c),
               ch_attempts := (if ch_attempts cur < ch_attempts c then ch_attempts c else ch_attempts cur)\<rparr>)
          (ld_pending l)\<rparr>
      | None \<Rightarrow> l\<lparr>ld_pending := AList.update (ch_Key c) c (ld_pending l)\<rparr>)"

definition untake :: "charge \<Rightarrow> ledger \<Rightarrow> ledger" where
  "untake c l = requeueLocked c (finishLocked (ch_Key c) (ch_Amount c) l)"

definition ledger_retry :: "charge \<Rightarrow> ledger \<Rightarrow> bool \<times> ledger" where
  "ledger_retry c l =
     (let l1 = finishLocked (ch_Key c) (ch_Amount c) l;
          c1 = c\<lparr>ch_attempts := i64 (ch_attempts c + 1)\<rparr>
      in if maxPublishAttempts \<le> ch_attempts c1
         then (False, l1\<lparr>ld_pending := AList.delete (ch_Key c1) (ld_pending l1)\<rparr>)
         else (True, requeueLocked c1 l1))"

definition forget :: "charge \<Rightarrow> ledger \<Rightarrow> ledger" where
  "forget c l = FinishWrite (ch_Key c) (ch_Amount c) l"

definition ledger_commit ::
  "(string \<Rightarrow> int \<Rightarrow> int \<Rightarrow> ledger \<Rightarrow> ledger) option \<Rightarrow> charge \<Rightarrow> int \<Rightarrow> ledger \<Rightarrow> ledger" where
  "ledger_commit written c consumed l =
     (case written of
        None \<Rightarrow> FinishWrite (ch_Key c) (ch_Amount c) l
      | Some fn \<Rightarrow> fn (ch_Key c) (ch_Amount c) consumed l)"

section \<open>Invariant\<close>

text \<open>
  Queued keys are distinct and name their charge, amounts are positive, and no sum of a pair's amounts
  leaves the range of \<open>int64\<close>.
\<close>

definition queued_of :: "ledger \<Rightarrow> string \<Rightarrow> int" where
  "queued_of l key = (case map_of (ld_pending l) key of None \<Rightarrow> 0 | Some c \<Rightarrow> ch_Amount c)"

definition ledger_inv :: "ledger \<Rightarrow> bool" where
  "ledger_inv l =
     (distinct (map fst (ld_pending l))
      \<and> (\<forall>(k, c) \<in> set (ld_pending l). ch_Key c = k \<and> 0 < ch_Amount c)
      \<and> (\<forall>k x. ld_writing l k = Some x \<longrightarrow> 0 < x)
      \<and> (\<forall>k. in_i64 (writing_of l k + queued_of l k)))"

lemma ledger_inv_new: "ledger_inv NewChargeLedger"
  by (simp add: ledger_inv_def NewChargeLedger_def writing_of_def queued_of_def in_i64_def)

lemma writing_nonneg: "ledger_inv l \<Longrightarrow> 0 \<le> writing_of l k"
  by (auto simp: ledger_inv_def writing_of_def split: option.splits) (metis less_imp_le)

lemma queued_nonneg: "ledger_inv l \<Longrightarrow> 0 \<le> queued_of l k"
  by (auto simp: ledger_inv_def queued_of_def split: option.splits dest!: map_of_SomeD)

lemma Pending_sum: "ledger_inv l \<Longrightarrow> Pending l k = writing_of l k + queued_of l k"
  by (auto simp: Pending_def queued_of_def i64_id ledger_inv_def split: option.splits)

section \<open>Nothing served is lost from sight\<close>

lemma delete_head: "distinct (map fst ((k, c) # xs)) \<Longrightarrow> AList.delete k ((k, c) # xs) = xs"
  by (auto simp: AList.delete_eq filter_id_conv image_iff)

lemma queued_Cons: "ld_pending l = (k, c) # xs \<Longrightarrow> queued_of l k = ch_Amount c"
  by (simp add: queued_of_def)

lemma take_one_inv:
  assumes "ledger_inv l" "ld_pending l = (k, c) # xs"
  shows "ledger_inv (take_one (k, c) l)" "ld_pending (take_one (k, c) l) = xs"
    "writing_of (take_one (k, c) l) q + queued_of (take_one (k, c) l) q = writing_of l q + queued_of l q"
proof -
  have inv: "distinct (map fst ((k, c) # xs))" "0 < ch_Amount c" "in_i64 (writing_of l k + ch_Amount c)"
    using assms queued_Cons [OF assms(2)] by (auto simp: ledger_inv_def) (metis)
  show pend: "ld_pending (take_one (k, c) l) = xs"
    using assms(2) delete_head [OF inv(1)] by (simp add: take_one_def)
  have none: "map_of xs k = None" using inv(1) by (simp add: map_of_eq_None_iff)
  have eq: "writing_of (take_one (k, c) l) q + queued_of (take_one (k, c) l) q = writing_of l q + queued_of l q" for q
    using inv(3) none by (simp add: pend queued_of_def assms(2) i64_id) (simp add: take_one_def writing_of_def i64_id inv(3) [unfolded writing_of_def])
  show "writing_of (take_one (k, c) l) q + queued_of (take_one (k, c) l) q = writing_of l q + queued_of l q" by (rule eq)
  show "ledger_inv (take_one (k, c) l)"
    unfolding ledger_inv_def eq pend using assms writing_nonneg [OF assms(1), of k] inv
    by (auto simp: ledger_inv_def take_one_def i64_id)
qed

lemma takeAll_effect:
  assumes "ledger_inv l" "takeAll l = (cs, l')"
  shows "ledger_inv l'" "ld_pending l' = []" "writing_of l' q = writing_of l q + queued_of l q"
    "cs = map snd (ld_pending l)"
proof -
  have "ledger_inv (foldl (\<lambda>l kc. take_one kc l) l (ld_pending l))
      \<and> ld_pending (foldl (\<lambda>l kc. take_one kc l) l (ld_pending l)) = []
      \<and> writing_of (foldl (\<lambda>l kc. take_one kc l) l (ld_pending l)) q = writing_of l q + queued_of l q"
    using assms(1)
  proof (induction "ld_pending l" arbitrary: l)
    case Nil
    then show ?case using Nil.hyps [symmetric] by (simp add: queued_of_def)
  next
    case (Cons kc xs)
    obtain k c where kc: "kc = (k, c)" by (cases kc)
    have p: "ld_pending l = (k, c) # xs" using Cons.hyps(2) kc by simp
    note one = take_one_inv [OF Cons.prems p]
    from Cons.hyps(1) [OF one(2) [symmetric] one(1)] show ?case
      unfolding p one(2) using one(3) [of q] by (simp add: queued_of_def one(2))
  qed
  then show "ledger_inv l'" "ld_pending l' = []" "writing_of l' q = writing_of l q + queued_of l q"
    "cs = map snd (ld_pending l)"
    using assms(2) by (simp_all add: takeAll_def)
qed

lemma queued_requeue:
  assumes "in_i64 (queued_of l (ch_Key c) + ch_Amount c)" "in_i64 (ch_Amount c)"
  shows "queued_of (requeueLocked c l) q = queued_of l q + (if q = ch_Key c then ch_Amount c else 0)"
    "writing_of (requeueLocked c l) q = writing_of l q"
  using assms by (auto simp: requeueLocked_def queued_of_def writing_of_def update_conv i64_id split: option.splits)

lemma writing_finish:
  assumes "0 \<le> amount" "amount \<le> writing_of l key" "in_i64 (writing_of l key)"
  shows "writing_of (finishLocked key amount l) q = writing_of l q - (if q = key then amount else 0)"
    "ld_pending (finishLocked key amount l) = ld_pending l"
proof -
  have "in_i64 (writing_of l key - amount)" using assms by (simp add: in_i64_def)
  then show "writing_of (finishLocked key amount l) q = writing_of l q - (if q = key then amount else 0)"
    using assms(2) by (auto simp: finishLocked_def Let_def i64_id) (auto simp: writing_of_def)
  show "ld_pending (finishLocked key amount l) = ld_pending l" by (simp add: finishLocked_def Let_def)
qed

text \<open>What a list of charges adds up to for a counter.\<close>

definition amount_in :: "charge list \<Rightarrow> string \<Rightarrow> int" where
  "amount_in cs q = sum_list (map (\<lambda>c. if ch_Key c = q then ch_Amount c else 0) cs)"

lemma amount_in_simps [simp]:
  "amount_in [] q = 0"
  "amount_in (c # cs) q = (if ch_Key c = q then ch_Amount c else 0) + amount_in cs q"
  by (simp_all add: amount_in_def)

lemma amount_in_nonneg: "\<forall>c \<in> set cs. 0 < ch_Amount c \<Longrightarrow> 0 \<le> amount_in cs q"
  by (induction cs) auto

lemma amount_in_queued:
  assumes "ledger_inv l"
  shows "amount_in (map snd (ld_pending l)) q = queued_of l q"
proof -
  have "distinct (map fst xs) \<Longrightarrow> \<forall>(k, c) \<in> set xs. ch_Key c = k \<Longrightarrow>
      amount_in (map snd xs) q = (case map_of xs q of None \<Rightarrow> 0 | Some c \<Rightarrow> ch_Amount c)" for xs
  proof (induction xs)
    case (Cons x xs)
    obtain k c where x: "x = (k, c)" by (cases x)
    have "map_of xs k = None" using Cons.prems(1) x by (simp add: map_of_eq_None_iff)
    then show ?case using Cons x by (auto split: option.splits)
  qed simp
  then show ?thesis using assms by (auto simp: ledger_inv_def queued_of_def)
qed

lemma untake_all:
  assumes "\<forall>c \<in> set cs. 0 < ch_Amount c" "\<forall>q. amount_in cs q \<le> writing_of l q"
    "\<forall>q. 0 \<le> queued_of l q" "\<forall>q. in_i64 (writing_of l q + queued_of l q)"
  shows "writing_of (foldl (\<lambda>l c. untake c l) l cs) q = writing_of l q - amount_in cs q
       \<and> queued_of (foldl (\<lambda>l c. untake c l) l cs) q = queued_of l q + amount_in cs q"
  using assms
proof (induction cs arbitrary: l)
  case Nil
  then show ?case by simp
next
  case (Cons c cs)
  let ?k = "ch_Key c" and ?a = "ch_Amount c"
  have nn: "0 \<le> amount_in cs q" for q using amount_in_nonneg Cons.prems(1) by simp
  have a: "0 < ?a" "?a \<le> writing_of l ?k"
    using Cons.prems(1,2) nn [of ?k] by simp (use Cons.prems(2)[rule_format, of ?k] nn [of ?k] in simp)
  have r: "in_i64 (writing_of l ?k)" "in_i64 (queued_of l ?k + ?a)" "in_i64 ?a"
    using a Cons.prems(3,4)[rule_format, of ?k] by (auto simp: in_i64_def)
  have w: "writing_of (untake c l) q = writing_of l q - (if q = ?k then ?a else 0)" for q
    using writing_finish(1) [of ?a l ?k q] queued_requeue(2) [of "finishLocked ?k ?a l" c q] a r
    by (simp add: untake_def queued_of_def finishLocked_def Let_def)
  have p: "queued_of (finishLocked ?k ?a l) q = queued_of l q" for q by (simp add: queued_of_def finishLocked_def Let_def)
  have qd: "queued_of (untake c l) q = queued_of l q + (if q = ?k then ?a else 0)" for q
    using queued_requeue(1) [of "finishLocked ?k ?a l" c q] r by (simp add: untake_def p)
  have le: "amount_in cs q \<le> writing_of (untake c l) q" for q
    using Cons.prems(2)[rule_format, of q] by (auto simp: w split: if_splits)
  have "writing_of (foldl (\<lambda>l c. untake c l) (untake c l) cs) q = writing_of (untake c l) q - amount_in cs q
       \<and> queued_of (foldl (\<lambda>l c. untake c l) (untake c l) cs) q = queued_of (untake c l) q + amount_in cs q"
  proof (rule Cons.IH)
    show "\<forall>c \<in> set cs. 0 < ch_Amount c" using Cons.prems(1) by simp
    show "\<forall>q. amount_in cs q \<le> writing_of (untake c l) q" using le by blast
    show "\<forall>q. 0 \<le> queued_of (untake c l) q" using Cons.prems(3) a(1) by (simp add: qd)
    show "\<forall>q. in_i64 (writing_of (untake c l) q + queued_of (untake c l) q)" using Cons.prems(4) by (simp add: w qd)
  qed
  then show ?case by (auto simp: w qd)
qed

lemma commit_all:
  assumes "\<forall>c \<in> set cs. 0 < ch_Amount c" "\<forall>q. amount_in cs q \<le> writing_of l q" "\<forall>q. in_i64 (writing_of l q)"
  shows "writing_of (foldl (\<lambda>l (c, n). ledger_commit None c n l) l (zip cs ns)) q
       = writing_of l q - amount_in (take (length ns) cs) q
       \<and> queued_of (foldl (\<lambda>l (c, n). ledger_commit None c n l) l (zip cs ns)) q = queued_of l q"
  using assms
proof (induction cs arbitrary: l ns)
  case Nil
  then show ?case by simp
next
  case (Cons c cs)
  show ?case
  proof (cases ns)
    case Nil
    then show ?thesis by simp
  next
    case (Cons n ns')
    let ?k = "ch_Key c" and ?a = "ch_Amount c" and ?l = "ledger_commit None c n l"
    have nn: "0 \<le> amount_in cs q" for q using amount_in_nonneg Cons.prems(1) by simp
    have a: "0 < ?a" "?a \<le> writing_of l ?k"
      using Cons.prems(1) apply simp
      using Cons.prems(2)[rule_format, of ?k] nn [of ?k] by simp
    have w: "writing_of ?l q = writing_of l q - (if q = ?k then ?a else 0)" for q
      using writing_finish(1) [of ?a l ?k q] a Cons.prems(3) by (simp add: ledger_commit_def FinishWrite_def)
    have qd: "queued_of ?l q = queued_of l q" for q
      by (simp add: ledger_commit_def FinishWrite_def queued_of_def finishLocked_def Let_def)
    have le: "amount_in cs q \<le> writing_of ?l q" for q
      using Cons.prems(2)[rule_format, of q] by (auto simp: w split: if_splits)
    have "in_i64 (writing_of ?l q)" for q
      using Cons.prems(3)[rule_format, of q] a by (auto simp: w in_i64_def)
    then show ?thesis using Cons.IH [of ?l ns'] Cons.prems(1) le \<open>ns = n # ns'\<close> by (auto simp: w qd)
  qed
qed

end
