(* ===== verification/Pebble_Queue.thy ===== *)
theory Pebble_Queue
  imports KV_Pebble Charge_Ledger Pebble_Mem
begin

text \<open>
  The relay queue of the standalone process, \<open>src/transport/pebblequeue\<close>: the broker that mints entry
  IDs and commits entries together with the meter charges, and the consumer that delivers, takes back and
  acknowledges them, over the database of \<open>Pebble_DB\<close>. Each method runs under its mutex, so each is one
  step. The protobuf decoder of an entry is a parameter; goroutines, channels and timers are not
  modelled: what the delivery loop does with a batch it could not hand over is \<open>putBack\<close>.
\<close>

section \<open>IDs and keys\<close>

definition entryPrefix :: string where "entryPrefix = ''q'' @ [NUL]"
definition lastIDPrefix :: string where "lastIDPrefix = ''qlast'' @ [NUL]"
definition probeKey :: string where "probeKey = ''qprobe''"
definition idLen :: nat where "idLen = 16"

definition entryPrefixOf :: "string \<Rightarrow> string" where
  "entryPrefixOf stream = entryPrefix @ stream @ [NUL]"

definition encodeID :: "uint64 \<Rightarrow> uint64 \<Rightarrow> string" where
  "encodeID ms seq = be_bytes ms @ be_bytes seq"

definition entryKey :: "string \<Rightarrow> uint64 \<Rightarrow> uint64 \<Rightarrow> string" where
  "entryKey stream ms seq = entryPrefixOf stream @ encodeID ms seq"

definition lastIDKey :: "string \<Rightarrow> string" where
  "lastIDKey stream = lastIDPrefix @ stream"

definition formatID :: "uint64 \<Rightarrow> uint64 \<Rightarrow> string" where
  "formatID ms seq = FormatUint ms @ ''-'' @ FormatUint seq"

definition malformed :: "string \<Rightarrow> string" where
  "malformed mid = ''pebblequeue: malformed id '' @ mid"

definition parseID :: "string \<Rightarrow> (string, uint64 \<times> uint64) result" where
  "parseID mid =
     (case Cut mid (CHR ''-'') of
        None \<Rightarrow> Inl (malformed mid)
      | Some (msPart, seqPart) \<Rightarrow>
         (case ParseUint msPart of
            None \<Rightarrow> Inl (malformed mid)
          | Some ms \<Rightarrow> (case ParseUint seqPart of None \<Rightarrow> Inl (malformed mid) | Some seq \<Rightarrow> Inr (ms, seq))))"

definition idOfKey :: "string \<Rightarrow> string \<Rightarrow> string option" where
  "idOfKey prefix key =
     (if \<not> HasPrefix key prefix \<or> length key \<noteq> length prefix + idLen then None
      else let raw = drop (length prefix) key
           in Some (formatID (be_uint64 (take 8 raw)) (be_uint64 (drop 8 raw))))"

text \<open>\<open>prefixEnd\<close> is the loop of \<open>keyUpperBound\<close>.\<close>

definition prefixEnd :: "string \<Rightarrow> string option" where
  "prefixEnd prefix = keyUpperBound prefix"

section \<open>The broker\<close>

record stream =
  lastMS :: uint64
  lastSeq :: uint64

record 'd broker =
  b_db :: 'd
  b_streams :: "string \<rightharpoonup> stream"
  b_ledger :: "ledger option"
  commitErr :: "string option"
  lastProbe :: time
  probeInterval :: duration

definition defaultProbeInterval :: duration where "defaultProbeInterval = 10 ^ 9"

definition NewBroker :: "'d \<Rightarrow> 'd broker" where
  "NewBroker d = \<lparr>b_db = d, b_streams = Map.empty, b_ledger = None, commitErr = None,
                  lastProbe = zero_time, probeInterval = defaultProbeInterval\<rparr>"

definition streamLocked :: "'d pebble \<Rightarrow> string \<Rightarrow> 'd broker \<Rightarrow> (string, stream) result \<times> 'd broker" where
  "streamLocked P name b =
     (case b_streams b name of
        Some st \<Rightarrow> (Inr st, b)
      | None \<Rightarrow>
         (case db_Get P (b_db b) (lastIDKey name) of
            Inl m \<Rightarrow> (Inl (''pebblequeue: read last id of '' @ name @ '': '' @ m), b)
          | Inr value \<Rightarrow>
              let st = (case value of
                          Some v \<Rightarrow> if length v = idLen
                                    then \<lparr>lastMS = be_uint64 (take 8 v), lastSeq = be_uint64 (drop 8 v)\<rparr>
                                    else \<lparr>lastMS = 0, lastSeq = 0\<rparr>
                        | None \<Rightarrow> \<lparr>lastMS = 0, lastSeq = 0\<rparr>)
              in (Inr st, b\<lparr>b_streams := (b_streams b)(name \<mapsto> st)\<rparr>)))"

definition stream_next :: "time \<Rightarrow> stream \<Rightarrow> (uint64 \<times> uint64) \<times> stream" where
  "stream_next now st =
     (let ms = word_of_int (UnixMilli now);
          (ms, seq) = (if ms \<le> lastMS st then (lastMS st, lastSeq st + 1) else (ms, 0))
      in ((ms, seq), st\<lparr>lastMS := ms, lastSeq := seq\<rparr>))"

definition lastID :: "stream \<Rightarrow> string" where
  "lastID st = (if lastMS st = 0 \<and> lastSeq st = 0 then [] else formatID (lastMS st) (lastSeq st))"

definition noteCommit :: "string option \<Rightarrow> 'd broker \<Rightarrow> 'd broker" where
  "noteCommit err b = b\<lparr>commitErr := err\<rparr>"

text \<open>A counter and its expiry, at zero when the key is absent or expired.\<close>

definition counterLocked :: "'d pebble \<Rightarrow> string \<Rightarrow> time \<Rightarrow> 'd \<Rightarrow> (string, int \<times> time) result" where
  "counterLocked P key now d =
     (case db_Get P d (StringKey key) of
        Inl m \<Rightarrow> Inl (''pebblequeue: read counter: '' @ m)
      | Inr None \<Rightarrow> Inr (0, zero_time)
      | Inr (Some raw) \<Rightarrow>
         (case DecodeValue raw now of
            Inl m \<Rightarrow> Inl (''pebblequeue: counter '' @ key @ '': '' @ m)
          | Inr (value, expiry, expired) \<Rightarrow>
              if expired then Inr (0, zero_time)
              else (case ParseInt value of
                      None \<Rightarrow> Inl (''pebblequeue: counter '' @ key @ '' is not an integer'')
                    | Some n \<Rightarrow> Inr (n, expiry))))"

text \<open>The writes of the charges, and the value each counter gets.\<close>

fun charge_writes :: "'d pebble \<Rightarrow> time \<Rightarrow> 'd \<Rightarrow> charge list \<Rightarrow> (string, (batch_op \<times> int) list) result" where
  "charge_writes P now d [] = Inr []"
| "charge_writes P now d (c # cs) =
     (case counterLocked P (ch_Key c) now d of
        Inl m \<Rightarrow> Inl m
      | Inr (current, expiry) \<Rightarrow>
          let expiry = (if expiry = zero_time \<and> 0 < ch_TTL c then now + ch_TTL c else expiry);
              consumed = i64 (current + ch_Amount c)
          in case charge_writes P now d cs of
               Inl m \<Rightarrow> Inl m
             | Inr ws \<Rightarrow> Inr ((BSet (StringKey (ch_Key c)) (EncodeValue expiry (FormatInt consumed)), consumed) # ws))"

definition untake_charges :: "charge list \<Rightarrow> 'd broker \<Rightarrow> 'd broker" where
  "untake_charges cs b = b\<lparr>b_ledger := map_option (\<lambda>l. foldl (\<lambda>l c. untake c l) l cs) (b_ledger b)\<rparr>"

text \<open>\<open>fill\<close> is what the caller writes, \<open>written\<close> the ledger's callback.\<close>

definition commitWithCharges ::
  "'d pebble \<Rightarrow> (string \<Rightarrow> int \<Rightarrow> int \<Rightarrow> ledger \<Rightarrow> ledger) option \<Rightarrow> time \<Rightarrow> batch_op list option \<Rightarrow> 'd broker
   \<Rightarrow> string option \<times> 'd broker" where
  "commitWithCharges P written now fill b =
     (let (charges, b) = (case b_ledger b of
                            None \<Rightarrow> ([], b)
                          | Some l \<Rightarrow> (case takeAll l of (cs, l') \<Rightarrow> (cs, b\<lparr>b_ledger := Some l'\<rparr>)))
      in if fill = None \<and> charges = [] then (None, b)
         else case charge_writes P now (b_db b) charges of
           Inl m \<Rightarrow> (Some m, noteCommit (Some m) (untake_charges charges b))
         | Inr ws \<Rightarrow>
            (case db_Commit P ((case fill of None \<Rightarrow> [] | Some ops \<Rightarrow> ops) @ map fst ws) (b_db b) of
               (Some m, d') \<Rightarrow> (Some m, noteCommit (Some m) (untake_charges charges (b\<lparr>b_db := d'\<rparr>)))
             | (None, d') \<Rightarrow>
                 (None, noteCommit None
                    (b\<lparr>b_db := d',
                       b_ledger := map_option (\<lambda>l. foldl (\<lambda>l (c, n). ledger_commit written c n l) l (zip charges (map snd ws)))
                                     (b_ledger b)\<rparr>))))"

text \<open>The clock is read when the ID is minted and when the charges are written.\<close>

definition publish ::
  "'d pebble \<Rightarrow> (string \<Rightarrow> int \<Rightarrow> int \<Rightarrow> ledger \<Rightarrow> ledger) option \<Rightarrow> time \<Rightarrow> time \<Rightarrow> string \<Rightarrow> string \<Rightarrow> 'd broker
   \<Rightarrow> string option \<times> 'd broker" where
  "publish P written now1 now2 name data b =
     (case streamLocked P name b of
        (Inl m, b) \<Rightarrow> (Some m, noteCommit (Some m) b)
      | (Inr st, b) \<Rightarrow>
          let ((ms, seq), st') = stream_next now1 st
          in case commitWithCharges P written now2
                    (Some [BSet (entryKey name ms seq) data, BSet (lastIDKey name) (encodeID ms seq)])
                    (b\<lparr>b_streams := (b_streams b)(name \<mapsto> st')\<rparr>) of
               (Some m, b) \<Rightarrow> (Some m, b\<lparr>b_streams := (b_streams b)(name \<mapsto> st)\<rparr>)
             | (None, b) \<Rightarrow> (None, b))"

definition flushCharges ::
  "'d pebble \<Rightarrow> (string \<Rightarrow> int \<Rightarrow> int \<Rightarrow> ledger \<Rightarrow> ledger) option \<Rightarrow> time \<Rightarrow> 'd broker \<Rightarrow> string option \<times> 'd broker" where
  "flushCharges P written now b = (if b_ledger b = None then (None, b) else commitWithCharges P written now None b)"

definition SetChargeLedger :: "ledger \<Rightarrow> 'd broker \<Rightarrow> 'd broker" where
  "SetChargeLedger l b = b\<lparr>b_ledger := Some l\<rparr>"

datatype publish_error = PublishRejected string | ErrClosed | PublishFailed string

text \<open>
  \<open>Publish\<close> of an entry \<open>PrepareEntry\<close> accepted or refused. \<open>Publisher.Close\<close> writes the charges left.
\<close>

definition Publish ::
  "'d pebble \<Rightarrow> (string \<Rightarrow> int \<Rightarrow> int \<Rightarrow> ledger \<Rightarrow> ledger) option \<Rightarrow> time \<Rightarrow> time \<Rightarrow> (string, string \<times> string) result \<Rightarrow> bool
   \<Rightarrow> 'd broker \<Rightarrow> publish_error option \<times> 'd broker" where
  "Publish P written now1 now2 prepared is_closed b =
     (case prepared of
        Inl m \<Rightarrow> (Some (PublishRejected m), b)
      | Inr (name, data) \<Rightarrow>
          if is_closed then (Some ErrClosed, b)
          else case publish P written now1 now2 name data b of
            (Some m, b) \<Rightarrow> (Some (PublishFailed m), b)
          | (None, b) \<Rightarrow> (None, b))"

definition commitHealth :: "time \<Rightarrow> 'd broker \<Rightarrow> (bool \<times> string option) \<times> 'd broker" where
  "commitHealth now b =
     (if commitErr b = None \<or> now = zero_time \<or> time_sub now (lastProbe b) < probeInterval b
      then ((False, commitErr b), b)
      else ((True, commitErr b), b\<lparr>lastProbe := now\<rparr>))"

definition DispatcherHealthy ::
  "'d pebble \<Rightarrow> (string \<Rightarrow> int \<Rightarrow> int \<Rightarrow> ledger \<Rightarrow> ledger) option \<Rightarrow> time \<Rightarrow> time \<Rightarrow> 'd broker \<Rightarrow> string option \<times> 'd broker" where
  "DispatcherHealthy P written now1 now2 b =
     (case commitHealth now1 b of
        ((probe, err), b) \<Rightarrow>
          if probe then
            let b = snd (commitWithCharges P written now2 (Some [BSet probeKey []]) b)
            in (snd (fst (commitHealth zero_time b)), b)
          else (err, b))"

section \<open>The consumer\<close>

record 'm StreamMessage =
  sm_ID :: string
  sm_StreamName :: string
  sm_Message :: 'm
  IsReclaim :: bool

text \<open>Delivery holds: the cursor, the entries delivered and not settled, the entries handed back.\<close>

record consumer =
  c_stream :: string
  releaseDelay :: duration
  cursor :: "string option"
  c_pending :: "string list"
  released :: "(string \<times> time) list"
  c_closed :: bool

definition readBatch :: nat where "readBatch = 256"
definition defaultReleaseDelay :: duration where "defaultReleaseDelay = 30 * 10 ^ 9"

definition SupplierStreamName :: "string \<Rightarrow> string \<Rightarrow> string" where
  "SupplierStreamName prefix supplier = prefix @ '':'' @ supplier"

definition Broker_Consumer ::
  "'d pebble \<Rightarrow> string \<Rightarrow> string \<Rightarrow> int \<Rightarrow> 'd broker \<Rightarrow> (string, consumer) result \<times> 'd broker" where
  "Broker_Consumer P streamPrefix supplier claimIdleTimeout b =
     (let name = SupplierStreamName streamPrefix supplier
      in case streamLocked P name b of
           (Inl m, b) \<Rightarrow> (Inl m, b)
         | (Inr _, b) \<Rightarrow>
             let delay = i64 (claimIdleTimeout * 10 ^ 6);
                 delay = (if delay \<le> 0 then defaultReleaseDelay else delay)
             in (Inr \<lparr>c_stream = name, releaseDelay = delay, cursor = None, c_pending = [], released = [],
                      c_closed = False\<rparr>, b))"

abbreviation c_prefix :: "consumer \<Rightarrow> string" where
  "c_prefix c \<equiv> entryPrefixOf (c_stream c)"

definition consumer_key :: "consumer \<Rightarrow> string \<Rightarrow> (string, string) result" where
  "consumer_key c mid =
     (case parseID mid of Inl m \<Rightarrow> Inl m | Inr (ms, seq) \<Rightarrow> Inr (c_prefix c @ be_bytes ms @ be_bytes seq))"

text \<open>Go's \<open>delete\<close> and insertion on the set of pending IDs.\<close>

definition forget_id :: "string \<Rightarrow> consumer \<Rightarrow> consumer" where
  "forget_id mid c = c\<lparr>c_pending := removeAll mid (c_pending c)\<rparr>"

definition hold_id :: "string \<Rightarrow> consumer \<Rightarrow> consumer" where
  "hold_id mid c = c\<lparr>c_pending := List.insert mid (c_pending c)\<rparr>"

definition dropUndecodable :: "'d pebble \<Rightarrow> string \<Rightarrow> consumer \<Rightarrow> 'd \<Rightarrow> consumer \<times> 'd" where
  "dropUndecodable P mid c d =
     (case consumer_key c mid of
        Inl _ \<Rightarrow> (c, d)
      | Inr key \<Rightarrow> (forget_id mid c, snd (db_Commit P [BDelete key] d)))"

definition message :: "consumer \<Rightarrow> string \<Rightarrow> bool \<Rightarrow> 'm \<Rightarrow> 'm StreamMessage" where
  "message c mid reclaim m = \<lparr>sm_ID = mid, sm_StreamName = c_stream c, sm_Message = m, IsReclaim = reclaim\<rparr>"

text \<open>One entry by ID, delivered again as a reclaim; \<open>None\<close> when it is no longer there.\<close>

definition readLocked ::
  "'d pebble \<Rightarrow> (string \<Rightarrow> 'm option) \<Rightarrow> string \<Rightarrow> consumer \<Rightarrow> 'd
   \<Rightarrow> (string, 'm StreamMessage option) result \<times> consumer \<times> 'd" where
  "readLocked P dec mid c d =
     (case consumer_key c mid of
        Inl _ \<Rightarrow> (Inr None, c, d)
      | Inr key \<Rightarrow>
         (case db_Get P d key of
            Inl m \<Rightarrow> (Inl (''pebblequeue: read '' @ mid @ '': '' @ m), c, d)
          | Inr None \<Rightarrow> (Inr None, c, d)
          | Inr (Some value) \<Rightarrow>
             (case dec value of
                None \<Rightarrow> (case dropUndecodable P mid c d of (c, d) \<Rightarrow> (Inr None, c, d))
              | Some m \<Rightarrow> (Inr (Some (message c mid True m)), c, d))))"

text \<open>The next due time: the earliest of the released entries not yet due.\<close>

definition sooner :: "time option \<Rightarrow> time \<Rightarrow> time option" where
  "sooner nextDue due = (case nextDue of None \<Rightarrow> Some due | Some t \<Rightarrow> Some (if due < t then due else t))"

fun take_released ::
  "'d pebble \<Rightarrow> (string \<Rightarrow> 'm option) \<Rightarrow> time \<Rightarrow> (string \<times> time) list \<Rightarrow> 'm StreamMessage list \<Rightarrow> time option
   \<Rightarrow> consumer \<Rightarrow> 'd \<Rightarrow> string option \<times> 'm StreamMessage list \<times> time option \<times> consumer \<times> 'd" where
  "take_released P dec now [] out nextDue c d = (None, out, nextDue, c, d)"
| "take_released P dec now ((mid, due) # rest) out nextDue c d =
     (if now < due then
        take_released P dec now rest out (sooner nextDue due) (c\<lparr>released := released c @ [(mid, due)]\<rparr>) d
      else case readLocked P dec mid c d of
        (Inl m, c, d) \<Rightarrow> (Some m, out, nextDue, c\<lparr>released := released c @ (mid, due) # rest\<rparr>, d)
      | (Inr None, c, d) \<Rightarrow> take_released P dec now rest out nextDue c d
      | (Inr (Some msg), c, d) \<Rightarrow> take_released P dec now rest (out @ [msg]) nextDue (hold_id mid c) d)"

text \<open>The entries after the cursor, at most \<open>readBatch\<close> messages in all; the iterator is a snapshot.\<close>

fun take_live ::
  "'d pebble \<Rightarrow> (string \<Rightarrow> 'm option) \<Rightarrow> (string \<times> string) list \<Rightarrow> 'm StreamMessage list \<Rightarrow> consumer \<Rightarrow> 'd
   \<Rightarrow> 'm StreamMessage list \<times> consumer \<times> 'd" where
  "take_live P dec [] out c d = (out, c, d)"
| "take_live P dec ((key, value) # kvs) out c d =
     (if readBatch \<le> length out then (out, c, d)
      else let c = c\<lparr>cursor := Some key\<rparr>
           in case idOfKey (c_prefix c) key of
                None \<Rightarrow> take_live P dec kvs out c d
              | Some mid \<Rightarrow>
                 (case dec value of
                    None \<Rightarrow> (case dropUndecodable P mid c d of (c, d) \<Rightarrow> take_live P dec kvs out c d)
                  | Some m \<Rightarrow> take_live P dec kvs (out @ [message c mid False m]) (hold_id mid c) d))"

definition nextBatch ::
  "'d pebble \<Rightarrow> (string \<Rightarrow> 'm option) \<Rightarrow> time \<Rightarrow> consumer \<Rightarrow> 'd
   \<Rightarrow> string option \<times> 'm StreamMessage list \<times> time option \<times> consumer \<times> 'd" where
  "nextBatch P dec now c d =
     (case take_released P dec now (released c) [] None (c\<lparr>released := []\<rparr>) d of
        (Some m, out, nextDue, c, d) \<Rightarrow> (Some m, out, nextDue, c, d)
      | (None, out, nextDue, c, d) \<Rightarrow>
          let lower = (case cursor c of None \<Rightarrow> c_prefix c | Some k \<Rightarrow> k @ [NUL])
          in case db_Iter P d lower (prefixEnd (c_prefix c)) of
               Inl m \<Rightarrow> (Some (''pebblequeue: iterate: '' @ m), out, nextDue, c, d)
             | Inr kvs \<Rightarrow> (case take_live P dec kvs out c d of (out, c, d) \<Rightarrow> (None, out, nextDue, c, d)))"

definition putBack :: "'m StreamMessage list \<Rightarrow> consumer \<Rightarrow> consumer" where
  "putBack msgs c =
     foldl (\<lambda>c m. (forget_id (sm_ID m) c)\<lparr>released := released c @ [(sm_ID m, zero_time)]\<rparr>) c msgs"

definition checkOpen :: "'m StreamMessage \<Rightarrow> consumer \<Rightarrow> string option" where
  "checkOpen msg c =
     (if c_closed c then Some ''consumer is closed''
      else if sm_StreamName msg = [] then Some ''message missing stream name'' else None)"

definition AckMessage :: "'d pebble \<Rightarrow> 'm StreamMessage \<Rightarrow> consumer \<Rightarrow> 'd \<Rightarrow> string option \<times> consumer \<times> 'd" where
  "AckMessage P msg c d =
     (case checkOpen msg c of
        Some m \<Rightarrow> (Some m, c, d)
      | None \<Rightarrow>
         (case consumer_key c (sm_ID msg) of
            Inl m \<Rightarrow> (Some m, c, d)
          | Inr key \<Rightarrow>
             (case db_Commit P [BDelete key] d of
                (Some m, d') \<Rightarrow> (Some (''failed to ack+delete message '' @ sm_ID msg @ '': '' @ m), c, d')
              | (None, d') \<Rightarrow> (None, forget_id (sm_ID msg) c, d'))))"

definition ReleaseMessage :: "time \<Rightarrow> 'm StreamMessage \<Rightarrow> consumer \<Rightarrow> string option \<times> consumer" where
  "ReleaseMessage now msg c =
     (case checkOpen msg c of
        Some m \<Rightarrow> (Some m, c)
      | None \<Rightarrow> (None, (forget_id (sm_ID msg) c)\<lparr>released := released c @ [(sm_ID msg, now + releaseDelay c)]\<rparr>))"

text \<open>The deletes that acknowledge IDs, for a caller's batch, and what follows its commit.\<close>

definition AckInBatch :: "consumer \<Rightarrow> string list \<Rightarrow> batch_op list" where
  "AckInBatch c ids = concat (map (\<lambda>mid. case consumer_key c mid of Inl _ \<Rightarrow> [] | Inr key \<Rightarrow> [BDelete key]) ids)"

definition Acked :: "string list \<Rightarrow> consumer \<Rightarrow> consumer" where
  "Acked ids c = foldl (\<lambda>c mid. forget_id mid c) c ids"

definition consumer_Exists :: "'d pebble \<Rightarrow> consumer \<Rightarrow> 'd \<Rightarrow> string \<Rightarrow> (string, bool) result" where
  "consumer_Exists P c d mid =
     (case consumer_key c mid of
        Inl m \<Rightarrow> Inl m
      | Inr key \<Rightarrow> (case db_Get P d key of Inl m \<Rightarrow> Inl m | Inr v \<Rightarrow> Inr (v \<noteq> None)))"

definition id_le :: "string \<Rightarrow> string \<Rightarrow> bool" where
  "id_le a b =
     (let val = (\<lambda>mid. case parseID mid of Inl _ \<Rightarrow> (0, 0) | Inr x \<Rightarrow> x); (mi, si) = val a; (mj, sj) = val b
      in mi < mj \<or> mi = mj \<and> si \<le> sj)"

fun insert_id :: "string \<Rightarrow> string list \<Rightarrow> string list" where
  "insert_id mid [] = [mid]"
| "insert_id mid (x # xs) = (if id_le mid x then mid # x # xs else x # insert_id mid xs)"

definition sortIDs :: "string list \<Rightarrow> string list" where
  "sortIDs ids = foldr insert_id ids []"

fun each_pending ::
  "'d pebble \<Rightarrow> (string \<Rightarrow> 'm option) \<Rightarrow> string list \<Rightarrow> 'm StreamMessage list \<Rightarrow> string option \<Rightarrow> consumer \<Rightarrow> 'd
   \<Rightarrow> string option \<times> 'm StreamMessage list \<times> consumer \<times> 'd" where
  "each_pending P dec [] msgs err c d = (err, msgs, c, d)"
| "each_pending P dec (mid # ids) msgs err c d =
     (case readLocked P dec mid c d of
        (Inl m, c, d) \<Rightarrow> each_pending P dec ids msgs (Some m) c d
      | (Inr None, c, d) \<Rightarrow> each_pending P dec ids msgs err (forget_id mid c) d
      | (Inr (Some msg), c, d) \<Rightarrow> each_pending P dec ids (msgs @ [msg]) err (hold_id mid c) d)"

definition EachOwnPending ::
  "'d pebble \<Rightarrow> (string \<Rightarrow> 'm option) \<Rightarrow> consumer \<Rightarrow> 'd \<Rightarrow> string option \<times> 'm StreamMessage list \<times> consumer \<times> 'd" where
  "EachOwnPending P dec c d = each_pending P dec (sortIDs (c_pending c)) [] None c d"

definition LastGeneratedID :: "consumer \<Rightarrow> 'd broker \<Rightarrow> string" where
  "LastGeneratedID c b = (case b_streams b (c_stream c) of None \<Rightarrow> [] | Some st \<Rightarrow> lastID st)"

definition TrimStream :: "'d pebble \<Rightarrow> time \<Rightarrow> duration \<Rightarrow> consumer \<Rightarrow> 'd \<Rightarrow> (string, nat) result \<times> consumer \<times> 'd" where
  "TrimStream P now maxAge c d =
     (if c_closed c then (Inr 0, c, d)
      else
        let upper = c_prefix c @ encodeID (word_of_int (UnixMilli (now - maxAge))) 0
        in case db_Iter P d (c_prefix c) (Some upper) of
             Inl m \<Rightarrow> (Inl m, c, d)
           | Inr kvs \<Rightarrow>
               let ids = List.map_filter (\<lambda>(key, _). idOfKey (c_prefix c) key) kvs;
                   c = foldl (\<lambda>c mid. forget_id mid c) c ids
               in if ids = [] then (Inr 0, c, d)
                  else case db_Commit P [BDeleteRange (c_prefix c) (Some upper)] d of
                    (Some m, d') \<Rightarrow> (Inl m, c, d')
                  | (None, d') \<Rightarrow> (Inr (length ids), c, d'))"

definition consumer_Close :: "consumer \<Rightarrow> consumer" where
  "consumer_Close c = c\<lparr>c_closed := True\<rparr>"

end
