(* ===== verification/Pebble_Commit.thy ===== *)
theory Pebble_Commit
  imports Pebble_Sessions Pebble_Queue
begin

text \<open>
  The duplicate marks and the batch commit of the standalone process, from
  \<open>src/miner/pebble_backend.go\<close> and \<open>src/miner/deduplicator.go\<close>: one mark per session and relay hash, with a
  lifetime that slides with every mark, and the commit that marks, counts and acknowledges a session's relays
  in one batch. Every operation holds the backend's mutex. The relay queue's consumer is that of \<open>Pebble_Queue\<close>.
\<close>

section \<open>Configuration and keys\<close>

record DeduplicatorConfig =
  TTLBlocks :: int
  BlockTimeSeconds :: int

definition DefaultBlockTimeSeconds :: int where "DefaultBlockTimeSeconds = 30"

definition withDefaults :: "DeduplicatorConfig \<Rightarrow> DeduplicatorConfig" where
  "withDefaults c =
     (let c = (if TTLBlocks c = 0 then c\<lparr>TTLBlocks := 10\<rparr> else c)
      in if BlockTimeSeconds c = 0 then c\<lparr>BlockTimeSeconds := DefaultBlockTimeSeconds\<rparr> else c)"

definition dedup_ttl :: "DeduplicatorConfig \<Rightarrow> duration" where
  "dedup_ttl c = i64 (i64 (TTLBlocks c * BlockTimeSeconds c) * 10 ^ 9)"

definition pebbleDedupPrefix :: string where "pebbleDedupPrefix = ''mdedup'' @ [NUL]"
definition pebbleDedupTTLPrefix :: string where "pebbleDedupTTLPrefix = ''mdedupx'' @ [NUL]"

definition dedupSessionPrefix :: "string \<Rightarrow> string" where
  "dedupSessionPrefix sessionID = pebbleDedupPrefix @ sessionID @ [NUL]"

definition dedupKey :: "string \<Rightarrow> string \<Rightarrow> string" where
  "dedupKey sessionID relayHash = dedupSessionPrefix sessionID @ relayHash"

definition dedupTTLKey :: "string \<Rightarrow> string" where
  "dedupTTLKey sessionID = pebbleDedupTTLPrefix @ sessionID"

definition appendDedupKey :: "string \<Rightarrow> string \<Rightarrow> string" where
  "appendDedupKey sessionPrefix relayHash = sessionPrefix @ relayHash"

section \<open>Duplicate marks\<close>

text \<open>Whether the marks of a session are live, and whether they expired.\<close>

definition ttlStateLocked :: "'d pebble \<Rightarrow> time \<Rightarrow> 'd \<Rightarrow> string \<Rightarrow> (string, bool \<times> bool) result" where
  "ttlStateLocked P now d sessionID =
     (case backend_get P d (dedupTTLKey sessionID) of
        Inl m \<Rightarrow> Inl m
      | Inr None \<Rightarrow> Inr (False, False)
      | Inr (Some v) \<Rightarrow>
          if length v \<noteq> 8 then Inr (False, False)
          else let live = UnixMilli now < sint (be_uint64 v) in Inr (live, \<not> live))"

definition liveLocked :: "'d pebble \<Rightarrow> time \<Rightarrow> 'd \<Rightarrow> string \<Rightarrow> (string, bool) result" where
  "liveLocked P now d sessionID =
     (case ttlStateLocked P now d sessionID of Inl m \<Rightarrow> Inl m | Inr (live, _) \<Rightarrow> Inr live)"

definition markedLocked :: "'d pebble \<Rightarrow> time \<Rightarrow> 'd \<Rightarrow> string \<Rightarrow> string \<Rightarrow> (string, bool) result" where
  "markedLocked P now d sessionID relayHash =
     (case liveLocked P now d sessionID of
        Inl m \<Rightarrow> Inl m
      | Inr False \<Rightarrow> Inr False
      | Inr True \<Rightarrow>
         (case backend_get P d (dedupKey sessionID relayHash) of Inl m \<Rightarrow> Inl m | Inr v \<Rightarrow> Inr (v \<noteq> None)))"

definition slideTTLLocked :: "DeduplicatorConfig \<Rightarrow> time \<Rightarrow> string \<Rightarrow> batch_op list" where
  "slideTTLLocked cf now sessionID =
     [BSet (dedupTTLKey sessionID) (be_bytes (word_of_int (UnixMilli (now + dedup_ttl cf))))]"

definition markLocked :: "DeduplicatorConfig \<Rightarrow> time \<Rightarrow> string \<Rightarrow> string \<Rightarrow> batch_op list" where
  "markLocked cf now sessionID relayHash = BSet (dedupKey sessionID relayHash) [] # slideTTLLocked cf now sessionID"

definition deleteSessionLocked :: "string \<Rightarrow> batch_op list" where
  "deleteSessionLocked sessionID =
     [BDeleteRange (dedupSessionPrefix sessionID) (keyUpperBound (dedupSessionPrefix sessionID)),
      BDelete (dedupTTLKey sessionID)]"

definition dedup_IsDuplicate :: "'d pebble \<Rightarrow> time \<Rightarrow> string \<Rightarrow> string \<Rightarrow> 'd \<Rightarrow> (string, bool) result" where
  "dedup_IsDuplicate P now relayHash sessionID d =
     (case markedLocked P now d sessionID relayHash of
        Inl m \<Rightarrow> Inl (''failed to check the store: '' @ m)
      | Inr marked \<Rightarrow> Inr marked)"

definition dedup_MarkProcessed ::
  "'d pebble \<Rightarrow> DeduplicatorConfig \<Rightarrow> time \<Rightarrow> string \<Rightarrow> string \<Rightarrow> 'd \<Rightarrow> (string, bool) result \<times> 'd" where
  "dedup_MarkProcessed P cf now relayHash sessionID d =
     (case ttlStateLocked P now d sessionID of
        Inl m \<Rightarrow> (Inl (''failed to mark processed: '' @ m), d)
      | Inr (_, lapsed) \<Rightarrow>
         (case markedLocked P now d sessionID relayHash of
            Inl m \<Rightarrow> (Inl (''failed to mark processed: '' @ m), d)
          | Inr marked \<Rightarrow>
             (case db_Commit P ((if lapsed then deleteSessionLocked sessionID else []) @ markLocked cf now sessionID relayHash) d of
                (Some m, d') \<Rightarrow> (Inl (''failed to mark processed: '' @ m), d')
              | (None, d') \<Rightarrow> (Inr (\<not> marked), d'))))"

definition dedup_CleanupSession :: "'d pebble \<Rightarrow> string \<Rightarrow> 'd \<Rightarrow> string option \<times> 'd" where
  "dedup_CleanupSession P sessionID d =
     (case db_Commit P (deleteSessionLocked sessionID) d of
        (Some m, d') \<Rightarrow> (Some (''failed to cleanup session: '' @ m), d')
      | (None, d') \<Rightarrow> (None, d'))"

section \<open>The batch commit\<close>

record batchedRelay =
  br_id :: string
  br_hash :: string
  computeUnits :: uint64
  gen :: uint64

record relayBatchResult =
  status :: int
  newRelays :: int
  newComputeUnits :: int
  freshDups :: int

text \<open>A refusal made before any write, or an error whose outcome is unknown.\<close>

datatype commit_error = CommitRefused store_error | CommitFailed string | CommitEncoding store_error

text \<open>
  The loop over the relays: what it marks, counts and finds marked before. \<open>seen\<close> are the hashes marked by
  this batch, \<open>live\<close> whether the stored marks count.
\<close>

fun commit_relays ::
  "'d pebble \<Rightarrow> consumer \<Rightarrow> 'd \<Rightarrow> string \<Rightarrow> bool \<Rightarrow> batchedRelay list \<Rightarrow> string list \<Rightarrow> batch_op list \<Rightarrow> relayBatchResult
   \<Rightarrow> (string, batch_op list \<times> relayBatchResult) result" where
  "commit_relays P c d sessionID live [] seen ops res = Inr (ops, res)"
| "commit_relays P c d sessionID live (r # rs) seen ops res =
     (let key = appendDedupKey (dedupSessionPrefix sessionID) (br_hash r);
          marked = (if br_hash r \<in> set seen then Inr True
                    else if live then backend_has P d key
                    else Inr False)
      in case marked of
           Inl m \<Rightarrow> Inl m
         | Inr True \<Rightarrow>
            (case consumer_Exists P c d (br_id r) of
               Inl m \<Rightarrow> Inl m
             | Inr exists \<Rightarrow>
                 commit_relays P c d sessionID live rs seen ops
                   (if exists then res\<lparr>freshDups := i64 (freshDups res + 1)\<rparr> else res))
         | Inr False \<Rightarrow>
             commit_relays P c d sessionID live rs (br_hash r # seen) (ops @ [BSet key []])
               (res\<lparr>newRelays := i64 (newRelays res + 1),
                    newComputeUnits := i64 (newComputeUnits res + sint (computeUnits r))\<rparr>))"

text \<open>The session with the new relays counted, when it is there and open.\<close>

definition commit_counters ::
  "json \<Rightarrow> pebble_config \<Rightarrow> time \<Rightarrow> SessionSnapshot option \<Rightarrow> relayBatchResult \<Rightarrow> (store_error, batch_op list) result" where
  "commit_counters J cfg now snap res =
     (case snap of
        Some s \<Rightarrow>
          if status res = 0 \<and> 0 < newRelays res then
            (case putLocked J cfg (s\<lparr>RelayCount := i64 (RelayCount s + newRelays res),
                     TotalComputeUnits := TotalComputeUnits s + word_of_int (newComputeUnits res), LastUpdatedAt := now\<rparr>) of
               Inl e \<Rightarrow> Inl e | Inr op \<Rightarrow> Inr [op])
          else Inr []
      | None \<Rightarrow> Inr [])"

definition CommitSession ::
  "'d pebble \<Rightarrow> json \<Rightarrow> pebble_config \<Rightarrow> DeduplicatorConfig \<Rightarrow> time \<Rightarrow> time \<Rightarrow> string \<Rightarrow> batchedRelay list \<Rightarrow> consumer \<Rightarrow> 'd
   \<Rightarrow> (commit_error, relayBatchResult) result \<times> consumer \<times> 'd" where
  "CommitSession P J cfg cf now now_get sessionID relays c d =
     (case getLocked P J cfg now_get d sessionID of
        Inl e \<Rightarrow> (Inl (CommitRefused e), c, d)
      | Inr snap \<Rightarrow>
         let res = \<lparr>status = (case snap of None \<Rightarrow> 1 | Some s \<Rightarrow> if IsTerminal (State s) then 2 else 0),
                    newRelays = 0, newComputeUnits = 0, freshDups = 0\<rparr>
         in case ttlStateLocked P now d sessionID of
              Inl m \<Rightarrow> (Inl (CommitFailed m), c, d)
            | Inr (live, lapsed) \<Rightarrow>
               (case commit_relays P c d sessionID live relays []
                       (if lapsed \<and> relays \<noteq> [] then deleteSessionLocked sessionID else []) res of
                  Inl m \<Rightarrow> (Inl (CommitFailed m), c, d)
                | Inr (ops, res) \<Rightarrow>
                   let ops = ops @ (if relays \<noteq> [] then slideTTLLocked cf now sessionID else [])
                   in case commit_counters J cfg now snap res of
                        Inl e \<Rightarrow> (Inl (CommitEncoding e), c, d)
                      | Inr puts \<Rightarrow>
                         let ids = map br_id relays
                         in case db_Commit P (ops @ puts @ AckInBatch c ids) d of
                              (Some m, d') \<Rightarrow> (Inl (CommitFailed m), c, d')
                            | (None, d') \<Rightarrow> (Inr res, Acked ids c, d')))"

definition AckRejected :: "'d pebble \<Rightarrow> string list \<Rightarrow> consumer \<Rightarrow> 'd \<Rightarrow> string option \<times> consumer \<times> 'd" where
  "AckRejected P ids c d =
     (case db_Commit P (AckInBatch c ids) d of
        (Some m, d') \<Rightarrow> (Some m, c, d')
      | (None, d') \<Rightarrow> (None, Acked ids c, d'))"

end
