(* ===== verification/Queue_Order.thy ===== *)
theory Queue_Order
  imports Pebble_Queue
begin

text \<open>
  Entry keys order like the IDs they encode, IDs survive their two encodings, and no key of a queue is a
  key of another queue or of another part of the store.
\<close>

section \<open>Big-endian bytes order like numbers\<close>

abbreviation byte_val :: "nat \<Rightarrow> string \<Rightarrow> nat" where
  "byte_val a b \<equiv> foldl (\<lambda>acc c. 256 * acc + of_char c) a b"

lemma byte_val_acc: "byte_val a b = a * 256 ^ length b + byte_val 0 b"
proof (induction b arbitrary: a)
  case Nil
  then show ?case by simp
next
  case (Cons c b)
  show ?case using Cons.IH [of "256 * a + of_char c"] Cons.IH [of "of_char c"] by (simp add: algebra_simps)
qed

lemma byte_val_bound: "byte_val 0 b < 256 ^ length b"
proof (induction b)
  case (Cons c b)
  have "of_char c < (256::nat)" by (rule nat_of_char_less_256)
  then have "of_char c + 1 \<le> (256::nat)" by linarith
  from mult_le_mono1 [OF this, of "256 ^ length b"]
  have "of_char c * 256 ^ length b + 256 ^ length b \<le> (256::nat) * 256 ^ length b" by simp
  moreover have "byte_val 0 (c # b) = of_char c * 256 ^ length b + byte_val 0 b"
    using byte_val_acc [of "of_char c" b] by simp
  moreover have "(256::nat) ^ length (c # b) = 256 * 256 ^ length b" by simp
  ultimately show ?case using Cons.IH by linarith
qed simp

lemma bytes_less_val:
  "length xs = length ys \<Longrightarrow> bytes_less xs ys \<longleftrightarrow> byte_val 0 xs < byte_val 0 ys"
proof (induction xs ys rule: list_induct2)
  case (Cons x xs y ys)
  let ?n = "256 ^ length ys :: nat"
  have v: "byte_val 0 (x # xs) = of_char x * ?n + byte_val 0 xs" "byte_val 0 (y # ys) = of_char y * ?n + byte_val 0 ys"
    using byte_val_acc [of "of_char x" xs] byte_val_acc [of "of_char y" ys] Cons.hyps by simp_all
  have b: "byte_val 0 xs < ?n" "byte_val 0 ys < ?n" using byte_val_bound [of xs] byte_val_bound [of ys] Cons.hyps by simp_all
  have lt: "p * ?n + i < q * ?n + j" if "p < q" "i < ?n" for p q i j :: nat
  proof -
    have "(p + 1) * ?n \<le> q * ?n" using that(1) by (intro mult_le_mono1) simp
    then show ?thesis using that(2) by (simp add: algebra_simps)
  qed
  consider (less) "of_char x < (of_char y :: nat)" | (eq) "x = y" | (more) "of_char y < (of_char x :: nat)"
    using of_char_eq_iff [of x y, where ?'a = nat] by (metis nat_neq_iff)
  then show ?case
  proof cases
    case less
    then show ?thesis using lt [OF less b(1), of "byte_val 0 ys"] unfolding v by simp
  next
    case eq
    then show ?thesis using Cons.IH unfolding v by simp
  next
    case more
    then have "\<not> of_char x * ?n + byte_val 0 xs < of_char y * ?n + byte_val 0 ys"
      using lt [OF more b(2), of "byte_val 0 xs"] by simp
    then show ?thesis using more unfolding v by auto
  qed
qed simp

lemma val_be_bytes: "byte_val 0 (be_bytes w) = unat w"
proof -
  have "byte_val 0 (be_bytes w) < 2 ^ 64" using byte_val_bound [of "be_bytes w"] by simp
  then have "unat (of_nat (byte_val 0 (be_bytes w)) :: 64 word) = byte_val 0 (be_bytes w)" by (simp add: unat_of_nat)
  moreover have "(of_nat (byte_val 0 (be_bytes w)) :: 64 word) = w" using be_roundtrip [of w] by (simp add: be_uint64_def)
  ultimately show ?thesis by simp
qed

lemma be_bytes_less [simp]: "bytes_less (be_bytes v) (be_bytes w) \<longleftrightarrow> v < w"
  by (simp add: bytes_less_val val_be_bytes word_less_nat_alt)

lemma bytes_less_append_same:
  "length xs = length ys \<Longrightarrow> bytes_less (xs @ us) (ys @ vs) \<longleftrightarrow> bytes_less xs ys \<or> xs = ys \<and> bytes_less us vs"
  by (induction xs ys rule: list_induct2) auto

lemma be_bytes_inverse: "length b = 8 \<Longrightarrow> be_bytes (be_uint64 b) = b"
proof -
  assume len: "length b = 8"
  then have "byte_val 0 b < 2 ^ 64" using byte_val_bound [of b] by simp
  then have "unat (be_uint64 b) = byte_val 0 b" by (simp add: be_uint64_def unat_of_nat)
  then have "byte_val 0 (be_bytes (be_uint64 b)) = byte_val 0 b" by (simp add: val_be_bytes)
  then have "\<not> bytes_less (be_bytes (be_uint64 b)) b" "\<not> bytes_less b (be_bytes (be_uint64 b))"
    using bytes_less_val [of b "be_bytes (be_uint64 b)"] bytes_less_val [of "be_bytes (be_uint64 b)" b] len by simp_all
  then show ?thesis using bytes_less_total by blast
qed

section \<open>IDs\<close>

definition id_less :: "uint64 \<times> uint64 \<Rightarrow> uint64 \<times> uint64 \<Rightarrow> bool" where
  "id_less x y = (fst x < fst y \<or> fst x = fst y \<and> snd x < snd y)"

lemma encodeID_less [simp]: "bytes_less (encodeID m s) (encodeID m' s') \<longleftrightarrow> id_less (m, s) (m', s')"
  by (simp add: encodeID_def bytes_less_append_same id_less_def)

lemma length_encodeID [simp]: "length (encodeID m s) = 16"
  by (simp add: encodeID_def)

lemma encodeID_eq [simp]: "encodeID m s = encodeID m' s' \<longleftrightarrow> m = m' \<and> s = s'"
  by (simp add: encodeID_def)

lemma id_less_irrefl [simp]: "\<not> id_less x x"
  by (simp add: id_less_def)

lemma id_less_trans: "id_less x y \<Longrightarrow> id_less y z \<Longrightarrow> id_less x z"
  by (auto simp: id_less_def)

lemma id_less_linear: "id_less x y \<or> x = y \<or> id_less y x"
  by (cases x; cases y) (auto simp: id_less_def)

lemma FormatUint_no_dash: "CHR ''-'' \<notin> set (FormatUint w)"
  by (simp add: FormatUint_def FormatNat_no_minus)

lemma parse_formatID [simp]: "parseID (formatID ms seq) = Inr (ms, seq)"
  using Cut_append [OF FormatUint_no_dash, of ms "FormatUint seq"] by (simp add: parseID_def formatID_def)

lemma formatID_eq [simp]: "formatID m s = formatID m' s' \<longleftrightarrow> m = m' \<and> s = s'"
  by (metis parse_formatID prod.inject sum.inject(2))

lemma take_drop_encodeID [simp]: "take 8 (encodeID m s) = be_bytes m" "drop 8 (encodeID m s) = be_bytes s"
  by (simp_all add: encodeID_def)

lemma idOfKey_entryKey [simp]: "idOfKey (entryPrefixOf st) (entryKey st ms seq) = Some (formatID ms seq)"
  by (simp add: idOfKey_def entryKey_def HasPrefix_append idLen_def)

lemma idOfKey_Some:
  assumes "idOfKey (entryPrefixOf st) key = Some mid"
  shows "\<exists>ms seq. key = entryKey st ms seq \<and> mid = formatID ms seq"
proof -
  from assms obtain raw where raw: "key = entryPrefixOf st @ raw" "length raw = 16"
    "mid = formatID (be_uint64 (take 8 raw)) (be_uint64 (drop 8 raw))"
    by (auto simp: idOfKey_def HasPrefix_append idLen_def Let_def split: if_splits)
  have "raw = encodeID (be_uint64 (take 8 raw)) (be_uint64 (drop 8 raw))"
    using raw(2) by (simp add: encodeID_def be_bytes_inverse)
  then have "key = entryKey st (be_uint64 (take 8 raw)) (be_uint64 (drop 8 raw))" using raw(1) by (metis entryKey_def)
  then show ?thesis using raw(3) by blast
qed

lemma consumer_key_formatID [simp]: "consumer_key c (formatID ms seq) = Inr (entryKey (c_stream c) ms seq)"
  by (simp add: consumer_key_def entryKey_def encodeID_def)

lemma consumer_key_Inr: "consumer_key c mid = Inr key \<Longrightarrow> \<exists>ms seq. key = entryKey (c_stream c) ms seq"
  by (auto simp: consumer_key_def entryKey_def encodeID_def split: sum.splits)

section \<open>Keys do not meet\<close>

lemma entryKey_eq [simp]:
  "\<lbrakk>NUL \<notin> set st; NUL \<notin> set st'\<rbrakk> \<Longrightarrow> entryKey st m s = entryKey st' m' s' \<longleftrightarrow> st = st' \<and> m = m' \<and> s = s'"
  by (auto simp: entryKey_def entryPrefixOf_def entryPrefix_def NUL_split)

lemma entryKey_same [simp]: "entryKey st m s = entryKey st m' s' \<longleftrightarrow> m = m' \<and> s = s'"
  by (simp add: entryKey_def)

lemma entryKey_less [simp]: "bytes_less (entryKey st m s) (entryKey st m' s') \<longleftrightarrow> id_less (m, s) (m', s')"
  by (simp add: entryKey_def)

lemma queue_keys_differ [simp]:
  "entryKey st m s \<noteq> lastIDKey st'" "lastIDKey st' \<noteq> entryKey st m s"
  "entryKey st m s \<noteq> StringKey k" "StringKey k \<noteq> entryKey st m s"
  "entryKey st m s \<noteq> probeKey" "probeKey \<noteq> entryKey st m s"
  "lastIDKey st' \<noteq> StringKey k" "StringKey k \<noteq> lastIDKey st'"
  "lastIDKey st' \<noteq> probeKey" "probeKey \<noteq> lastIDKey st'"
  "lastIDKey st = lastIDKey st' \<longleftrightarrow> st = st'"
  by (simp_all add: entryKey_def entryPrefixOf_def entryPrefix_def lastIDKey_def lastIDPrefix_def StringKey_def
      stringPrefix_def probeKey_def)

end
