(* ===== verification/Queue_Contract.thy ===== *)
theory Queue_Contract
  imports Queue_Order
begin

text \<open>
  What the relay queue keeps true: IDs only grow, the last ID bounds every entry, and an entry the
  consumer has read past is held by it, as pending or as released. Every operation keeps it.
\<close>

section \<open>The invariant\<close>

text \<open>
  A commit that fails applied nothing: Pebble refuses a batch before it writes it, and a failed write of
  its log ends the process.
\<close>

definition pebble_clean :: "'d pebble \<Rightarrow> ('d \<Rightarrow> contents) \<Rightarrow> bool" where
  "pebble_clean P contents = (\<forall>ops d m d'. db_Commit P ops d = (Some m, d') \<longrightarrow> contents d' = contents d)"

definition last_of :: "contents \<Rightarrow> string \<Rightarrow> uint64 \<times> uint64" where
  "last_of m name =
     (case m (lastIDKey name) of
        None \<Rightarrow> (0, 0)
      | Some v \<Rightarrow> if length v = idLen then (be_uint64 (take 8 v), be_uint64 (drop 8 v)) else (0, 0))"

definition past :: "consumer \<Rightarrow> string \<Rightarrow> bool" where
  "past c key = (case cursor c of None \<Rightarrow> False | Some k \<Rightarrow> \<not> bytes_less k key)"

definition held :: "consumer \<Rightarrow> string set" where
  "held c = set (c_pending c) \<union> fst ` set (released c)"

text \<open>Every decodable entry behind the cursor is held, or in \<open>X\<close>.\<close>

definition safe :: "(string \<Rightarrow> 'm option) \<Rightarrow> contents \<Rightarrow> consumer \<Rightarrow> string set \<Rightarrow> bool" where
  "safe dec m c X =
     (\<forall>ms seq v. m (entryKey (c_stream c) ms seq) = Some v \<longrightarrow> dec v \<noteq> None
        \<longrightarrow> past c (entryKey (c_stream c) ms seq) \<longrightarrow> formatID ms seq \<in> held c \<union> X)"

definition entries_ok :: "contents \<Rightarrow> string \<Rightarrow> bool" where
  "entries_ok m name =
     (\<forall>q. m q \<noteq> None \<longrightarrow> HasPrefix q (entryPrefixOf name)
        \<longrightarrow> (\<exists>ms seq. q = entryKey name ms seq \<and> \<not> id_less (last_of m name) (ms, seq)))"

definition cursor_ok :: "contents \<Rightarrow> consumer \<Rightarrow> bool" where
  "cursor_ok m c =
     (\<forall>k. cursor c = Some k \<longrightarrow> (\<exists>ms seq. k = entryKey (c_stream c) ms seq \<and> \<not> id_less (last_of m (c_stream c)) (ms, seq)))"

definition consumer_inv :: "(string \<Rightarrow> 'm option) \<Rightarrow> contents \<Rightarrow> consumer \<Rightarrow> bool" where
  "consumer_inv dec m c = (entries_ok m (c_stream c) \<and> cursor_ok m c \<and> safe dec m c {})"

definition broker_inv :: "contents \<Rightarrow> 'd broker \<Rightarrow> bool" where
  "broker_inv m b = (\<forall>name st. b_streams b name = Some st \<longrightarrow> (lastMS st, lastSeq st) = last_of m name)"

text \<open>Contents that lost entries of the queue and nothing else of it.\<close>

definition shrinks :: "string \<Rightarrow> contents \<Rightarrow> contents \<Rightarrow> bool" where
  "shrinks name m m' =
     ((\<forall>q. HasPrefix q (entryPrefixOf name) \<longrightarrow> m' q = m q \<or> m' q = None)
      \<and> (\<forall>n. m' (lastIDKey n) = m (lastIDKey n)))"

lemma shrinks_refl [simp]: "shrinks name m m"
  by (simp add: shrinks_def)

lemma shrinks_trans: "shrinks name m m1 \<Longrightarrow> shrinks name m1 m2 \<Longrightarrow> shrinks name m m2"
  unfolding shrinks_def by (metis)

lemma shrinks_last: "shrinks name m m' \<Longrightarrow> last_of m' n = last_of m n"
  by (simp add: shrinks_def last_of_def)

lemma HasPrefix_entryKey [simp]: "HasPrefix (entryKey name ms seq) (entryPrefixOf name)"
  by (simp add: entryKey_def HasPrefix_append)

lemma shrinks_entry:
  "\<lbrakk>shrinks name m m'; m' (entryKey name ms seq) = Some v\<rbrakk> \<Longrightarrow> m (entryKey name ms seq) = Some v"
  unfolding shrinks_def by (metis HasPrefix_entryKey option.distinct(1))

lemma shrinks_entries_ok: "\<lbrakk>shrinks name m m'; entries_ok m name\<rbrakk> \<Longrightarrow> entries_ok m' name"
  unfolding entries_ok_def by (metis shrinks_def shrinks_last)

lemma shrinks_cursor_ok: "\<lbrakk>shrinks (c_stream c) m m'; cursor_ok m c\<rbrakk> \<Longrightarrow> cursor_ok m' c"
  by (simp add: cursor_ok_def shrinks_last)

lemma shrinks_safe: "\<lbrakk>shrinks (c_stream c) m m'; safe dec m c X\<rbrakk> \<Longrightarrow> safe dec m' c X"
  unfolding safe_def by (metis shrinks_entry)

lemma shrinks_broker: "\<lbrakk>shrinks name m m'; broker_inv m b\<rbrakk> \<Longrightarrow> broker_inv m' b"
  by (simp add: broker_inv_def shrinks_last)

lemma delete_shrinks: "shrinks name m (m(entryKey name ms seq := None))"
  by (simp add: shrinks_def)

lemma commit_delete:
  assumes "pebble_ok P contents" "db_Commit P [BDelete (entryKey name ms seq)] d = (err, d')"
  shows "shrinks name (contents d) (contents d')"
  using pebble_commit [OF assms] delete_shrinks [of name "contents d" ms seq] by auto

section \<open>Holding and forgetting\<close>

lemma held_simps [simp]:
  "held (forget_id mid c) = (set (c_pending c) - {mid}) \<union> fst ` set (released c)"
  "held (hold_id mid c) = insert mid (held c)"
  by (auto simp: held_def forget_id_def hold_id_def)

lemma id_ops_simps [simp]:
  "c_stream (forget_id mid c) = c_stream c" "c_stream (hold_id mid c) = c_stream c"
  "cursor (forget_id mid c) = cursor c" "cursor (hold_id mid c) = cursor c"
  "past (forget_id mid c) = past c" "past (hold_id mid c) = past c"
  "released (forget_id mid c) = released c" "released (hold_id mid c) = released c"
  "c_closed (forget_id mid c) = c_closed c" "releaseDelay (forget_id mid c) = releaseDelay c"
  by (auto simp: forget_id_def hold_id_def past_def)

text \<open>An ID that names no decodable entry may be forgotten.\<close>

definition gone :: "(string \<Rightarrow> 'm option) \<Rightarrow> contents \<Rightarrow> consumer \<Rightarrow> string \<Rightarrow> bool" where
  "gone dec m c mid =
     (\<forall>ms seq v. mid = formatID ms seq \<longrightarrow> m (entryKey (c_stream c) ms seq) = Some v \<longrightarrow> dec v = None)"

lemma pending_forget [simp]: "set (c_pending (forget_id mid c)) = set (c_pending c) - {mid}"
  by (auto simp: forget_id_def)

lemma safe_except:
  assumes "safe dec m c X" "gone dec m c mid" "held c \<union> X \<subseteq> insert mid (held c' \<union> Y)"
    "c_stream c' = c_stream c" "past c' = past c"
  shows "safe dec m c' Y"
  unfolding safe_def assms(4,5)
proof (intro allI impI)
  fix ms seq v
  assume e: "m (entryKey (c_stream c) ms seq) = Some v" "dec v \<noteq> None" "past c (entryKey (c_stream c) ms seq)"
  then have "formatID ms seq \<in> held c \<union> X" "formatID ms seq \<noteq> mid" using assms(1,2) by (auto simp: safe_def gone_def)
  then show "formatID ms seq \<in> held c' \<union> Y" using assms(3) by blast
qed

lemma safe_forget: "\<lbrakk>safe dec m c X; gone dec m c mid\<rbrakk> \<Longrightarrow> safe dec m (forget_id mid c) X"
  by (erule safe_except) (auto simp: held_def)

lemma safe_gone: "\<lbrakk>safe dec m c (insert mid X); gone dec m c mid\<rbrakk> \<Longrightarrow> safe dec m c X"
  by (erule safe_except) auto

lemma safe_hold: "safe dec m c (insert mid X) \<Longrightarrow> safe dec m (hold_id mid c) X"
  by (auto simp: safe_def)

lemma safe_mono: "\<lbrakk>safe dec m c X; X \<subseteq> Y\<rbrakk> \<Longrightarrow> safe dec m c Y"
  by (fastforce simp: safe_def)

lemma past_released [simp]: "past (c\<lparr>released := r\<rparr>) = past c"
  by (auto simp: past_def)

lemma held_released [simp]: "held (c\<lparr>released := r\<rparr>) = set (c_pending c) \<union> fst ` set r"
  by (simp add: held_def)

section \<open>Reading by ID\<close>

lemma consumer_key_canonical:
  "\<lbrakk>consumer_key c mid = Inr key; mid = formatID ms seq\<rbrakk> \<Longrightarrow> key = entryKey (c_stream c) ms seq"
  by simp

lemma dropUndecodable_effect:
  assumes "pebble_ok P contents" "dropUndecodable P mid c d = (c', d')"
    and "\<And>key v. consumer_key c mid = Inr key \<Longrightarrow> contents d key = Some v \<Longrightarrow> dec v = None"
    and "safe dec (contents d) c X"
  shows "shrinks (c_stream c) (contents d) (contents d') \<and> safe dec (contents d') c' X
       \<and> c_stream c' = c_stream c \<and> cursor c' = cursor c \<and> released c' = released c \<and> gone dec (contents d') c mid"
proof (cases "consumer_key c mid")
  case (Inl m)
  then have "gone dec (contents d) c mid" by (auto simp: gone_def)
  then show ?thesis using assms Inl by (simp add: dropUndecodable_def)
next
  case (Inr key)
  obtain ms seq where key: "key = entryKey (c_stream c) ms seq" using consumer_key_Inr [OF Inr] by blast
  have c': "c' = forget_id mid c" and run: "db_Commit P [BDelete key] d = (fst (db_Commit P [BDelete key] d), d')"
    using assms(2) Inr by (auto simp: dropUndecodable_def)
  have sh: "shrinks (c_stream c) (contents d) (contents d')" using commit_delete [OF assms(1)] run key by metis
  have "gone dec (contents d) c mid"
    using assms(3) [OF Inr] consumer_key_canonical [OF Inr] by (auto simp: gone_def)
  then have g: "gone dec (contents d') c mid" using sh by (auto simp: gone_def dest: shrinks_entry)
  show ?thesis using sh c' g safe_forget [OF shrinks_safe [OF sh assms(4)] g] by simp
qed

lemma readLocked_effect:
  assumes "pebble_ok P contents" "readLocked P dec mid c d = (r, c', d')" "safe dec (contents d) c X"
  shows "shrinks (c_stream c) (contents d) (contents d') \<and> safe dec (contents d') c' X
       \<and> c_stream c' = c_stream c \<and> cursor c' = cursor c \<and> released c' = released c
       \<and> (r = Inr None \<longrightarrow> gone dec (contents d') c mid)"
proof (cases "consumer_key c mid")
  case (Inl m)
  then have "gone dec (contents d) c mid" by (auto simp: gone_def)
  then show ?thesis using assms Inl by (simp add: readLocked_def)
next
  case (Inr key)
  show ?thesis
  proof (cases "db_Get P d key")
    case (Inl m)
    then show ?thesis using assms Inr by (auto simp: readLocked_def)
  next
    case get: (Inr v)
    have v: "v = contents d key" using pebble_get [OF assms(1) get] .
    show ?thesis
    proof (cases v)
      case None
      then have "gone dec (contents d) c mid" using v consumer_key_canonical [OF Inr] by (auto simp: gone_def)
      then show ?thesis using assms Inr get None by (simp add: readLocked_def)
    next
      case (Some y)
      show ?thesis
      proof (cases "dec y")
        case None
        obtain c1 d1 where drop: "dropUndecodable P mid c d = (c1, d1)" by fastforce
        then have "(r, c', d') = (Inr None, c1, d1)" using assms(2) Inr get Some None by (simp add: readLocked_def)
        moreover have "\<And>key v. consumer_key c mid = Inr key \<Longrightarrow> contents d key = Some v \<Longrightarrow> dec v = None"
          using Inr Some v None by auto
        from dropUndecodable_effect [OF assms(1) drop this assms(3)] have
          "shrinks (c_stream c) (contents d) (contents d1) \<and> safe dec (contents d1) c1 X
           \<and> c_stream c1 = c_stream c \<and> cursor c1 = cursor c \<and> released c1 = released c \<and> gone dec (contents d1) c mid" .
        ultimately show ?thesis by simp
      next
        case (Some m)
        then show ?thesis using assms Inr get \<open>v = Some y\<close> by (auto simp: readLocked_def)
      qed
    qed
  qed
qed

section \<open>Delivery\<close>

lemma take_released_effect:
  assumes P: "pebble_ok P contents"
  shows "\<lbrakk>take_released P dec now rest out nd c d = (err, out', nd', c', d'); safe dec (contents d) c (fst ` set rest)\<rbrakk>
    \<Longrightarrow> shrinks (c_stream c) (contents d) (contents d') \<and> safe dec (contents d') c' {}
       \<and> c_stream c' = c_stream c \<and> cursor c' = cursor c"
proof (induction rest arbitrary: out nd c d)
  case Nil
  then show ?case by simp
next
  case (Cons x rest)
  obtain mid due where x: "x = (mid, due)" by (cases x)
  show ?case
  proof (cases "now < due")
    case True
    let ?c = "c\<lparr>released := released c @ [(mid, due)]\<rparr>"
    have "safe dec (contents d) ?c (fst ` set rest)"
      using Cons.prems(2) x by (auto simp: safe_def held_def)
    then show ?thesis using Cons.IH [of out "sooner nd due" ?c d] Cons.prems(1) x True by simp
  next
    case False
    obtain r c1 d1 where read: "readLocked P dec mid c d = (r, c1, d1)" by (metis prod_cases3)
    have eff: "shrinks (c_stream c) (contents d) (contents d1)" "safe dec (contents d1) c1 (insert mid (fst ` set rest))"
        "c_stream c1 = c_stream c" "cursor c1 = cursor c" "r = Inr None \<Longrightarrow> gone dec (contents d1) c mid"
      using readLocked_effect [OF P read, of "insert mid (fst ` set rest)"] Cons.prems(2) x by simp_all
    show ?thesis
    proof (cases r)
      case (Inl m)
      then have res: "c' = c1\<lparr>released := released c1 @ (mid, due) # rest\<rparr>" "d' = d1"
        using Cons.prems(1) x False read by simp_all
      have "safe dec (contents d1) c' {}" using eff(2) unfolding res by (auto simp: safe_def held_def)
      then show ?thesis using eff res by simp
    next
      case (Inr o1)
      show ?thesis
      proof (cases o1)
        case None
        have "gone dec (contents d1) c1 mid" using eff(3,5) Inr None by (simp add: gone_def)
        then have "safe dec (contents d1) c1 (fst ` set rest)" using safe_gone eff(2) by blast
        then show ?thesis using Cons.IH [of out nd c1 d1] Cons.prems(1) x False read Inr None eff
          by (auto intro: shrinks_trans)
      next
        case (Some msg)
        have "safe dec (contents d1) (hold_id mid c1) (fst ` set rest)" using safe_hold eff(2) by blast
        then show ?thesis using Cons.IH [of "out @ [msg]" nd "hold_id mid c1" d1] Cons.prems(1) x False read Inr Some eff
          by (auto intro: shrinks_trans)
      qed
    qed
  qed
qed

lemma past_cursor [simp]: "past (c\<lparr>cursor := Some k\<rparr>) q \<longleftrightarrow> \<not> bytes_less k q"
  by (simp add: past_def)

lemma held_cursor [simp]: "held (c\<lparr>cursor := k\<rparr>) = held c"
  by (simp add: held_def)

text \<open>What the iterator has still to yield: in order, after the cursor, and every entry after the cursor.\<close>

definition remaining :: "contents \<Rightarrow> consumer \<Rightarrow> (string \<times> string) list \<Rightarrow> bool" where
  "remaining m c kvs =
     (sorted_wrt bytes_less (map fst kvs)
      \<and> (\<forall>k v. (k, v) \<in> set kvs \<longrightarrow> \<not> past c k \<and> (\<exists>ms seq. k = entryKey (c_stream c) ms seq \<and> \<not> id_less (last_of m (c_stream c)) (ms, seq))
            \<and> (m k = Some v \<or> m k = None))
      \<and> (\<forall>ms seq. m (entryKey (c_stream c) ms seq) \<noteq> None \<longrightarrow> \<not> past c (entryKey (c_stream c) ms seq)
            \<longrightarrow> entryKey (c_stream c) ms seq \<in> fst ` set kvs))"

lemma remainingD:
  assumes "remaining m c kvs"
  shows "sorted_wrt bytes_less (map fst kvs)"
    "(k, v) \<in> set kvs \<Longrightarrow> \<not> past c k"
    "(k, v) \<in> set kvs \<Longrightarrow> \<exists>ms seq. k = entryKey (c_stream c) ms seq \<and> \<not> id_less (last_of m (c_stream c)) (ms, seq)"
    "(k, v) \<in> set kvs \<Longrightarrow> m k = Some v \<or> m k = None"
    "\<lbrakk>m (entryKey (c_stream c) ms seq) \<noteq> None; \<not> past c (entryKey (c_stream c) ms seq)\<rbrakk>
     \<Longrightarrow> entryKey (c_stream c) ms seq \<in> fst ` set kvs"
  using assms unfolding remaining_def by simp_all

lemma remainingI:
  assumes "sorted_wrt bytes_less (map fst kvs)"
    "\<And>k v. (k, v) \<in> set kvs \<Longrightarrow> \<not> past c k"
    "\<And>k v. (k, v) \<in> set kvs \<Longrightarrow> \<exists>ms seq. k = entryKey (c_stream c) ms seq \<and> \<not> id_less (last_of m (c_stream c)) (ms, seq)"
    "\<And>k v. (k, v) \<in> set kvs \<Longrightarrow> m k = Some v \<or> m k = None"
    "\<And>ms seq. \<lbrakk>m (entryKey (c_stream c) ms seq) \<noteq> None; \<not> past c (entryKey (c_stream c) ms seq)\<rbrakk>
     \<Longrightarrow> entryKey (c_stream c) ms seq \<in> fst ` set kvs"
  shows "remaining m c kvs"
  unfolding remaining_def using assms by meson

lemma remaining_shrinks:
  assumes r: "remaining m c kvs" and sh: "shrinks (c_stream c) m m'"
  shows "remaining m' c kvs"
proof (rule remainingI)
  have key: "m' (entryKey (c_stream c) ms seq) = m (entryKey (c_stream c) ms seq) \<or> m' (entryKey (c_stream c) ms seq) = None" for ms seq
    using sh by (simp add: shrinks_def)
  show "sorted_wrt bytes_less (map fst kvs)" by (rule remainingD(1) [OF r])
  show "\<not> past c k" if "(k, v) \<in> set kvs" for k v by (rule remainingD(2) [OF r that])
  show wf: "\<exists>ms seq. k = entryKey (c_stream c) ms seq \<and> \<not> id_less (last_of m' (c_stream c)) (ms, seq)" if "(k, v) \<in> set kvs" for k v
    using remainingD(3) [OF r that] by (simp add: shrinks_last [OF sh])
  show "m' k = Some v \<or> m' k = None" if kv: "(k, v) \<in> set kvs" for k v
    using wf [OF kv] remainingD(4) [OF r kv] key by metis
  show "entryKey (c_stream c) ms seq \<in> fst ` set kvs"
    if "m' (entryKey (c_stream c) ms seq) \<noteq> None" "\<not> past c (entryKey (c_stream c) ms seq)" for ms seq
    using remainingD(5) [OF r _ that(2)] that(1) key [of ms seq] by argo
qed

lemma remaining_step:
  assumes r: "remaining m c ((k, v) # kvs)"
  shows "remaining m (c\<lparr>cursor := Some k\<rparr>) kvs"
proof (rule remainingI)
  have older: "\<not> past c q" if "bytes_less k q" for q
  proof (cases "cursor c")
    case None
    then show ?thesis by (simp add: past_def)
  next
    case (Some k0)
    then have "bytes_less k0 k" using remainingD(2) [OF r, of k v] by (simp add: past_def)
    then show ?thesis using Some that bytes_less_trans by (auto simp: past_def)
  qed
  have sorted: "sorted_wrt bytes_less (map fst kvs)" "\<forall>x \<in> set kvs. bytes_less k (fst x)"
    using remainingD(1) [OF r] by simp_all
  show "sorted_wrt bytes_less (map fst kvs)" by (rule sorted(1))
  show "\<not> past (c\<lparr>cursor := Some k\<rparr>) k'" if "(k', v') \<in> set kvs" for k' v' using sorted(2) that by force
  show "\<exists>ms seq. k' = entryKey (c_stream (c\<lparr>cursor := Some k\<rparr>)) ms seq
      \<and> \<not> id_less (last_of m (c_stream (c\<lparr>cursor := Some k\<rparr>))) (ms, seq)" if "(k', v') \<in> set kvs" for k' v'
    using remainingD(3) [OF r, of k' v'] that by simp
  show "m k' = Some v' \<or> m k' = None" if "(k', v') \<in> set kvs" for k' v'
    using remainingD(4) [OF r, of k' v'] that by simp
  show "entryKey (c_stream (c\<lparr>cursor := Some k\<rparr>)) ms seq \<in> fst ` set kvs"
    if "m (entryKey (c_stream (c\<lparr>cursor := Some k\<rparr>)) ms seq) \<noteq> None"
      "\<not> past (c\<lparr>cursor := Some k\<rparr>) (entryKey (c_stream (c\<lparr>cursor := Some k\<rparr>)) ms seq)" for ms seq
  proof -
    have less: "bytes_less k (entryKey (c_stream c) ms seq)" using that(2) by simp
    have "entryKey (c_stream c) ms seq \<in> fst ` set ((k, v) # kvs)"
      using remainingD(5) [OF r _ older [OF less]] that(1) by simp
    then show ?thesis using less by auto
  qed
qed

lemma safe_cursor:
  assumes "safe dec m c X" "remaining m c ((k, v) # kvs)"
  shows "safe dec m (c\<lparr>cursor := Some k\<rparr>) (X \<union> {formatID ms seq | ms seq. k = entryKey (c_stream c) ms seq})"
  unfolding safe_def
proof (intro allI impI)
  fix ms seq w
  assume e: "m (entryKey (c_stream (c\<lparr>cursor := Some k\<rparr>)) ms seq) = Some w" "dec w \<noteq> None"
    "past (c\<lparr>cursor := Some k\<rparr>) (entryKey (c_stream (c\<lparr>cursor := Some k\<rparr>)) ms seq)"
  let ?q = "entryKey (c_stream c) ms seq"
  have q: "m ?q = Some w" "\<not> bytes_less k ?q" using e by simp_all
  show "formatID ms seq \<in> held (c\<lparr>cursor := Some k\<rparr>) \<union> (X \<union> {formatID ms seq | ms seq. k = entryKey (c_stream c) ms seq})"
  proof (cases "past c ?q")
    case True
    then show ?thesis using assms(1) q e(2) by (auto simp: safe_def)
  next
    case False
    then have "?q \<in> fst ` set ((k, v) # kvs)" using remainingD(5) [OF assms(2)] q(1) by simp
    moreover have "bytes_less k p" if "p \<in> fst ` set kvs" for p using remainingD(1) [OF assms(2)] that by auto
    ultimately have "?q = k" using q(2) by auto
    then show ?thesis by blast
  qed
qed

lemma take_live_effect:
  assumes P: "pebble_ok P contents"
  shows "\<lbrakk>take_live P dec kvs out c d = (out', c', d'); safe dec (contents d) c {}; remaining (contents d) c kvs;
          cursor_ok (contents d) c\<rbrakk>
    \<Longrightarrow> shrinks (c_stream c) (contents d) (contents d') \<and> safe dec (contents d') c' {} \<and> c_stream c' = c_stream c
       \<and> cursor_ok (contents d') c'"
proof (induction kvs arbitrary: out c d)
  case Nil
  then show ?case by simp
next
  case (Cons kv kvs)
  obtain k v where kv: "kv = (k, v)" by (cases kv)
  show ?case
  proof (cases "readBatch \<le> length out")
    case True
    then show ?thesis using Cons.prems kv by simp
  next
    case False
    let ?c = "c\<lparr>cursor := Some k\<rparr>"
    obtain ms seq where k: "k = entryKey (c_stream c) ms seq" "\<not> id_less (last_of (contents d) (c_stream c)) (ms, seq)"
      and v: "contents d k = Some v \<or> contents d k = None"
      using remainingD(3,4) [OF Cons.prems(3), of k v] kv by auto
    have mid: "idOfKey (c_prefix ?c) k = Some (formatID ms seq)" using k(1) by simp
    have safe1: "safe dec (contents d) ?c {formatID ms seq}"
      using safe_cursor [OF Cons.prems(2) Cons.prems(3) [unfolded kv]] k(1) by (auto elim: safe_mono)
    have rem1: "remaining (contents d) ?c kvs" using remaining_step Cons.prems(3) kv by blast
    have cur1: "cursor_ok (contents d) ?c" using k by (simp add: cursor_ok_def)
    show ?thesis
    proof (cases "dec v")
      case None
      obtain c1 d1 where drop: "dropUndecodable P (formatID ms seq) ?c d = (c1, d1)" by fastforce
      have "\<And>key w. consumer_key ?c (formatID ms seq) = Inr key \<Longrightarrow> contents d key = Some w \<Longrightarrow> dec w = None"
        using v k(1) None by auto
      from dropUndecodable_effect [OF P drop this safe1] have
        eff: "shrinks (c_stream c) (contents d) (contents d1)" "safe dec (contents d1) c1 {formatID ms seq}"
          "c_stream c1 = c_stream c" "cursor c1 = Some k" "gone dec (contents d1) ?c (formatID ms seq)" by simp_all
      have "gone dec (contents d1) c1 (formatID ms seq)" using eff(3,5) by (simp add: gone_def)
      then have "safe dec (contents d1) c1 {}" using safe_gone eff(2) by blast
      moreover have "remaining (contents d1) c1 kvs"
        using remaining_shrinks [OF rem1] eff(1,3,4) by (simp add: remaining_def past_def)
      moreover have "cursor_ok (contents d1) c1"
        using shrinks_cursor_ok [of ?c "contents d" "contents d1"] cur1 eff(1,3,4) by (simp add: cursor_ok_def)
      ultimately show ?thesis
        using Cons.IH [of out c1 d1] Cons.prems(1) kv False mid None drop eff(1,3) by (auto intro: shrinks_trans)
    next
      case (Some m)
      let ?c1 = "hold_id (formatID ms seq) ?c"
      have "safe dec (contents d) ?c1 {}" using safe_hold [of dec "contents d" ?c "formatID ms seq" "{}"] safe1 by simp
      moreover have "remaining (contents d) ?c1 kvs" using rem1 by (simp add: remaining_def)
      moreover have "cursor_ok (contents d) ?c1" using cur1 by (simp add: cursor_ok_def)
      ultimately show ?thesis
        using Cons.IH [of "out @ [message ?c (formatID ms seq) False m]" ?c1 d] Cons.prems(1) kv False mid Some by (simp add: Let_def)
    qed
  qed
qed

lemma prefixEnd_Some: "\<exists>hi. prefixEnd (entryPrefixOf name) = Some hi"
  by (simp add: prefixEnd_def keyUpperBound_def entryPrefixOf_def)

lemma less_append_NUL: "bytes_less q (k @ [NUL]) \<longleftrightarrow> bytes_less q k \<or> q = k"
proof (induction q k rule: bytes_less.induct)
  case (1 xs)
  then show ?case by (cases xs) auto
qed auto

lemma bytes_less_asym: "bytes_less a b \<Longrightarrow> \<not> bytes_less b a"
  using bytes_less_trans bytes_less_irrefl by blast

lemma upper_bound_prefix:
  assumes "in_range lo (prefixEnd (entryPrefixOf name)) q" "HasPrefix lo (entryPrefixOf name)"
  shows "HasPrefix q (entryPrefixOf name)"
proof -
  obtain hi where hi: "prefixEnd (entryPrefixOf name) = Some hi" using prefixEnd_Some by blast
  obtain t where lo: "lo = entryPrefixOf name @ t" using assms(2) by (auto simp: HasPrefix_append)
  have "\<not> bytes_less q (entryPrefixOf name)"
  proof
    assume less: "bytes_less q (entryPrefixOf name)"
    have "bytes_less q lo"
    proof (cases "t = []")
      case True
      then show ?thesis using less lo by simp
    next
      case False
      then have "bytes_less (entryPrefixOf name @ []) (entryPrefixOf name @ t)" unfolding bytes_less_append by (cases t) simp_all
      then show ?thesis using less lo bytes_less_trans by auto
    qed
    then show False using assms(1) by (simp add: in_range_def)
  qed
  then have "in_range (entryPrefixOf name) (Some hi) q" using assms(1) hi by (simp add: in_range_def)
  then show ?thesis using keyUpperBound_range [of "entryPrefixOf name" hi q] hi by (simp add: prefixEnd_def HasPrefix_append)
qed

lemma below_prefixEnd:
  assumes "HasPrefix q (entryPrefixOf name)" "prefixEnd (entryPrefixOf name) = Some hi"
  shows "bytes_less q hi"
  using keyUpperBound_range [of "entryPrefixOf name" hi q] assms by (auto simp: prefixEnd_def HasPrefix_append in_range_def)

text \<open>What an iterator opened at the cursor yields is what remains.\<close>

lemma iterator_remaining:
  assumes P: "pebble_ok P contents" and inv: "entries_ok (contents d) (c_stream c)" "cursor_ok (contents d) c"
    and iter: "db_Iter P d (case cursor c of None \<Rightarrow> c_prefix c | Some k \<Rightarrow> k @ [NUL]) (prefixEnd (c_prefix c)) = Inr kvs"
  shows "remaining (contents d) c kvs"
proof (rule remainingI)
  let ?lo = "case cursor c of None \<Rightarrow> c_prefix c | Some k \<Rightarrow> k @ [NUL]"
  have lo: "HasPrefix ?lo (c_prefix c)"
    using inv(2) by (auto simp: cursor_ok_def entryKey_def HasPrefix_append split: option.splits)
  have mem: "(k, v) \<in> set kvs \<longleftrightarrow> in_range ?lo (prefixEnd (c_prefix c)) k \<and> contents d k = Some v" for k v
    using pebble_iter [OF P iter] .
  show "sorted_wrt bytes_less (map fst kvs)" using pebble_iter_sorted [OF P iter] .
  show "\<not> past c k" if "(k, v) \<in> set kvs" for k v
  proof (cases "cursor c")
    case (Some k0)
    then have "\<not> bytes_less k (k0 @ [NUL])" using that mem by (simp add: in_range_def)
    then show ?thesis using Some bytes_less_total [of k k0] by (auto simp: past_def less_append_NUL)
  qed (simp add: past_def)
  show "\<exists>ms seq. k = entryKey (c_stream c) ms seq \<and> \<not> id_less (last_of (contents d) (c_stream c)) (ms, seq)"
    if kv: "(k, v) \<in> set kvs" for k v
    using upper_bound_prefix [OF _ lo] kv mem inv(1) unfolding entries_ok_def by blast
  show "contents d k = Some v \<or> contents d k = None" if "(k, v) \<in> set kvs" for k v using that mem by blast
  show "entryKey (c_stream c) ms seq \<in> fst ` set kvs"
    if e: "contents d (entryKey (c_stream c) ms seq) \<noteq> None" "\<not> past c (entryKey (c_stream c) ms seq)" for ms seq
  proof -
    let ?q = "entryKey (c_stream c) ms seq"
    obtain v where v: "contents d ?q = Some v" using e(1) by blast
    obtain hi where hi: "prefixEnd (c_prefix c) = Some hi" using prefixEnd_Some by blast
    have "\<not> bytes_less ?q ?lo"
    proof (cases "cursor c")
      case None
      then show ?thesis by (simp add: entryKey_def)
    next
      case (Some k0)
      then have "bytes_less k0 ?q" using e(2) by (simp add: past_def)
      then show ?thesis using Some bytes_less_asym [of k0 ?q] by (auto simp: less_append_NUL)
    qed
    then have "in_range ?lo (prefixEnd (c_prefix c)) ?q"
      using below_prefixEnd [OF HasPrefix_entryKey hi] hi by (simp add: in_range_def)
    then have "(?q, v) \<in> set kvs" using mem v by simp
    then show ?thesis by (metis fst_conv image_eqI)
  qed
qed

lemma nextBatch_keeps:
  assumes P: "pebble_ok P contents" and inv: "consumer_inv dec (contents d) c"
    and run: "nextBatch P dec now c d = (err, out, nd, c', d')"
  shows "shrinks (c_stream c) (contents d) (contents d') \<and> consumer_inv dec (contents d') c' \<and> c_stream c' = c_stream c"
proof -
  obtain e1 o1 n1 c1 d1 where rel: "take_released P dec now (released c) [] None (c\<lparr>released := []\<rparr>) d = (e1, o1, n1, c1, d1)"
    by (metis prod_cases5)
  have "safe dec (contents d) (c\<lparr>released := []\<rparr>) (fst ` set (released c))"
    using inv by (auto simp: consumer_inv_def safe_def held_def)
  from take_released_effect [OF P rel this]
  have e1: "shrinks (c_stream c) (contents d) (contents d1)" "safe dec (contents d1) c1 {}" "c_stream c1 = c_stream c"
    "cursor c1 = cursor c" by simp_all
  have ok1: "entries_ok (contents d1) (c_stream c1)" "cursor_ok (contents d1) c1"
    using inv shrinks_entries_ok [OF e1(1)] shrinks_cursor_ok [OF e1(1)] e1(3,4) by (simp_all add: consumer_inv_def cursor_ok_def)
  show ?thesis
  proof (cases "e1 = None \<and> (\<exists>kvs. db_Iter P d1 (case cursor c1 of None \<Rightarrow> c_prefix c1 | Some k \<Rightarrow> k @ [NUL]) (prefixEnd (c_prefix c1)) = Inr kvs)")
    case False
    then have "c' = c1 \<and> d' = d1" using run rel by (auto simp: nextBatch_def Let_def split: option.splits sum.splits)
    then show ?thesis using e1 ok1 by (simp add: consumer_inv_def)
  next
    case True
    then obtain kvs where iter: "db_Iter P d1 (case cursor c1 of None \<Rightarrow> c_prefix c1 | Some k \<Rightarrow> k @ [NUL]) (prefixEnd (c_prefix c1)) = Inr kvs"
      and none: "e1 = None" by blast
    obtain o2 c2 d2 where live: "take_live P dec kvs o1 c1 d1 = (o2, c2, d2)" by (metis prod_cases3)
    have res: "c' = c2" "d' = d2" using run rel iter none live by (simp_all add: nextBatch_def Let_def)
    from take_live_effect [OF P live e1(2) iterator_remaining [OF P ok1 iter] ok1(2)]
    have e2: "shrinks (c_stream c1) (contents d1) (contents d2)" "safe dec (contents d2) c2 {}" "c_stream c2 = c_stream c1"
      "cursor_ok (contents d2) c2" by simp_all
    have "entries_ok (contents d2) (c_stream c2)" using shrinks_entries_ok [OF e2(1) ok1(1)] e2(3) by simp
    then show ?thesis unfolding res using e2 e1(1,3) shrinks_trans by (auto simp: consumer_inv_def)
  qed
qed

section \<open>Settling entries\<close>

lemma AckMessage_keeps:
  assumes P: "pebble_ok P contents" and inv: "consumer_inv dec (contents d) c" and run: "AckMessage P msg c d = (err, c', d')"
  shows "shrinks (c_stream c) (contents d) (contents d') \<and> consumer_inv dec (contents d') c' \<and> c_stream c' = c_stream c"
proof (cases "checkOpen msg c = None \<and> (\<exists>key. consumer_key c (sm_ID msg) = Inr key)")
  case False
  then have "c' = c \<and> d' = d" using run by (auto simp: AckMessage_def split: option.splits sum.splits)
  then show ?thesis using inv by simp
next
  case True
  then obtain key where key: "consumer_key c (sm_ID msg) = Inr key" by blast
  obtain ms seq where k: "key = entryKey (c_stream c) ms seq" using consumer_key_Inr [OF key] by blast
  obtain e d1 where com: "db_Commit P [BDelete key] d = (e, d1)" by fastforce
  have sh: "shrinks (c_stream c) (contents d) (contents d1)" using commit_delete [OF P] com k by metis
  have base: "entries_ok (contents d1) (c_stream c)" "cursor_ok (contents d1) c" "safe dec (contents d1) c {}"
    using inv shrinks_entries_ok [OF sh] shrinks_cursor_ok [OF sh] shrinks_safe [where dec = dec, OF sh] by (simp_all add: consumer_inv_def)
  show ?thesis
  proof (cases e)
    case None
    then have "contents d1 key = None" using pebble_commit [OF P com] by simp
    then have "gone dec (contents d1) c (sm_ID msg)" using consumer_key_canonical [OF key] by (auto simp: gone_def)
    then show ?thesis using run True key com None sh base safe_forget
      by (auto simp: AckMessage_def consumer_inv_def cursor_ok_def)
  next
    case (Some m)
    then show ?thesis using run True key com sh base by (auto simp: AckMessage_def consumer_inv_def)
  qed
qed

lemma safe_move:
  assumes "safe dec m c X" "held c \<subseteq> held c'" "c_stream c' = c_stream c" "cursor c' = cursor c"
  shows "safe dec m c' X"
  using assms by (auto simp: safe_def past_def)

lemma ReleaseMessage_keeps:
  assumes "consumer_inv dec m c" "ReleaseMessage now msg c = (err, c')"
  shows "consumer_inv dec m c' \<and> c_stream c' = c_stream c"
proof (cases "checkOpen msg c")
  case None
  let ?c = "(forget_id (sm_ID msg) c)\<lparr>released := released c @ [(sm_ID msg, now + releaseDelay c)]\<rparr>"
  have "safe dec m ?c {}" using assms(1) by (intro safe_move [where c = c and c' = ?c]) (auto simp: consumer_inv_def held_def)
  then show ?thesis using assms None by (auto simp: ReleaseMessage_def consumer_inv_def cursor_ok_def)
next
  case (Some e)
  then show ?thesis using assms by (auto simp: ReleaseMessage_def)
qed

lemma putBack_keeps: "consumer_inv dec m c \<Longrightarrow> consumer_inv dec m (putBack msgs c) \<and> c_stream (putBack msgs c) = c_stream c"
proof (induction msgs arbitrary: c)
  case Nil
  then show ?case by (simp add: putBack_def)
next
  case (Cons msg msgs)
  let ?c = "(forget_id (sm_ID msg) c)\<lparr>released := released c @ [(sm_ID msg, zero_time)]\<rparr>"
  have "consumer_inv dec m ?c"
    using Cons.prems safe_move [where c = c and c' = ?c and X = "{}" and dec = dec and m = m]
    by (auto simp: consumer_inv_def cursor_ok_def held_def)
  then show ?case using Cons.IH [of ?c] by (simp add: putBack_def)
qed

lemma each_pending_keeps:
  assumes P: "pebble_ok P contents"
  shows "\<lbrakk>each_pending P dec ids msgs e c d = (err, out, c', d'); consumer_inv dec (contents d) c\<rbrakk>
    \<Longrightarrow> shrinks (c_stream c) (contents d) (contents d') \<and> consumer_inv dec (contents d') c' \<and> c_stream c' = c_stream c"
proof (induction ids arbitrary: msgs e c d)
  case Nil
  then show ?case by simp
next
  case (Cons mid ids)
  obtain r c1 d1 where read: "readLocked P dec mid c d = (r, c1, d1)" by (metis prod_cases3)
  have eff: "shrinks (c_stream c) (contents d) (contents d1)" "safe dec (contents d1) c1 {}" "c_stream c1 = c_stream c"
      "cursor c1 = cursor c" "r = Inr None \<Longrightarrow> gone dec (contents d1) c1 mid"
    using readLocked_effect [OF P read, of "{}"] Cons.prems(2) by (simp_all add: consumer_inv_def gone_def)
  have ok1: "entries_ok (contents d1) (c_stream c1)" "cursor_ok (contents d1) c1"
    using Cons.prems(2) shrinks_entries_ok [OF eff(1)] shrinks_cursor_ok [OF eff(1)] eff(3,4)
    by (simp_all add: consumer_inv_def cursor_ok_def)
  have step: ?case if "consumer_inv dec (contents d1) c2" "c_stream c2 = c_stream c"
      "each_pending P dec ids msgs' e' c2 d1 = (err, out, c', d')" for msgs' e' c2
    using Cons.IH [OF that(3,1)] that(2) eff(1) by (auto intro: shrinks_trans)
  show ?case
  proof (cases r)
    case (Inl m)
    have "consumer_inv dec (contents d1) c1" using ok1 eff(2) by (simp add: consumer_inv_def)
    then show ?thesis using step Cons.prems(1) read Inl eff(3) by simp
  next
    case (Inr o1)
    show ?thesis
    proof (cases o1)
      case None
      have "consumer_inv dec (contents d1) (forget_id mid c1)"
        using ok1 safe_forget [OF eff(2)] eff(5) Inr None by (simp add: consumer_inv_def cursor_ok_def)
      then show ?thesis using step Cons.prems(1) read Inr None eff(3) by simp
    next
      case (Some msg)
      have "safe dec (contents d1) (hold_id mid c1) {}" using eff(2) by (auto simp: safe_def)
      then have "consumer_inv dec (contents d1) (hold_id mid c1)" using ok1 by (simp add: consumer_inv_def cursor_ok_def)
      then show ?thesis using step Cons.prems(1) read Inr Some eff(3) by simp
    qed
  qed
qed

text \<open>A batch of another component that acknowledges IDs at its end.\<close>

lemma AckInBatch_deletes: "op \<in> set (AckInBatch c ids) \<Longrightarrow> \<exists>ms seq. op = BDelete (entryKey (c_stream c) ms seq)"
  by (auto simp: AckInBatch_def split: sum.splits) (metis consumer_key_Inr)

lemma AckInBatch_shrinks: "shrinks (c_stream c) m (apply_batch (AckInBatch c ids) m)"
proof -
  have "\<forall>op \<in> set ops. \<exists>ms seq. op = BDelete (entryKey name ms seq) \<Longrightarrow> shrinks name m (apply_batch ops m)" for ops name
  proof (induction ops arbitrary: m)
    case (Cons op ops)
    then obtain ms seq where "op = BDelete (entryKey name ms seq)" by auto
    then show ?case using Cons shrinks_trans [OF delete_shrinks [of name m ms seq]] by simp
  qed simp
  then show ?thesis using AckInBatch_deletes by blast
qed

lemma AckInBatch_gone:
  assumes "formatID ms seq \<in> set ids"
  shows "apply_batch (AckInBatch c ids) m (entryKey (c_stream c) ms seq) = None"
  using assms
proof (induction ids arbitrary: m)
  case (Cons mid ids)
  show ?case
  proof (cases "mid = formatID ms seq")
    case True
    have "shrinks (c_stream c) m1 (apply_batch (AckInBatch c ids) m1)" for m1 by (rule AckInBatch_shrinks)
    then have "apply_batch (AckInBatch c ids) (m(entryKey (c_stream c) ms seq := None)) (entryKey (c_stream c) ms seq) = None"
      by (metis (no_types, lifting) fun_upd_same shrinks_def HasPrefix_entryKey)
    then show ?thesis using True by (simp add: AckInBatch_def)
  next
    case False
    then show ?thesis using Cons by (cases "consumer_key c mid") (simp_all add: AckInBatch_def)
  qed
qed simp

lemma held_Acked: "held (Acked ids c) = (set (c_pending c) - set ids) \<union> fst ` set (released c)"
  "c_stream (Acked ids c) = c_stream c" "cursor (Acked ids c) = cursor c"
proof -
  have "c_pending (Acked ids c) = filter (\<lambda>x. x \<notin> set ids) (c_pending c) \<and> released (Acked ids c) = released c
      \<and> c_stream (Acked ids c) = c_stream c \<and> cursor (Acked ids c) = cursor c"
    by (induction ids arbitrary: c) (auto simp: Acked_def forget_id_def removeAll_filter_not_eq intro!: filter_cong)
  then show "held (Acked ids c) = (set (c_pending c) - set ids) \<union> fst ` set (released c)"
    "c_stream (Acked ids c) = c_stream c" "cursor (Acked ids c) = cursor c" by (auto simp: held_def)
qed

text \<open>Keys of the queue: entries of a stream, and last IDs.\<close>

definition queue_key :: "string \<Rightarrow> string \<Rightarrow> bool" where
  "queue_key name q = (HasPrefix q (entryPrefixOf name) \<or> (\<exists>n. q = lastIDKey n))"

lemma queue_misses_shrinks:
  assumes "\<forall>op \<in> set ops. \<forall>q. queue_key name q \<longrightarrow> op_misses q op"
  shows "shrinks name m (apply_batch ops m)"
  using assms batch_misses [of ops _ m] by (simp add: shrinks_def queue_key_def)

lemma settle_keeps:
  assumes P: "pebble_ok P contents" and inv: "consumer_inv dec (contents d) c"
    and run: "db_Commit P (ops @ AckInBatch c ids) d = (None, d')"
    and ops: "\<forall>op \<in> set ops. \<forall>q. queue_key (c_stream c) q \<longrightarrow> op_misses q op"
  shows "shrinks (c_stream c) (contents d) (contents d') \<and> consumer_inv dec (contents d') (Acked ids c)
     \<and> c_stream (Acked ids c) = c_stream c"
proof -
  have d': "contents d' = apply_batch (AckInBatch c ids) (apply_batch ops (contents d))"
    using pebble_commit [OF P run] by simp
  have sh: "shrinks (c_stream c) (contents d) (contents d')"
    unfolding d' using queue_misses_shrinks [OF ops] AckInBatch_shrinks shrinks_trans by blast
  have "safe dec (contents d') (Acked ids c) {}"
    unfolding safe_def
  proof (intro allI impI)
    fix ms seq v
    assume e: "contents d' (entryKey (c_stream (Acked ids c)) ms seq) = Some v" "dec v \<noteq> None"
      "past (Acked ids c) (entryKey (c_stream (Acked ids c)) ms seq)"
    have "formatID ms seq \<notin> set ids" using AckInBatch_gone [of ms seq ids c "apply_batch ops (contents d)"] e(1) d' held_Acked(2) by auto
    moreover have "formatID ms seq \<in> held c"
      using shrinks_safe [OF sh, of dec "{}"] inv e held_Acked(2,3) [of ids c] by (auto simp: consumer_inv_def safe_def past_def)
    ultimately show "formatID ms seq \<in> held (Acked ids c) \<union> {}" unfolding held_Acked(1) by (auto simp: held_def)
  qed
  then show ?thesis
    using inv sh shrinks_entries_ok [OF sh] shrinks_cursor_ok [OF sh] held_Acked(2,3) [of ids c]
    by (simp add: consumer_inv_def cursor_ok_def)
qed

end
