(* ===== verification/Queue_Publish.thy ===== *)
theory Queue_Publish
  imports Queue_Contract
begin

text \<open>
  Publishing: every entry gets an ID above all before it, together with the meter charges, and the
  consumer's invariant survives it. The meter's counters and the ledger add up.
\<close>

section \<open>Fresh IDs\<close>

lemma stream_next_fresh:
  assumes "stream_next now st = ((ms, seq), st')" "lastSeq st \<noteq> - 1"
  shows "id_less (lastMS st, lastSeq st) (ms, seq)" "lastMS st' = ms" "lastSeq st' = seq"
proof -
  have "1 + lastSeq st \<noteq> 0" using assms(2) by (metis minus_unique)
  from unatSuc [OF this] have "unat (lastSeq st + 1) = Suc (unat (lastSeq st))" by (simp add: add.commute)
  then have inc: "lastSeq st < lastSeq st + 1" unfolding word_less_nat_alt by simp
  have "id_less (lastMS st, lastSeq st) (ms, seq) \<and> lastMS st' = ms \<and> lastSeq st' = seq"
  proof (cases "word_of_int (UnixMilli now) \<le> lastMS st")
    case True
    then have "ms = lastMS st" "seq = lastSeq st + 1" "lastMS st' = ms" "lastSeq st' = seq"
      using assms(1) by (auto simp: stream_next_def Let_def)
    then show ?thesis using inc by (simp add: id_less_def)
  next
    case False
    then have "ms = word_of_int (UnixMilli now)" "lastMS st' = ms" "lastSeq st' = seq"
      using assms(1) by (auto simp: stream_next_def Let_def)
    then show ?thesis using False by (simp add: id_less_def not_le)
  qed
  then show "id_less (lastMS st, lastSeq st) (ms, seq)" "lastMS st' = ms" "lastSeq st' = seq" by simp_all
qed

section \<open>What a publish commits\<close>

lemma charge_writes_keys: "charge_writes P now d cs = Inr ws \<Longrightarrow> x \<in> set ws \<Longrightarrow> \<exists>k v. fst x = BSet (StringKey k) v"
  by (induction cs arbitrary: ws) (auto simp: Let_def split: sum.splits)

definition counter_ops :: "batch_op list \<Rightarrow> bool" where
  "counter_ops ops = (\<forall>op \<in> set ops. \<exists>k v. op = BSet (StringKey k) v)"

lemma commitWithCharges_db:
  assumes P: "pebble_ok P contents" "pebble_clean P contents" and run: "commitWithCharges P w now fill b = (err, b')"
  shows "b_streams b' = b_streams b"
    and "err \<noteq> None \<Longrightarrow> contents (b_db b') = contents (b_db b)"
    and "err = None \<Longrightarrow> \<exists>ops. counter_ops ops
           \<and> contents (b_db b') = apply_batch ((case fill of None \<Rightarrow> [] | Some f \<Rightarrow> f) @ ops) (contents (b_db b))"
proof -
  obtain cs b1 where take: "(case b_ledger b of None \<Rightarrow> ([], b)
      | Some l \<Rightarrow> (case takeAll l of (cs, l') \<Rightarrow> (cs, b\<lparr>b_ledger := Some l'\<rparr>))) = (cs, b1)" by fastforce
  have b1: "b_db b1 = b_db b" "b_streams b1 = b_streams b"
    using take by (auto split: option.splits prod.splits)
  have run1: "(if fill = None \<and> cs = [] then (None, b1)
         else case charge_writes P now (b_db b1) cs of
           Inl m \<Rightarrow> (Some m, noteCommit (Some m) (untake_charges cs b1))
         | Inr ws \<Rightarrow>
            (case db_Commit P ((case fill of None \<Rightarrow> [] | Some ops \<Rightarrow> ops) @ map fst ws) (b_db b1) of
               (Some m, d') \<Rightarrow> (Some m, noteCommit (Some m) (untake_charges cs (b1\<lparr>b_db := d'\<rparr>)))
             | (None, d') \<Rightarrow>
                 (None, noteCommit None
                    (b1\<lparr>b_db := d',
                       b_ledger := map_option (\<lambda>l. foldl (\<lambda>l (c, n). ledger_commit w c n l) l (zip cs (map snd ws)))
                                     (b_ledger b1)\<rparr>)))) = (err, b')"
    using run take by (simp add: commitWithCharges_def)
  have "b_streams b' = b_streams b \<and> (err \<noteq> None \<longrightarrow> contents (b_db b') = contents (b_db b))
      \<and> (err = None \<longrightarrow> (\<exists>ops. counter_ops ops
           \<and> contents (b_db b') = apply_batch ((case fill of None \<Rightarrow> [] | Some f \<Rightarrow> f) @ ops) (contents (b_db b))))"
  proof (cases "fill = None \<and> cs = []")
    case True
    then show ?thesis using run1 b1 by (auto simp: counter_ops_def intro!: exI [of _ "[]"])
  next
    case False
    show ?thesis
    proof (cases "charge_writes P now (b_db b1) cs")
      case (Inl m)
      then show ?thesis using run1 False b1 by (auto simp: noteCommit_def untake_charges_def)
    next
      case (Inr ws)
      let ?ops = "(case fill of None \<Rightarrow> [] | Some ops \<Rightarrow> ops) @ map fst ws"
      obtain e d' where com: "db_Commit P ?ops (b_db b1) = (e, d')" by fastforce
      have ops: "counter_ops (map fst ws)" using charge_writes_keys [OF Inr] by (auto simp: counter_ops_def)
      show ?thesis
      proof (cases e)
        case None
        then have "contents d' = apply_batch ?ops (contents (b_db b))" using pebble_commit [OF P(1) com] b1 by simp
        then show ?thesis using run1 False Inr com None b1 ops by (auto simp: noteCommit_def)
      next
        case (Some m)
        then have "contents d' = contents (b_db b)" using P(2) com b1 unfolding pebble_clean_def by metis
        then show ?thesis using run1 False Inr com Some b1 by (auto simp: noteCommit_def untake_charges_def)
      qed
    qed
  qed
  then show "b_streams b' = b_streams b" "err \<noteq> None \<Longrightarrow> contents (b_db b') = contents (b_db b)"
    "err = None \<Longrightarrow> \<exists>ops. counter_ops ops
           \<and> contents (b_db b') = apply_batch ((case fill of None \<Rightarrow> [] | Some f \<Rightarrow> f) @ ops) (contents (b_db b))"
    by blast+
qed

lemma streamLocked_last:
  assumes P: "pebble_ok P contents" and inv: "broker_inv (contents (b_db b)) b" and run: "streamLocked P name b = (Inr st, b')"
  shows "(lastMS st, lastSeq st) = last_of (contents (b_db b)) name" "broker_inv (contents (b_db b)) b'"
    "b_db b' = b_db b" "b_streams b' name = Some st"
proof -
  have "(lastMS st, lastSeq st) = last_of (contents (b_db b)) name \<and> broker_inv (contents (b_db b)) b'
      \<and> b_db b' = b_db b \<and> b_streams b' name = Some st"
  proof (cases "b_streams b name")
    case None
    then obtain v where v: "db_Get P (b_db b) (lastIDKey name) = Inr v"
      using run by (auto simp: streamLocked_def split: sum.splits)
    have "v = contents (b_db b) (lastIDKey name)" using pebble_get [OF P v] .
    then have "(lastMS st, lastSeq st) = last_of (contents (b_db b)) name" "b' = b\<lparr>b_streams := (b_streams b)(name \<mapsto> st)\<rparr>"
      using run None v by (auto simp: streamLocked_def last_of_def Let_def split: option.splits if_splits)
    then show ?thesis using inv by (auto simp: broker_inv_def)
  next
    case (Some st0)
    then show ?thesis using run inv by (auto simp: streamLocked_def broker_inv_def)
  qed
  then show "(lastMS st, lastSeq st) = last_of (contents (b_db b)) name" "broker_inv (contents (b_db b)) b'"
    "b_db b' = b_db b" "b_streams b' name = Some st" by simp_all
qed

lemma streamLocked_error: "streamLocked P name b = (Inl m, b') \<Longrightarrow> b' = b"
  by (auto simp: streamLocked_def Let_def split: option.splits sum.splits)

lemma counter_ops_misses: "\<lbrakk>counter_ops ops; \<forall>k. q \<noteq> StringKey k\<rbrakk> \<Longrightarrow> \<forall>op \<in> set ops. op_misses q op"
  unfolding counter_ops_def by (metis op_misses.simps(1))

lemma broker_inv_streams: "broker_inv m b \<Longrightarrow> b_streams b' = b_streams b \<Longrightarrow> broker_inv m b'"
  by (simp add: broker_inv_def)

text \<open>Either nothing is written, or the entry under a fresh ID, the new last ID and counters.\<close>

lemma publish_effect:
  assumes P: "pebble_ok P contents" "pebble_clean P contents" and inv: "broker_inv (contents (b_db b)) b"
    and room: "snd (last_of (contents (b_db b)) name) \<noteq> - 1"
    and run: "publish P w now1 now2 name data b = (err, b')"
  shows "broker_inv (contents (b_db b')) b'
    \<and> (err \<noteq> None \<longrightarrow> contents (b_db b') = contents (b_db b))
    \<and> (err = None \<longrightarrow> (\<exists>ms seq ops. id_less (last_of (contents (b_db b)) name) (ms, seq) \<and> counter_ops ops
         \<and> contents (b_db b') = apply_batch ops ((contents (b_db b))(entryKey name ms seq \<mapsto> data, lastIDKey name \<mapsto> encodeID ms seq))))"
proof (cases "streamLocked P name b")
  case (Pair r b1)
  show ?thesis
  proof (cases r)
    case (Inl m)
    then have "b1 = b" using streamLocked_error Pair by blast
    then show ?thesis using run Pair Inl inv by (auto simp: publish_def noteCommit_def broker_inv_def)
  next
    case (Inr st)
    note s = streamLocked_last [OF P(1) inv Pair [unfolded Inr]]
    obtain ms seq st' where nx: "stream_next now1 st = ((ms, seq), st')" by (metis surj_pair)
    have "lastSeq st \<noteq> - 1" using room s(1) by (metis snd_conv)
    note fresh = stream_next_fresh [OF nx this]
    let ?b = "b1\<lparr>b_streams := (b_streams b1)(name \<mapsto> st')\<rparr>"
      and ?fill = "[BSet (entryKey name ms seq) data, BSet (lastIDKey name) (encodeID ms seq)]"
    obtain e b2 where com: "commitWithCharges P w now2 (Some ?fill) ?b = (e, b2)" by fastforce
    note db = commitWithCharges_db [OF P com]
    show ?thesis
    proof (cases e)
      case (Some m)
      then have b': "err = Some m" "b' = b2\<lparr>b_streams := (b_streams b2)(name \<mapsto> st)\<rparr>"
        using run Pair Inr nx com by (simp_all add: publish_def)
      have "contents (b_db b') = contents (b_db b)" using db(2) Some b'(2) s(3) by simp
      moreover have "b_streams b' = b_streams b1" using b'(2) db(1) s(4) by auto
      ultimately show ?thesis using b'(1) s(2) by (simp add: broker_inv_def)
    next
      case None
      then have b': "err = None" "b' = b2" using run Pair Inr nx com by (simp_all add: publish_def)
      obtain ops where ops: "counter_ops ops" "contents (b_db b2) = apply_batch (?fill @ ops) (contents (b_db b))"
        using db(3) None s(3) by auto
      let ?m = "(contents (b_db b))(entryKey name ms seq \<mapsto> data, lastIDKey name \<mapsto> encodeID ms seq)"
      have m: "contents (b_db b2) = apply_batch ops ?m" using ops(2) by simp
      have last: "contents (b_db b2) (lastIDKey n) = ?m (lastIDKey n)" for n
        unfolding m by (rule batch_misses) (rule counter_ops_misses [OF ops(1)], simp)
      have "last_of (contents (b_db b2)) name = (ms, seq)" by (simp add: last_of_def last idLen_def)
      moreover have "last_of (contents (b_db b2)) n = last_of (contents (b_db b)) n" if "n \<noteq> name" for n
        using that by (simp add: last_of_def last)
      ultimately have "broker_inv (contents (b_db b2)) b2"
        using s(2) db(1) fresh(2,3) by (auto simp: broker_inv_def)
      then show ?thesis using b' m ops(1) fresh(1) s(1) by auto
    qed
  qed
qed

section \<open>The consumer through a publish\<close>

lemma consumer_inv_agree:
  assumes "consumer_inv dec m c" "\<And>q. HasPrefix q (c_prefix c) \<Longrightarrow> m' q = m q" "m' (lastIDKey (c_stream c)) = m (lastIDKey (c_stream c))"
  shows "consumer_inv dec m' c"
proof -
  have l: "last_of m' (c_stream c) = last_of m (c_stream c)" using assms(3) by (simp add: last_of_def)
  show ?thesis using assms(1,2) unfolding consumer_inv_def entries_ok_def cursor_ok_def safe_def l by auto
qed

lemma prefix_of_other:
  "\<lbrakk>NUL \<notin> set n; NUL \<notin> set st; HasPrefix (entryKey n ms seq) (entryPrefixOf st)\<rbrakk> \<Longrightarrow> n = st"
  by (auto simp: HasPrefix_append entryKey_def entryPrefixOf_def NUL_split)

lemma counter_ops_frame:
  assumes "counter_ops ops"
  shows "HasPrefix q (entryPrefixOf n) \<Longrightarrow> apply_batch ops m q = m q" "apply_batch ops m (lastIDKey n) = m (lastIDKey n)"
proof -
  show "apply_batch ops m q = m q" if "HasPrefix q (entryPrefixOf n)"
    using that by (intro batch_misses counter_ops_misses [OF assms])
      (auto simp: HasPrefix_append entryPrefixOf_def entryPrefix_def StringKey_def stringPrefix_def)
  show "apply_batch ops m (lastIDKey n) = m (lastIDKey n)"
    by (intro batch_misses counter_ops_misses [OF assms]) simp
qed

lemma not_id_less_trans: "\<lbrakk>\<not> id_less a b; id_less a c\<rbrakk> \<Longrightarrow> \<not> id_less c b \<and> b \<noteq> c"
  using id_less_trans id_less_linear by blast

lemma new_entry_keeps:
  assumes inv: "consumer_inv dec m c" and fresh: "id_less (last_of m (c_stream c)) (ms, seq)"
  shows "consumer_inv dec (m(entryKey (c_stream c) ms seq \<mapsto> data, lastIDKey (c_stream c) \<mapsto> encodeID ms seq)) c"
proof -
  let ?s = "c_stream c"
  let ?m = "m(entryKey ?s ms seq \<mapsto> data, lastIDKey ?s \<mapsto> encodeID ms seq)"
  have last: "last_of ?m ?s = (ms, seq)" by (simp add: last_of_def idLen_def)
  have low: "\<not> id_less (ms, seq) x" if "\<not> id_less (last_of m ?s) x" for x
    using not_id_less_trans [OF that fresh] by simp
  have np: "\<not> HasPrefix (lastIDKey ?s) (entryPrefixOf ?s)"
    by (simp add: lastIDKey_def lastIDPrefix_def entryPrefixOf_def entryPrefix_def)
  have "entries_ok ?m ?s"
    unfolding entries_ok_def last
  proof (intro allI impI)
    fix q assume q: "?m q \<noteq> None" "HasPrefix q (entryPrefixOf ?s)"
    show "\<exists>ms' seq'. q = entryKey ?s ms' seq' \<and> \<not> id_less (ms, seq) (ms', seq')"
    proof (cases "q = entryKey ?s ms seq")
      case True
      then show ?thesis by auto
    next
      case False
      then have "m q \<noteq> None" using q np by (auto split: if_splits)
      then show ?thesis using inv q(2) low unfolding consumer_inv_def entries_ok_def by blast
    qed
  qed
  moreover have "cursor_ok ?m c" using inv low unfolding consumer_inv_def cursor_ok_def last by blast
  moreover have "safe dec ?m c {}"
    unfolding safe_def
  proof (intro allI impI)
    fix ms' seq' v
    assume e: "?m (entryKey ?s ms' seq') = Some v" "dec v \<noteq> None" "past c (entryKey ?s ms' seq')"
    obtain k where k: "cursor c = Some k" "\<not> bytes_less k (entryKey ?s ms' seq')" using e(3) by (auto simp: past_def split: option.splits)
    then obtain cm cs where c: "k = entryKey ?s cm cs" "\<not> id_less (last_of m ?s) (cm, cs)"
      using inv unfolding consumer_inv_def cursor_ok_def by blast
    have "id_less (cm, cs) (ms, seq)" using not_id_less_trans [OF c(2) fresh] id_less_linear [of "(cm, cs)" "(ms, seq)"] by blast
    then have "(ms', seq') \<noteq> (ms, seq)" using k(2) c(1) by auto
    then have "m (entryKey ?s ms' seq') = Some v" using e(1) by auto
    then show "formatID ms' seq' \<in> held c \<union> {}" using inv e(2,3) by (simp add: consumer_inv_def safe_def)
  qed
  ultimately show ?thesis by (simp add: consumer_inv_def)
qed

lemma publish_keeps:
  assumes P: "pebble_ok P contents" "pebble_clean P contents"
    and inv: "broker_inv (contents (b_db b)) b" "consumer_inv dec (contents (b_db b)) c"
    and names: "NUL \<notin> set name" "NUL \<notin> set (c_stream c)" and room: "snd (last_of (contents (b_db b)) name) \<noteq> - 1"
    and run: "publish P w now1 now2 name data b = (err, b')"
  shows "broker_inv (contents (b_db b')) b' \<and> consumer_inv dec (contents (b_db b')) c"
proof -
  note eff = publish_effect [OF P inv(1) room run]
  show ?thesis
  proof (cases err)
    case (Some m)
    then show ?thesis using eff inv(2) by auto
  next
    case None
    then obtain ms seq ops where new: "id_less (last_of (contents (b_db b)) name) (ms, seq)" "counter_ops ops"
      "contents (b_db b') = apply_batch ops ((contents (b_db b))(entryKey name ms seq \<mapsto> data, lastIDKey name \<mapsto> encodeID ms seq))"
      using eff by blast
    let ?m = "(contents (b_db b))(entryKey name ms seq \<mapsto> data, lastIDKey name \<mapsto> encodeID ms seq)"
    have "consumer_inv dec ?m c"
    proof (cases "c_stream c = name")
      case True
      then show ?thesis using new_entry_keeps [OF inv(2), of ms seq data] new(1) by simp
    next
      case False
      show ?thesis
      proof (rule consumer_inv_agree [OF inv(2)])
        show "?m q = contents (b_db b) q" if "HasPrefix q (c_prefix c)" for q
        proof -
          have "q \<noteq> entryKey name ms seq" using that prefix_of_other [OF names(1,2), of ms seq] False by blast
          moreover have "q \<noteq> lastIDKey name"
            using that by (auto simp: HasPrefix_append lastIDKey_def lastIDPrefix_def entryPrefixOf_def entryPrefix_def)
          ultimately show ?thesis by simp
        qed
        show "?m (lastIDKey (c_stream c)) = contents (b_db b) (lastIDKey (c_stream c))" using False by simp
      qed
    qed
    then have "consumer_inv dec (contents (b_db b')) c"
      unfolding new(3) by (rule consumer_inv_agree) (simp_all add: counter_ops_frame [OF new(2)])
    then show ?thesis using eff by blast
  qed
qed

end
