(* ===== verification/Queue_Charges.thy ===== *)
theory Queue_Charges
  imports Queue_Publish
begin

text \<open>
  The meter charges of the relay queue: what a commit adds to a counter is what it takes off the ledger,
  and a commit that fails puts back what it took.
\<close>

section \<open>Counters\<close>

definition counter_in :: "contents \<Rightarrow> time \<Rightarrow> string \<Rightarrow> int option" where
  "counter_in m now key =
     (case m (StringKey key) of
        None \<Rightarrow> Some 0
      | Some raw \<Rightarrow>
         (case DecodeValue raw now of
            Inl _ \<Rightarrow> None
          | Inr (v, e, expired) \<Rightarrow> if expired then Some 0 else ParseInt v))"

text \<open>A TTL the codec keeps: none, or from a millisecond up to the last representable instant.\<close>

definition ttl_ok :: "time \<Rightarrow> duration \<Rightarrow> bool" where
  "ttl_ok now ttl = (ttl \<le> 0 \<or> 10 ^ 6 \<le> ttl \<and> UnixMilli (now + ttl) < 2 ^ 63)"

text \<open>The ledger's callback, if any, finishes the write, as \<open>RelayMeter.chargeWritten\<close> does.\<close>

definition finishes :: "(string \<Rightarrow> int \<Rightarrow> int \<Rightarrow> ledger \<Rightarrow> ledger) option \<Rightarrow> bool" where
  "finishes w = (\<forall>fn. w = Some fn \<longrightarrow> (\<forall>key amount consumed l. fn key amount consumed l = FinishWrite key amount l))"

lemma finishes_commit: "finishes w \<Longrightarrow> ledger_commit w = ledger_commit None"
  by (intro ext) (auto simp: finishes_def ledger_commit_def split: option.splits)

lemma counterLocked_in:
  assumes "pebble_ok P contents" "counterLocked P key now d = Inr (n, e)"
  shows "counter_in (contents d) now key = Some n"
proof -
  obtain v where v: "db_Get P d (StringKey key) = Inr v" using assms(2) by (auto simp: counterLocked_def split: sum.splits)
  then have "contents d (StringKey key) = v" using pebble_get [OF assms(1)] by simp
  then show ?thesis using assms(2) v
    by (auto simp: counterLocked_def counter_in_def split: option.splits sum.splits if_splits)
qed

text \<open>An expiry a counter is read with is stored again as it was.\<close>

lemma read_expiry:
  assumes "counterLocked P key now d = Inr (n, e)" "0 \<le> now" "e \<noteq> zero_time"
  shows "storable e \<and> kept e = e \<and> now < e"
proof -
  obtain raw v where raw: "DecodeValue raw now = Inr (v, e, False)"
    using assms(1,3) by (auto simp: counterLocked_def split: option.splits sum.splits if_splits)
  let ?ms = "be_uint64 (take 8 raw)"
  have e: "e = of_millis (sint ?ms)" "now < e" using raw assms(3) by (auto simp: DecodeValue_def Let_def split: if_splits)
  have "0 < sint ?ms" using e assms(2) by (simp add: of_millis_def)
  moreover have "sint ?ms < 2 ^ 63" using sint_less [of ?ms] by simp
  ultimately show ?thesis using e by (simp add: storable_def kept_def UnixMilli_def of_millis_def)
qed

definition new_expiry :: "time \<Rightarrow> duration \<Rightarrow> time \<Rightarrow> time" where
  "new_expiry now ttl e = (if e = zero_time \<and> 0 < ttl then now + ttl else e)"

lemma new_expiry_live:
  assumes "counterLocked P key now d = Inr (n, e)" "0 < now" "ttl_ok now ttl"
  shows "storable (new_expiry now ttl e)" "new_expiry now ttl e = zero_time \<or> now < kept (new_expiry now ttl e)"
proof -
  have "storable (new_expiry now ttl e) \<and> (new_expiry now ttl e = zero_time \<or> now < kept (new_expiry now ttl e))"
  proof (cases "e = zero_time \<and> 0 < ttl")
    case True
    let ?t = "now + ttl"
    have t: "10 ^ 6 \<le> ttl" "UnixMilli ?t < 2 ^ 63" using assms(3) True by (auto simp: ttl_ok_def)
    have "?t - 10 ^ 6 < of_millis (UnixMilli ?t)"
      using div_mult_mod_eq [of ?t "10 ^ 6"] pos_mod_bound [of "10 ^ 6" ?t] by (simp add: of_millis_def UnixMilli_def)
    then have "now < of_millis (UnixMilli ?t)" using t by linarith
    moreover have "0 < UnixMilli ?t" using assms(2) t(1) by (simp add: UnixMilli_def)
    moreover have "?t \<noteq> zero_time" using assms(2) True by (simp add: zero_time_def)
    ultimately show ?thesis using True t by (simp add: new_expiry_def storable_def kept_def)
  next
    case False
    then have "new_expiry now ttl e = e" by (auto simp: new_expiry_def)
    then show ?thesis using read_expiry [OF assms(1)] assms(2) by (cases "e = zero_time") (simp_all add: storable_def)
  qed
  then show "storable (new_expiry now ttl e)" "new_expiry now ttl e = zero_time \<or> now < kept (new_expiry now ttl e)" by simp_all
qed

section \<open>What the writes leave in the counters\<close>

lemma charge_writes_length: "charge_writes P now d cs = Inr ws \<Longrightarrow> length ws = length cs"
  by (induction cs arbitrary: ws) (auto simp: Let_def split: sum.splits)

lemma charge_writes_Cons:
  assumes "charge_writes P now d (c # cs) = Inr ws"
  obtains n e ws' where "counterLocked P (ch_Key c) now d = Inr (n, e)" "charge_writes P now d cs = Inr ws'"
    "ws = (BSet (StringKey (ch_Key c)) (EncodeValue (new_expiry now (ch_TTL c) e) (FormatInt (i64 (n + ch_Amount c)))), i64 (n + ch_Amount c)) # ws'"
  using assms by (auto simp: Let_def new_expiry_def split: sum.splits)

lemma charge_writes_other:
  "\<lbrakk>charge_writes P now d cs = Inr ws; key \<notin> ch_Key ` set cs\<rbrakk> \<Longrightarrow> apply_batch (map fst ws) m (StringKey key) = m (StringKey key)"
proof (induction cs arbitrary: ws m)
  case (Cons c cs)
  from Cons.prems(1) obtain n e ws' where "charge_writes P now d cs = Inr ws'"
    "ws = (BSet (StringKey (ch_Key c)) (EncodeValue (new_expiry now (ch_TTL c) e) (FormatInt (i64 (n + ch_Amount c)))), i64 (n + ch_Amount c)) # ws'"
    by (rule charge_writes_Cons)
  then show ?case using Cons.IH Cons.prems(2) by (simp add: StringKey_def)
qed simp

lemma charge_writes_counter:
  "\<lbrakk>charge_writes P now d cs = Inr ws; distinct (map ch_Key cs); c \<in> set cs\<rbrakk>
   \<Longrightarrow> \<exists>n e. counterLocked P (ch_Key c) now d = Inr (n, e)
      \<and> apply_batch (map fst ws) m (StringKey (ch_Key c)) = Some (EncodeValue (new_expiry now (ch_TTL c) e) (FormatInt (i64 (n + ch_Amount c))))"
proof (induction cs arbitrary: ws m)
  case (Cons x cs)
  from Cons.prems(1) obtain n e ws' where one: "counterLocked P (ch_Key x) now d = Inr (n, e)" "charge_writes P now d cs = Inr ws'"
    "ws = (BSet (StringKey (ch_Key x)) (EncodeValue (new_expiry now (ch_TTL x) e) (FormatInt (i64 (n + ch_Amount x)))), i64 (n + ch_Amount x)) # ws'"
    by (rule charge_writes_Cons)
  show ?case
  proof (cases "c = x")
    case True
    then show ?thesis using one Cons.prems(2) charge_writes_other [OF one(2), of "ch_Key x"] by auto
  next
    case False
    then show ?thesis using Cons.IH [OF one(2)] Cons.prems(2,3) one(3) by simp
  qed
qed simp

section \<open>Conservation\<close>

lemma counter_after:
  assumes P: "pebble_ok P contents" and ws: "charge_writes P now (b_db b) cs = Inr ws" "distinct (map ch_Key cs)"
    and ttl: "0 < now" "\<forall>c \<in> set cs. ttl_ok now (ch_TTL c)"
    and n: "counter_in (contents (b_db b)) now key = Some n" "in_i64 (n + amount_in cs key)"
    and m: "m (StringKey key) = contents (b_db b) (StringKey key)"
  shows "counter_in (apply_batch (map fst ws) m) now key = Some (n + amount_in cs key)"
proof (cases "key \<in> ch_Key ` set cs")
  case False
  have "amount_in cs key = 0" using False by (induction cs) auto
  then show ?thesis using charge_writes_other [OF ws(1) False, of m] m n(1) by (simp add: counter_in_def)
next
  case True
  then obtain c where c: "c \<in> set cs" "key = ch_Key c" by blast
  have amount: "amount_in cs key = ch_Amount c"
    using ws(2) c
  proof (induction cs)
    case (Cons x cs)
    have none: "key \<notin> ch_Key ` set cs \<Longrightarrow> amount_in cs key = 0" for cs by (induction cs) auto
    show ?case
    proof (cases "c = x")
      case True
      then show ?thesis using Cons.prems none [of cs] by simp
    next
      case False
      then show ?thesis using Cons by auto
    qed
  qed simp
  obtain n' e where w: "counterLocked P (ch_Key c) now (b_db b) = Inr (n', e)"
    "apply_batch (map fst ws) m (StringKey (ch_Key c)) = Some (EncodeValue (new_expiry now (ch_TTL c) e) (FormatInt (i64 (n' + ch_Amount c))))"
    using charge_writes_counter [OF ws c(1), of m] by blast
  have n': "n' = n" using counterLocked_in [OF P w(1)] n(1) c(2) by simp
  have ttl_c: "ttl_ok now (ch_TTL c)" using ttl(2) c(1) by blast
  note live = new_expiry_live [OF w(1) ttl(1) ttl_c]
  have "ParseInt (FormatInt (n + ch_Amount c)) = Some (n + ch_Amount c)" using n(2) amount by (simp add: ParseInt_FormatInt)
  then show ?thesis using w(2) live c(2) n(2) amount n' by (auto simp: counter_in_def Decode_Encode i64_id)
qed

lemma ledger_charges:
  assumes "ledger_inv l"
  shows "distinct (map ch_Key (map snd (ld_pending l)))" "\<forall>c \<in> set (map snd (ld_pending l)). 0 < ch_Amount c"
proof -
  have "map ch_Key (map snd (ld_pending l)) = map fst (ld_pending l)" using assms by (auto simp: ledger_inv_def)
  then show "distinct (map ch_Key (map snd (ld_pending l)))" using assms unfolding ledger_inv_def by argo
  show "\<forall>c \<in> set (map snd (ld_pending l)). 0 < ch_Amount c" using assms by (auto simp: ledger_inv_def)
qed

text \<open>
  What a commit leaves: on success the counters grew by what was queued and the ledger holds the rest of
  what was being written; on failure the counters and what the ledger holds for each pair are as before.
\<close>

lemma commitWithCharges_books:
  assumes P: "pebble_ok P contents" "pebble_clean P contents" and l: "b_ledger b = Some l" "ledger_inv l" and w: "finishes w"
    and ttl: "0 < now" "\<forall>(k, c) \<in> set (ld_pending l). ttl_ok now (ch_TTL c)"
    and n: "counter_in (contents (b_db b)) now key = Some n" "in_i64 (n + queued_of l key)"
    and fill: "\<forall>ops. fill = Some ops \<longrightarrow> (\<forall>op \<in> set ops. op_misses (StringKey key) op)"
    and run: "commitWithCharges P w now fill b = (err, b')"
  shows "\<exists>l'. b_ledger b' = Some l'
    \<and> (err = None \<longrightarrow> counter_in (contents (b_db b')) now key = Some (n + queued_of l key)
         \<and> writing_of l' key = writing_of l key \<and> queued_of l' key = 0)
    \<and> (err \<noteq> None \<longrightarrow> counter_in (contents (b_db b')) now key = Some n
         \<and> writing_of l' key = writing_of l key \<and> queued_of l' key = queued_of l key)"
proof -
  obtain cs l1 where take: "takeAll l = (cs, l1)" by fastforce
  note tk = takeAll_effect [OF l(2) take]
  let ?pre = "case fill of None \<Rightarrow> [] | Some ops \<Rightarrow> ops"
  have cs: "distinct (map ch_Key cs)" "\<forall>c \<in> set cs. 0 < ch_Amount c" using ledger_charges [OF l(2)] unfolding tk(4) by simp_all
  have am: "amount_in cs q = queued_of l q" for q using amount_in_queued [OF l(2)] tk(4) by simp
  have wr: "writing_of l1 q = writing_of l q + queued_of l q" "queued_of l1 q = 0" for q
    using takeAll_effect(3) [OF l(2) take] tk(2) by (simp_all add: queued_of_def)
  have le: "\<forall>q. amount_in cs q \<le> writing_of l1 q" using writing_nonneg [OF l(2)] by (simp add: wr am)
  have r: "\<forall>q. in_i64 (writing_of l1 q)" using l(2) by (simp add: wr ledger_inv_def)
  have ttl': "\<forall>c \<in> set cs. ttl_ok now (ch_TTL c)" using ttl(2) tk(4) by auto
  have returned: "writing_of (foldl (\<lambda>l c. untake c l) l1 cs) q = writing_of l q
      \<and> queued_of (foldl (\<lambda>l c. untake c l) l1 cs) q = queued_of l q" for q
    using untake_all [of cs l1 q] cs(2) le r wr am by simp
  obtain b1 where b1: "b1 = b\<lparr>b_ledger := Some l1\<rparr>" by simp
  have taken: "(case b_ledger b of None \<Rightarrow> ([], b)
      | Some l \<Rightarrow> (case takeAll l of (cs, l') \<Rightarrow> (cs, b\<lparr>b_ledger := Some l'\<rparr>))) = (cs, b1)" using l(1) take b1 by simp
  have run1: "(if fill = None \<and> cs = [] then (None, b1)
         else case charge_writes P now (b_db b1) cs of
           Inl m \<Rightarrow> (Some m, noteCommit (Some m) (untake_charges cs b1))
         | Inr ws \<Rightarrow>
            (case db_Commit P (?pre @ map fst ws) (b_db b1) of
               (Some m, d') \<Rightarrow> (Some m, noteCommit (Some m) (untake_charges cs (b1\<lparr>b_db := d'\<rparr>)))
             | (None, d') \<Rightarrow>
                 (None, noteCommit None (b1\<lparr>b_db := d',
                    b_ledger := map_option (\<lambda>l. foldl (\<lambda>l (c, n). ledger_commit w c n l) l (zip cs (map snd ws)))
                                  (b_ledger b1)\<rparr>)))) = (err, b')"
    using run taken by (simp add: commitWithCharges_def)
  have b1s: "b_db b1 = b_db b" "b_ledger b1 = Some l1" using b1 by simp_all
  show ?thesis
  proof (cases "fill = None \<and> cs = []")
    case True
    then have "queued_of l key = 0" using am [of key] by simp
    then show ?thesis using run1 True n wr [of key] b1s by auto
  next
    case False
    show ?thesis
    proof (cases "charge_writes P now (b_db b) cs")
      case (Inl m)
      then show ?thesis using run1 b1s False returned [of key] n(1) by (auto simp: noteCommit_def untake_charges_def)
    next
      case (Inr ws)
      obtain e d' where com: "db_Commit P (?pre @ map fst ws) (b_db b) = (e, d')" by fastforce
      show ?thesis
      proof (cases e)
        case (Some m)
        then have "contents d' = contents (b_db b)" using P(2) com unfolding pebble_clean_def by metis
        then show ?thesis using run1 b1s False Inr com Some returned [of key] n(1) by (auto simp: noteCommit_def untake_charges_def)
      next
        case None
        have "contents d' = apply_batch (map fst ws) (apply_batch ?pre (contents (b_db b)))"
          using pebble_commit [OF P(1) com] None by simp
        moreover have "apply_batch ?pre (contents (b_db b)) (StringKey key) = contents (b_db b) (StringKey key)"
          using fill by (intro batch_misses) (auto split: option.splits)
        ultimately have cnt: "counter_in (contents d') now key = Some (n + queued_of l key)"
          using counter_after [OF P(1) Inr cs(1) ttl(1) ttl' n(1)] n(2) by (simp add: am)
        let ?l = "foldl (\<lambda>l (c, n). ledger_commit w c n l) l1 (zip cs (map snd ws))"
        have "writing_of ?l key = writing_of l key \<and> queued_of ?l key = 0"
          using commit_all [OF cs(2) le r, of "map snd ws" key] charge_writes_length [OF Inr] wr [of key] am [of key]
          by (simp add: finishes_commit [OF w])
        then show ?thesis using run1 b1s False Inr com None cnt by (auto simp: noteCommit_def)
      qed
    qed
  qed
qed

end
