(* ===== verification/Queue_Props.thy ===== *)
theory Queue_Props
  imports Queue_Charges
begin

text \<open>
  The relay queue as a whole: its steps, taken in any order with crashes in between, never lose sight of
  an entry; a short batch leaves nothing to read; publishing adds one entry above all others; the meter
  charges written and still to write add up; IDs survive printing and keep their order.
\<close>

section \<open>The steps of the queue\<close>

text \<open>
  One broker and the consumer of one stream. The database is also written by the other components
  (\<open>Q_other\<close>), which keep off the queue's keys, and by the commit of a batch of relays that acknowledges
  its messages (\<open>Q_settle\<close>); a commit of any batch may fail (\<open>Q_failed\<close>). \<open>Q_restart\<close> is a crash: what is not in the database is lost.
\<close>

inductive qstep ::
  "'d pebble \<Rightarrow> ('d \<Rightarrow> contents) \<Rightarrow> (string \<Rightarrow> int \<Rightarrow> int \<Rightarrow> ledger \<Rightarrow> ledger) option \<Rightarrow> (string \<Rightarrow> 'm option)
   \<Rightarrow> 'd broker \<times> consumer \<Rightarrow> 'd broker \<times> consumer \<Rightarrow> bool" for P contents w dec where
  Q_publish: "\<lbrakk>NUL \<notin> set name; snd (last_of (contents (b_db b)) name) \<noteq> - 1;
      publish P w now1 now2 name data b = (err, b')\<rbrakk> \<Longrightarrow> qstep P contents w dec (b, c) (b', c)"
| Q_flush: "flushCharges P w now b = (err, b') \<Longrightarrow> qstep P contents w dec (b, c) (b', c)"
| Q_health: "DispatcherHealthy P w now1 now2 b = (err, b') \<Longrightarrow> qstep P contents w dec (b, c) (b', c)"
| Q_ledger: "qstep P contents w dec (b, c) (SetChargeLedger l b, c)"
| Q_read: "nextBatch P dec now c (b_db b) = (err, out, nd, c', d') \<Longrightarrow> qstep P contents w dec (b, c) (b\<lparr>b_db := d'\<rparr>, c')"
| Q_back: "qstep P contents w dec (b, c) (b, putBack (msgs :: 'm StreamMessage list) c)"
| Q_ack: "AckMessage P (msg :: 'm StreamMessage) c (b_db b) = (err, c', d') \<Longrightarrow> qstep P contents w dec (b, c) (b\<lparr>b_db := d'\<rparr>, c')"
| Q_release: "ReleaseMessage now (msg :: 'm StreamMessage) c = (err, c') \<Longrightarrow> qstep P contents w dec (b, c) (b, c')"
| Q_own: "EachOwnPending P dec c (b_db b) = (err, out, c', d') \<Longrightarrow> qstep P contents w dec (b, c) (b\<lparr>b_db := d'\<rparr>, c')"
| Q_settle: "\<lbrakk>db_Commit P (ops @ AckInBatch c ids) (b_db b) = (None, d');
      \<forall>op \<in> set ops. \<forall>q. queue_key (c_stream c) q \<longrightarrow> op_misses q op\<rbrakk>
      \<Longrightarrow> qstep P contents w dec (b, c) (b\<lparr>b_db := d'\<rparr>, Acked ids c)"
| Q_other: "\<lbrakk>db_Commit P ops (b_db b) = (err, d'); \<forall>op \<in> set ops. \<forall>q. queue_key (c_stream c) q \<longrightarrow> op_misses q op\<rbrakk>
      \<Longrightarrow> qstep P contents w dec (b, c) (b\<lparr>b_db := d'\<rparr>, c)"
| Q_failed: "db_Commit P ops (b_db b) = (Some m, d') \<Longrightarrow> qstep P contents w dec (b, c) (b\<lparr>b_db := d'\<rparr>, c)"
| Q_trim: "TrimStream P now maxAge c (b_db b) = (Inr n, c', d') \<Longrightarrow> qstep P contents w dec (b, c) (b\<lparr>b_db := d'\<rparr>, c')"
| Q_close: "qstep P contents w dec (b, c) (b, consumer_Close c)"
| Q_restart: "\<lbrakk>Broker_Consumer P prefix supplier idle (NewBroker (b_db b)) = (Inr c', b'); c_stream c' = c_stream c\<rbrakk>
      \<Longrightarrow> qstep P contents w dec (b, c) (b', c')"

definition queue_inv :: "('d \<Rightarrow> contents) \<Rightarrow> (string \<Rightarrow> 'm option) \<Rightarrow> 'd broker \<times> consumer \<Rightarrow> bool" where
  "queue_inv contents dec s =
     (case s of (b, c) \<Rightarrow> broker_inv (contents (b_db b)) b \<and> consumer_inv dec (contents (b_db b)) c \<and> NUL \<notin> set (c_stream c))"

lemma queue_invI:
  "\<lbrakk>broker_inv (contents (b_db b)) b; consumer_inv dec (contents (b_db b)) c; NUL \<notin> set (c_stream c)\<rbrakk>
   \<Longrightarrow> queue_inv contents dec (b, c)"
  by (simp add: queue_inv_def)

lemma queue_inv_shrunk:
  assumes "queue_inv contents dec (b, c)" "shrinks (c_stream c) (contents (b_db b)) (contents d')"
    "consumer_inv dec (contents d') c'" "c_stream c' = c_stream c"
  shows "queue_inv contents dec (b\<lparr>b_db := d'\<rparr>, c')"
  using assms(1,3,4) shrinks_last [OF assms(2)] by (simp add: queue_inv_def broker_inv_def)

lemma consumer_inv_shrinks: "\<lbrakk>shrinks (c_stream c) m m'; consumer_inv dec m c\<rbrakk> \<Longrightarrow> consumer_inv dec m' c"
  using shrinks_entries_ok shrinks_cursor_ok shrinks_safe unfolding consumer_inv_def by metis

text \<open>Writing charges, alone or with the health probe, keeps off the queue.\<close>

lemma commit_charges_keeps:
  assumes P: "pebble_ok P contents" "pebble_clean P contents" and inv: "queue_inv contents dec (b, c)"
    and run: "commitWithCharges P w now fill b = (err, b')" and fill: "fill = None \<or> fill = Some [BSet probeKey []]"
  shows "queue_inv contents dec (b', c)"
proof -
  note db = commitWithCharges_db [OF P run]
  have "shrinks (c_stream c) (contents (b_db b)) (contents (b_db b'))"
  proof (cases err)
    case None
    then obtain ops where ops: "counter_ops ops"
      "contents (b_db b') = apply_batch ((case fill of None \<Rightarrow> [] | Some f \<Rightarrow> f) @ ops) (contents (b_db b))"
      using db(3) by blast
    let ?m = "apply_batch (case fill of None \<Rightarrow> [] | Some f \<Rightarrow> f) (contents (b_db b))"
    have m: "contents (b_db b') = apply_batch ops ?m" using ops(2) by simp
    have probe: "?m q = contents (b_db b) q" if "q \<noteq> probeKey" for q using fill that by auto
    have "\<not> HasPrefix probeKey (entryPrefixOf (c_stream c))" by (simp add: probeKey_def entryPrefixOf_def entryPrefix_def)
    then have "?m q = contents (b_db b) q" if "HasPrefix q (c_prefix c)" for q using probe that by metis
    moreover have "?m (lastIDKey n) = contents (b_db b) (lastIDKey n)" for n by (rule probe) simp
    ultimately show ?thesis unfolding m shrinks_def using counter_ops_frame [OF ops(1)] by simp
  next
    case (Some x)
    then show ?thesis using db(2) by simp
  qed
  moreover have "b_streams b' = b_streams b" using db(1) .
  ultimately show ?thesis
    using inv consumer_inv_shrinks shrinks_broker [of "c_stream c" "contents (b_db b)" "contents (b_db b')" b]
    by (auto simp: queue_inv_def broker_inv_def)
qed

lemma fresh_consumer:
  assumes P: "pebble_ok P contents" and run: "Broker_Consumer P prefix supplier idle (NewBroker d) = (Inr c, b)"
  shows "b_db b = d" "cursor c = None" "broker_inv (contents d) b"
proof -
  obtain r b1 where s: "streamLocked P (SupplierStreamName prefix supplier) (NewBroker d) = (r, b1)" by fastforce
  then obtain st where st: "r = Inr st" "b = b1" "cursor c = None"
    using run by (cases r) (auto simp: Broker_Consumer_def Let_def)
  have "broker_inv (contents (b_db (NewBroker d))) (NewBroker d)" by (simp add: broker_inv_def NewBroker_def)
  from streamLocked_last [OF P this s [unfolded st(1)]] show "b_db b = d" "cursor c = None" "broker_inv (contents d) b"
    using st(2,3) by (simp_all add: NewBroker_def)
qed

lemma fresh_consumer_inv: "\<lbrakk>cursor c = None; entries_ok m (c_stream c)\<rbrakk> \<Longrightarrow> consumer_inv dec m c"
  by (simp add: consumer_inv_def cursor_ok_def safe_def past_def)

text \<open>
  Trimming, when it succeeds: what it forgets it has deleted. (When its commit fails, the IDs are already
  forgotten and the entries are still there.)
\<close>

lemma TrimStream_keeps:
  assumes P: "pebble_ok P contents" and inv: "consumer_inv dec (contents d) c" and run: "TrimStream P now maxAge c d = (Inr n, c', d')"
  shows "shrinks (c_stream c) (contents d) (contents d') \<and> consumer_inv dec (contents d') c' \<and> c_stream c' = c_stream c"
proof (cases "c_closed c")
  case True
  then show ?thesis using run inv by (simp add: TrimStream_def)
next
  case False
  let ?up = "c_prefix c @ encodeID (word_of_int (UnixMilli (now - maxAge))) 0"
  obtain kvs where iter: "db_Iter P d (c_prefix c) (Some ?up) = Inr kvs"
    using run False by (auto simp: TrimStream_def Let_def split: sum.splits)
  let ?ids = "List.map_filter (\<lambda>(key, _). idOfKey (c_prefix c) key) kvs"
  have run1: "(if ?ids = [] then (Inr 0, Acked ?ids c, d)
     else case db_Commit P [BDeleteRange (c_prefix c) (Some ?up)] d of
            (Some m, d') \<Rightarrow> (Inl m, Acked ?ids c, d') | (None, d') \<Rightarrow> (Inr (length ?ids), Acked ?ids c, d')) = (Inr n, c', d')"
    using run False iter by (simp add: TrimStream_def Let_def Acked_def [symmetric] held_Acked(2) cong: if_cong)
  show ?thesis
  proof (cases "?ids = []")
    case True
    then show ?thesis using run1 inv by (simp add: Acked_def)
  next
    case False
    then have c': "c' = Acked ?ids c" and com: "db_Commit P [BDeleteRange (c_prefix c) (Some ?up)] d = (None, d')"
      using run1 by (auto split: prod.splits option.splits)
    have m: "contents d' k = (if in_range (c_prefix c) (Some ?up) k then None else contents d k)" for k
      using pebble_commit [OF P com] by simp
    have "\<not> in_range (c_prefix c) (Some ?up) (lastIDKey q)" for q
      by (simp add: in_range_def entryPrefixOf_def entryPrefix_def lastIDKey_def lastIDPrefix_def)
    then have sh: "shrinks (c_stream c) (contents d) (contents d')" by (simp add: shrinks_def m)
    have trimmed: "formatID ms seq \<notin> set ?ids" if "contents d' (entryKey (c_stream c) ms seq) = Some v" for ms seq v
    proof
      assume "formatID ms seq \<in> set ?ids"
      then obtain k w where k: "(k, w) \<in> set kvs" "idOfKey (c_prefix c) k = Some (formatID ms seq)"
        by (auto simp: List.map_filter_def)
      then have "k = entryKey (c_stream c) ms seq" using idOfKey_Some [OF k(2)] by auto
      moreover have "in_range (c_prefix c) (Some ?up) k" using pebble_iter [OF P iter] k(1) by blast
      ultimately show False using that m by simp
    qed
    have "safe dec (contents d') (Acked ?ids c) {}"
      unfolding safe_def
    proof (intro allI impI)
      fix ms seq v
      assume e: "contents d' (entryKey (c_stream (Acked ?ids c)) ms seq) = Some v" "dec v \<noteq> None"
        "past (Acked ?ids c) (entryKey (c_stream (Acked ?ids c)) ms seq)"
      have "formatID ms seq \<in> held c"
        using shrinks_safe [OF sh, of dec "{}"] inv e held_Acked(2,3) [of ?ids c] by (auto simp: consumer_inv_def safe_def past_def)
      then show "formatID ms seq \<in> held (Acked ?ids c) \<union> {}"
        using trimmed e(1) held_Acked(1,2) [of ?ids c] by (auto simp: held_def)
    qed
    then show ?thesis
      unfolding c' using inv sh shrinks_entries_ok [OF sh] shrinks_cursor_ok [OF sh] held_Acked(2,3) [of ?ids c]
      by (simp add: consumer_inv_def cursor_ok_def)
  qed
qed

lemma qstep_keeps:
  assumes P: "pebble_ok P contents" "pebble_clean P contents"
  shows "qstep P contents w dec s s' \<Longrightarrow> queue_inv contents dec s \<Longrightarrow> queue_inv contents dec s'"
proof (induction rule: qstep.induct)
  case (Q_publish name b now1 now2 data err b' c)
  then have inv: "broker_inv (contents (b_db b)) b" "consumer_inv dec (contents (b_db b)) c" "NUL \<notin> set (c_stream c)"
    by (simp_all add: queue_inv_def)
  from publish_keeps [OF P inv(1,2) Q_publish(1) inv(3) Q_publish(2,3)] inv(3) show ?case by (simp add: queue_invI)
next
  case (Q_flush now b err b' c)
  show ?case
  proof (cases "b_ledger b = None")
    case True
    then show ?thesis using Q_flush by (simp add: flushCharges_def)
  next
    case False
    then have "commitWithCharges P w now None b = (err, b')" using Q_flush(1) by (simp add: flushCharges_def split: if_splits)
    from commit_charges_keeps [OF P Q_flush(2) this] show ?thesis by simp
  qed
next
  case (Q_health now1 now2 b err b' c)
  obtain probe e b1 where h: "commitHealth now1 b = ((probe, e), b1)" by (metis prod.collapse)
  then have inv: "queue_inv contents dec (b1, c)"
    using Q_health(2) by (auto simp: commitHealth_def queue_inv_def broker_inv_def split: if_splits)
  show ?case
  proof (cases probe)
    case True
    obtain e2 b2 where com: "commitWithCharges P w now2 (Some [BSet probeKey []]) b1 = (e2, b2)" by fastforce
    then have "b' = b2" using Q_health(1) h True by (simp add: DispatcherHealthy_def Let_def)
    then show ?thesis using commit_charges_keeps [OF P inv com] by simp
  next
    case False
    then show ?thesis using Q_health(1) h inv by (simp add: DispatcherHealthy_def)
  qed
next
  case (Q_ledger b c l)
  then show ?case by (simp add: SetChargeLedger_def queue_inv_def broker_inv_def)
next
  case (Q_read now c b err out nd c' d')
  then have "consumer_inv dec (contents (b_db b)) c" by (simp add: queue_inv_def)
  from nextBatch_keeps [OF P(1) this Q_read(1)] show ?case by (intro queue_inv_shrunk [OF Q_read(2)]) simp_all
next
  case (Q_back b c msgs)
  then have "consumer_inv dec (contents (b_db b)) c" by (simp add: queue_inv_def)
  from putBack_keeps [OF this, of msgs] Q_back show ?case by (simp add: queue_inv_def)
next
  case (Q_ack msg c b err c' d')
  then have "consumer_inv dec (contents (b_db b)) c" by (simp add: queue_inv_def)
  from AckMessage_keeps [OF P(1) this Q_ack(1)] show ?case by (intro queue_inv_shrunk [OF Q_ack(2)]) simp_all
next
  case (Q_release now msg c err c' b)
  then have "consumer_inv dec (contents (b_db b)) c" by (simp add: queue_inv_def)
  from ReleaseMessage_keeps [OF this Q_release(1)] Q_release(2) show ?case by (simp add: queue_inv_def)
next
  case (Q_own c b err out c' d')
  then have "consumer_inv dec (contents (b_db b)) c" by (simp add: queue_inv_def)
  from each_pending_keeps [OF P(1) Q_own(1) [unfolded EachOwnPending_def] this] show ?case
    by (intro queue_inv_shrunk [OF Q_own(2)]) simp_all
next
  case (Q_settle ops c ids b d')
  then have "consumer_inv dec (contents (b_db b)) c" by (simp add: queue_inv_def)
  from settle_keeps [OF P(1) this Q_settle(1,2)] show ?case by (intro queue_inv_shrunk [OF Q_settle(3)]) simp_all
next
  case (Q_other ops b err d' c)
  then have inv: "consumer_inv dec (contents (b_db b)) c" by (simp add: queue_inv_def)
  have "shrinks (c_stream c) (contents (b_db b)) (contents d')"
    using pebble_commit [OF P(1) Q_other(1)] queue_misses_shrinks [OF Q_other(2)] by (metis shrinks_refl)
  then show ?case using consumer_inv_shrinks [OF _ inv] by (intro queue_inv_shrunk [OF Q_other(3)]) simp_all
next
  case (Q_failed ops b m d' c)
  then have "contents d' = contents (b_db b)" using P(2) unfolding pebble_clean_def by metis
  then show ?case using Q_failed(2) by (simp add: queue_inv_def broker_inv_def)
next
  case (Q_trim now maxAge c b n c' d')
  then have "consumer_inv dec (contents (b_db b)) c" by (simp add: queue_inv_def)
  from TrimStream_keeps [OF P(1) this Q_trim(1)] show ?case by (intro queue_inv_shrunk [OF Q_trim(2)]) simp_all
next
  case (Q_close b c)
  have same: "held (consumer_Close c) = held c" "c_stream (consumer_Close c) = c_stream c" "cursor (consumer_Close c) = cursor c"
    by (simp_all add: consumer_Close_def held_def)
  then have "safe dec (contents (b_db b)) c {} \<Longrightarrow> safe dec (contents (b_db b)) (consumer_Close c) {}"
    using safe_move [of dec "contents (b_db b)" c "{}" "consumer_Close c"] by simp
  then show ?case using Q_close same by (simp add: queue_inv_def consumer_inv_def cursor_ok_def)
next
  case (Q_restart prefix supplier idle b c' b' c)
  note fresh = fresh_consumer [OF P(1) Q_restart(1)]
  have "consumer_inv dec (contents (b_db b)) c'"
    using Q_restart(2,3) by (intro fresh_consumer_inv fresh) (simp add: queue_inv_def consumer_inv_def)
  then show ?case using fresh Q_restart(2,3) by (simp add: queue_inv_def)
qed

text \<open>Runs from an empty database.\<close>

inductive queue_reachable ::
  "'d pebble \<Rightarrow> ('d \<Rightarrow> contents) \<Rightarrow> (string \<Rightarrow> int \<Rightarrow> int \<Rightarrow> ledger \<Rightarrow> ledger) option \<Rightarrow> (string \<Rightarrow> 'm option)
   \<Rightarrow> 'd broker \<times> consumer \<Rightarrow> bool" for P contents w dec where
  Q_start: "\<lbrakk>contents d = Map.empty; NUL \<notin> set (prefix @ supplier); Broker_Consumer P prefix supplier idle (NewBroker d) = (Inr c, b)\<rbrakk>
     \<Longrightarrow> queue_reachable P contents w dec (b, c)"
| Q_step: "\<lbrakk>queue_reachable P contents w dec s; qstep P contents w dec s s'\<rbrakk> \<Longrightarrow> queue_reachable P contents w dec s'"

lemma stream_of_consumer:
  "Broker_Consumer P prefix supplier idle b = (Inr c, b') \<Longrightarrow> c_stream c = SupplierStreamName prefix supplier"
  by (auto simp: Broker_Consumer_def Let_def split: prod.splits sum.splits)

lemma reachable_inv:
  assumes P: "pebble_ok P contents" "pebble_clean P contents"
  shows "queue_reachable P contents w dec s \<Longrightarrow> queue_inv contents dec s"
proof (induction rule: queue_reachable.induct)
  case (Q_start d prefix supplier idle c b)
  note fresh = fresh_consumer [OF P(1) Q_start(3)]
  have "consumer_inv dec (contents d) c" by (rule fresh_consumer_inv [OF fresh(2)]) (simp add: entries_ok_def Q_start(1))
  moreover have "NUL \<notin> set (c_stream c)" using Q_start(2) stream_of_consumer [OF Q_start(3)] by (auto simp: SupplierStreamName_def)
  ultimately show ?case using fresh by (simp add: queue_inv_def)
next
  case (Q_step s s')
  then show ?case using qstep_keeps [OF P] by blast
qed


section \<open>A short batch leaves nothing to read\<close>

lemma dropUndecodable_frame:
  "dropUndecodable P mid c d = (c', d') \<Longrightarrow> cursor c' = cursor c \<and> released c' = released c"
  by (auto simp: dropUndecodable_def split: sum.splits)

lemma readLocked_released: "readLocked P dec mid c d = (r, c', d') \<Longrightarrow> released c' = released c"
  by (auto simp: readLocked_def split: sum.splits option.splits prod.splits dest: dropUndecodable_frame)

lemma take_released_due:
  "\<lbrakk>take_released P dec now rest out nd c d = (None, out', nd', c', d'); \<forall>x \<in> set (released c). now < snd x\<rbrakk>
   \<Longrightarrow> \<forall>x \<in> set (released c'). now < snd x"
proof (induction rest arbitrary: out nd c d)
  case (Cons x rest)
  obtain mid due where x: "x = (mid, due)" by (cases x)
  show ?case
  proof (cases "now < due")
    case True
    then show ?thesis using Cons.IH [of out "sooner nd due" "c\<lparr>released := released c @ [(mid, due)]\<rparr>" d] Cons.prems x by auto
  next
    case False
    obtain r c1 d1 where read: "readLocked P dec mid c d = (r, c1, d1)" by (metis prod_cases3)
    have rel: "released c1 = released c" using readLocked_released [OF read] .
    show ?thesis
    proof (cases r)
      case (Inl m)
      then show ?thesis using Cons.prems(1) x False read by simp
    next
      case (Inr o1)
      show ?thesis
      proof (cases o1)
        case None
        then show ?thesis using Cons.IH [of out nd c1 d1] Cons.prems x False read Inr rel by simp
      next
        case (Some msg)
        then show ?thesis using Cons.IH [of "out @ [msg]" nd "hold_id mid c1" d1] Cons.prems x False read Inr rel by simp
      qed
    qed
  qed
qed simp

lemma take_live_grows: "take_live P dec kvs out c d = (out', c', d') \<Longrightarrow> length out \<le> length out' \<and> released c' = released c"
proof (induction kvs arbitrary: out c d)
  case (Cons kv kvs)
  obtain k v where kv: "kv = (k, v)" by (cases kv)
  obtain c1 d1 where drop: "dropUndecodable P (the (idOfKey (c_prefix c) k)) (c\<lparr>cursor := Some k\<rparr>) d = (c1, d1)" by fastforce
  have "released c1 = released c" using dropUndecodable_frame [OF drop] by simp
  then show ?case using Cons.prems kv drop
    by (auto simp: Let_def split: if_splits option.splits dest!: Cons.IH)
qed simp

lemma take_live_end:
  "\<lbrakk>take_live P dec kvs out c d = (out', c', d'); length out' < readBatch\<rbrakk>
   \<Longrightarrow> cursor c' = (if kvs = [] then cursor c else Some (fst (last kvs)))"
proof (induction kvs arbitrary: out c d)
  case (Cons kv kvs)
  obtain k v where kv: "kv = (k, v)" by (cases kv)
  have "\<not> readBatch \<le> length out" using take_live_grows [OF Cons.prems(1)] Cons.prems(2) by simp
  moreover obtain c1 d1 where drop: "dropUndecodable P (the (idOfKey (c_prefix c) k)) (c\<lparr>cursor := Some k\<rparr>) d = (c1, d1)" by fastforce
  moreover have "cursor c1 = Some k" using dropUndecodable_frame [OF drop] by simp
  ultimately show ?case using Cons.prems kv
    by (cases "idOfKey (c_prefix c) k"; cases "dec v") (auto simp: Let_def dest!: Cons.IH)
qed simp

lemma sorted_last: "\<lbrakk>sorted_wrt bytes_less (map fst kvs); x \<in> set kvs\<rbrakk> \<Longrightarrow> bytes_less (fst x) (fst (last kvs)) \<or> fst x = fst (last kvs)"
  by (induction kvs) auto

lemma nextBatch_drains:
  assumes P: "pebble_ok P contents" and inv: "consumer_inv dec (contents d) c"
    and run: "nextBatch P dec now c d = (None, out, nd, c', d')" and short: "length out < readBatch"
    and e: "contents d' (entryKey (c_stream c') ms seq) = Some v"
  shows "past c' (entryKey (c_stream c') ms seq)" "\<forall>x \<in> set (released c'). now < snd x"
proof -
  obtain o1 n1 c1 d1 where rel: "take_released P dec now (released c) [] None (c\<lparr>released := []\<rparr>) d = (None, o1, n1, c1, d1)"
    using run by (auto simp: nextBatch_def Let_def split: prod.splits option.splits)
  have "safe dec (contents d) (c\<lparr>released := []\<rparr>) (fst ` set (released c))"
    using inv by (auto simp: consumer_inv_def safe_def held_def)
  from take_released_effect [OF P rel this]
  have e1: "shrinks (c_stream c) (contents d) (contents d1)" "safe dec (contents d1) c1 {}" "c_stream c1 = c_stream c"
    "cursor c1 = cursor c" by simp_all
  have ok1: "entries_ok (contents d1) (c_stream c1)" "cursor_ok (contents d1) c1"
    using inv shrinks_entries_ok [OF e1(1)] shrinks_cursor_ok [OF e1(1)] e1(3,4) by (simp_all add: consumer_inv_def cursor_ok_def)
  obtain kvs where iter: "db_Iter P d1 (case cursor c1 of None \<Rightarrow> c_prefix c1 | Some k \<Rightarrow> k @ [NUL]) (prefixEnd (c_prefix c1)) = Inr kvs"
    and live: "take_live P dec kvs o1 c1 d1 = (out, c', d')"
    using run rel by (auto simp: nextBatch_def Let_def split: prod.splits sum.splits)
  note rem = iterator_remaining [OF P ok1 iter]
  from take_live_effect [OF P live e1(2) rem ok1(2)]
  have e2: "shrinks (c_stream c1) (contents d1) (contents d')" "c_stream c' = c_stream c1" by simp_all
  let ?q = "entryKey (c_stream c') ms seq"
  have q1: "contents d1 ?q = Some v" using shrinks_entry [OF e2(1)] e e2(2) by simp
  show "past c' ?q"
  proof (cases "past c1 ?q")
    case True
    then obtain k where k: "cursor c1 = Some k" "\<not> bytes_less k ?q" by (auto simp: past_def split: option.splits)
    show ?thesis
    proof (cases "kvs = []")
      case True
      then show ?thesis using take_live_end [OF live short] k by (simp add: past_def)
    next
      case False
      then have "\<not> past c1 (fst (last kvs))" using remainingD(2) [OF rem, of "fst (last kvs)" "snd (last kvs)"] by simp
      then have "bytes_less k (fst (last kvs))" using k(1) by (simp add: past_def)
      then have "\<not> bytes_less (fst (last kvs)) ?q" using k(2) bytes_less_trans by blast
      then show ?thesis using take_live_end [OF live short] False by (simp add: past_def)
    qed
  next
    case False
    then have "?q \<in> fst ` set kvs" using remainingD(5) [OF rem] q1 e2(2) by auto
    then obtain x where x: "x \<in> set kvs" "?q = fst x" by blast
    then have "bytes_less ?q (fst (last kvs)) \<or> ?q = fst (last kvs)" using sorted_last [OF remainingD(1) [OF rem]] by simp
    then have "\<not> bytes_less (fst (last kvs)) ?q" using bytes_less_asym by metis
    then show ?thesis using take_live_end [OF live short] x(1) by (auto simp: past_def)
  qed
  show "\<forall>x \<in> set (released c'). now < snd x"
    using take_released_due [OF rel] take_live_grows [OF live] by simp
qed


section \<open>A concrete run for the witnesses\<close>

text \<open>One entry is published to the stream \<open>p:s\<close> at one second past the epoch, and delivered.\<close>

definition wq_dec :: "string \<Rightarrow> string option" where "wq_dec v = Some v"

definition wq_start :: "((string \<times> string) list broker \<times> consumer)" where
  "wq_start = (case Broker_Consumer list_pebble ''p'' ''s'' 0 (NewBroker []) of
                 (Inl _, b) \<Rightarrow> (b, \<lparr>c_stream = [], releaseDelay = 0, cursor = None, c_pending = [], released = [], c_closed = True\<rparr>)
               | (Inr c, b) \<Rightarrow> (b, c))"

definition wq_published :: "string option \<times> (string \<times> string) list broker" where
  "wq_published = publish list_pebble None 1000000000 1000000000 ''p:s'' ''x'' (fst wq_start)"

definition wq_read :: "string option \<times> string StreamMessage list \<times> time option \<times> consumer \<times> (string \<times> string) list" where
  "wq_read = nextBatch list_pebble wq_dec 1000000000 (snd wq_start) (b_db (snd wq_published))"

lemma list_pebble_clean: "pebble_clean list_pebble map_of"
  by (simp add: pebble_clean_def list_pebble_def)

lemma wq_start_run:
  "Broker_Consumer list_pebble ''p'' ''s'' 0 (NewBroker []) = (Inr (snd wq_start), fst wq_start)"
  "c_stream (snd wq_start) = ''p:s''" "b_db (fst wq_start) = []"
  by (simp_all add: wq_start_def Broker_Consumer_def streamLocked_def NewBroker_def list_pebble_def SupplierStreamName_def Let_def)

lemma wq_reach0: "queue_reachable list_pebble map_of None wq_dec wq_start"
proof -
  have "queue_reachable list_pebble map_of None wq_dec (fst wq_start, snd wq_start)"
    by (rule Q_start [OF _ _ wq_start_run(1)]) simp_all
  then show ?thesis by simp
qed

lemma wq_room: "snd (last_of (map_of (b_db (fst wq_start))) ''p:s'') \<noteq> - 1"
  by (simp add: wq_start_run last_of_def)

lemma wq_reach1: "queue_reachable list_pebble map_of None wq_dec (snd wq_published, snd wq_start)"
proof (rule Q_step [OF wq_reach0])
  have "qstep list_pebble map_of None wq_dec (fst wq_start, snd wq_start) (snd wq_published, snd wq_start)"
    by (rule Q_publish [where name = "''p:s''" and ?now1.0 = 1000000000 and ?now2.0 = 1000000000 and data = "''x''" and err = "fst wq_published"])
      (simp_all add: wq_room wq_published_def)
  then show "qstep list_pebble map_of None wq_dec wq_start (snd wq_published, snd wq_start)" by simp
qed

lemma wq_published_run:
  "fst wq_published = None"
  "b_db (snd wq_published) = [(lastIDKey ''p:s'', encodeID 1000 0), (entryKey ''p:s'' 1000 0, ''x'')]"
  by (simp_all add: wq_published_def wq_start_def Broker_Consumer_def streamLocked_def NewBroker_def list_pebble_def SupplierStreamName_def
      Let_def publish_def stream_next_def commitWithCharges_def UnixMilli_def noteCommit_def)

lemma wq_range:
  "in_range (entryPrefixOf ''p:s'') (prefixEnd (entryPrefixOf ''p:s'')) (entryKey ''p:s'' ms seq)"
  "\<not> in_range (entryPrefixOf ''p:s'') (prefixEnd (entryPrefixOf ''p:s'')) (lastIDKey ''p:s'')"
  by (simp_all add: in_range_def prefixEnd_def keyUpperBound_def entryKey_def entryPrefixOf_def entryPrefix_def lastIDKey_def lastIDPrefix_def)

lemma wq_read_run:
  "\<exists>out nd c'. wq_read = (None, out, nd, c', b_db (snd wq_published)) \<and> length out = 1 \<and> c_stream c' = ''p:s''"
  by (simp add: wq_read_def nextBatch_def wq_start_def Broker_Consumer_def streamLocked_def NewBroker_def SupplierStreamName_def
      Let_def list_pebble_def wq_published_run tidy_def wq_range readBatch_def wq_dec_def hold_id_def)


section \<open>Properties\<close>





text \<open>
  (C31) Publishing adds one entry under an ID above every ID of the stream, with the last ID, and changes no
  other entry of the stream; a publish that fails changes nothing in the database.
\<close>

theorem publish_fresh:
  assumes "pebble_ok P contents" "pebble_clean P contents" "queue_reachable P contents w dec (b, c)"
    and "snd (last_of (contents (b_db b)) (c_stream c)) \<noteq> - 1"
    and "publish P w now1 now2 (c_stream c) data b = (err, b')"
  shows "(err \<noteq> None \<longrightarrow> contents (b_db b') = contents (b_db b))
    \<and> (err = None \<longrightarrow> (\<exists>ms seq. contents (b_db b) (entryKey (c_stream c) ms seq) = None
          \<and> contents (b_db b') (entryKey (c_stream c) ms seq) = Some data
          \<and> last_of (contents (b_db b')) (c_stream c) = (ms, seq)
          \<and> (\<forall>ms' seq'. contents (b_db b) (entryKey (c_stream c) ms' seq') \<noteq> None \<longrightarrow> id_less (ms', seq') (ms, seq))
          \<and> (\<forall>ms' seq'. (ms', seq') \<noteq> (ms, seq) \<longrightarrow>
               contents (b_db b') (entryKey (c_stream c) ms' seq') = contents (b_db b) (entryKey (c_stream c) ms' seq'))))"
proof -
  let ?s = "c_stream c" and ?m = "contents (b_db b)" and ?m' = "contents (b_db b')"
  have inv: "broker_inv ?m b" "entries_ok ?m ?s"
    using reachable_inv [OF assms(1-3)] by (simp_all add: queue_inv_def consumer_inv_def)
  note eff = publish_effect [OF assms(1,2) inv(1) assms(4,5)]
  show ?thesis
  proof (cases err)
    case (Some x)
    then show ?thesis using eff by simp
  next
    case None
    then obtain ms seq ops where new: "id_less (last_of ?m ?s) (ms, seq)" "counter_ops ops"
      "?m' = apply_batch ops (?m(entryKey ?s ms seq \<mapsto> data, lastIDKey ?s \<mapsto> encodeID ms seq))"
      using eff by blast
    have entry: "?m' (entryKey ?s a b) = (?m(entryKey ?s ms seq \<mapsto> data)) (entryKey ?s a b)" for a b
      unfolding new(3) using counter_ops_frame(1) [OF new(2) HasPrefix_entryKey] by simp
    have above: "id_less (a, b) (ms, seq)" if "?m (entryKey ?s a b) \<noteq> None" for a b
    proof -
      have "\<not> id_less (last_of ?m ?s) (a, b)"
        using inv(2) [unfolded entries_ok_def, rule_format, OF that HasPrefix_entryKey] by auto
      from not_id_less_trans [OF this new(1)] show ?thesis using id_less_linear [of "(a, b)" "(ms, seq)"] by auto
    qed
    have "?m (entryKey ?s ms seq) = None" using above [of ms seq] id_less_irrefl by blast
    moreover have "last_of ?m' ?s = (ms, seq)"
      using counter_ops_frame(2) [OF new(2)] by (simp add: last_of_def new(3) idLen_def)
    moreover have "?m' (entryKey ?s ms seq) = Some data" "\<forall>a b. (a, b) \<noteq> (ms, seq) \<longrightarrow> ?m' (entryKey ?s a b) = ?m (entryKey ?s a b)"
      by (auto simp: entry)
    ultimately show ?thesis using None above by blast
  qed
qed

theorem publish_fresh_witness:
  "\<exists>ms seq. map_of (b_db (snd wq_published)) (entryKey ''p:s'' ms seq) = Some ''x''
     \<and> map_of (b_db (fst wq_start)) (entryKey ''p:s'' ms seq) = None"
proof -
  have reach: "queue_reachable list_pebble map_of None wq_dec (fst wq_start, snd wq_start)" using wq_reach0 by simp
  have run: "publish list_pebble None 1000000000 1000000000 (c_stream (snd wq_start)) ''x'' (fst wq_start) = (None, snd wq_published)"
    using wq_published_run(1) by (metis wq_published_def wq_start_run(2) prod.collapse)
  have room: "snd (last_of (map_of (b_db (fst wq_start))) (c_stream (snd wq_start))) \<noteq> - 1" using wq_room by (simp add: wq_start_run)
  from publish_fresh [OF list_pebble_ok list_pebble_clean reach room run] show ?thesis unfolding wq_start_run(2) by blast
qed

text \<open>
  (C30) The books of the meter: for every counter, what the database holds and what the ledger still shows
  as owed add up to the same before and after a publish. A publish that succeeds leaves nothing queued, one
  that fails leaves the counter as it was.
\<close>

theorem charges_conserved:
  assumes "pebble_ok P contents" "pebble_clean P contents" "b_ledger b = Some l" "ledger_inv l" "finishes w"
    and "0 < now2" "\<forall>(k, c) \<in> set (ld_pending l). ttl_ok now2 (ch_TTL c)"
    and "counter_in (contents (b_db b)) now2 key = Some n" "in_i64 (n + Pending l key)" "0 \<le> n"
    and "publish P w now1 now2 name data b = (err, b')"
  shows "\<exists>l' n'. b_ledger b' = Some l' \<and> counter_in (contents (b_db b')) now2 key = Some n'
    \<and> n' + (writing_of l' key + queued_of l' key) = n + Pending l key
    \<and> (err = None \<longrightarrow> queued_of l' key = 0) \<and> (err \<noteq> None \<longrightarrow> n' = n)"
proof -
  have pend: "Pending l key = writing_of l key + queued_of l key" using Pending_sum [OF assms(4)] .
  have r: "in_i64 (n + queued_of l key)"
    using assms(9,10) writing_nonneg [OF assms(4), of key] queued_nonneg [OF assms(4), of key] by (auto simp: pend in_i64_def)
  obtain s b1 where st: "streamLocked P name b = (s, b1)" by fastforce
  have b1: "b_ledger b1 = b_ledger b" "b_db b1 = b_db b"
    using st by (auto simp: streamLocked_def Let_def split: option.splits sum.splits)
  show ?thesis
  proof (cases s)
    case (Inl m)
    then show ?thesis using assms(3,8,11) st b1 pend by (auto simp: publish_def noteCommit_def)
  next
    case (Inr x)
    obtain ms seq x' where nx: "stream_next now1 x = ((ms, seq), x')" by (metis surj_pair)
    let ?b = "b1\<lparr>b_streams := (b_streams b1)(name \<mapsto> x')\<rparr>"
      and ?fill = "Some [BSet (entryKey name ms seq) data, BSet (lastIDKey name) (encodeID ms seq)]"
    obtain e b2 where com: "commitWithCharges P w now2 ?fill ?b = (e, b2)" by fastforce
    have "err = e" "b_ledger b' = b_ledger b2" "b_db b' = b_db b2"
      using assms(11) st Inr nx com by (auto simp: publish_def split: option.splits)
    moreover have "b_ledger ?b = Some l" "counter_in (contents (b_db ?b)) now2 key = Some n" using assms(3,8) b1 by simp_all
    note books = commitWithCharges_books [OF assms(1,2) this(1) assms(4-7) this(2) r _ com]
    ultimately show ?thesis using books pend by (cases e) auto
  qed
qed

definition wq_ledger :: ledger where
  "wq_ledger = ledger_Add ''k'' ''s'' 7 1000000000 NewChargeLedger"

theorem charges_conserved_witness:
  "\<exists>err b' l' n'. publish list_pebble None 1000000000 1000000000 ''p:s'' ''x'' (SetChargeLedger wq_ledger (NewBroker [])) = (err, b')
     \<and> b_ledger b' = Some l' \<and> counter_in (map_of (b_db b')) 1000000000 ''k'' = Some n'
     \<and> n' + (writing_of l' ''k'' + queued_of l' ''k'') = 7"
proof -
  let ?b = "SetChargeLedger wq_ledger (NewBroker [])"
  obtain err b' where run: "publish list_pebble None 1000000000 1000000000 ''p:s'' ''x'' ?b = (err, b')" by fastforce
  have l: "wq_ledger = \<lparr>ld_pending = [(''k'', \<lparr>ch_Key = ''k'', ch_Supplier = ''s'', ch_Amount = 7, ch_TTL = 1000000000, ch_attempts = 0\<rparr>)], ld_writing = Map.empty\<rparr>"
    by (simp add: wq_ledger_def ledger_Add_def NewChargeLedger_def)
  have inv: "ledger_inv wq_ledger"
    by (simp add: l ledger_inv_def writing_of_def queued_of_def in_i64_def)
  have "b_ledger ?b = Some wq_ledger" "finishes None" "\<forall>(k, c) \<in> set (ld_pending wq_ledger). ttl_ok 1000000000 (ch_TTL c)"
    "counter_in (map_of (b_db ?b)) 1000000000 ''k'' = Some 0" "Pending wq_ledger ''k'' = 7"
    by (simp_all add: SetChargeLedger_def finishes_def l ttl_ok_def UnixMilli_def counter_in_def NewBroker_def Pending_def writing_of_def i64_id in_i64_def)
  with charges_conserved [OF list_pebble_ok list_pebble_clean this(1) inv this(2) _ this(3,4) _ _ run]
  show ?thesis using run by (auto simp: in_i64_def)
qed

text \<open>
  Entry IDs survive printing, parsing and the database key, and the byte order of the keys, which is
  the order the iterator delivers in, is the numeric order of the IDs.
\<close>

theorem queue_id_roundtrip:
  "parseID (formatID ms seq) = Inr (ms, seq)
   \<and> idOfKey (entryPrefixOf name) (entryKey name ms seq) = Some (formatID ms seq)
   \<and> consumer_key c (formatID ms seq) = Inr (entryKey (c_stream c) ms seq)
   \<and> (bytes_less (entryKey name ms seq) (entryKey name ms' seq') \<longleftrightarrow> ms < ms' \<or> ms = ms' \<and> seq < seq')"
  by (simp add: id_less_def)

end
