(* ===== verification/Commit_Props.thy ===== *)
theory Commit_Props
  imports Pebble_Commit Queue_Props Witness_Stores
begin

text \<open>
  The batch commit of the standalone process: relays are counted exactly once however often they are
  delivered or retried, a commit is all or nothing, marks that ran out do not come back, and a commit is a
  step of the relay queue.
\<close>

section \<open>Marks and keys\<close>

definition marks :: "contents \<Rightarrow> string \<Rightarrow> string set" where
  "marks m sid = {h. m (dedupKey sid h) \<noteq> None}"

text \<open>A session without a lifetime record has no marks.\<close>

definition dedup_wf :: "contents \<Rightarrow> string \<Rightarrow> bool" where
  "dedup_wf m sid = ((\<forall>v. m (dedupTTLKey sid) = Some v \<longrightarrow> length v = 8) \<and> (m (dedupTTLKey sid) = None \<longrightarrow> marks m sid = {}))"

lemma commit_keys_differ [simp]:
  "dedupKey sid h \<noteq> dedupTTLKey sid'" "dedupTTLKey sid' \<noteq> dedupKey sid h"
  "dedupKey sid h \<noteq> session_key cfg x" "session_key cfg x \<noteq> dedupKey sid h"
  "dedupTTLKey sid \<noteq> session_key cfg x" "session_key cfg x \<noteq> dedupTTLKey sid"
  "entryKey st ms seq \<noteq> dedupKey sid h" "dedupKey sid h \<noteq> entryKey st ms seq"
  "entryKey st ms seq \<noteq> dedupTTLKey sid" "dedupTTLKey sid \<noteq> entryKey st ms seq"
  "entryKey st ms seq \<noteq> session_key cfg x" "session_key cfg x \<noteq> entryKey st ms seq"
  by (simp_all add: dedupKey_def dedupSessionPrefix_def pebbleDedupPrefix_def dedupTTLKey_def pebbleDedupTTLPrefix_def
      session_key_def session_prefix_def pebbleSessionPrefix_def entryKey_def entryPrefixOf_def entryPrefix_def)

lemma dedupKey_same [simp]: "dedupKey sid h = dedupKey sid h' \<longleftrightarrow> h = h'"
  by (simp add: dedupKey_def)

lemma appendDedupKey_prefix [simp]: "appendDedupKey (dedupSessionPrefix sid) h = dedupKey sid h"
  by (simp add: appendDedupKey_def dedupKey_def)

section \<open>The loop of the commit\<close>

text \<open>The relays of a batch that are new beside the marks \<open>X\<close>: the first of each hash.\<close>

fun fresh_relays :: "string set \<Rightarrow> batchedRelay list \<Rightarrow> batchedRelay list" where
  "fresh_relays X [] = []"
| "fresh_relays X (r # rs) =
     (if br_hash r \<in> X then fresh_relays X rs else r # fresh_relays (insert (br_hash r) X) rs)"

lemma fresh_hashes: "br_hash ` set (fresh_relays X rs) = br_hash ` set rs - X \<and> distinct (map br_hash (fresh_relays X rs))"
  by (induction X rs rule: fresh_relays.induct) auto

lemma fresh_length: "length (fresh_relays X rs) \<le> length rs"
  by (induction X rs rule: fresh_relays.induct) auto

lemma fresh_subset: "set (fresh_relays X rs) \<subseteq> set rs"
  by (induction X rs rule: fresh_relays.induct) auto

definition mark_op :: "string \<Rightarrow> batchedRelay \<Rightarrow> batch_op" where
  "mark_op sid r = BSet (dedupKey sid (br_hash r)) []"

definition units :: "batchedRelay list \<Rightarrow> int" where
  "units rs = sum_list (map (\<lambda>r. sint (computeUnits r)) rs)"

lemma i64_add [simp]: "i64 (i64 a + b) = i64 (a + b)" "i64 (a + i64 b) = i64 (a + b)"
  by (simp_all add: i64_def mod_simps algebra_simps)

lemma commit_relays_effect:
  assumes P: "pebble_ok P contents" and old: "old = (if live then marks (contents d) sid else {})"
  shows "\<lbrakk>commit_relays P c d sid live rs seen ops res = Inr (ops', res');
      0 \<le> newRelays res; newRelays res + int (length rs) < 2 ^ 63\<rbrakk>
    \<Longrightarrow> ops' = ops @ map (mark_op sid) (fresh_relays (set seen \<union> old) rs)
      \<and> newRelays res' = newRelays res + int (length (fresh_relays (set seen \<union> old) rs))
      \<and> i64 (newComputeUnits res') = i64 (newComputeUnits res + units (fresh_relays (set seen \<union> old) rs))
      \<and> status res' = status res"
proof (induction rs arbitrary: seen ops res)
  case Nil
  then show ?case by (simp add: units_def)
next
  case (Cons r rs)
  let ?marked = "if br_hash r \<in> set seen then Inr True else if live then backend_has P d (dedupKey sid (br_hash r)) else Inr False"
  obtain b where b: "?marked = Inr b" using Cons.prems(1) by (auto simp: Let_def split: sum.splits)
  have mem: "b \<longleftrightarrow> br_hash r \<in> set seen \<union> old"
    using b pebble_get [OF P] by (auto simp: old backend_has_def marks_def split: if_splits sum.splits)
  show ?case
  proof (cases b)
    case True
    then obtain x where x: "consumer_Exists P c d (br_id r) = Inr x" using Cons.prems(1) b by (auto simp: Let_def split: sum.splits)
    let ?res = "if x then res\<lparr>freshDups := i64 (freshDups res + 1)\<rparr> else res"
    have run: "commit_relays P c d sid live rs seen ops ?res = Inr (ops', res')"
      using Cons.prems(1) b True x by (simp add: Let_def)
    have "newRelays ?res = newRelays res" "newComputeUnits ?res = newComputeUnits res" "status ?res = status res" by simp_all
    then show ?thesis using Cons.IH [OF run] Cons.prems(2,3) mem True by simp
  next
    case False
    let ?cu = "i64 (newComputeUnits res + sint (computeUnits r))" and ?F = "fresh_relays (insert (br_hash r) (set seen \<union> old)) rs"
    let ?res = "res\<lparr>newRelays := i64 (newRelays res + 1), newComputeUnits := ?cu\<rparr>"
    have run: "commit_relays P c d sid live rs (br_hash r # seen) (ops @ [mark_op sid r]) ?res = Inr (ops', res')"
      using Cons.prems(1) b False by (simp add: Let_def mark_op_def)
    have n: "newRelays ?res = newRelays res + 1" using Cons.prems(2,3) by (simp add: i64_id in_i64_def)
    have X: "set (br_hash r # seen) \<union> old = insert (br_hash r) (set seen \<union> old)" by auto
    have F: "fresh_relays (set seen \<union> old) (r # rs) = r # ?F" using mem False by simp
    have "0 \<le> newRelays ?res" "newRelays ?res + int (length rs) < 2 ^ 63" unfolding n using Cons.prems(2,3) by simp_all
    from Cons.IH [OF run this, unfolded X n] show ?thesis unfolding F by (simp add: units_def add.assoc)
  qed
qed


section \<open>What a commit leaves\<close>

lemma word_i64: "word_of_int (i64 x) = (word_of_int x :: 64 word)"
proof -
  have "word_of_int (i64 x) = (word_of_int ((x + 2 ^ 63) mod 2 ^ 64) - word_of_int (2 ^ 63) :: 64 word)"
    by (simp add: i64_def)
  also have "(word_of_int ((x + 2 ^ 63) mod 2 ^ 64) :: 64 word) = word_of_int (x + 2 ^ 63)"
    by (rule word_of_int_eq_iff [THEN iffD2]) (simp add: take_bit_eq_mod)
  finally show ?thesis by simp
qed

lemma word_units: "word_of_int (units rs) = sum_list (map computeUnits rs)"
  by (induction rs) (simp_all add: units_def)

lemma apply_marks:
  "apply_batch (map (mark_op sid) F) m q = (if \<exists>r \<in> set F. q = dedupKey sid (br_hash r) then Some [] else m q)"
  by (induction F arbitrary: m) (auto simp: mark_op_def)

lemma acks_miss: "\<forall>st ms seq. q \<noteq> entryKey st ms seq \<Longrightarrow> apply_batch (AckInBatch c ids) m q = m q"
proof (rule batch_misses, intro ballI)
  fix op assume q: "\<forall>st ms seq. q \<noteq> entryKey st ms seq" and "op \<in> set (AckInBatch c ids)"
  then obtain ms seq where "op = BDelete (entryKey (c_stream c) ms seq)" using AckInBatch_deletes by blast
  then show "op_misses q op" using q by auto
qed

text \<open>A session that is open, and marks that have not run out.\<close>

definition open_session :: "json \<Rightarrow> pebble_config \<Rightarrow> contents \<Rightarrow> time \<Rightarrow> string \<Rightarrow> SessionSnapshot \<Rightarrow> bool" where
  "open_session J cfg m now sid s =
     (\<exists>v. m (session_key cfg sid) = Some v \<and> Unmarshal J v = Inr s \<and> SessionID s = sid
        \<and> \<not> expired cfg s now \<and> \<not> IsTerminal (State s))"

definition marks_kept :: "contents \<Rightarrow> time \<Rightarrow> string \<Rightarrow> bool" where
  "marks_kept m now sid =
     (\<forall>v. m (dedupTTLKey sid) = Some v \<longrightarrow> length v = 8 \<and> UnixMilli now < sint (be_uint64 v))"

lemma commit_relays_status:
  "commit_relays P c d sid live rs seen ops res = Inr (ops', res') \<Longrightarrow> status res' = status res"
proof (induction rs arbitrary: seen ops res)
  case (Cons r rs)
  then show ?case by (auto simp: Let_def split: sum.splits bool.splits if_splits dest!: Cons.IH)
qed simp

lemma CommitSession_cases:
  assumes P: "pebble_ok P contents" and open_s: "open_session J cfg (contents d) now_get sid s"
    and kept: "marks_kept (contents d) now sid"
    and run: "CommitSession P J cfg cf now now_get sid relays c d = (r, c', d')"
  obtains (early) e where "r = Inl e" "c' = c" "d' = d"
  | (batch) live ops res puts e where
      "commit_relays P c d sid live relays [] [] \<lparr>status = 0, newRelays = 0, newComputeUnits = 0, freshDups = 0\<rparr> = Inr (ops, res)"
      "live \<longleftrightarrow> contents d (dedupTTLKey sid) \<noteq> None" "commit_counters J cfg now (Some s) res = Inr puts" "status res = 0"
      "db_Commit P ((ops @ (if relays \<noteq> [] then slideTTLLocked cf now sid else [])) @ puts @ AckInBatch c (map br_id relays)) d = (e, d')"
      "r = (case e of None \<Rightarrow> Inr res | Some m \<Rightarrow> Inl (CommitFailed m))" "c' = (case e of None \<Rightarrow> Acked (map br_id relays) c | Some _ \<Rightarrow> c)"
proof -
  let ?res0 = "\<lparr>status = 0, newRelays = 0, newComputeUnits = 0, freshDups = 0\<rparr>"
  obtain v where v: "contents d (session_key cfg sid) = Some v" "Unmarshal J v = Inr s" "\<not> expired cfg s now_get" "\<not> IsTerminal (State s)"
    using open_s by (auto simp: open_session_def)
  show thesis
  proof (cases "getLocked P J cfg now_get d sid")
    case (Inl e)
    then have "r = Inl (CommitRefused e) \<and> c' = c \<and> d' = d" using run by (simp add: CommitSession_def)
    then show thesis using early by blast
  next
    case (Inr o1)
    then obtain w where w: "backend_get P d (session_key cfg sid) = Inr w" by (auto simp: getLocked_def split: sum.splits)
    then have "w = Some v" using pebble_get [OF P] v(1) by (simp add: backend_get_def)
    then have o1: "o1 = Some s" using Inr w v by (simp add: getLocked_def)
    show thesis
    proof (cases "ttlStateLocked P now d sid")
      case (Inl m)
      then have "r = Inl (CommitFailed m) \<and> c' = c \<and> d' = d" using run Inr o1 v(4) by (simp add: CommitSession_def Let_def)
      then show thesis using early by blast
    next
      case ttl: (Inr x)
      then obtain tv where tv: "backend_get P d (dedupTTLKey sid) = Inr tv" by (auto simp: ttlStateLocked_def split: sum.splits)
      then have tv': "contents d (dedupTTLKey sid) = tv" using pebble_get [OF P] by (simp add: backend_get_def)
      have x: "x = (tv \<noteq> None, False)"
        using ttl tv kept tv' by (cases tv) (auto simp: ttlStateLocked_def marks_kept_def Let_def)
      show thesis
      proof (cases "commit_relays P c d sid (tv \<noteq> None) relays [] [] ?res0")
        case (Inl m)
        then have "r = Inl (CommitFailed m) \<and> c' = c \<and> d' = d" using run Inr o1 v(4) ttl x by (simp add: CommitSession_def Let_def)
        then show thesis using early by blast
      next
        case loop: (Inr y)
        obtain ops res where y: "y = (ops, res)" by (cases y)
        have st: "status res = 0" using commit_relays_status [OF loop [unfolded y]] by simp
        show thesis
        proof (cases "commit_counters J cfg now (Some s) res")
          case (Inl e)
          then have "r = Inl (CommitEncoding e) \<and> c' = c \<and> d' = d" using run Inr o1 v(4) ttl x loop y st
            by (auto simp: CommitSession_def Let_def commit_counters_def split: if_splits sum.splits)
          then show thesis using early by blast
        next
          case puts: (Inr puts)
          obtain e d1 where com: "db_Commit P ((ops @ (if relays \<noteq> [] then slideTTLLocked cf now sid else [])) @ puts @ AckInBatch c (map br_id relays)) d = (e, d1)"
            by fastforce
          have "r = (case e of None \<Rightarrow> Inr res | Some m \<Rightarrow> Inl (CommitFailed m)) \<and> d' = d1
              \<and> c' = (case e of None \<Rightarrow> Acked (map br_id relays) c | Some _ \<Rightarrow> c)"
            using run Inr o1 v(4) ttl x loop y st puts com
            by (cases e) (auto simp: CommitSession_def Let_def commit_counters_def split: if_splits sum.splits)
          then show thesis using batch [of "tv \<noteq> None" ops res puts e] loop y tv' puts st com by auto
        qed
      qed
    qed
  qed
qed


definition stored_session :: "json \<Rightarrow> pebble_config \<Rightarrow> contents \<Rightarrow> string \<Rightarrow> SessionSnapshot \<Rightarrow> bool" where
  "stored_session J cfg m sid s = (\<exists>v. m (session_key cfg sid) = Some v \<and> Unmarshal J v = Inr s \<and> SessionID s = sid)"

text \<open>The batch of a commit as applied: marks, counters and acknowledgements, together.\<close>

definition committed ::
  "json \<Rightarrow> pebble_config \<Rightarrow> string \<Rightarrow> SessionSnapshot \<Rightarrow> consumer \<Rightarrow> batchedRelay list \<Rightarrow> contents \<Rightarrow> contents \<Rightarrow> bool" where
  "committed J cfg sid s c relays m m' =
     (marks m' sid = marks m sid \<union> br_hash ` set relays
      \<and> (\<exists>s'. stored_session J cfg m' sid s'
            \<and> RelayCount s' = RelayCount s + int (length (fresh_relays (marks m sid) relays))
            \<and> TotalComputeUnits s' = TotalComputeUnits s + sum_list (map computeUnits (fresh_relays (marks m sid) relays))
            \<and> State s' = State s)
      \<and> dedup_wf m' sid
      \<and> (\<forall>r \<in> set relays. \<forall>key. consumer_key c (br_id r) = Inr key \<longrightarrow> m' key = None))"

lemma AckInBatch_key_gone:
  assumes "mid \<in> set ids" "consumer_key c mid = Inr key"
  shows "apply_batch (AckInBatch c ids) m key = None"
  using assms(1)
proof (induction ids arbitrary: m)
  case (Cons x ids)
  obtain ms seq where key: "key = entryKey (c_stream c) ms seq" using consumer_key_Inr [OF assms(2)] by blast
  show ?case
  proof (cases "x = mid")
    case True
    have "apply_batch (AckInBatch c ids) (m(key := None)) key = None"
      using AckInBatch_shrinks [of c "m(key := None)" ids] unfolding key shrinks_def by (metis HasPrefix_entryKey fun_upd_same)
    then show ?thesis using True assms(2) by (simp add: AckInBatch_def)
  next
    case False
    then show ?thesis using Cons by (cases "consumer_key c x") (simp_all add: AckInBatch_def)
  qed
qed simp

lemma batch_committed:
  assumes J: "json_ok J" and s: "stored_session J cfg m sid s" and wf: "dedup_wf m sid"
    and F: "F = fresh_relays (marks m sid) relays"
    and res: "newRelays res = int (length F)" "i64 (newComputeUnits res) = i64 (units F)"
    and count: "0 \<le> RelayCount s" "RelayCount s + int (length relays) < 2 ^ 63"
    and puts: "commit_counters J cfg now (Some s) res = Inr puts" "status res = 0"
    and m': "m' = apply_batch ((map (mark_op sid) F @ (if relays \<noteq> [] then slideTTLLocked cf now sid else [])) @ puts @ AckInBatch c (map br_id relays)) m"
  shows "committed J cfg sid s c relays m m'"
proof -
  have len: "length F \<le> length relays" unfolding F by (rule fresh_length)
  have puts_cases: "puts = [] \<and> F = [] \<or> (\<exists>s' data. puts = [BSet (session_key cfg sid) data] \<and> Marshal J s' = Inr data
      \<and> s' = s\<lparr>RelayCount := RelayCount s + int (length F), TotalComputeUnits := TotalComputeUnits s + sum_list (map computeUnits F), LastUpdatedAt := now\<rparr>)"
  proof (cases "F = []")
    case True
    then show ?thesis using puts res(1) by (simp add: commit_counters_def)
  next
    case False
    then have pos: "0 < newRelays res" using res(1) by simp
    have "in_i64 (RelayCount s + int (length F))" using count len by (simp add: in_i64_def)
    then have "i64 (RelayCount s + newRelays res) = RelayCount s + int (length F)" using res(1) i64_id by simp
    moreover have "(word_of_int (newComputeUnits res) :: 64 word) = sum_list (map computeUnits F)"
      using res(2) word_i64 word_units by metis
    moreover have "SessionID s = sid" using s by (auto simp: stored_session_def)
    ultimately show ?thesis using puts pos by (auto simp: commit_counters_def putLocked_def split: sum.splits)
  qed
  have frame: "m' q = apply_batch ((map (mark_op sid) F @ (if relays \<noteq> [] then slideTTLLocked cf now sid else [])) @ puts) m q"
    if "\<forall>st ms seq. q \<noteq> entryKey st ms seq" for q
    unfolding m' using acks_miss [OF that] by simp
  have put_miss: "apply_batch puts m1 q = m1 q" if "q \<noteq> session_key cfg sid" for m1 q
    using puts_cases that by auto
  have mark: "m' (dedupKey sid h) = (if h \<in> br_hash ` set F then Some [] else m (dedupKey sid h))" for h
    by (simp add: frame put_miss slideTTLLocked_def apply_marks image_iff)
  have "marks m' sid = marks m sid \<union> br_hash ` set relays"
    using fresh_hashes [of "marks m sid" relays] unfolding marks_def mark F by (auto split: if_splits)
  moreover have ttl: "m' (dedupTTLKey sid) = (if relays \<noteq> [] then Some (be_bytes (word_of_int (UnixMilli (now + dedup_ttl cf)))) else m (dedupTTLKey sid))"
    by (simp add: frame put_miss slideTTLLocked_def apply_marks)
  then have "dedup_wf m' sid"
    using wf calculation by (cases "relays = []") (auto simp: dedup_wf_def)
  moreover have "\<forall>r \<in> set relays. \<forall>key. consumer_key c (br_id r) = Inr key \<longrightarrow> m' key = None"
  proof (intro ballI allI impI)
    fix r key assume r: "r \<in> set relays" "consumer_key c (br_id r) = Inr key"
    have "br_id r \<in> set (map br_id relays)" using r(1) by simp
    then show "m' key = None" unfolding m' apply_batch_append by (rule AckInBatch_key_gone) (rule r(2))
  qed
  moreover have "\<exists>s'. stored_session J cfg m' sid s' \<and> RelayCount s' = RelayCount s + int (length F)
      \<and> TotalComputeUnits s' = TotalComputeUnits s + sum_list (map computeUnits F) \<and> State s' = State s"
  proof -
    have base: "apply_batch (map (mark_op sid) F @ (if relays \<noteq> [] then slideTTLLocked cf now sid else [])) m (session_key cfg sid)
        = m (session_key cfg sid)" by (simp add: slideTTLLocked_def apply_marks)
    show ?thesis
      using puts_cases
    proof (elim disjE exE conjE)
      assume "puts = []" "F = []"
      then show ?thesis using s base by (intro exI [of _ s]) (simp add: stored_session_def frame)
    next
      fix s' data
      assume p: "puts = [BSet (session_key cfg sid) data]" "Marshal J s' = Inr data"
        and s': "s' = s\<lparr>RelayCount := RelayCount s + int (length F), TotalComputeUnits := TotalComputeUnits s + sum_list (map computeUnits F), LastUpdatedAt := now\<rparr>"
      have "Unmarshal J data = Inr s'" using J p(2) by (simp add: json_ok_def)
      moreover have "SessionID s = sid" using s by (auto simp: stored_session_def)
      ultimately show ?thesis using p(1) s' by (intro exI [of _ s']) (simp add: stored_session_def frame)
    qed
  qed
  ultimately show ?thesis unfolding committed_def F by blast
qed

lemma open_stored: "open_session J cfg m now sid s \<Longrightarrow> stored_session J cfg m sid s"
  by (auto simp: open_session_def stored_session_def)

text \<open>A commit applies its batch or changes nothing; one that is answered applied it.\<close>

lemma CommitSession_atomic:
  assumes P: "pebble_ok P contents" and J: "json_ok J" and s: "open_session J cfg (contents d) now_get sid s"
    and kept: "marks_kept (contents d) now sid" and wf: "dedup_wf (contents d) sid"
    and count: "0 \<le> RelayCount s" "RelayCount s + int (length relays) < 2 ^ 63"
    and run: "CommitSession P J cfg cf now now_get sid relays c d = (r, c', d')"
  shows "(contents d' = contents d \<or> committed J cfg sid s c relays (contents d) (contents d'))
    \<and> (\<forall>res. r = Inr res \<longrightarrow> committed J cfg sid s c relays (contents d) (contents d')
         \<and> newRelays res = int (length (fresh_relays (marks (contents d) sid) relays)) \<and> c' = Acked (map br_id relays) c)
    \<and> (\<forall>e. r = Inl e \<longrightarrow> c' = c)"
  using P s kept run
proof (cases rule: CommitSession_cases)
  case (early e)
  then show ?thesis by simp
next
  case (batch live ops res puts e)
  let ?F = "fresh_relays (marks (contents d) sid) relays"
  have old: "(if live then marks (contents d) sid else {}) = marks (contents d) sid"
    using batch(2) wf by (auto simp: dedup_wf_def)
  have bound: "0 + int (length relays) < 2 ^ 63" using count by simp
  have eff: "ops = map (mark_op sid) ?F" "newRelays res = int (length ?F)" "i64 (newComputeUnits res) = i64 (units ?F)"
    using commit_relays_effect [OF P old [symmetric] batch(1)] bound by simp_all
  have "contents d' = contents d \<or> contents d' = apply_batch ((ops @ (if relays \<noteq> [] then slideTTLLocked cf now sid else [])) @ puts @ AckInBatch c (map br_id relays)) (contents d)"
    "e = None \<Longrightarrow> contents d' = apply_batch ((ops @ (if relays \<noteq> [] then slideTTLLocked cf now sid else [])) @ puts @ AckInBatch c (map br_id relays)) (contents d)"
    using pebble_commit [OF P batch(5)] by auto
  then have "contents d' = contents d \<or> committed J cfg sid s c relays (contents d) (contents d')"
    "e = None \<Longrightarrow> committed J cfg sid s c relays (contents d) (contents d')"
    using batch_committed [OF J open_stored [OF s] wf refl eff(2,3) count batch(3,4)] unfolding eff(1) by blast+
  then show ?thesis using batch(6,7) eff(2) by (auto split: option.splits)
qed


section \<open>Runs of commits\<close>

text \<open>
  A run of commits of one session, with anything else in between that keeps the session's counters and marks
  (deliveries, state writes, commits of other sessions). Each commit finds the session open and its marks not
  run out; the log holds each batch and whether it was answered.
\<close>

inductive commit_run ::
  "'d pebble \<Rightarrow> ('d \<Rightarrow> contents) \<Rightarrow> json \<Rightarrow> pebble_config \<Rightarrow> DeduplicatorConfig \<Rightarrow> string
   \<Rightarrow> consumer \<times> 'd \<Rightarrow> (batchedRelay list \<times> bool) list \<Rightarrow> consumer \<times> 'd \<Rightarrow> bool"
  for P contents J cfg cf sid start where
  R_start: "commit_run P contents J cfg cf sid start [] start"
| R_commit: "\<lbrakk>commit_run P contents J cfg cf sid start log (c, d); open_session J cfg (contents d) now_get sid s;
     marks_kept (contents d) now sid; CommitSession P J cfg cf now now_get sid relays c d = (r, c', d')\<rbrakk>
     \<Longrightarrow> commit_run P contents J cfg cf sid start (log @ [(relays, \<exists>res. r = Inr res)]) (c', d')"
| R_other: "\<lbrakk>commit_run P contents J cfg cf sid start log (c, d);
     \<forall>s. stored_session J cfg (contents d) sid s \<longrightarrow> (\<exists>s'. stored_session J cfg (contents d') sid s'
        \<and> RelayCount s' = RelayCount s \<and> TotalComputeUnits s' = TotalComputeUnits s);
     \<forall>h. contents d' (dedupKey sid h) = contents d (dedupKey sid h); contents d' (dedupTTLKey sid) = contents d (dedupTTLKey sid)\<rbrakk>
     \<Longrightarrow> commit_run P contents J cfg cf sid start log (c', d')"

definition log_hashes :: "(batchedRelay list \<times> bool) list \<Rightarrow> string set" where
  "log_hashes log = (\<Union>x \<in> set log. br_hash ` set (fst x))"

definition log_size :: "(batchedRelay list \<times> bool) list \<Rightarrow> nat" where
  "log_size log = sum_list (map (length \<circ> fst) log)"

lemma log_simps [simp]:
  "log_hashes (log @ [(rs, b)]) = log_hashes log \<union> br_hash ` set rs" "log_size (log @ [(rs, b)]) = log_size log + length rs"
  "log_hashes [] = {}" "log_size [] = 0"
  by (auto simp: log_hashes_def log_size_def)

text \<open>What the counters hold beside the start of the run.\<close>

definition counts_since :: "contents \<Rightarrow> contents \<Rightarrow> string \<Rightarrow> (string \<Rightarrow> uint64) \<Rightarrow> SessionSnapshot \<Rightarrow> SessionSnapshot \<Rightarrow> bool" where
  "counts_since m0 m sid u s0 s =
     (RelayCount s = RelayCount s0 + int (card (marks m sid - marks m0 sid))
      \<and> TotalComputeUnits s = TotalComputeUnits s0 + (\<Sum>h \<in> marks m sid - marks m0 sid. u h))"

lemma fresh_card:
  assumes "\<forall>r \<in> set rs. computeUnits r = u (br_hash r)"
  shows "length (fresh_relays X rs) = card (br_hash ` set rs - X)"
    "sum_list (map computeUnits (fresh_relays X rs)) = (\<Sum>h \<in> br_hash ` set rs - X. u h)"
proof -
  let ?F = "fresh_relays X rs"
  have f: "br_hash ` set ?F = br_hash ` set rs - X" "distinct (map br_hash ?F)" using fresh_hashes by blast+
  show "length ?F = card (br_hash ` set rs - X)"
    using distinct_card [OF f(2)] by (simp add: f(1))
  have "map computeUnits ?F = map u (map br_hash ?F)" using assms fresh_subset [of X rs] by auto
  then have "sum_list (map computeUnits ?F) = sum_list (map u (map br_hash ?F))" by (rule arg_cong)
  also have "\<dots> = sum u (set (map br_hash ?F))" using f(2) by (rule sum_list_distinct_conv_sum_set)
  finally show "sum_list (map computeUnits ?F) = (\<Sum>h \<in> br_hash ` set rs - X. u h)" by (simp add: f(1))
qed

lemma counted_step:
  assumes "counts_since m0 m sid u s0 s" "marks m0 sid \<subseteq> marks m sid" "finite (marks m sid - marks m0 sid)"
    and units: "\<forall>r \<in> set relays. computeUnits r = u (br_hash r)"
    and c: "marks m' sid = marks m sid \<union> br_hash ` set relays"
      "RelayCount s' = RelayCount s + int (length (fresh_relays (marks m sid) relays))"
      "TotalComputeUnits s' = TotalComputeUnits s + sum_list (map computeUnits (fresh_relays (marks m sid) relays))"
  shows "counts_since m0 m' sid u s0 s'"
proof -
  let ?A = "marks m sid - marks m0 sid" and ?B = "br_hash ` set relays - marks m sid"
  have split: "marks m' sid - marks m0 sid = ?A \<union> ?B" "?A \<inter> ?B = {}" "finite ?B" using c(1) assms(2) by auto
  have "card (marks m' sid - marks m0 sid) = card ?A + card ?B"
    "sum u (marks m' sid - marks m0 sid) = sum u ?A + sum u ?B"
    unfolding split(1) using assms(3) split(2,3) by (simp_all add: card_Un_disjoint sum.union_disjoint)
  then show ?thesis using assms(1) c(2,3) fresh_card [OF units] by (simp add: counts_since_def algebra_simps)
qed

lemma commit_run_counts:
  assumes P: "pebble_ok P contents" and J: "json_ok J"
    and start: "stored_session J cfg (contents d0) sid s0" "0 \<le> RelayCount s0" "dedup_wf (contents d0) sid"
    and run: "commit_run P contents J cfg cf sid (c0, d0) log (c1, d1)"
    and fits: "RelayCount s0 + int (log_size log) < 2 ^ 63"
    and units: "\<forall>(rs, b) \<in> set log. \<forall>r \<in> set rs. computeUnits r = u (br_hash r)"
  shows "(\<exists>s1. stored_session J cfg (contents d1) sid s1 \<and> counts_since (contents d0) (contents d1) sid u s0 s1)
    \<and> dedup_wf (contents d1) sid
    \<and> marks (contents d0) sid \<subseteq> marks (contents d1) sid
    \<and> marks (contents d1) sid \<subseteq> marks (contents d0) sid \<union> log_hashes log
    \<and> card (marks (contents d1) sid - marks (contents d0) sid) \<le> log_size log
    \<and> (\<forall>rs. (rs, True) \<in> set log \<longrightarrow> br_hash ` set rs \<subseteq> marks (contents d1) sid)"
  using run fits units
proof (induction log "(c1, d1)" arbitrary: c1 d1 rule: commit_run.induct)
  case R_start
  then show ?case using start by (auto simp: counts_since_def intro!: exI [of _ s0])
next
  case (R_other log c d d' c')
  then obtain s1 where ih: "stored_session J cfg (contents d) sid s1" "counts_since (contents d0) (contents d) sid u s0 s1" by blast
  have same: "marks (contents d') sid = marks (contents d) sid" using R_other(4) by (simp add: marks_def)
  obtain s' where "stored_session J cfg (contents d') sid s'" "RelayCount s' = RelayCount s1" "TotalComputeUnits s' = TotalComputeUnits s1"
    using R_other(3) ih(1) by blast
  moreover have "counts_since (contents d0) (contents d') sid u s0 s'" using ih(2) calculation(2,3) same by (simp add: counts_since_def)
  ultimately show ?case using R_other(2) [OF R_other(6,7)] R_other(5) same by (auto simp: dedup_wf_def)
next
  case (R_commit log c d now_get s now relays r c' d')
  have fits': "RelayCount s0 + int (log_size log) < 2 ^ 63" using R_commit(6) by simp
  have units': "\<forall>(rs, b) \<in> set log. \<forall>r \<in> set rs. computeUnits r = u (br_hash r)" "\<forall>r \<in> set relays. computeUnits r = u (br_hash r)"
    using R_commit(7) by auto
  note ih = R_commit(2) [OF fits' units'(1)]
  obtain s1 where s1: "stored_session J cfg (contents d) sid s1" "counts_since (contents d0) (contents d) sid u s0 s1" using ih by blast
  have s: "s1 = s" using s1(1) R_commit(3) by (auto simp: stored_session_def open_session_def)
  have fin: "finite (marks (contents d) sid - marks (contents d0) sid)"
    by (rule finite_subset [of _ "log_hashes log"]) (use ih in \<open>auto simp: log_hashes_def\<close>)
  have count: "0 \<le> RelayCount s" "RelayCount s + int (length relays) < 2 ^ 63"
    using s1(2) start(2) ih R_commit(6) unfolding s counts_since_def by auto
  note at = CommitSession_atomic [OF P J R_commit(3,4) _ count R_commit(5)]
  show ?case
  proof (cases "committed J cfg sid s c relays (contents d) (contents d')")
    case True
    then obtain s' where s': "stored_session J cfg (contents d') sid s'"
        "RelayCount s' = RelayCount s + int (length (fresh_relays (marks (contents d) sid) relays))"
        "TotalComputeUnits s' = TotalComputeUnits s + sum_list (map computeUnits (fresh_relays (marks (contents d) sid) relays))"
      and m': "marks (contents d') sid = marks (contents d) sid \<union> br_hash ` set relays" "dedup_wf (contents d') sid"
      by (auto simp: committed_def)
    have "counts_since (contents d0) (contents d') sid u s0 s'"
      using counted_step [OF s1(2) [unfolded s] _ fin units'(2) m'(1) s'(2,3)] ih by blast
    moreover have "card (marks (contents d') sid - marks (contents d0) sid) \<le> log_size log + length relays"
    proof -
      have "card (marks (contents d') sid - marks (contents d0) sid)
          \<le> card ((marks (contents d) sid - marks (contents d0) sid) \<union> br_hash ` set relays)"
        using fin m'(1) by (intro card_mono) auto
      also have "\<dots> \<le> card (marks (contents d) sid - marks (contents d0) sid) + card (br_hash ` set relays)" by (rule card_Un_le)
      also have "card (br_hash ` set relays) \<le> length relays" using card_image_le [of "set relays" br_hash] card_length [of relays] by simp
      finally show ?thesis using ih by simp
    qed
    moreover have "br_hash ` set rs \<subseteq> marks (contents d') sid" if "(rs, True) \<in> set (log @ [(relays, \<exists>res. r = Inr res)])" for rs
      using that ih m'(1) by (cases "(rs, True) \<in> set log") (blast, auto)
    moreover have "marks (contents d0) sid \<subseteq> marks (contents d') sid"
      "marks (contents d') sid \<subseteq> marks (contents d0) sid \<union> (log_hashes log \<union> br_hash ` set relays)"
      using m'(1) ih by blast+
    ultimately show ?thesis using s'(1) m'(2) unfolding log_simps(1,2) by blast
  next
    case False
    then have same: "contents d' = contents d" "\<not> (\<exists>res. r = Inr res)" using at ih by blast+
    have "log_size log \<le> log_size log + length relays" by simp
    then show ?thesis using ih same unfolding log_simps(1,2) by (auto intro: order_trans)
  qed
qed


section \<open>Repeating a commit\<close>

lemma consumer_key_Acked [simp]: "consumer_key (Acked ids c) mid = consumer_key c mid"
  by (cases "parseID mid") (auto simp: consumer_key_def held_Acked(2))

lemma commit_relays_all_done:
  assumes P: "pebble_ok P contents" and old: "old = (if live then marks (contents d) sid else {})"
  shows "\<lbrakk>commit_relays P c d sid live rs seen ops res = Inr (ops', res'); br_hash ` set rs \<subseteq> set seen \<union> old;
      \<forall>r \<in> set rs. \<forall>key. consumer_key c (br_id r) = Inr key \<longrightarrow> contents d key = None\<rbrakk> \<Longrightarrow> res' = res"
proof (induction rs arbitrary: ops)
  case (Cons r rs)
  have "br_hash r \<in> set seen \<union> old" using Cons.prems(2) by simp
  then obtain b where b: "(if br_hash r \<in> set seen then Inr True else if live then backend_has P d (dedupKey sid (br_hash r)) else Inr False) = Inr b" "b"
    using Cons.prems(1) pebble_get [OF P]
    by (auto simp: old Let_def backend_has_def marks_def split: sum.splits if_splits)
  obtain x where x: "consumer_Exists P c d (br_id r) = Inr x" using Cons.prems(1) b by (auto simp: Let_def split: sum.splits)
  obtain key where key: "consumer_key c (br_id r) = Inr key" using x by (auto simp: consumer_Exists_def split: sum.splits)
  then have "contents d key = None" using Cons.prems(3) by simp
  then have "\<not> x" using x key pebble_get [OF P] by (auto simp: consumer_Exists_def split: sum.splits)
  then have "commit_relays P c d sid live rs seen ops res = Inr (ops', res')" using Cons.prems(1) b x by (simp add: Let_def)
  from Cons.IH [OF this] Cons.prems(2,3) show ?case by simp
qed simp

section \<open>A commit as a step of the queue\<close>

definition off_queue :: "batch_op \<Rightarrow> bool" where
  "off_queue op = (\<forall>name q. queue_key name q \<longrightarrow> op_misses q op)"

lemma session_range:
  "in_range (dedupSessionPrefix sid) (keyUpperBound (dedupSessionPrefix sid)) q \<longleftrightarrow> HasPrefix q (dedupSessionPrefix sid)"
  "keyUpperBound (dedupSessionPrefix sid) \<noteq> None"
proof -
  obtain hi where hi: "keyUpperBound (dedupSessionPrefix sid) = Some hi"
    by (simp add: keyUpperBound_def dedupSessionPrefix_def)
  then show "in_range (dedupSessionPrefix sid) (keyUpperBound (dedupSessionPrefix sid)) q \<longleftrightarrow> HasPrefix q (dedupSessionPrefix sid)"
    "keyUpperBound (dedupSessionPrefix sid) \<noteq> None"
    using keyUpperBound_range [OF hi, of q] by (simp_all add: HasPrefix_append)
qed

lemma queue_key_other [simp]:
  "\<not> queue_key name (dedupKey sid h)" "\<not> queue_key name (dedupTTLKey sid)" "\<not> queue_key name (session_key cfg sid)"
  by (auto simp: queue_key_def HasPrefix_append dedupKey_def dedupSessionPrefix_def pebbleDedupPrefix_def
      dedupTTLKey_def pebbleDedupTTLPrefix_def session_key_def session_prefix_def pebbleSessionPrefix_def
      entryPrefixOf_def entryPrefix_def lastIDKey_def lastIDPrefix_def)

lemma queue_key_not_marks: "queue_key name q \<Longrightarrow> \<not> HasPrefix q (dedupSessionPrefix sid)"
  by (auto simp: queue_key_def HasPrefix_append dedupSessionPrefix_def pebbleDedupPrefix_def
      entryPrefixOf_def entryPrefix_def lastIDKey_def lastIDPrefix_def)

lemma off_queue_set: "(\<And>name. \<not> queue_key name k) \<Longrightarrow> off_queue (BSet k v) \<and> off_queue (BDelete k)"
  unfolding off_queue_def by (metis op_misses.simps(1,2))

lemma off_queue_ops [simp]:
  "off_queue (BSet (dedupKey sid h) v)" "\<forall>op \<in> set (slideTTLLocked cf now sid). off_queue op"
  "\<forall>op \<in> set (deleteSessionLocked sid). off_queue op" "putLocked J cfg s = Inr op \<Longrightarrow> off_queue op"
proof -
  show "off_queue (BSet (dedupKey sid h) v)" "\<forall>op \<in> set (slideTTLLocked cf now sid). off_queue op"
    by (simp_all add: off_queue_set slideTTLLocked_def)
  have "off_queue (BDeleteRange (dedupSessionPrefix sid) (keyUpperBound (dedupSessionPrefix sid)))"
    unfolding off_queue_def by (simp add: session_range queue_key_not_marks)
  then show "\<forall>op \<in> set (deleteSessionLocked sid). off_queue op" by (simp add: deleteSessionLocked_def off_queue_set)
  show "off_queue op" if "putLocked J cfg s = Inr op" using that by (auto simp: putLocked_def off_queue_set split: sum.splits)
qed

lemma commit_relays_off_queue:
  "\<lbrakk>commit_relays P c d sid live rs seen ops res = Inr (ops', res'); \<forall>op \<in> set ops. off_queue op\<rbrakk> \<Longrightarrow> \<forall>op \<in> set ops'. off_queue op"
proof (induction rs arbitrary: seen ops res)
  case (Cons r rs)
  show ?case
    using Cons.prems by (auto simp: Let_def split: sum.splits bool.splits dest!: Cons.IH)
qed simp

lemma CommitSession_shape:
  assumes "CommitSession P J cfg cf now now_get sid relays c d = (r, c', d')"
  shows "c' = c \<and> d' = d \<or> (\<exists>ops e. db_Commit P (ops @ AckInBatch c (map br_id relays)) d = (e, d')
      \<and> (\<forall>op \<in> set ops. off_queue op) \<and> c' = (case e of None \<Rightarrow> Acked (map br_id relays) c | Some _ \<Rightarrow> c))"
proof (cases "c' = c \<and> d' = d")
  case False
  then obtain snap live lapsed ops0 res where loop:
    "commit_relays P c d sid live relays [] (if lapsed \<and> relays \<noteq> [] then deleteSessionLocked sid else [])
       \<lparr>status = (case snap of None \<Rightarrow> 1 | Some s \<Rightarrow> if IsTerminal (State s) then 2 else 0), newRelays = 0, newComputeUnits = 0, freshDups = 0\<rparr>
       = Inr (ops0, res)" "getLocked P J cfg now_get d sid = Inr snap" "ttlStateLocked P now d sid = Inr (live, lapsed)"
    using assms by (auto simp: CommitSession_def Let_def split: sum.splits)
  have off: "\<forall>op \<in> set ops0. off_queue op" using commit_relays_off_queue [OF loop(1)] by (cases "lapsed \<and> relays \<noteq> []") auto
  let ?slide = "if relays \<noteq> [] then slideTTLLocked cf now sid else []"
  obtain puts where puts: "commit_counters J cfg now snap res = Inr puts"
    using assms False loop by (cases "commit_counters J cfg now snap res") (auto simp: CommitSession_def Let_def)
  obtain e d1 where com: "db_Commit P ((ops0 @ ?slide) @ puts @ AckInBatch c (map br_id relays)) d = (e, d1)" by fastforce
  have "d' = d1" "c' = (case e of None \<Rightarrow> Acked (map br_id relays) c | Some _ \<Rightarrow> c)"
    using assms loop puts com by (cases e; simp add: CommitSession_def Let_def)+
  moreover have "\<forall>op \<in> set puts. off_queue op"
    using puts by (auto simp: commit_counters_def split: option.splits if_splits sum.splits)
  ultimately show ?thesis using off com by (intro disjI2 exI [of _ "(ops0 @ ?slide) @ puts"] exI [of _ e]) auto
qed simp


section \<open>Marking one relay\<close>

lemma ttl_state:
  assumes P: "pebble_ok P contents" and wf: "dedup_wf (contents d) sid" and st: "ttlStateLocked P now d sid = Inr (live, lapsed)"
  shows "live \<longleftrightarrow> marks_kept (contents d) now sid \<and> contents d (dedupTTLKey sid) \<noteq> None"
    "lapsed \<longleftrightarrow> \<not> marks_kept (contents d) now sid"
proof -
  obtain v where v: "backend_get P d (dedupTTLKey sid) = Inr v" using st by (auto simp: ttlStateLocked_def split: sum.splits)
  have v': "contents d (dedupTTLKey sid) = v" using pebble_get [OF P] v by (simp add: backend_get_def)
  show "live \<longleftrightarrow> marks_kept (contents d) now sid \<and> contents d (dedupTTLKey sid) \<noteq> None"
    "lapsed \<longleftrightarrow> \<not> marks_kept (contents d) now sid"
    using st v v' wf by (auto simp: ttlStateLocked_def marks_kept_def dedup_wf_def Let_def split: option.splits)
qed

lemma marked_is:
  assumes P: "pebble_ok P contents" and wf: "dedup_wf (contents d) sid" and m: "markedLocked P now d sid h = Inr b"
  shows "b \<longleftrightarrow> marks_kept (contents d) now sid \<and> h \<in> marks (contents d) sid"
proof -
  obtain live lapsed where st: "ttlStateLocked P now d sid = Inr (live, lapsed)"
    using m by (auto simp: markedLocked_def liveLocked_def split: sum.splits)
  show ?thesis
  proof (cases live)
    case True
    then obtain v where v: "backend_get P d (dedupKey sid h) = Inr v" "b = (v \<noteq> None)"
      using m st by (auto simp: markedLocked_def liveLocked_def split: sum.splits)
    then show ?thesis using ttl_state(1) [OF P wf st] True pebble_get [OF P, of d "dedupKey sid h" v]
      by (auto simp: backend_get_def marks_def)
  next
    case False
    then have "\<not> b" using m st by (simp add: markedLocked_def liveLocked_def)
    moreover have "marks_kept (contents d) now sid \<Longrightarrow> marks (contents d) sid = {}"
      using ttl_state(1) [OF P wf st] False wf by (auto simp: dedup_wf_def)
    ultimately show ?thesis by auto
  qed
qed

lemma marks_other_session:
  "\<lbrakk>NUL \<notin> set sid; NUL \<notin> set sid'; sid' \<noteq> sid\<rbrakk> \<Longrightarrow> \<not> HasPrefix (dedupKey sid' h) (dedupSessionPrefix sid) \<and> dedupKey sid' h \<noteq> dedupKey sid h'"
  by (auto simp: HasPrefix_append dedupKey_def dedupSessionPrefix_def pebbleDedupPrefix_def NUL_split)

lemma delete_marks:
  "apply_batch (deleteSessionLocked sid) m q = (if HasPrefix q (dedupSessionPrefix sid) \<or> q = dedupTTLKey sid then None else m q)"
  using session_range(1) [of sid q] session_range(2) [of sid] by (auto simp: deleteSessionLocked_def)

lemma HasPrefix_dedupKey [simp]: "HasPrefix (dedupKey sid h) (dedupSessionPrefix sid)"
  by (simp add: dedupKey_def HasPrefix_append)

lemma sint_millis: "\<lbrakk>0 \<le> x; x < 2 ^ 63\<rbrakk> \<Longrightarrow> sint (word_of_int x :: 64 word) = x"
  by (simp add: int_word_sint)

section \<open>Properties\<close>



text \<open>
  Repeating an answered commit is harmless: the repetition marks nothing new, counts nothing and
  reports no fresh duplicate.
\<close>

theorem commit_retry_harmless:
  assumes "pebble_ok P contents" "json_ok J" "open_session J cfg (contents d) now_get sid s"
    and "marks_kept (contents d) now sid" "dedup_wf (contents d) sid"
    and "0 \<le> RelayCount s" "RelayCount s + 2 * int (length relays) < 2 ^ 63"
    and "CommitSession P J cfg cf now now_get sid relays c d = (Inr res1, c1, d1)"
    and "open_session J cfg (contents d1) now_get' sid s1" "marks_kept (contents d1) now' sid"
    and "CommitSession P J cfg cf now' now_get' sid relays c1 d1 = (Inr res2, c2, d2)"
  shows "newRelays res2 = 0 \<and> newComputeUnits res2 = 0 \<and> freshDups res2 = 0 \<and> status res2 = 0
    \<and> stored_session J cfg (contents d2) sid s1"
proof -
  note P = assms(1)
  have c1: "committed J cfg sid s c relays (contents d) (contents d1)" "c1 = Acked (map br_id relays) c"
    using CommitSession_atomic [OF assms(1-6) _ assms(8)] assms(7) by simp_all
  have m1: "br_hash ` set relays \<subseteq> marks (contents d1) sid" "dedup_wf (contents d1) sid"
    and gone: "\<forall>r \<in> set relays. \<forall>key. consumer_key c1 (br_id r) = Inr key \<longrightarrow> contents d1 key = None"
    using c1 by (auto simp: committed_def)
  show ?thesis
    using P assms(9,10,11)
  proof (cases rule: CommitSession_cases)
    case (batch live ops res puts e)
    have res: "res = res2" "e = None" using batch(6) by (auto split: option.splits)
    have old: "marks (contents d1) sid = (if live then marks (contents d1) sid else {})"
      using batch(2) m1(2) by (auto simp: dedup_wf_def)
    have "res2 = \<lparr>status = 0, newRelays = 0, newComputeUnits = 0, freshDups = 0\<rparr>"
      using commit_relays_all_done [OF P old batch(1) [unfolded res(1)]] m1(1) gone by simp
    moreover have "ops = map (mark_op sid) (fresh_relays (set [] \<union> marks (contents d1) sid) relays)"
      using commit_relays_effect [OF P old batch(1)] assms(6,7) by simp
    moreover have "fresh_relays X rs = []" if "br_hash ` set rs \<subseteq> X" for X rs using that by (induction rs) auto
    ultimately have quiet: "ops = []" "puts = []" "res2 = \<lparr>status = 0, newRelays = 0, newComputeUnits = 0, freshDups = 0\<rparr>"
      using m1(1) batch(3) res(1) by (auto simp: commit_counters_def)
    have d2: "contents d2 = apply_batch ((if relays \<noteq> [] then slideTTLLocked cf now' sid else []) @ AckInBatch c1 (map br_id relays)) (contents d1)"
      using pebble_commit [OF P batch(5)] res(2) quiet by simp
    have "contents d2 (session_key cfg sid) = contents d1 (session_key cfg sid)"
      unfolding d2 using acks_miss [of "session_key cfg sid"] by (simp add: slideTTLLocked_def)
    then have "stored_session J cfg (contents d2) sid s1" using open_stored [OF assms(9)] by (simp add: stored_session_def)
    then show ?thesis using quiet(3) by simp
  qed simp
qed


text \<open>
  Marking a relay says whether it is new, adds its mark and no other, and slides the lifetime of the
  session's marks. Marks whose lifetime ran out do not come back with a new one, and other sessions keep
  theirs.
\<close>

theorem mark_processed_spec:
  assumes "pebble_ok P contents" "dedup_wf (contents d) sid" "NUL \<notin> set sid" "NUL \<notin> set sid'" "sid' \<noteq> sid"
    and "0 \<le> UnixMilli (now + dedup_ttl cf)" "UnixMilli (now + dedup_ttl cf) < 2 ^ 63"
    and "dedup_MarkProcessed P cf now h sid d = (Inr new, d')"
    and "UnixMilli t < UnixMilli (now + dedup_ttl cf)"
  shows "new = (h \<notin> (if marks_kept (contents d) now sid then marks (contents d) sid else {}))
    \<and> marks (contents d') sid = insert h (if marks_kept (contents d) now sid then marks (contents d) sid else {})
    \<and> marks (contents d') sid' = marks (contents d) sid'
    \<and> (\<forall>q b. dedup_IsDuplicate P t q sid d' = Inr b \<longrightarrow> b = (q \<in> marks (contents d') sid))"
proof -
  note P = assms(1)
  obtain live lapsed where st: "ttlStateLocked P now d sid = Inr (live, lapsed)"
    using assms(8) by (auto simp: dedup_MarkProcessed_def split: sum.splits)
  note state = ttl_state [OF P assms(2) st]
  obtain b where b: "markedLocked P now d sid h = Inr b" using assms(8) st by (auto simp: dedup_MarkProcessed_def split: sum.splits)
  let ?ops = "(if lapsed then deleteSessionLocked sid else []) @ markLocked cf now sid h"
  have com: "db_Commit P ?ops d = (None, d')" "new = (\<not> b)"
    using assms(8) st b by (auto simp: dedup_MarkProcessed_def split: prod.splits option.splits)
  have m': "contents d' = apply_batch ?ops (contents d)" using pebble_commit [OF P com(1)] by simp
  have mark: "contents d' (dedupKey x q) = (if x = sid \<and> q = h then Some []
      else if lapsed \<and> x = sid then None else contents d (dedupKey x q))" if "x = sid \<or> x = sid'" for x q
  proof (cases "x = sid")
    case True
    then show ?thesis by (simp add: m' delete_marks markLocked_def slideTTLLocked_def)
  next
    case False
    then have "x = sid'" using that by simp
    then show ?thesis using marks_other_session [OF assms(3,4,5)] assms(5) by (simp add: m' delete_marks markLocked_def slideTTLLocked_def)
  qed
  have sid: "marks (contents d') sid = insert h (if marks_kept (contents d) now sid then marks (contents d) sid else {})"
    using state(2) by (auto simp: marks_def mark split: if_splits)
  have other: "marks (contents d') sid' = marks (contents d) sid'" using assms(5) by (simp add: marks_def mark)
  have ttl: "contents d' (dedupTTLKey sid) = Some (be_bytes (word_of_int (UnixMilli (now + dedup_ttl cf))))"
    by (simp add: m' markLocked_def slideTTLLocked_def)
  have kept: "marks_kept (contents d') t sid" "dedup_wf (contents d') sid"
    using assms(6,7,9) ttl by (simp_all add: marks_kept_def dedup_wf_def sint_millis)
  have "b' = (q \<in> marks (contents d') sid)" if "dedup_IsDuplicate P t q sid d' = Inr b'" for q b'
    using that marked_is [OF P kept(2)] kept(1) by (auto simp: dedup_IsDuplicate_def split: sum.splits)
  then show ?thesis using sid other com(2) marked_is [OF P assms(2) b] by auto
qed


section \<open>Witnesses\<close>

text \<open>A batch that holds one relay twice, committed to an open session.\<close>

definition wc_snap :: SessionSnapshot where
  "wc_snap = (demo_snap SessionStateActive)\<lparr>RelayCount := 8, TotalComputeUnits := 75, LastUpdatedAt := 1000000000\<rparr>"

definition wc_json :: json where "wc_json = table_json [demo_snap SessionStateActive, wc_snap]"

definition wc_relay :: batchedRelay where
  "wc_relay = \<lparr>br_id = formatID 1000 0, br_hash = ''h'', computeUnits = 5, gen = 0\<rparr>"

definition wc_dedup :: DeduplicatorConfig where "wc_dedup = \<lparr>TTLBlocks = 10, BlockTimeSeconds = 30\<rparr>"

definition wc_db :: contents where "wc_db = [session_key demo_pebble_config ''s1'' \<mapsto> []]"

definition wc_commit :: "consumer \<Rightarrow> contents \<Rightarrow> (commit_error, relayBatchResult) result \<times> consumer \<times> contents" where
  "wc_commit c d = CommitSession mem_pebble wc_json demo_pebble_config wc_dedup 1000000000 1000000000 ''s1'' [wc_relay, wc_relay] c d"

definition wc_consumer :: consumer where
  "wc_consumer = \<lparr>c_stream = ''p:s'', releaseDelay = 1, cursor = None, c_pending = [], released = [], c_closed = False\<rparr>"

lemma wc_open: "open_session wc_json demo_pebble_config wc_db 1000000000 ''s1'' (demo_snap SessionStateActive)"
  by (simp add: open_session_def wc_db_def wc_json_def expired_def demo_pebble_config_def sessionTTL_def session_state_simps)

lemma wc_wf: "marks_kept wc_db now ''s1''" "dedup_wf wc_db ''s1''" "marks wc_db ''s1'' = {}"
  by (simp_all add: marks_kept_def dedup_wf_def marks_def wc_db_def)

lemma wc_marshal:
  "Marshal wc_json ((demo_snap SessionStateActive)\<lparr>RelayCount := 8, TotalComputeUnits := 75, LastUpdatedAt := 1000000000\<rparr>) = Inr ''x''"
proof -
  have "RelayCount (demo_snap SessionStateActive) \<noteq> RelayCount wc_snap" by (simp add: wc_snap_def)
  then have "demo_snap SessionStateActive \<noteq> wc_snap" by metis
  then show ?thesis by (simp add: wc_json_def table_json_def wc_snap_def)
qed

lemma wc_loop:
  "commit_relays mem_pebble wc_consumer wc_db ''s1'' False [wc_relay, wc_relay] [] []
     \<lparr>status = 0, newRelays = 0, newComputeUnits = 0, freshDups = 0\<rparr>
   = Inr ([BSet (dedupKey ''s1'' ''h'') []], \<lparr>status = 0, newRelays = 1, newComputeUnits = 5, freshDups = 0\<rparr>)"
  by (simp add: wc_relay_def consumer_Exists_def mem_pebble_def wc_db_def i64_id in_i64_def)

definition wc_done :: contents where
  "wc_done = wc_db(dedupKey ''s1'' ''h'' \<mapsto> [], dedupTTLKey ''s1'' \<mapsto> be_bytes (word_of_int (UnixMilli (1000000000 + dedup_ttl wc_dedup))),
                  session_key demo_pebble_config ''s1'' \<mapsto> ''x'', entryKey ''p:s'' 1000 0 := None)"

lemma wc_run:
  "wc_commit wc_consumer wc_db = (Inr \<lparr>status = 0, newRelays = 1, newComputeUnits = 5, freshDups = 0\<rparr>,
     Acked (map br_id [wc_relay, wc_relay]) wc_consumer, wc_done)"
proof -
  have get: "getLocked mem_pebble wc_json demo_pebble_config 1000000000 wc_db ''s1'' = Inr (Some (demo_snap SessionStateActive))"
    using wc_open by (auto simp: getLocked_def backend_get_def mem_pebble_def open_session_def)
  have ttl: "ttlStateLocked mem_pebble 1000000000 wc_db ''s1'' = Inr (False, False)"
    by (simp add: ttlStateLocked_def backend_get_def mem_pebble_def wc_db_def)
  have put: "commit_counters wc_json demo_pebble_config 1000000000 (Some (demo_snap SessionStateActive))
      \<lparr>status = 0, newRelays = 1, newComputeUnits = 5, freshDups = 0\<rparr> = Inr [BSet (session_key demo_pebble_config ''s1'') ''x'']"
    using wc_marshal by (simp add: commit_counters_def putLocked_def i64_id in_i64_def)
  have com: "db_Commit mem_pebble ops d = (None, apply_batch ops d)" for ops d by (simp add: mem_pebble_def)
  have acks: "AckInBatch wc_consumer (map br_id [wc_relay, wc_relay]) = [BDelete (entryKey ''p:s'' 1000 0), BDelete (entryKey ''p:s'' 1000 0)]"
    by (simp add: AckInBatch_def wc_relay_def) (simp add: wc_consumer_def)
  show ?thesis
    unfolding wc_commit_def CommitSession_def get ttl sum.case prod.case Let_def acks using wc_loop put
    by (simp add: session_state_simps com wc_done_def slideTTLLocked_def del: commit_relays.simps list.map)
qed


lemma wc_open_again:
  "open_session wc_json demo_pebble_config wc_done 1000000000 ''s1'' wc_snap" "marks_kept wc_done 1000000000 ''s1''"
proof -
  have "wc_done (session_key demo_pebble_config ''s1'') = Some ''x''" by (simp add: wc_done_def)
  moreover have "Unmarshal wc_json ''x'' = Inr wc_snap" "SessionID wc_snap = ''s1''" by (simp_all add: wc_json_def table_json_def wc_snap_def)
  moreover have "\<not> expired demo_pebble_config wc_snap 1000000000" "\<not> IsTerminal (State wc_snap)"
    by (simp_all add: expired_def demo_pebble_config_def sessionTTL_def wc_snap_def session_state_simps)
  ultimately show "open_session wc_json demo_pebble_config wc_done 1000000000 ''s1'' wc_snap" by (simp add: open_session_def)
  show "marks_kept wc_done 1000000000 ''s1''"
    by (simp add: marks_kept_def wc_done_def wc_dedup_def dedup_ttl_def UnixMilli_def i64_id in_i64_def sint_millis)
qed



lemma wc_again: "\<exists>c2 d2. wc_commit (Acked (map br_id [wc_relay, wc_relay]) wc_consumer) wc_done
    = (Inr \<lparr>status = 0, newRelays = 0, newComputeUnits = 0, freshDups = 0\<rparr>, c2, d2)"
proof -
  let ?c = "Acked (map br_id [wc_relay, wc_relay]) wc_consumer"
  have get: "getLocked mem_pebble wc_json demo_pebble_config 1000000000 wc_done ''s1'' = Inr (Some wc_snap)"
    using wc_open_again(1) by (auto simp: getLocked_def backend_get_def mem_pebble_def open_session_def)
  have t: "wc_done (dedupTTLKey ''s1'') \<noteq> None" by (simp add: wc_done_def)
  then have ttl: "ttlStateLocked mem_pebble 1000000000 wc_done ''s1'' = Inr (True, False)"
    using wc_open_again(2) by (auto simp: ttlStateLocked_def backend_get_def mem_pebble_def marks_kept_def Let_def)
  have "backend_has mem_pebble wc_done (dedupKey ''s1'' ''h'') = Inr True" by (simp add: backend_has_def mem_pebble_def wc_done_def)
  moreover have "consumer_Exists mem_pebble ?c wc_done (formatID 1000 0) = Inr False"
    unfolding consumer_Exists_def consumer_key_Acked by (simp add: mem_pebble_def wc_done_def) (simp add: wc_consumer_def)
  ultimately have loop: "commit_relays mem_pebble ?c wc_done ''s1'' True [wc_relay, wc_relay] [] []
       \<lparr>status = 0, newRelays = 0, newComputeUnits = 0, freshDups = 0\<rparr>
     = Inr ([], \<lparr>status = 0, newRelays = 0, newComputeUnits = 0, freshDups = 0\<rparr>)"
    by (simp add: wc_relay_def)
  have com: "db_Commit mem_pebble ops d = (None, apply_batch ops d)" for ops d by (simp add: mem_pebble_def)
  have "\<not> IsTerminal (State wc_snap)" by (simp add: wc_snap_def session_state_simps)
  then show ?thesis
    unfolding wc_commit_def CommitSession_def get ttl sum.case prod.case Let_def using loop
    by (simp add: com commit_counters_def del: commit_relays.simps list.map)
qed

theorem commit_retry_harmless_witness:
  "\<exists>res2 c2 d2. wc_commit (Acked (map br_id [wc_relay, wc_relay]) wc_consumer) wc_done = (Inr res2, c2, d2)
     \<and> newRelays res2 = 0 \<and> freshDups res2 = 0 \<and> stored_session wc_json demo_pebble_config d2 ''s1'' wc_snap"
proof -
  have J: "json_ok wc_json" by (simp add: wc_json_def table_json_ok)
  obtain res2 c2 d2 where again: "wc_commit (Acked (map br_id [wc_relay, wc_relay]) wc_consumer) wc_done = (Inr res2, c2, d2)"
    using wc_again by blast
  from commit_retry_harmless [where contents = "\<lambda>d. d", OF mem_pebble_ok J wc_open wc_wf(1,2) _ _ wc_run [unfolded wc_commit_def] wc_open_again again [unfolded wc_commit_def]]
  show ?thesis using again by simp
qed


theorem mark_processed_spec_witness:
  "\<exists>d'. dedup_MarkProcessed mem_pebble wc_dedup 1000000000 ''h'' ''s1'' Map.empty = (Inr True, d') \<and> marks d' ''s1'' = {''h''} \<and> marks d' ''s2'' = {}"
proof -
  obtain d' where run: "dedup_MarkProcessed mem_pebble wc_dedup 1000000000 ''h'' ''s1'' Map.empty = (Inr True, d')"
    by (simp add: dedup_MarkProcessed_def ttlStateLocked_def markedLocked_def liveLocked_def backend_get_def mem_pebble_def)
  have wf: "dedup_wf Map.empty ''s1''" by (simp add: dedup_wf_def marks_def)
  have ttl: "dedup_ttl wc_dedup = 300000000000" by (simp add: dedup_ttl_def wc_dedup_def i64_id in_i64_def)
  have none: "marks Map.empty q = {}" for q by (simp add: marks_def)
  from mark_processed_spec [where contents = "\<lambda>d. d", OF mem_pebble_ok wf _ _ _ _ _ run, of "''s2''" 1000000000] show ?thesis
    using run by (simp add: ttl UnixMilli_def none)
qed

end
