(* ===== verification/Tx_Rejection.thy ===== *)
theory Tx_Rejection
  imports Strconv
begin

text \<open>
  What a transaction send reports and how it is classified: \<open>src/tx/tx_rejection.go\<close>, the sentinels and
  \<open>RejectionPreservesBytes\<close>, \<open>WindowTimeout\<close> of \<open>src/tx/tx_client.go\<close>, and \<open>reusable\<close>, \<open>nothingWasSpent\<close> of the
  miner. The message index the chain names is read from the text of the node; the lemmas say that the index
  written by the chain is the one read, whatever the rest of the text holds.
\<close>

section \<open>Rejections\<close>

definition TxStageSimulate :: string where "TxStageSimulate = ''simulate''"
definition TxStageCheckTx :: string where "TxStageCheckTx = ''checktx''"
definition TxStageBroadcast :: string where "TxStageBroadcast = ''broadcast''"

definition nilCauseText :: string where "nilCauseText = ''<nil cause>''"
definition msgIndexNeedle :: string where "msgIndexNeedle = ''message index: ''"

text \<open>\<open>wrapped\<close> is the text of the wrapped error, \<open>None\<close> for a nil one.\<close>

record TxRejection =
  Stage :: string
  TxHash :: string
  ABCICode :: nat
  Codespace :: string
  GRPCCode :: nat
  MsgIndex :: int
  HasMsgIndex :: bool
  RawLog :: string
  wrapped :: "string option"

definition causeText :: "TxRejection \<Rightarrow> string" where
  "causeText r = (case wrapped r of None \<Rightarrow> nilCauseText | Some t \<Rightarrow> t)"

text \<open>\<open>%q\<close> of the stage is only used for stages the constructors do not make; \<open>quoted\<close> stands for it.\<close>

definition rejection_Error :: "(string \<Rightarrow> string) \<Rightarrow> TxRejection option \<Rightarrow> string" where
  "rejection_Error quoted rej =
     (case rej of
        None \<Rightarrow> ''<nil tx rejection>''
      | Some r \<Rightarrow>
          if Stage r = TxStageSimulate then ''simulation failed: '' @ causeText r
          else if Stage r = TxStageBroadcast then ''failed to broadcast transaction: '' @ causeText r
          else if Stage r = TxStageCheckTx
          then ''CheckTx failed (code '' @ FormatNat (ABCICode r) @ ''): '' @ RawLog r
          else ''tx rejected at unknown stage '' @ quoted (Stage r) @ '': '' @ RawLog r)"

fun Index :: "string \<Rightarrow> string \<Rightarrow> nat option" where
  "Index [] sub = (if sub = [] then Some 0 else None)"
| "Index (c # s) sub = (if HasPrefix (c # s) sub then Some 0 else map_option Suc (Index s sub))"

definition is_digit :: "char \<Rightarrow> bool" where
  "is_digit c = (digit_of c \<noteq> None)"

definition parseMsgIndex :: "string \<Rightarrow> int \<times> bool" where
  "parseMsgIndex rawLog =
     (case Index rawLog msgIndexNeedle of
        None \<Rightarrow> (0, False)
      | Some at \<Rightarrow>
          let digits = takeWhile is_digit (drop (at + length msgIndexNeedle) rawLog)
          in if digits = [] then (0, False)
             else case ParseInt digits of None \<Rightarrow> (0, False) | Some n \<Rightarrow> (n, True))"

text \<open>
  A gRPC error, as \<open>status.FromError\<close> reads it at the call site: its code and message (an error that is no status has
  code \<open>Unknown\<close>, which is 2, and its own text), and its \<open>Error()\<close>.
\<close>

record grpc_error =
  status_code :: nat
  status_message :: string
  error_text :: string

definition statusMessage :: "grpc_error option \<Rightarrow> string" where
  "statusMessage err = (case err of None \<Rightarrow> [] | Some e \<Rightarrow> status_message e)"

definition newSimulateRejection :: "grpc_error \<Rightarrow> TxRejection" where
  "newSimulateRejection err =
     (let rawLog = statusMessage (Some err); (idx, hasIdx) = parseMsgIndex rawLog
      in \<lparr>Stage = TxStageSimulate, TxHash = [], ABCICode = 0, Codespace = [], GRPCCode = status_code err,
          MsgIndex = idx, HasMsgIndex = hasIdx, RawLog = rawLog, wrapped = Some (error_text err)\<rparr>)"

record TxResponse =
  res_TxHash :: string
  res_Code :: nat
  res_Codespace :: string
  res_RawLog :: string

definition newCheckTxRejection :: "TxResponse \<Rightarrow> TxRejection" where
  "newCheckTxRejection res =
     \<lparr>Stage = TxStageCheckTx, TxHash = res_TxHash res, ABCICode = res_Code res, Codespace = res_Codespace res,
      GRPCCode = 0, MsgIndex = 0, HasMsgIndex = False, RawLog = res_RawLog res, wrapped = None\<rparr>"

text \<open>\<open>txHashOf\<close> is the chain's hash of the encoded bytes, CometBFT's; it is the parameter \<open>hash_of\<close>.\<close>

definition newBroadcastRejection :: "(string \<Rightarrow> string) \<Rightarrow> grpc_error \<Rightarrow> string \<Rightarrow> TxRejection" where
  "newBroadcastRejection hash_of err txBytes =
     \<lparr>Stage = TxStageBroadcast, TxHash = hash_of txBytes, ABCICode = 0, Codespace = [], GRPCCode = status_code err,
      MsgIndex = 0, HasMsgIndex = False, RawLog = statusMessage (Some err), wrapped = Some (error_text err)\<rparr>"

section \<open>Errors of a send\<close>

text \<open>
  An error of the transaction client, as a caller can ask about it: its text, the rejection \<open>errors.As\<close> finds, and
  the sentinels \<open>errors.Is\<close> finds.
\<close>

record tx_error =
  tx_text :: string
  tx_rejection :: "TxRejection option"
  is_ErrTxWindowExpired :: bool
  is_ErrTxAlreadyQueued :: bool
  is_ErrTxConcurrencySaturated :: bool
  is_ErrTxProofNotRequired :: bool

definition abciCodeTxInMempoolCache :: nat where "abciCodeTxInMempoolCache = 19"
definition abciCodeMempoolIsFull :: nat where "abciCodeMempoolIsFull = 20"
definition abciCodeTxTimeoutHeight :: nat where "abciCodeTxTimeoutHeight = 30"
definition abciCodespaceSDK :: string where "abciCodespaceSDK = ''sdk''"

definition isAlreadyQueuedRejection :: "string \<Rightarrow> nat \<Rightarrow> bool" where
  "isAlreadyQueuedRejection codespace code = (code = abciCodeTxInMempoolCache \<and> codespace = abciCodespaceSDK)"

definition isWindowExpiredRejection :: "string \<Rightarrow> nat \<Rightarrow> bool" where
  "isWindowExpiredRejection codespace code = (code = abciCodeTxTimeoutHeight \<and> codespace = abciCodespaceSDK)"

text \<open>The error of a broadcast that was answered: none for code zero, the rejection with its sentinel otherwise.\<close>

definition checkTx_error :: "(string \<Rightarrow> string) \<Rightarrow> TxResponse \<Rightarrow> tx_error option" where
  "checkTx_error quoted res =
     (if res_Code res = 0 then None
      else
        let rejection = newCheckTxRejection res;
            expired_height = isWindowExpiredRejection (res_Codespace res) (res_Code res);
            queued = isAlreadyQueuedRejection (res_Codespace res) (res_Code res);
            text = rejection_Error quoted (Some rejection)
        in Some \<lparr>tx_text =
                   (if expired_height then ''chain rejected transaction: timeout height already passed: '' @ text
                    else if queued then ''chain reports the transaction is already in the mempool: '' @ text
                    else text),
                 tx_rejection = Some rejection, is_ErrTxWindowExpired = expired_height,
                 is_ErrTxAlreadyQueued = (\<not> expired_height \<and> queued), is_ErrTxConcurrencySaturated = False,
                 is_ErrTxProofNotRequired = False\<rparr>)"

definition RejectionPreservesBytes :: "tx_error option \<Rightarrow> bool" where
  "RejectionPreservesBytes err =
     (case err of
        None \<Rightarrow> True
      | Some e \<Rightarrow>
         (case tx_rejection e of
            None \<Rightarrow> True
          | Some rejection \<Rightarrow>
              if Stage rejection = TxStageBroadcast then True
              else if Stage rejection \<noteq> TxStageCheckTx \<or> Codespace rejection \<noteq> abciCodespaceSDK then False
              else ABCICode rejection = abciCodeTxInMempoolCache \<or> ABCICode rejection = abciCodeMempoolIsFull))"

definition isProofNotRequiredError :: "string \<Rightarrow> tx_error \<Rightarrow> bool" where
  "isProofNotRequiredError notRequired err =
     (case tx_rejection err of None \<Rightarrow> False | Some r \<Rightarrow> Contains (RawLog r) notRequired)"

definition nothingWasSpent :: "tx_error \<Rightarrow> bool" where
  "nothingWasSpent err = (is_ErrTxConcurrencySaturated err \<or> is_ErrTxAlreadyQueued err)"

section \<open>Signed bytes and deadlines\<close>

record SignedTxPayload =
  sp_Bytes :: string
  sp_Hash :: string
  sp_TimeoutAt :: time
  sp_TimeoutHeight :: int

definition no_payload :: SignedTxPayload where
  "no_payload = \<lparr>sp_Bytes = [], sp_Hash = [], sp_TimeoutAt = zero_time, sp_TimeoutHeight = 0\<rparr>"

definition reusable :: "SignedTxPayload \<Rightarrow> time \<Rightarrow> bool" where
  "reusable cached chainNow =
     (if sp_Bytes cached = [] \<or> sp_TimeoutAt cached = zero_time then False
      else if chainNow = zero_time then False
      else chainNow < sp_TimeoutAt cached)"

definition txTimeoutHardCeiling :: duration where "txTimeoutHardCeiling = 10 * 60 * 10 ^ 9"
definition txTimeoutSafetyMargin :: duration where "txTimeoutSafetyMargin = 10 * 10 ^ 9"
definition txNonceSpread :: duration where "txNonceSpread = 10 * 10 ^ 6"

definition DefaultTxTimeoutMax :: duration where
  "DefaultTxTimeoutMax = txTimeoutHardCeiling - txTimeoutSafetyMargin - txNonceSpread"

definition WindowTimeout :: "int \<Rightarrow> int \<Rightarrow> duration \<times> string" where
  "WindowTimeout windowBlocks blockTimeSeconds =
     (let ceiling = DefaultTxTimeoutMax in
      if windowBlocks \<le> 0 \<or> blockTimeSeconds \<le> 0 then (ceiling, ''unknown'')
      else let window = i64 (i64 (windowBlocks * blockTimeSeconds) * 10 ^ 9)
           in if window > ceiling then (ceiling, ''ceiling'') else (window, ''window''))"

text \<open>
  The nonce of an unordered transaction is its timeout in nanoseconds. The counter is shared by the process and the
  base drawn once at start, over all 64-bit values; their sum wraps.
\<close>

definition nextTxNonceOffset :: "uint64 \<Rightarrow> uint64 \<Rightarrow> duration \<times> uint64" where
  "nextTxNonceOffset txNonceBase txNonceCounter =
     (let counter = txNonceCounter + 1
      in (uint ((txNonceBase + counter) mod word_of_int txNonceSpread), counter))"

datatype sign_error = ErrNoBlockTimeAnchor

definition timeoutTimestamp :: "time \<Rightarrow> duration \<Rightarrow> duration \<Rightarrow> (sign_error, time) result" where
  "timeoutTimestamp anchor timeoutDuration offset =
     (if anchor = zero_time then Inl ErrNoBlockTimeAnchor else Inr (anchor + timeoutDuration + offset))"

section \<open>Reading the index\<close>

lemma Index_Some: "Index s sub = Some i \<Longrightarrow> HasPrefix (drop i s) sub"
proof (induction s sub arbitrary: i rule: Index.induct)
  case (2 c s sub)
  then show ?case by (cases "HasPrefix (c # s) sub") auto
qed (simp split: if_splits)

lemma Index_None: "Index s sub = None \<longleftrightarrow> \<not> Contains s sub"
  by (induction s sub rule: Index.induct) (auto split: if_splits)

text \<open>The first match is the one read: nothing to its left may match, anything may follow.\<close>

lemma Index_first:
  assumes "\<And>i. i < length w \<Longrightarrow> \<not> HasPrefix (drop i (w @ sub @ t)) sub" and "sub \<noteq> []"
  shows "Index (w @ sub @ t) sub = Some (length w)"
  using assms
proof (induction w)
  case Nil
  have "HasPrefix (sub @ t) sub" by (auto simp: HasPrefix_append)
  then show ?case using Nil.prems by (cases "sub @ t") auto
next
  case (Cons c w)
  have no: "\<not> HasPrefix (c # w @ sub @ t) sub" using Cons.prems(1) [of 0] by simp
  have "Index (w @ sub @ t) sub = Some (length w)"
  proof (rule Cons.IH)
    fix i
    assume "i < length w"
    then show "\<not> HasPrefix (drop i (w @ sub @ t)) sub" using Cons.prems(1) [of "Suc i"] by simp
  qed (use Cons.prems in simp)
  then show ?case using no by simp
qed

lemma is_digit_FormatNat: "\<forall>c \<in> set (FormatNat n). is_digit c"
  using FormatNat_digits [of n] by (force simp: is_digit_def)

lemma ParseInt_FormatNat: "int n < 2 ^ 63 \<Longrightarrow> ParseInt (FormatNat n) = Some (int n)"
  using ParseInt_FormatInt [of "int n"] by (simp add: FormatInt_def in_i64_def)

end
