(* ===== verification/Tx_Props.thy ===== *)
theory Tx_Props
  imports Tx_Rejection
begin

text \<open>
  The properties of transaction sends: the message index the chain names, the deadline of a transaction, and the
  uniqueness of its nonce.
\<close>

section \<open>The message the chain names\<close>

text \<open>
  The index the chain writes before its own text is the index read: the first match decides, whatever follows,
  provided nothing to its left matches and no digit follows the number.
\<close>

theorem msg_index_read:
  assumes "\<And>i. i < length w \<Longrightarrow> \<not> HasPrefix (drop i (w @ msgIndexNeedle @ FormatNat n @ t)) msgIndexNeedle"
    and "t = [] \<or> \<not> is_digit (hd t)" and "int n < 2 ^ 63"
  shows "parseMsgIndex (w @ msgIndexNeedle @ FormatNat n @ t) = (int n, True)"
proof -
  have at: "Index (w @ msgIndexNeedle @ FormatNat n @ t) msgIndexNeedle = Some (length w)"
    by (rule Index_first [OF assms(1)]) (auto simp: msgIndexNeedle_def)
  have "takeWhile is_digit (FormatNat n @ t) = FormatNat n"
    using assms(2) is_digit_FormatNat [of n] by (cases t) (auto simp: takeWhile_append)
  then show ?thesis using ParseInt_FormatNat [OF assms(3)] at
    by (simp add: parseMsgIndex_def)
qed

theorem msg_index_read_witness:
  "parseMsgIndex (''failed to execute message; '' @ msgIndexNeedle @ FormatNat 12 @ '': message index: 7'') = (12, True)"
proof -
  have "parseMsgIndex (''failed to execute message; '' @ msgIndexNeedle @ FormatNat 12 @ '': message index: 7'') = (int 12, True)"
  proof (rule msg_index_read)
    fix i
    assume "i < length ''failed to execute message; ''"
    then have "i \<in> set [0..<27]" by simp
    then show "\<not> HasPrefix (drop i (''failed to execute message; '' @ msgIndexNeedle @ FormatNat 12 @ '': message index: 7'')) msgIndexNeedle"
      by (auto simp: msgIndexNeedle_def upt_rec)
  qed (auto simp: is_digit_def digit_of_def)
  then show ?thesis by simp
qed

section \<open>Deadlines and nonces\<close>

text \<open>
  (C33) A transaction for a window whose length in nanoseconds fits 64 bits expires after the block time it is
  anchored on, and with any nonce offset at least ten seconds before the ten minutes the chain allows; without a
  block time nothing is signed.
\<close>

theorem deadline_in_bounds:
  assumes "windowBlocks * blockTimeSeconds * 10 ^ 9 < 2 ^ 63"
    and "WindowTimeout windowBlocks blockTimeSeconds = (d, regime)"
    and "nextTxNonceOffset base counter = (off, counter')"
  shows "timeoutTimestamp zero_time d off = Inl ErrNoBlockTimeAnchor
    \<and> (anchor \<noteq> zero_time \<longrightarrow> (
      \<exists>t. timeoutTimestamp anchor d off = Inr t \<and> anchor < t \<and> t + txTimeoutSafetyMargin < anchor + txTimeoutHardCeiling))"
proof -
  have "0 \<le> off \<and> off < txNonceSpread"
    using assms(3) by (auto simp: nextTxNonceOffset_def Let_def txNonceSpread_def uint_mod)
  moreover have "0 < d \<and> d \<le> DefaultTxTimeoutMax"
  proof (cases "windowBlocks \<le> 0 \<or> blockTimeSeconds \<le> 0")
    case True
    then show ?thesis using assms(2)
      by (auto simp: WindowTimeout_def Let_def DefaultTxTimeoutMax_def txTimeoutHardCeiling_def
          txTimeoutSafetyMargin_def txNonceSpread_def)
  next
    case False
    define w where "w = windowBlocks * blockTimeSeconds"
    have pos: "0 < w" and lim: "w * 10 ^ 9 < 2 ^ 63" using False assms(1) by (simp_all add: w_def mult_pos_pos)
    have "i64 w = w" "i64 (w * 10 ^ 9) = w * 10 ^ 9" using pos lim by (auto intro!: i64_id simp: in_i64_def)
    then show ?thesis using assms(2) False pos
      by (auto simp: WindowTimeout_def Let_def DefaultTxTimeoutMax_def txTimeoutHardCeiling_def
          txTimeoutSafetyMargin_def txNonceSpread_def w_def [symmetric] split: if_splits)
  qed
  ultimately show ?thesis
    by (auto simp: timeoutTimestamp_def DefaultTxTimeoutMax_def)
qed

theorem deadline_in_bounds_witness:
  "WindowTimeout 10 60 = (DefaultTxTimeoutMax, ''ceiling'')
   \<and> (\<exists>t. timeoutTimestamp 1000 DefaultTxTimeoutMax (fst (nextTxNonceOffset 5 8)) = Inr t \<and> 1000 < t
         \<and> t + txTimeoutSafetyMargin < 1000 + txTimeoutHardCeiling)"
proof -
  have w: "WindowTimeout 10 60 = (DefaultTxTimeoutMax, ''ceiling'')"
    by (simp add: WindowTimeout_def Let_def DefaultTxTimeoutMax_def txTimeoutHardCeiling_def
        txTimeoutSafetyMargin_def txNonceSpread_def i64_def)
  have n: "nextTxNonceOffset 5 8 = (fst (nextTxNonceOffset 5 8), snd (nextTxNonceOffset 5 8))" by simp
  show ?thesis using deadline_in_bounds [OF _ w n, of 1000] w by (simp add: zero_time_def)
qed

text \<open>The \<open>k\<close>-th offset of a process.\<close>

definition nonce_offset :: "uint64 \<Rightarrow> nat \<Rightarrow> duration" where
  "nonce_offset base k = fst (nextTxNonceOffset base (of_nat k))"

lemma nonce_offset_uint: "nonce_offset base k = uint (base + of_nat (Suc k)) mod txNonceSpread"
proof -
  have "uint (word_of_int txNonceSpread :: uint64) = txNonceSpread"
    by (simp add: txNonceSpread_def)
  then show ?thesis
    by (simp add: nonce_offset_def nextTxNonceOffset_def Let_def uint_mod add.commute)
qed

lemma uint_of_nat_small: "int n < 2 ^ 64 \<Longrightarrow> uint (of_nat n :: uint64) = int n"
  by (simp add: unsigned_of_nat take_bit_nat_eq_self)

text \<open>
  (C32) Within ten million consecutive transactions of one process no two offsets are equal, as long as base plus
  counter does not wrap.
\<close>

theorem nonce_unique:
  assumes "uint base + int k < 2 ^ 64 - 1" "j < k" "k - j < 10000000"
  shows "nonce_offset base j \<noteq> nonce_offset base k"
proof -
  have u: "uint (base + of_nat (Suc i)) = uint base + int i + 1" if "i \<le> k" for i
  proof -
    have i: "int (Suc i) < 2 ^ 64" "uint base + int (Suc i) < 2 ^ 64"
      using that assms(1) uint_ge_0 [of base] by linarith+
    have "uint (of_nat (Suc i) :: uint64) = int (Suc i)" by (rule uint_of_nat_small [OF i(1)])
    then show ?thesis using i by (simp add: uint_word_ariths(1) del: of_nat_Suc)
  qed
  show ?thesis
  proof
    assume "nonce_offset base j = nonce_offset base k"
    then have "(uint base + int k + 1) mod 10000000 = (uint base + int j + 1) mod 10000000"
      using u [of k] u [of j] assms(2) by (simp add: nonce_offset_uint txNonceSpread_def del: of_nat_Suc)
    then have "10000000 dvd int k - int j" by (simp add: mod_eq_dvd_iff)
    then have "10000000 \<le> int k - int j" using assms(2) by (intro zdvd_imp_le) auto
    then show False using assms(3) by linarith
  qed
qed

theorem nonce_unique_witness: "nonce_offset 9999990 3 \<noteq> nonce_offset 9999990 5000000"
  by (rule nonce_unique) simp_all

text \<open>
  Across the wrap the offsets repeat: the modulus does not divide two to the 64, so a base close below it gives two
  transactions of one process the same offset.
\<close>

lemma nonce_wrap_repeats:
  "nonce_offset (- 9551617) 0 = nonce_offset (- 9551617) 9551616 \<and> 9551616 < (10000000 :: nat)"
  by (simp add: nonce_offset_uint txNonceSpread_def)

end
