(* ===== verification/Session_Lifecycle.thy ===== *)
theory Session_Lifecycle
  imports Session_Coordinator "HOL-Library.AList"
begin

text \<open>
  \<open>SessionLifecycleManager\<close> of \<open>src/miner/session_lifecycle.go\<close>: which transition a session is due at a height,
  the pass over the tracked sessions that decides and persists the transitions, and the tasks it hands to its
  worker pool. The store and the callback are the interfaces the manager is built with. A pass and a task are
  functions of the manager, the store and their environments; a task runs when the pool runs it, so the store
  may have changed in between. The \<open>i\<close>-th call a pass or a task makes for the session \<open>sid\<close> runs in the environments
  \<open>E sid i\<close>, of which a store call uses the first and a callback as many as it needs.
\<close>

section \<open>Windows\<close>

text \<open>
  The shared parameters of the chain and the functions that compute the windows from them belong to poktroll:
  \<open>'p\<close> is the type of the parameters, and \<open>windows_ok\<close> what is relied on, that the windows of a session follow
  each other.
\<close>

record 'p windows =
  GetClaimWindowOpenHeight :: "'p \<Rightarrow> int \<Rightarrow> int"
  GetClaimWindowCloseHeight :: "'p \<Rightarrow> int \<Rightarrow> int"
  GetProofWindowOpenHeight :: "'p \<Rightarrow> int \<Rightarrow> int"
  GetProofWindowCloseHeight :: "'p \<Rightarrow> int \<Rightarrow> int"

definition windows_ok :: "'p windows \<Rightarrow> bool" where
  "windows_ok W = (\<forall>p h. GetClaimWindowOpenHeight W p h \<le> GetClaimWindowCloseHeight W p h
     \<and> GetClaimWindowCloseHeight W p h \<le> GetProofWindowOpenHeight W p h
     \<and> GetProofWindowOpenHeight W p h \<le> GetProofWindowCloseHeight W p h)"

text \<open>
  The query client of one pass. \<open>resolveParams\<close> keeps the answer of the first query for an end height for the rest
  of the pass, so within a pass the client is a function of that height.
\<close>

record 'p shared_client =
  GetParams :: "int \<Rightarrow> (string, 'p) result"
  GetParamsAtHeight :: "int \<Rightarrow> (string, 'p) result"

definition resolveParams :: "'p shared_client \<Rightarrow> int \<Rightarrow> int \<Rightarrow> 'p option" where
  "resolveParams Q currentHeight sessionEndHeight =
     (case (if currentHeight \<le> 0 \<or> sessionEndHeight \<ge> currentHeight then GetParams Q sessionEndHeight
            else GetParamsAtHeight Q sessionEndHeight) of
        Inl _ \<Rightarrow> None
      | Inr p \<Rightarrow> Some p)"

section \<open>Which transition is due\<close>

definition sessionMightNeedTransition :: "'p windows \<Rightarrow> SessionSnapshot \<Rightarrow> int \<Rightarrow> 'p option \<Rightarrow> bool" where
  "sessionMightNeedTransition W snapshot currentHeight params =
     (if IsTerminal (State snapshot) then True
      else case params of
        None \<Rightarrow> True
      | Some p \<Rightarrow>
          if State snapshot = SessionStateActive
          then currentHeight \<ge> GetClaimWindowOpenHeight W p (SessionEndHeight snapshot)
          else if State snapshot = SessionStateClaimed
          then currentHeight \<ge> GetProofWindowOpenHeight W p (SessionEndHeight snapshot)
          else True)"

definition determineTransition ::
  "'p windows \<Rightarrow> SessionSnapshot \<Rightarrow> int \<Rightarrow> 'p option \<Rightarrow> SessionState \<times> string" where
  "determineTransition W session currentHeight params =
     (case params of
        None \<Rightarrow> ([], [])
      | Some p \<Rightarrow>
          let claimWindowOpen = GetClaimWindowOpenHeight W p (SessionEndHeight session);
              claimWindowClose = GetClaimWindowCloseHeight W p (SessionEndHeight session);
              proofWindowOpen = GetProofWindowOpenHeight W p (SessionEndHeight session);
              proofWindowClose = GetProofWindowCloseHeight W p (SessionEndHeight session)
          in if State session = SessionStateActive then
               (if currentHeight \<ge> claimWindowClose then (SessionStateClaimWindowClosed, ''claim_window_timeout'')
                else if currentHeight \<ge> claimWindowOpen \<and> currentHeight < claimWindowClose
                then (SessionStateClaiming, ''claim_window_open'')
                else ([], []))
             else if State session = SessionStateClaiming then
               (if currentHeight \<ge> claimWindowClose then (SessionStateClaimWindowClosed, ''claim_timeout'')
                else ([], []))
             else if State session = SessionStateClaimed then
               (if currentHeight \<ge> proofWindowClose then (SessionStateProofWindowClosed, ''proof_timeout'')
                else if currentHeight \<ge> proofWindowOpen \<and> currentHeight < proofWindowClose
                then (SessionStateProving, ''proof_window_open'')
                else ([], []))
             else if State session = SessionStateProving then
               (if currentHeight \<ge> proofWindowClose then
                  (if ProofTxHash session \<noteq> [] then (SessionStateProved, ''proof_submitted_before_close'')
                   else (SessionStateProofWindowClosed, ''proof_timeout''))
                else ([], []))
             else ([], []))"

definition claimReadIsFinal :: "int \<Rightarrow> int \<Rightarrow> bool" where
  "claimReadIsFinal height claimClose = (height > claimClose)"

section \<open>The manager\<close>

text \<open>
  \<open>activeSessions\<close> lists the tracked sessions in the order the map ranges over them, which Go leaves open.
  \<open>resumedUnsentClaims\<close> is the set of IDs the manager moved back to active when it loaded them.
\<close>

record lifecycle =
  lm_closed :: bool
  activeSessions :: "(string \<times> SessionSnapshot) list"
  resumedUnsentClaims :: "string set"

definition NewSessionLifecycleManager :: lifecycle where
  "NewSessionLifecycleManager = \<lparr>lm_closed = False, activeSessions = [], resumedUnsentClaims = {}\<rparr>"

definition mayHaveClaimOnChain :: "string set \<Rightarrow> SessionSnapshot \<Rightarrow> bool" where
  "mayHaveClaimOnChain resumed session =
     (State session = SessionStateClaiming \<and> ClaimTxHash session = [] \<or> SessionID session \<in> resumed)"

text \<open>
  What the manager and its callbacks make visible: the terminal callbacks called, the meter clean-ups published, what
  is booked, the trees deleted or queued for compaction, the duplicate marks dropped, and the transactions' messages
  kept for resending (the session, the hash and the signed bytes kept with it).
\<close>

datatype lifecycle_event =
    TerminalCallback SessionState SessionSnapshot
  | MeterCleanup string string
  | Booked event
  | DeleteTree string
  | CleanupMarks string
  | ColdCompaction string
  | KeptForResend string string string

text \<open>
  \<open>SessionLifecycleCallback\<close>. A callback may write to the store and to the snapshots it is given, so it returns
  them; the errors of the callbacks are only logged. \<open>OnSessionsNeedClaim\<close> and \<open>OnSessionsNeedProof\<close> name the
  sessions that reached the chain. \<open>cb_observer\<close> is the optional interface \<open>claimOnChainObserver\<close>, and the last two
  fields are the optional hooks of the manager: the meter clean-up publisher (whether it is set) and the flush of
  pending relays.
\<close>

type_synonym 'e env_supply = "string \<Rightarrow> nat \<Rightarrow> nat \<Rightarrow> 'e"

record ('e, 's) SessionLifecycleCallback =
  OnSessionsNeedClaim :: "'e env_supply \<Rightarrow> SessionSnapshot list \<Rightarrow> 's \<Rightarrow> (string set \<times> SessionSnapshot list) \<times> 's \<times> lifecycle_event list"
  OnSessionsNeedProof :: "'e env_supply \<Rightarrow> SessionSnapshot list \<Rightarrow> 's \<Rightarrow> (string set \<times> SessionSnapshot list) \<times> 's \<times> lifecycle_event list"
  cb_terminal :: "SessionState \<Rightarrow> (nat \<Rightarrow> 'e) \<Rightarrow> SessionSnapshot \<Rightarrow> 's \<Rightarrow> 's \<times> lifecycle_event list"
  cb_observer :: "((nat \<Rightarrow> 'e) \<Rightarrow> SessionSnapshot \<Rightarrow> 's \<Rightarrow> (string, bool) result \<times> 's \<times> lifecycle_event list) option"
  meterCleanup :: bool
  flushPendingRelays :: "((nat \<Rightarrow> 'e) \<Rightarrow> string list \<Rightarrow> 's \<Rightarrow> 's) option"

section \<open>Loading sessions\<close>

definition resumeTarget :: "SessionSnapshot \<Rightarrow> SessionState option" where
  "resumeTarget session =
     (if State session = SessionStateProving \<and> ProofTxHash session = [] then Some SessionStateClaimed
      else if State session = SessionStateClaiming \<and> ClaimTxHash session = [] then Some SessionStateActive
      else None)"

definition resumeUnsentSubmission ::
  "('e, 's) SessionStore \<Rightarrow> 'e \<Rightarrow> SessionSnapshot \<Rightarrow> lifecycle \<times> 's \<Rightarrow> SessionSnapshot \<times> lifecycle \<times> 's" where
  "resumeUnsentSubmission S e session ms =
     (case ms of (m, s) \<Rightarrow>
        (case resumeTarget session of
           None \<Rightarrow> (session, m, s)
         | Some resumeTo \<Rightarrow>
             (case UpdateState S e (SessionID session) resumeTo s of
                (Some _, s1) \<Rightarrow> (session, m, s1)
              | (None, s1) \<Rightarrow>
                  (session\<lparr>State := resumeTo\<rparr>,
                   (if State session = SessionStateClaiming
                    then m\<lparr>resumedUnsentClaims := insert (SessionID session) (resumedUnsentClaims m)\<rparr> else m),
                   s1))))"

text \<open>\<open>loadExistingSessions\<close> over the answer of the store's \<open>GetBySupplier\<close>.\<close>

fun load_sessions ::
  "('e, 's) SessionStore \<Rightarrow> 'e env_supply \<Rightarrow> SessionSnapshot list \<Rightarrow> lifecycle \<times> 's \<Rightarrow> lifecycle \<times> 's" where
  "load_sessions S E [] ms = ms"
| "load_sessions S E (session # rest) ms =
     load_sessions S E rest
       (if IsTerminal (State session) then ms
        else case resumeUnsentSubmission S (E (SessionID session) 0 0) session ms of
               (session', m, s) \<Rightarrow>
                 (m\<lparr>activeSessions := AList.update (SessionID session') session' (activeSessions m)\<rparr>, s))"

definition loadExistingSessions ::
  "('e, 's) SessionStore \<Rightarrow> 'e env_supply \<Rightarrow> (store_error, SessionSnapshot list) result \<Rightarrow> lifecycle \<times> 's
   \<Rightarrow> store_error option \<times> lifecycle \<times> 's" where
  "loadExistingSessions S E sessions ms =
     (case sessions of Inl err \<Rightarrow> (Some err, ms) | Inr xs \<Rightarrow> (None, load_sessions S E xs ms))"

definition TrackSession ::
  "('e, 's) SessionStore \<Rightarrow> 'e \<Rightarrow> SessionSnapshot \<Rightarrow> lifecycle \<Rightarrow> 's \<Rightarrow> string option \<times> lifecycle \<times> 's" where
  "TrackSession S e snapshot m s =
     (if lm_closed m then (Some ''lifecycle manager is closed'', m, s)
      else case Save S e snapshot s of
        ((err, snapshot'), s1) \<Rightarrow>
          ((if err = None then None else Some ''failed to save session''),
           m\<lparr>activeSessions := AList.update (SessionID snapshot) snapshot' (activeSessions m)\<rparr>, s1))"

definition RemoveSession :: "string \<Rightarrow> lifecycle \<Rightarrow> lifecycle" where
  "RemoveSession sessionID m = m\<lparr>activeSessions := AList.delete sessionID (activeSessions m)\<rparr>"

definition resumeColdCompactions :: "lifecycle \<Rightarrow> string list" where
  "resumeColdCompactions m =
     map (SessionID \<circ> snd) (filter (\<lambda>(_, session). State session = SessionStateClaimed \<or> State session = SessionStateProving)
       (activeSessions m))"

section \<open>A pass over the sessions\<close>

text \<open>The variables the loop of \<open>checkSessionTransitions\<close> works on.\<close>

record 's pass =
  ps_manager :: lifecycle
  ps_store :: 's
  ps_events :: "lifecycle_event list"
  claimingSessions :: "SessionSnapshot list"
  provingSessions :: "SessionSnapshot list"
  terminalSessions :: "(SessionState \<times> SessionSnapshot) list"

definition forgetSession :: "string \<Rightarrow> lifecycle \<Rightarrow> lifecycle" where
  "forgetSession sessionID m =
     m\<lparr>activeSessions := AList.delete sessionID (activeSessions m),
       resumedUnsentClaims := resumedUnsentClaims m - {sessionID}\<rparr>"

definition dispatch :: "SessionState \<Rightarrow> SessionSnapshot \<Rightarrow> 's pass \<Rightarrow> 's pass" where
  "dispatch newState session ps =
     (if newState = SessionStateClaiming then ps\<lparr>claimingSessions := claimingSessions ps @ [session]\<rparr>
      else if newState = SessionStateProving then ps\<lparr>provingSessions := provingSessions ps @ [session]\<rparr>
      else if IsTerminal newState then ps\<lparr>terminalSessions := terminalSessions ps @ [(newState, session)]\<rparr>
      else ps)"

definition unresume :: "string \<Rightarrow> lifecycle \<Rightarrow> lifecycle" where
  "unresume sessionID m = m\<lparr>resumedUnsentClaims := resumedUnsentClaims m - {sessionID}\<rparr>"

definition judge_closed ::
  "('e, 's) SessionStore \<Rightarrow> ('e, 's) SessionLifecycleCallback \<Rightarrow> 'e env_supply \<Rightarrow> SessionSnapshot \<Rightarrow> 's pass \<Rightarrow> 's pass" where
  "judge_closed S C E session ps =
     (let sid = SessionID session in
      case cb_observer C of
        None \<Rightarrow> dispatch SessionStateClaimWindowClosed session (ps\<lparr>ps_manager := unresume sid (ps_manager ps)\<rparr>)
      | Some observe \<Rightarrow>
         (case observe (E sid 1) session (ps_store ps) of
            (Inl _, s1, ev) \<Rightarrow> ps\<lparr>ps_store := s1, ps_events := ps_events ps @ ev\<rparr>
          | (Inr True, s1, ev) \<Rightarrow>
              let m1 = unresume sid (ps_manager ps);
                  m2 = (case Get S (E sid 2 0) sid s1 of
                          Inr (Some fresh) \<Rightarrow> m1\<lparr>activeSessions := AList.update sid fresh (activeSessions m1)\<rparr>
                        | _ \<Rightarrow> m1)
              in ps\<lparr>ps_manager := m2, ps_store := s1, ps_events := ps_events ps @ ev\<rparr>
          | (Inr False, s1, ev) \<Rightarrow>
              dispatch SessionStateClaimWindowClosed session
                (ps\<lparr>ps_manager := unresume sid (ps_manager ps), ps_store := s1,
                    ps_events := ps_events ps @ ev\<rparr>)))"

definition judge_session ::
  "'p windows \<Rightarrow> ('e, 's) SessionStore \<Rightarrow> ('e, 's) SessionLifecycleCallback \<Rightarrow> (int \<Rightarrow> 'p option) \<Rightarrow> int
   \<Rightarrow> 'e env_supply \<Rightarrow> string \<Rightarrow> 's pass \<Rightarrow> 's pass" where
  "judge_session W S C params currentHeight E sid ps =
     (case Get S (E sid 0 0) sid (ps_store ps) of
        Inr (Some session) \<Rightarrow>
          if IsTerminal (State session)
          then ps\<lparr>ps_manager := forgetSession (SessionID session) (ps_manager ps)\<rparr>
          else (case params (SessionEndHeight session) of
              None \<Rightarrow> ps
            | Some p \<Rightarrow>
                let newState = fst (determineTransition W session currentHeight (Some p))
                in if newState = [] \<or> newState = State session then ps
                   else if newState = SessionStateClaimWindowClosed
                        \<and> mayHaveClaimOnChain (resumedUnsentClaims (ps_manager ps)) session
                   then if claimReadIsFinal currentHeight (GetClaimWindowCloseHeight W p (SessionEndHeight session))
                        then judge_closed S C E session ps else ps
                   else dispatch newState session ps)
      | _ \<Rightarrow> ps\<lparr>ps_manager := forgetSession sid (ps_manager ps)\<rparr>)"

fun judge_all where
  "judge_all W S C params currentHeight E [] ps = ps"
| "judge_all W S C params currentHeight E (sid # sids) ps =
     judge_all W S C params currentHeight E sids (judge_session W S C params currentHeight E sid ps)"

definition candidateSessionIDs :: "'p windows \<Rightarrow> (int \<Rightarrow> 'p option) \<Rightarrow> int \<Rightarrow> lifecycle \<Rightarrow> string list" where
  "candidateSessionIDs W params currentHeight m =
     map fst (filter (\<lambda>(_, snapshot).
       sessionMightNeedTransition W snapshot currentHeight (params (SessionEndHeight snapshot))) (activeSessions m))"

text \<open>The claiming state is persisted before the claims are handed on; a session whose write fails is left out.\<close>

fun persistClaiming ::
  "('e, 's) SessionStore \<Rightarrow> ('e, 's) SessionLifecycleCallback \<Rightarrow> 'e env_supply \<Rightarrow> time \<Rightarrow> SessionSnapshot list \<Rightarrow> 's
   \<Rightarrow> SessionSnapshot list \<times> 's \<times> lifecycle_event list" where
  "persistClaiming S C E now [] s = ([], s, [])"
| "persistClaiming S C E now (session # rest) s =
     (case UpdateState S (E (SessionID session) 3 0) (SessionID session) SessionStateClaiming s of
        (Some _, s1) \<Rightarrow> persistClaiming S C E now rest s1
      | (None, s1) \<Rightarrow>
          (case persistClaiming S C E now rest s1 of
             (valid, s2, ev) \<Rightarrow>
               (session\<lparr>State := SessionStateClaiming, LastUpdatedAt := now\<rparr> # valid, s2,
                (if meterCleanup C then [MeterCleanup (SessionID session) (SupplierOperatorAddress session)] else []) @ ev)))"

text \<open>
  \<open>IsOOMError\<close> of \<open>src/transport/redis/errors.go\<close> reads the text of the error. Only what Redis answered carries its
  text here; the other errors are made by the store itself.
\<close>

definition IsOOMError :: "store_error \<Rightarrow> bool" where
  "IsOOMError err =
     (case err of StoreFailure m \<Rightarrow> Contains m ''OOM command'' | BadReply m \<Rightarrow> Contains m ''OOM command'' | _ \<Rightarrow> False)"

fun persistProving ::
  "('e, 's) SessionStore \<Rightarrow> 'e env_supply \<Rightarrow> time \<Rightarrow> SessionSnapshot list \<Rightarrow> 's \<Rightarrow> SessionSnapshot list \<times> 's" where
  "persistProving S E now [] s = ([], s)"
| "persistProving S E now (session # rest) s =
     (case UpdateState S (E (SessionID session) 3 0) (SessionID session) SessionStateProving s of
        (err, s1) \<Rightarrow>
          (case persistProving S E now rest s1 of
             (valid, s2) \<Rightarrow>
               (if (case err of None \<Rightarrow> True | Some x \<Rightarrow> IsOOMError x)
                then session\<lparr>State := SessionStateProving, LastUpdatedAt := now\<rparr> # valid else valid,
                s2)))"

definition minClaimWindowOpen :: "'p windows \<Rightarrow> (int \<Rightarrow> 'p option) \<Rightarrow> SessionSnapshot list \<Rightarrow> int" where
  "minClaimWindowOpen W params sessions =
     fold (\<lambda>session least. case params (SessionEndHeight session) of
         None \<Rightarrow> least
       | Some p \<Rightarrow> let wo = GetClaimWindowOpenHeight W p (SessionEndHeight session)
                   in if least = -1 \<or> wo < least then wo else least)
       sessions (-1)"

text \<open>What a pass submits to the transition pool. The claim task waits in \<open>awaitFlushWatermark\<close> first.\<close>

datatype transition_task =
    ClaimTask "SessionSnapshot list" int
  | ProofTask "SessionSnapshot list"
  | TerminalTask SessionState SessionSnapshot

definition checkSessionTransitions ::
  "'p windows \<Rightarrow> ('e, 's) SessionStore \<Rightarrow> ('e, 's) SessionLifecycleCallback \<Rightarrow> 'p shared_client \<Rightarrow> 'e env_supply \<Rightarrow> time
   \<Rightarrow> int \<Rightarrow> lifecycle \<times> 's \<Rightarrow> lifecycle \<times> 's \<times> lifecycle_event list \<times> transition_task list" where
  "checkSessionTransitions W S C Q E now currentHeight ms =
     (case ms of (m, s) \<Rightarrow>
        let params = resolveParams Q currentHeight;
            ps = judge_all W S C params currentHeight E (candidateSessionIDs W params currentHeight m)
                   \<lparr>ps_manager = m, ps_store = s, ps_events = [], claimingSessions = [], provingSessions = [],
                    terminalSessions = []\<rparr>
        in case persistClaiming S C E now (claimingSessions ps) (ps_store ps) of
             (validClaiming, s1, ev) \<Rightarrow>
               (case persistProving S E now (provingSessions ps) s1 of
                  (validProving, s2) \<Rightarrow>
                    (ps_manager ps, s2, ps_events ps @ ev,
                     (if validClaiming = [] then []
                      else [ClaimTask validClaiming (minClaimWindowOpen W params (claimingSessions ps))])
                     @ (if validProving = [] then [] else [ProofTask validProving])
                     @ map (\<lambda>(newState, session). TerminalTask newState session) (terminalSessions ps))))"

section \<open>The tasks\<close>

definition executeTransition ::
  "('e, 's) SessionStore \<Rightarrow> ('e, 's) SessionLifecycleCallback \<Rightarrow> 'e env_supply \<Rightarrow> SessionState \<Rightarrow> SessionSnapshot
   \<Rightarrow> lifecycle \<times> 's \<Rightarrow> lifecycle \<times> 's \<times> lifecycle_event list" where
  "executeTransition S C E newState session ms =
     (case ms of (m, s) \<Rightarrow>
        (case UpdateState S (E (SessionID session) 4 0) (SessionID session) newState s of
           (Some _, s1) \<Rightarrow> (m, s1, [])
         | (None, s1) \<Rightarrow>
             (case (if newState \<in> {SessionStateProved, SessionStateProbabilisticProved, SessionStateClaimWindowClosed,
                                   SessionStateClaimTxError, SessionStateProofWindowClosed, SessionStateProofTxError}
                    then (case cb_terminal C newState (E (SessionID session) 5) session s1 of
                            (s2, ev) \<Rightarrow> (s2, TerminalCallback newState session # ev))
                    else (s1, [])) of
                (s2, ev) \<Rightarrow>
                  ((if IsTerminal newState then forgetSession (SessionID session) m else m), s2, ev))))"

text \<open>
  The refresh before a claim: a session another miner claimed is dropped, one that cannot be read goes on with
  the copy at hand.
\<close>

fun refreshSessions :: "('e, 's) SessionStore \<Rightarrow> 'e env_supply \<Rightarrow> SessionSnapshot list \<Rightarrow> 's \<Rightarrow> SessionSnapshot list" where
  "refreshSessions S E [] s = []"
| "refreshSessions S E (session # rest) s =
     (case Get S (E (SessionID session) 4 0) (SessionID session) s of
        Inr (Some fresh) \<Rightarrow>
          if ClaimTxHash fresh \<noteq> [] \<or> State fresh = SessionStateClaimed then []
          else [session\<lparr>RelayCount := RelayCount fresh, TotalComputeUnits := TotalComputeUnits fresh,
                        LastUpdatedAt := LastUpdatedAt fresh, ClaimTxHash := ClaimTxHash fresh\<rparr>]
      | _ \<Rightarrow> [session])
     @ refreshSessions S E rest s"

fun mark_claimed :: "('e, 's) SessionStore \<Rightarrow> 'e env_supply \<Rightarrow> string set \<Rightarrow> SessionSnapshot list \<Rightarrow> 's \<Rightarrow> 's" where
  "mark_claimed S E claimed [] s = s"
| "mark_claimed S E claimed (session # rest) s =
     mark_claimed S E claimed rest
       (if SessionID session \<in> claimed
        then snd (UpdateState S (E (SessionID session) 5 0) (SessionID session) SessionStateClaimed s) else s)"

definition executeBatchedClaimTransition ::
  "('e, 's) SessionStore \<Rightarrow> ('e, 's) SessionLifecycleCallback \<Rightarrow> 'e env_supply \<Rightarrow> (nat \<Rightarrow> 'e) \<Rightarrow> 'e env_supply
   \<Rightarrow> SessionSnapshot list \<Rightarrow> 's \<Rightarrow> 's \<times> lifecycle_event list" where
  "executeBatchedClaimTransition S C E e F sessions s =
     (if sessions = [] then (s, [])
      else
        let s1 = (case flushPendingRelays C of
                    None \<Rightarrow> s
                  | Some flush \<Rightarrow> flush e (map SessionID sessions) s);
            refreshed = refreshSessions S E sessions s1
        in if refreshed = [] then (s1, [])
           else case OnSessionsNeedClaim C F refreshed s1 of
                  ((claimed, refreshed'), s2, ev) \<Rightarrow> (mark_claimed S E claimed refreshed' s2, ev))"

fun mark_proved ::
  "('e, 's) SessionStore \<Rightarrow> ('e, 's) SessionLifecycleCallback \<Rightarrow> 'e env_supply \<Rightarrow> time \<Rightarrow> string set \<Rightarrow> SessionSnapshot list
   \<Rightarrow> lifecycle \<times> 's \<Rightarrow> lifecycle \<times> 's \<times> lifecycle_event list" where
  "mark_proved S C E now named [] (m, s) = (m, s, [])"
| "mark_proved S C E now named (session # rest) (m, s) =
     (if SessionID session \<notin> named then mark_proved S C E now named rest (m, s)
      else
        let session' = session\<lparr>State := SessionStateProved, LastUpdatedAt := now\<rparr>;
            s1 = snd (UpdateState S (E (SessionID session) 4 0) (SessionID session) SessionStateProved s)
        in case cb_terminal C SessionStateProved (E (SessionID session) 5) session' s1 of
             (s2, ev) \<Rightarrow>
               (case mark_proved S C E now named rest (forgetSession (SessionID session) m, s2) of
                  (m3, s3, ev3) \<Rightarrow>
                    (m3, s3, TerminalCallback SessionStateProved session' # ev @ ev3)))"

definition executeBatchedProofTransition ::
  "('e, 's) SessionStore \<Rightarrow> ('e, 's) SessionLifecycleCallback \<Rightarrow> 'e env_supply \<Rightarrow> 'e env_supply \<Rightarrow> time \<Rightarrow> SessionSnapshot list
   \<Rightarrow> lifecycle \<times> 's \<Rightarrow> lifecycle \<times> 's \<times> lifecycle_event list" where
  "executeBatchedProofTransition S C E F now sessions ms =
     (case ms of (m, s) \<Rightarrow>
        if sessions = [] then (m, s, [])
        else case OnSessionsNeedProof C F sessions s of
               ((named, sessions'), s1, ev) \<Rightarrow>
                 (case mark_proved S C E now named sessions' (m, s1) of
                    (m2, s2, ev2) \<Rightarrow> (m2, s2, ev @ ev2)))"

end
