(* ===== verification/Claim_Build.thy ===== *)
theory Claim_Build
  imports Session_State Tx_Rejection "HOL-Library.Multiset"
begin

text \<open>
  Building the claims of a group and keeping a batch aligned: \<open>groupByEndHeight\<close>, the build of one claim, the collectors
  and \<open>alignClaimBatch\<close>, \<open>alignProofBatch\<close> of \<open>src/miner/lifecycle_callback.go\<close>, and \<open>src/miner/cupr_guard.go\<close>. The lemmas
  show that grouping is the grouping by end height in window order, arrival order kept, that the collectors lose no
  result, and that the parallel views of a batch speak of the same session at every index.
\<close>

section \<open>Groups\<close>

fun add_to_group :: "SessionSnapshot \<Rightarrow> SessionSnapshot list list \<Rightarrow> SessionSnapshot list list" where
  "add_to_group snapshot [] = [[snapshot]]"
| "add_to_group snapshot (g # groups) =
     (if SessionEndHeight (hd g) = SessionEndHeight snapshot then (g @ [snapshot]) # groups
      else g # add_to_group snapshot groups)"

text \<open>
  \<open>sort.SliceStable\<close> by the end height of each group's first session. The index map \<open>byEndHeight\<close> names the group of an
  end height, which is the first, and only, group that has it.
\<close>

definition orderGroupsByWindow :: "SessionSnapshot list list \<Rightarrow> SessionSnapshot list list" where
  "orderGroupsByWindow groups = sort_key (\<lambda>g. SessionEndHeight (hd g)) groups"

definition groupByEndHeight :: "SessionSnapshot list \<Rightarrow> SessionSnapshot list list" where
  "groupByEndHeight snapshots = orderGroupsByWindow (fold add_to_group snapshots [])"

definition groupOnePerSession :: "SessionSnapshot list \<Rightarrow> SessionSnapshot list list" where
  "groupOnePerSession snapshots = orderGroupsByWindow (map (\<lambda>snapshot. [snapshot]) snapshots)"

definition sessionIDLogPrefix :: nat where
  "sessionIDLogPrefix = 16"

definition firstSessionIDsForLog :: "SessionSnapshot list \<Rightarrow> string list" where
  "firstSessionIDsForLog snapshots =
     map (\<lambda>s. if length (SessionID s) > sessionIDLogPrefix then take sessionIDLogPrefix (SessionID s) @ ''...''
              else SessionID s) (take 5 snapshots)"

definition withoutSession :: "SessionSnapshot list \<Rightarrow> string \<Rightarrow> SessionSnapshot list" where
  "withoutSession snapshots sessionID = filter (\<lambda>s. SessionID s \<noteq> sessionID) snapshots"

section \<open>Building one claim\<close>

definition isClaimCUPRConsistent :: "uint64 \<Rightarrow> uint64 \<Rightarrow> uint64 \<Rightarrow> bool" where
  "isClaimCUPRConsistent smstSum smstCount cupr = (if cupr = 0 then True else smstSum = smstCount * cupr)"

text \<open>The query is the chain's: a client answers for a service and a height.\<close>

definition evaluateClaimCUPRGuard ::
  "(string \<Rightarrow> int \<Rightarrow> (string, uint64) result) option \<Rightarrow> string \<Rightarrow> int \<Rightarrow> uint64 \<Rightarrow> uint64
   \<Rightarrow> bool \<times> uint64 \<times> string option" where
  "evaluateClaimCUPRGuard client serviceID sessionStartHeight smstSum smstCount =
     (case client of
        None \<Rightarrow> (True, 0, None)
      | Some query \<Rightarrow>
         (case query serviceID sessionStartHeight of
            Inl err \<Rightarrow> (True, 0, Some err)
          | Inr cupr \<Rightarrow> (isClaimCUPRConsistent smstSum smstCount cupr, cupr, None)))"

record SessionHeader =
  hdr_SessionId :: string
  hdr_ApplicationAddress :: string
  hdr_ServiceId :: string
  hdr_SessionStartBlockHeight :: int
  hdr_SessionEndBlockHeight :: int

record MsgCreateClaim =
  msg_SupplierOperatorAddress :: string
  msg_SessionHeader :: SessionHeader
  msg_RootHash :: string

text \<open>
  What building a claim asks of other parts: the tree manager (\<open>FlushTree\<close>), the sparse Merkle tree's root (its count and
  sum), the chain (compute units per relay, the session, the reward) and the fee estimate. A session the chain does not
  know is \<open>Inr None\<close>, a nil reward \<open>Inr None\<close>.
\<close>

record build_world =
  FlushTree :: "string \<Rightarrow> (string, string) result"
  root_Count :: "string \<Rightarrow> (string, uint64) result"
  root_Sum :: "string \<Rightarrow> (string, uint64) result"
  cuprClient :: "(string \<Rightarrow> int \<Rightarrow> (string, uint64) result) option"
  GetSession :: "(string \<Rightarrow> string \<Rightarrow> int \<Rightarrow> (string, SessionHeader option) result) option"
  getClaimReward :: "MsgCreateClaim \<Rightarrow> (string, int option) result"
  GetEstimatedFeeUpokt :: uint64

definition buildSessionHeader :: "build_world \<Rightarrow> SessionSnapshot \<Rightarrow> SessionHeader" where
  "buildSessionHeader W snapshot =
     (let own = \<lparr>hdr_SessionId = SessionID snapshot, hdr_ApplicationAddress = ApplicationAddress snapshot,
                 hdr_ServiceId = ServiceID snapshot, hdr_SessionStartBlockHeight = SessionStartHeight snapshot,
                 hdr_SessionEndBlockHeight = SessionEndHeight snapshot\<rparr>
      in case GetSession W of
           None \<Rightarrow> own
         | Some query \<Rightarrow>
            (case query (ApplicationAddress snapshot) (ServiceID snapshot) (SessionStartHeight snapshot) of
               Inr (Some header) \<Rightarrow> header
             | _ \<Rightarrow> own))"

record claimBuildResult =
  cr_index :: nat
  cr_snapshot :: SessionSnapshot
  cr_claimMsg :: "MsgCreateClaim option"
  cr_rootHash :: string
  cr_err :: "string option"
  cr_skipped :: bool
  cr_skipReason :: string

definition new_result :: "nat \<Rightarrow> SessionSnapshot \<Rightarrow> claimBuildResult" where
  "new_result index snap =
     \<lparr>cr_index = index, cr_snapshot = snap, cr_claimMsg = None, cr_rootHash = [], cr_err = None, cr_skipped = False,
      cr_skipReason = []\<rparr>"

text \<open>
  \<open>Amount.Int64\<close> panics outside 64 bits; the panic is recovered into a failed result. Every failure keeps its text
  short here: the error only says that the build failed.
\<close>

definition viable_claim :: "build_world \<Rightarrow> MsgCreateClaim \<Rightarrow> claimBuildResult \<Rightarrow> claimBuildResult" where
  "viable_claim W msg r1 =
     (if GetEstimatedFeeUpokt W > 0
      then (case getClaimReward W msg of
              Inl _ \<Rightarrow> r1\<lparr>cr_claimMsg := Some msg\<rparr>
            | Inr None \<Rightarrow> r1\<lparr>cr_skipped := True, cr_skipReason := ''unprofitable''\<rparr>
            | Inr (Some amount) \<Rightarrow>
                if \<not> in_i64 amount
                then (new_result (cr_index r1) (cr_snapshot r1))\<lparr>cr_err := Some ''claim build panic''\<rparr>
                else if word_of_int amount \<le> GetEstimatedFeeUpokt W
                then r1\<lparr>cr_skipped := True, cr_skipReason := ''unprofitable''\<rparr>
                else r1\<lparr>cr_claimMsg := Some msg\<rparr>)
      else r1\<lparr>cr_claimMsg := Some msg\<rparr>)"

definition build_claim :: "build_world \<Rightarrow> nat \<Rightarrow> SessionSnapshot \<Rightarrow> claimBuildResult" where
  "build_claim W index snap =
     (let r0 = new_result index snap in
      case FlushTree W (SessionID snap) of
        Inl e \<Rightarrow> r0\<lparr>cr_err := Some (''failed to flush SMST: '' @ e)\<rparr>
      | Inr root \<Rightarrow>
          if length root \<noteq> SMSTRootLen then r0\<lparr>cr_err := Some ''flushed root has invalid length''\<rparr>
          else
            let r1 = r0\<lparr>cr_rootHash := root\<rparr> in
            (case (root_Count W root, root_Sum W root) of
               (Inl e, _) \<Rightarrow> r1\<lparr>cr_err := Some (''failed to read count: '' @ e)\<rparr>
             | (_, Inl e) \<Rightarrow> r1\<lparr>cr_err := Some (''failed to read sum: '' @ e)\<rparr>
             | (Inr cnt, Inr sm) \<Rightarrow>
                 if cnt = 0 \<or> sm = 0 then r1\<lparr>cr_skipped := True, cr_skipReason := ''empty_tree''\<rparr>
                 else if \<not> fst (evaluateClaimCUPRGuard (cuprClient W) (ServiceID snap) (SessionStartHeight snap) sm cnt)
                 then r1\<lparr>cr_skipped := True, cr_skipReason := ''cupr_mismatch''\<rparr>
                 else viable_claim W \<lparr>msg_SupplierOperatorAddress = SupplierOperatorAddress snap,
                        msg_SessionHeader = buildSessionHeader W snap, msg_RootHash = root\<rparr> r1))"

section \<open>Collecting the results\<close>

record claimBuildCollection =
  cl_built :: "claimBuildResult list"
  cl_skipped :: "claimBuildResult list"
  cl_failed :: "claimBuildResult list"

text \<open>The results come in the order the workers finish; the collector takes \<open>numTasks\<close> of them.\<close>

definition collect_claim :: "claimBuildResult \<Rightarrow> claimBuildCollection \<Rightarrow> claimBuildCollection" where
  "collect_claim r coll =
     (if cr_err r \<noteq> None then coll\<lparr>cl_failed := cl_failed coll @ [r]\<rparr>
      else if cr_skipped r then coll\<lparr>cl_skipped := cl_skipped coll @ [r]\<rparr>
      else coll\<lparr>cl_built := cl_built coll @ [r]\<rparr>)"

definition collectClaimBuildResults :: "nat \<Rightarrow> claimBuildResult list \<Rightarrow> claimBuildCollection" where
  "collectClaimBuildResults numTasks resultsCh =
     fold collect_claim (take numTasks resultsCh) \<lparr>cl_built = [], cl_skipped = [], cl_failed = []\<rparr>"

text \<open>The four views of a claim batch; the last is what travels. A built result always carries its message.\<close>

definition alignClaimBatch ::
  "claimBuildResult list \<Rightarrow> MsgCreateClaim option list \<times> string list \<times> SessionSnapshot list \<times> MsgCreateClaim option list" where
  "alignClaimBatch built =
     (map cr_claimMsg built, map cr_rootHash built, map cr_snapshot built, map cr_claimMsg built)"

record 'm proofBuildResult =
  pr_index :: nat
  pr_snapshot :: SessionSnapshot
  pr_proofMsg :: "'m option"
  pr_err :: "string option"

definition collectProofBuildResults ::
  "nat \<Rightarrow> 'm proofBuildResult list \<Rightarrow> 'm proofBuildResult list \<times> 'm proofBuildResult list" where
  "collectProofBuildResults numTasks resultsCh =
     fold (\<lambda>r (built, failed). if pr_err r \<noteq> None then (built, failed @ [r]) else (built @ [r], failed))
       (take numTasks resultsCh) ([], [])"

definition alignProofBatch ::
  "'m proofBuildResult list \<Rightarrow> 'm option list \<times> 'm option list \<times> SessionSnapshot list" where
  "alignProofBatch built =
     (let sorted = sort_key pr_index built
      in (map pr_proofMsg sorted, map pr_proofMsg sorted, map pr_snapshot sorted))"

definition namedMessageIndex :: "tx_error \<Rightarrow> nat \<Rightarrow> nat option" where
  "namedMessageIndex err batchSize =
     (case tx_rejection err of
        None \<Rightarrow> None
      | Some rejection \<Rightarrow>
          if \<not> HasMsgIndex rejection then None
          else if MsgIndex rejection < 0 \<or> MsgIndex rejection \<ge> int batchSize then None
          else Some (nat (MsgIndex rejection)))"

lemma namedMessageIndex_less: "namedMessageIndex err n = Some i \<Longrightarrow> i < n"
  by (auto simp: namedMessageIndex_def split: option.splits if_splits)

section \<open>Grouping is grouping by end height\<close>

lemma add_to_group_heights:
  "\<lbrakk>\<forall>g \<in> set gs. g \<noteq> []\<rbrakk> \<Longrightarrow> map (SessionEndHeight \<circ> hd) (add_to_group x gs)
    = (if SessionEndHeight x \<in> set (map (SessionEndHeight \<circ> hd) gs) then map (SessionEndHeight \<circ> hd) gs
       else map (SessionEndHeight \<circ> hd) gs @ [SessionEndHeight x])"
  by (induction x gs rule: add_to_group.induct) auto

text \<open>The groups built so far hold exactly the sessions seen, by end height, in arrival order.\<close>

definition grouped :: "SessionSnapshot list \<Rightarrow> SessionSnapshot list list \<Rightarrow> bool" where
  "grouped seen gs =
     (distinct (map (SessionEndHeight \<circ> hd) gs) \<and> set (map (SessionEndHeight \<circ> hd) gs) = SessionEndHeight ` set seen
      \<and> (\<forall>g \<in> set gs. g \<noteq> [] \<and> g = filter (\<lambda>s. SessionEndHeight s = SessionEndHeight (hd g)) seen))"

lemma add_to_group_members:
  assumes "distinct (map (SessionEndHeight \<circ> hd) gs)" "\<forall>g \<in> set gs. g \<noteq> []"
  shows "set (add_to_group x gs) =
    (if SessionEndHeight x \<in> set (map (SessionEndHeight \<circ> hd) gs)
     then (\<lambda>g. if SessionEndHeight (hd g) = SessionEndHeight x then g @ [x] else g) ` set gs else insert [x] (set gs))"
  using assms
proof (induction gs)
  case (Cons g gs)
  then show ?case
    by (cases "SessionEndHeight (hd g) = SessionEndHeight x") (auto simp: image_iff)
qed simp

lemma grouped_add:
  assumes "grouped seen gs"
  shows "grouped (seen @ [x]) (add_to_group x gs)"
proof -
  have ne: "\<forall>g \<in> set gs. g \<noteq> []" and d: "distinct (map (SessionEndHeight \<circ> hd) gs)"
    and h: "set (map (SessionEndHeight \<circ> hd) gs) = SessionEndHeight ` set seen"
    and f: "\<And>g. g \<in> set gs \<Longrightarrow> g = filter (\<lambda>s. SessionEndHeight s = SessionEndHeight (hd g)) seen"
    using assms by (auto simp: grouped_def)
  have hs: "map (SessionEndHeight \<circ> hd) (add_to_group x gs)
      = (if SessionEndHeight x \<in> SessionEndHeight ` set seen then map (SessionEndHeight \<circ> hd) gs
         else map (SessionEndHeight \<circ> hd) gs @ [SessionEndHeight x])"
    using add_to_group_heights [OF ne, of x] h by simp
  have "distinct (map (SessionEndHeight \<circ> hd) (add_to_group x gs))"
    and "set (map (SessionEndHeight \<circ> hd) (add_to_group x gs)) = SessionEndHeight ` set (seen @ [x])"
    unfolding hs using d h by auto
  moreover have "g \<noteq> [] \<and> g = filter (\<lambda>s. SessionEndHeight s = SessionEndHeight (hd g)) (seen @ [x])"
    if "g \<in> set (add_to_group x gs)" for g
  proof (cases "SessionEndHeight x \<in> SessionEndHeight ` set seen")
    case True
    then have "set (add_to_group x gs) = (\<lambda>g. if SessionEndHeight (hd g) = SessionEndHeight x then g @ [x] else g) ` set gs"
      unfolding add_to_group_members [OF d ne] h by (simp only: if_True)
    then obtain g0 where g0: "g0 \<in> set gs"
      and g: "g = (if SessionEndHeight (hd g0) = SessionEndHeight x then g0 @ [x] else g0)"
      using \<open>g \<in> set (add_to_group x gs)\<close> by blast
    show ?thesis
    proof (cases "SessionEndHeight (hd g0) = SessionEndHeight x")
      case True
      then have "g = g0 @ [x]" "hd g = hd g0" using g g0 ne by auto
      then show ?thesis using f [OF g0] True by simp
    next
      case False
      then have "filter (\<lambda>s. SessionEndHeight s = SessionEndHeight (hd g0)) (seen @ [x])
          = filter (\<lambda>s. SessionEndHeight s = SessionEndHeight (hd g0)) seen" by simp
      then show ?thesis using f [OF g0] ne g0 g False by simp
    qed
  next
    case False
    then have "filter (\<lambda>s. SessionEndHeight s = SessionEndHeight x) seen = []"
      by (auto simp: filter_empty_conv image_iff)
    note none = this
    have "set (add_to_group x gs) = insert [x] (set gs)"
      unfolding add_to_group_members [OF d ne] h using False by (simp only: if_False)
    then consider "g = [x]" | "g \<in> set gs" using \<open>g \<in> set (add_to_group x gs)\<close> by blast
    then show ?thesis
    proof cases
      case 1
      then show ?thesis using none by simp
    next
      case 2
      then have "SessionEndHeight (hd g) \<in> SessionEndHeight ` set seen" using h by auto
      then have "SessionEndHeight x \<noteq> SessionEndHeight (hd g)" using False by auto
      then have "filter (\<lambda>s. SessionEndHeight s = SessionEndHeight (hd g)) (seen @ [x])
          = filter (\<lambda>s. SessionEndHeight s = SessionEndHeight (hd g)) seen" by simp
      moreover have "g \<noteq> []" using ne 2 by blast
      ultimately show ?thesis using f [OF 2] by presburger
    qed
  qed
  ultimately show ?thesis unfolding grouped_def by blast
qed

lemma grouped_fold: "grouped seen gs \<Longrightarrow> grouped (seen @ xs) (fold add_to_group xs gs)"
proof (induction xs arbitrary: seen gs)
  case (Cons x xs)
  from Cons.IH [OF grouped_add [OF Cons.prems]] show ?case by simp
qed simp

lemma groups_grouped: "grouped xs (fold add_to_group xs [])"
  using grouped_fold [of "[]" "[]" xs] by (simp add: grouped_def)

text \<open>Two strictly ordered lists with the same elements are one.\<close>

lemma orderGroups_heights: "map (SessionEndHeight \<circ> hd) (orderGroupsByWindow gs) = sort (map (SessionEndHeight \<circ> hd) gs)"
proof (rule properties_for_sort [symmetric])
  show "mset (map (SessionEndHeight \<circ> hd) (orderGroupsByWindow gs)) = mset (map (SessionEndHeight \<circ> hd) gs)"
    by (simp add: orderGroupsByWindow_def)
  show "sorted (map (SessionEndHeight \<circ> hd) (orderGroupsByWindow gs))"
    using sorted_sort_key [of "\<lambda>g. SessionEndHeight (hd g)" gs] by (simp add: orderGroupsByWindow_def comp_def)
qed

lemma groupByEndHeight_eq:
  "groupByEndHeight xs
   = map (\<lambda>h. filter (\<lambda>s. SessionEndHeight s = h) xs) (sorted_list_of_set (SessionEndHeight ` set xs))"
proof -
  let ?gs = "fold add_to_group xs []"
  have g: "grouped xs ?gs" by (rule groups_grouped)
  have hs: "map (SessionEndHeight \<circ> hd) (groupByEndHeight xs) = sorted_list_of_set (SessionEndHeight ` set xs)"
  proof -
    have "distinct (map (SessionEndHeight \<circ> hd) ?gs)"
      and st: "set (map (SessionEndHeight \<circ> hd) ?gs) = SessionEndHeight ` set xs"
      using g unfolding grouped_def by blast+
    then have "sorted_list_of_set (SessionEndHeight ` set xs) = sort (map (SessionEndHeight \<circ> hd) ?gs)"
      unfolding st [symmetric] sorted_list_of_set_sort_remdups by (simp only: distinct_remdups_id)
    then show ?thesis by (simp only: groupByEndHeight_def orderGroups_heights)
  qed
  have "groupByEndHeight xs = map (\<lambda>g. filter (\<lambda>s. SessionEndHeight s = SessionEndHeight (hd g)) xs) (groupByEndHeight xs)"
  proof (rule map_idI [symmetric])
    fix g
    assume "g \<in> set (groupByEndHeight xs)"
    then have "g \<in> set ?gs" by (simp add: groupByEndHeight_def orderGroupsByWindow_def)
    then have "g = filter (\<lambda>s. SessionEndHeight s = SessionEndHeight (hd g)) xs"
      using g unfolding grouped_def by blast
    then show "filter (\<lambda>s. SessionEndHeight s = SessionEndHeight (hd g)) xs = g" by (rule sym)
  qed
  also have "\<dots> = map (\<lambda>h. filter (\<lambda>s. SessionEndHeight s = h) xs) (map (SessionEndHeight \<circ> hd) (groupByEndHeight xs))"
    by simp
  finally show ?thesis by (simp only: hs)
qed

section \<open>Nothing is lost, and the views agree\<close>

definition collected :: "claimBuildCollection \<Rightarrow> claimBuildResult multiset" where
  "collected c = mset (cl_built c) + mset (cl_skipped c) + mset (cl_failed c)"

lemma collect_claim_adds: "collected (collect_claim r c) = collected c + {#r#}"
  by (simp add: collected_def collect_claim_def)

lemma collect_fold: "collected (fold collect_claim rs c) = collected c + mset rs"
  by (induction rs arbitrary: c) (simp_all add: collect_claim_adds)

definition sorted_out :: "claimBuildCollection \<Rightarrow> bool" where
  "sorted_out c =
     ((\<forall>r \<in> set (cl_built c). cr_err r = None \<and> \<not> cr_skipped r) \<and> (\<forall>r \<in> set (cl_skipped c). cr_err r = None \<and> cr_skipped r)
      \<and> (\<forall>r \<in> set (cl_failed c). cr_err r \<noteq> None))"

lemma collect_claim_sorted_out: "sorted_out c \<Longrightarrow> sorted_out (collect_claim r c)"
  by (auto simp: sorted_out_def collect_claim_def)

lemma collect_sorted_out: "sorted_out c \<Longrightarrow> sorted_out (fold collect_claim rs c)"
  by (induction rs arbitrary: c) (simp_all add: collect_claim_sorted_out)

text \<open>A result that is neither an error nor skipped carries the message of its own session, over its root.\<close>

lemma viable_claim_snapshot: "cr_snapshot (viable_claim W m r) = cr_snapshot r"
  by (auto simp: viable_claim_def new_result_def split: sum.splits option.splits)

lemma viable_claim_built:
  "\<lbrakk>cr_err (viable_claim W m r) = None; \<not> cr_skipped (viable_claim W m r)\<rbrakk>
   \<Longrightarrow> cr_claimMsg (viable_claim W m r) = Some m \<and> cr_rootHash (viable_claim W m r) = cr_rootHash r"
  by (auto simp: viable_claim_def new_result_def split: sum.splits option.splits if_splits)

lemma build_claim_form:
  "cr_err (build_claim W i s) \<noteq> None \<and> cr_snapshot (build_claim W i s) = s
   \<or> cr_skipped (build_claim W i s) \<and> cr_snapshot (build_claim W i s) = s
   \<or> (\<exists>root. length root = SMSTRootLen
       \<and> build_claim W i s = viable_claim W \<lparr>msg_SupplierOperatorAddress = SupplierOperatorAddress s,
           msg_SessionHeader = buildSessionHeader W s, msg_RootHash = root\<rparr> ((new_result i s)\<lparr>cr_rootHash := root\<rparr>))"
proof (cases "FlushTree W (SessionID s)")
  case (Inl e)
  then show ?thesis by (simp add: build_claim_def new_result_def)
next
  case (Inr root)
  then have flush: "FlushTree W (SessionID s) = Inr root" .
  show ?thesis
  proof (cases "length root = SMSTRootLen")
    case True
    then show ?thesis using flush
      by (cases "root_Count W root"; cases "root_Sum W root"; simp add: build_claim_def Let_def new_result_def; blast)
  next
    case False
    then show ?thesis using flush by (simp add: build_claim_def Let_def new_result_def)
  qed
qed

lemma build_claim_snapshot [simp]: "cr_snapshot (build_claim W i s) = s"
  using build_claim_form [of W i s] by (auto simp: viable_claim_snapshot new_result_def)

lemma build_claim_built:
  assumes "cr_err (build_claim W i s) = None" "\<not> cr_skipped (build_claim W i s)"
  shows "cr_claimMsg (build_claim W i s) = Some \<lparr>msg_SupplierOperatorAddress = SupplierOperatorAddress s,
      msg_SessionHeader = buildSessionHeader W s, msg_RootHash = cr_rootHash (build_claim W i s)\<rparr>
    \<and> length (cr_rootHash (build_claim W i s)) = SMSTRootLen"
proof -
  obtain root where root: "length root = SMSTRootLen"
    and b: "build_claim W i s = viable_claim W \<lparr>msg_SupplierOperatorAddress = SupplierOperatorAddress s,
         msg_SessionHeader = buildSessionHeader W s, msg_RootHash = root\<rparr> ((new_result i s)\<lparr>cr_rootHash := root\<rparr>)"
    using build_claim_form [of W i s] assms by blast
  show ?thesis using viable_claim_built [OF assms [unfolded b]] root unfolding b by simp
qed

end
