(* ===== verification/Claim_Cycle.thy ===== *)
theory Claim_Cycle
  imports Session_Lifecycle Claim_Build
begin

text \<open>
  \<open>LifecycleCallback\<close> of \<open>src/miner/lifecycle_callback.go\<close>: the terminal callbacks, the deferrals, the observation of a
  claim on chain, and the claim cycle \<open>OnSessionsNeedClaim\<close> with its submission loop. The transaction client, the block
  client, the chain's queries and the tree manager are records of the answers they give; the answer may differ from
  call to call.
\<close>

section \<open>The callback\<close>

datatype query_error = QueryError bool string

text \<open>\<open>IsEntityNotFound\<close>: an explicit NotFound status, and nothing else.\<close>

fun IsEntityNotFound :: "query_error \<Rightarrow> bool" where
  "IsEntityNotFound (QueryError not_found _) = not_found"

definition isClaimNotFoundError :: "query_error \<Rightarrow> bool" where
  "isClaimNotFoundError err = IsEntityNotFound err"

text \<open>
  \<open>lc_rebroadcast\<close> is the rebroadcast store, if there is one: whether the entry of a session could be written.
\<close>

record ('e, 's) LifecycleCallback =
  lc_coordinator :: "('e, 's) SessionCoordinator option"
  lc_pricer :: "(SessionSnapshot \<Rightarrow> Upokt) option"
  lc_deduplicator :: bool
  lc_compactor :: bool
  lc_GetClaim :: "(string \<Rightarrow> string \<Rightarrow> (query_error, string) result) option"
  lc_rebroadcast :: "(string \<Rightarrow> bool) option"
  ClaimRetryAttempts :: nat
  ProofRetryAttempts :: nat
  DisablePreProofClaimVerification :: bool

definition NewLifecycleCallback ::
  "('e, 's) SessionCoordinator option \<Rightarrow> int \<Rightarrow> int \<Rightarrow> bool \<Rightarrow> ('e, 's) LifecycleCallback" where
  "NewLifecycleCallback coordinator claimRetryAttempts proofRetryAttempts disableGuard =
     \<lparr>lc_coordinator = coordinator, lc_pricer = None, lc_deduplicator = False, lc_compactor = False,
      lc_GetClaim = None, lc_rebroadcast = None,
      ClaimRetryAttempts = (if claimRetryAttempts \<le> 0 then 3 else nat claimRetryAttempts),
      ProofRetryAttempts = (if proofRetryAttempts \<le> 0 then 3 else nat proofRetryAttempts),
      DisablePreProofClaimVerification = disableGuard\<rparr>"

definition lc_price :: "('e, 's) LifecycleCallback \<Rightarrow> SessionSnapshot \<Rightarrow> Upokt" where
  "lc_price lc snapshot = quote (lc_pricer lc) (Some snapshot)"

text \<open>A call of the coordinator, when there is one.\<close>

definition coordinate ::
  "('e, 's) LifecycleCallback \<Rightarrow> (('e, 's) SessionCoordinator \<Rightarrow> 's \<Rightarrow> 's handled) \<Rightarrow> 's
   \<Rightarrow> coord_error option \<times> 's \<times> lifecycle_event list" where
  "coordinate lc call s =
     (case lc_coordinator lc of
        None \<Rightarrow> (None, s, [])
      | Some c \<Rightarrow> (case call c s of (err, s1, ev) \<Rightarrow> (err, s1, map Booked ev)))"

definition book :: "counter_add list \<Rightarrow> lifecycle_event list" where
  "book adds = map (Booked \<circ> Counter) adds"

definition RecordSessionProved :: "string \<Rightarrow> string \<Rightarrow> counter_add list" where
  "RecordSessionProved supplier serviceID = [CounterAdd ''sessionsProvedTotal'' [supplier, serviceID] 1]"

definition RecordSessionProbabilisticProved :: "string \<Rightarrow> string \<Rightarrow> counter_add list" where
  "RecordSessionProbabilisticProved supplier serviceID =
     [CounterAdd ''sessionsProbabilisticProvedTotal'' [supplier, serviceID] 1]"

definition RecordClaimSkipped :: "string \<Rightarrow> string \<Rightarrow> string \<Rightarrow> counter_add list" where
  "RecordClaimSkipped supplier serviceID reason = [CounterAdd ''claimsSkippedTotal'' [supplier, serviceID, reason] 1]"

section \<open>Terminal callbacks\<close>

type_synonym ('e, 's) callback_op =
  "('e, 's) SessionStore \<Rightarrow> ('e, 's) LifecycleCallback \<Rightarrow> (nat \<Rightarrow> 'e) \<Rightarrow> SessionSnapshot \<Rightarrow> 's \<Rightarrow> 's \<times> lifecycle_event list"

definition cleanup_marks :: "('e, 's) LifecycleCallback \<Rightarrow> SessionSnapshot \<Rightarrow> lifecycle_event list" where
  "cleanup_marks lc snapshot = (if lc_deduplicator lc then [CleanupMarks (SessionID snapshot)] else [])"

definition lc_OnSessionProved :: "('e, 's) callback_op" where
  "lc_OnSessionProved S lc e snapshot s =
     (case coordinate lc (\<lambda>c. OnSessionProved S c e (SessionID snapshot)) s of
        (_, s1, ev) \<Rightarrow>
          (s1, book (RecordSessionProved (SupplierOperatorAddress snapshot) (ServiceID snapshot))
               @ DeleteTree (SessionID snapshot) # ev @ cleanup_marks lc snapshot))"

definition lc_OnClaimSkipped :: "('e, 's) callback_op" where
  "lc_OnClaimSkipped S lc e snapshot s =
     (case coordinate lc (\<lambda>c. OnClaimSkipped S c e (SessionID snapshot)) s of
        (err, s1, ev) \<Rightarrow>
          (s1, DeleteTree (SessionID snapshot) # ev @ (if err = None then cleanup_marks lc snapshot else [])))"

definition lc_OnProbabilisticProved :: "('e, 's) callback_op" where
  "lc_OnProbabilisticProved S lc e snapshot s =
     (case coordinate lc (\<lambda>c. OnProbabilisticProved S c e (SessionID snapshot)) s of
        (err, s1, ev) \<Rightarrow>
          (s1, book (RecordSessionProbabilisticProved (SupplierOperatorAddress snapshot) (ServiceID snapshot))
               @ DeleteTree (SessionID snapshot) # ev @ (if err = None then cleanup_marks lc snapshot else [])))"

definition closed_claim_books :: "('e, 's) LifecycleCallback \<Rightarrow> SessionSnapshot \<Rightarrow> lifecycle_event list" where
  "closed_claim_books lc snapshot =
     book (RecordClaimWindowClosed (SupplierOperatorAddress snapshot) (ServiceID snapshot) (ClaimTxHash snapshot)
       (RelayCount snapshot) (sint (TotalComputeUnits snapshot)) (lc_price lc snapshot))"

definition closed_proof_books :: "('e, 's) LifecycleCallback \<Rightarrow> SessionSnapshot \<Rightarrow> lifecycle_event list" where
  "closed_proof_books lc snapshot =
     book (RecordProofWindowClosed (SupplierOperatorAddress snapshot) (ServiceID snapshot) (ProofTxHash snapshot)
       (RelayCount snapshot) (sint (TotalComputeUnits snapshot)) (lc_price lc snapshot))"

definition lc_OnClaimWindowClosed :: "('e, 's) callback_op" where
  "lc_OnClaimWindowClosed S lc e snapshot s = (s, DeleteTree (SessionID snapshot) # closed_claim_books lc snapshot)"

definition lc_OnClaimTxError :: "('e, 's) callback_op" where
  "lc_OnClaimTxError S lc e snapshot s = (s, [DeleteTree (SessionID snapshot)])"

definition lc_OnProofWindowClosed :: "('e, 's) callback_op" where
  "lc_OnProofWindowClosed S lc e snapshot s = (s, DeleteTree (SessionID snapshot) # closed_proof_books lc snapshot)"

definition lc_OnProofTxError :: "('e, 's) callback_op" where
  "lc_OnProofTxError S lc e snapshot s = (s, [DeleteTree (SessionID snapshot)])"

text \<open>The method the manager calls for a terminal state.\<close>

definition lc_terminal :: "SessionState \<Rightarrow> ('e, 's) callback_op" where
  "lc_terminal newState =
     (if newState = SessionStateProved then lc_OnSessionProved
      else if newState = SessionStateProbabilisticProved then lc_OnProbabilisticProved
      else if newState = SessionStateClaimWindowClosed then lc_OnClaimWindowClosed
      else if newState = SessionStateClaimTxError then lc_OnClaimTxError
      else if newState = SessionStateProofWindowClosed then lc_OnProofWindowClosed
      else lc_OnProofTxError)"

section \<open>Observing and deferring\<close>

definition ObserveClaimOnChain ::
  "('e, 's) SessionStore \<Rightarrow> ('e, 's) LifecycleCallback \<Rightarrow> (nat \<Rightarrow> 'e) \<Rightarrow> SessionSnapshot \<Rightarrow> 's
   \<Rightarrow> (string, bool) result \<times> 's \<times> lifecycle_event list" where
  "ObserveClaimOnChain S lc e snapshot s =
     (case (lc_GetClaim lc, lc_coordinator lc) of
        (Some query, Some c) \<Rightarrow>
         (case query (SupplierOperatorAddress snapshot) (SessionID snapshot) of
            Inl err \<Rightarrow> ((if isClaimNotFoundError err then Inr False else Inl ''querying the claim''), s, [])
          | Inr root \<Rightarrow>
             (case OnClaimObservedOnChain S c e (SessionID snapshot) root (ClaimTxHash snapshot) s of
                (Some _, s1, ev) \<Rightarrow> (Inl ''booking the claim observed on chain'', s1, map Booked ev)
              | (None, s1, ev) \<Rightarrow> (Inr True, s1, map Booked ev)))
      | _ \<Rightarrow> (Inr False, s, []))"

text \<open>\<open>height\<close> is what the block client answers when the function asks.\<close>

definition markAndCountClaimWindowClosed ::
  "('e, 's) SessionStore \<Rightarrow> ('e, 's) LifecycleCallback \<Rightarrow> 'e env_supply \<Rightarrow> int \<Rightarrow> int \<Rightarrow> SessionSnapshot \<Rightarrow> 's
   \<Rightarrow> 's \<times> lifecycle_event list" where
  "markAndCountClaimWindowClosed S lc E height claimWindowClose snapshot s =
     (case ObserveClaimOnChain S lc (E (SessionID snapshot) 1) snapshot s of
        (Inl _, s1, ev) \<Rightarrow> (s1, ev)
      | (Inr True, s1, ev) \<Rightarrow> (s1, ev)
      | (Inr False, s1, ev) \<Rightarrow>
          if \<not> claimReadIsFinal height claimWindowClose then (s1, ev)
          else (case coordinate lc (\<lambda>c. OnClaimWindowClosed S c (E (SessionID snapshot) 2) (SessionID snapshot)) s1 of
                  (Some _, s2, ev2) \<Rightarrow> (s2, ev @ ev2)
                | (None, s2, ev2) \<Rightarrow> (s2, ev @ ev2 @ closed_claim_books lc snapshot)))"

definition markAndCountProofWindowClosed :: "('e, 's) callback_op" where
  "markAndCountProofWindowClosed S lc e snapshot s =
     (case coordinate lc (\<lambda>c. OnProofWindowClosed S c e (SessionID snapshot)) s of
        (Some _, s1, ev) \<Rightarrow> (s1, ev)
      | (None, s1, ev) \<Rightarrow> (s1, ev @ closed_proof_books lc snapshot))"

fun deferClaims ::
  "('e, 's) SessionStore \<Rightarrow> ('e, 's) LifecycleCallback \<Rightarrow> 'e env_supply \<Rightarrow> SessionSnapshot list \<Rightarrow> 's
   \<Rightarrow> SessionSnapshot list \<times> 's \<times> lifecycle_event list" where
  "deferClaims S lc E [] s = ([], s, [])"
| "deferClaims S lc E (snapshot # rest) s =
     (if lc_coordinator lc = None then (snapshot # rest, s, [])
      else case coordinate lc (\<lambda>c. OnClaimDeferred S c (E (SessionID snapshot) 0) (SessionID snapshot)) s of
        (err, s1, ev) \<Rightarrow>
         (case deferClaims S lc E rest s1 of
            (rest', s2, ev2) \<Rightarrow>
              ((if err = None then snapshot\<lparr>State := SessionStateActive\<rparr> else snapshot) # rest', s2, ev @ ev2)))"

definition deferProof ::
  "('e, 's) SessionStore \<Rightarrow> ('e, 's) LifecycleCallback \<Rightarrow> (nat \<Rightarrow> 'e) \<Rightarrow> SessionSnapshot \<Rightarrow> 's
   \<Rightarrow> SessionSnapshot \<times> 's \<times> lifecycle_event list" where
  "deferProof S lc e snapshot s =
     (if lc_coordinator lc = None then (snapshot, s, [])
      else case coordinate lc (\<lambda>c. OnProofDeferred S c e (SessionID snapshot)) s of
        (err, s1, ev) \<Rightarrow> ((if err = None then snapshot\<lparr>State := SessionStateClaimed\<rparr> else snapshot), s1, ev))"

fun deferProofs ::
  "('e, 's) SessionStore \<Rightarrow> ('e, 's) LifecycleCallback \<Rightarrow> 'e env_supply \<Rightarrow> SessionSnapshot list \<Rightarrow> 's
   \<Rightarrow> SessionSnapshot list \<times> 's \<times> lifecycle_event list" where
  "deferProofs S lc E [] s = ([], s, [])"
| "deferProofs S lc E (snapshot # rest) s =
     (case deferProof S lc (E (SessionID snapshot) 0) snapshot s of
        (snapshot', s1, ev) \<Rightarrow>
         (case deferProofs S lc E rest s1 of
            (rest', s2, ev2) \<Rightarrow> (snapshot' # rest', s2, ev @ ev2)))"

definition windowRefusalIsFinal :: "tx_error \<Rightarrow> int \<Rightarrow> int \<Rightarrow> bool" where
  "windowRefusalIsFinal submitErr height windowClose = (is_ErrTxWindowExpired submitErr \<or> height \<ge> windowClose)"

section \<open>Sending a batch of claims\<close>

text \<open>
  The transaction client and the clocks, by the number of the send: what a signed or a re-injected transaction is
  answered, the chain's time before the send, our height after a refusal and after an ejection, and whether the
  context ended while waiting for the next attempt.
\<close>

record tx_world =
  CreateClaimsReturningHash :: "nat \<Rightarrow> int \<Rightarrow> MsgCreateClaim option list \<Rightarrow> string \<times> SignedTxPayload \<times> tx_error option"
  BroadcastRawReturningHash :: "nat \<Rightarrow> SignedTxPayload \<Rightarrow> string \<times> tx_error option"
  LatestBlockTime :: "nat \<Rightarrow> time"
  refused_height :: "nat \<Rightarrow> int"
  ejected_height :: "nat \<Rightarrow> int"
  ctx_done :: "nat \<Rightarrow> bool"

definition canReinject :: "time \<Rightarrow> SignedTxPayload \<Rightarrow> tx_error option \<Rightarrow> bool" where
  "canReinject chainNow previous previousErr =
     (if sp_Bytes previous = [] \<or> previousErr = None then False
      else if \<not> RejectionPreservesBytes previousErr then False
      else reusable previous chainNow)"

text \<open>A transaction sent: the messages it stands for, its bytes, and the answer, \<open>None\<close> when it was accepted.\<close>

datatype claim_send =
    SignedSend "MsgCreateClaim option list" SignedTxPayload "tx_error option"
  | Reinjected "MsgCreateClaim option list" SignedTxPayload "tx_error option"

definition resendOrSignClaims ::
  "tx_world \<Rightarrow> nat \<Rightarrow> int \<Rightarrow> SignedTxPayload \<Rightarrow> tx_error option \<Rightarrow> MsgCreateClaim option list
   \<Rightarrow> claim_send \<times> string \<times> SignedTxPayload \<times> tx_error option" where
  "resendOrSignClaims X i timeoutHeight previous previousErr msgs =
     (if canReinject (LatestBlockTime X i) previous previousErr
      then (case BroadcastRawReturningHash X i previous of
              (hash, err) \<Rightarrow> (Reinjected msgs previous err, hash, previous, err))
      else (case CreateClaimsReturningHash X i timeoutHeight msgs of
              (hash, payload, err) \<Rightarrow> (SignedSend msgs payload err, hash, payload, err)))"

definition persistRebroadcastEntry ::
  "('e, 's) LifecycleCallback \<Rightarrow> SessionSnapshot \<Rightarrow> string \<Rightarrow> SignedTxPayload \<Rightarrow> tx_error option
   \<Rightarrow> bool \<times> lifecycle_event list" where
  "persistRebroadcastEntry lc snapshot txHash payload attemptErr =
     (case lc_rebroadcast lc of
        None \<Rightarrow> (False, [])
      | Some landed \<Rightarrow>
          if landed (SessionID snapshot)
          then (True, [KeptForResend (SessionID snapshot) txHash
                         (if RejectionPreservesBytes attemptErr then sp_Bytes payload else [])])
          else (False, []))"

definition persistRebroadcastEntries ::
  "('e, 's) LifecycleCallback \<Rightarrow> SessionSnapshot list \<Rightarrow> string \<Rightarrow> SignedTxPayload \<Rightarrow> tx_error option
   \<Rightarrow> lifecycle_event list" where
  "persistRebroadcastEntries lc snapshots txHash payload attemptErr =
     concat (map (\<lambda>snapshot. snd (persistRebroadcastEntry lc snapshot txHash payload attemptErr)) snapshots)"

text \<open>An ejected message is kept for a resend before its session gets its verdict.\<close>

definition settleEjectedClaim :: "('e, 's) callback_op" where
  "settleEjectedClaim S lc e snapshot s =
     (case persistRebroadcastEntry lc snapshot [] no_payload None of
        (recoverable, ev0) \<Rightarrow>
          let verdict = (if recoverable then ClaimTxErrorAttempt
                         else if lc_rebroadcast lc = None then ClaimTxErrorForgone
                         else ClaimTxErrorEjectedUnrecoverable)
          in case coordinate lc (\<lambda>c. OnClaimTxError S c e (SessionID snapshot) verdict) s of
               (_, s1, ev) \<Rightarrow> (s1, ev0 @ ev))"

definition windowRefusal :: "tx_error \<Rightarrow> bool" where
  "windowRefusal submitErr =
     (is_ErrTxWindowExpired submitErr \<or> Contains (tx_text submitErr) ''claim window''
      \<or> Contains (tx_text submitErr) ''claim_window'')"

text \<open>A callback on every session of a list, in order.\<close>

fun for_each ::
  "(SessionSnapshot \<Rightarrow> 's \<Rightarrow> 's \<times> lifecycle_event list) \<Rightarrow> SessionSnapshot list \<Rightarrow> 's \<Rightarrow> 's \<times> lifecycle_event list" where
  "for_each f [] s = (s, [])"
| "for_each f (snapshot # rest) s =
     (case f snapshot s of (s1, ev) \<Rightarrow> (case for_each f rest s1 of (s2, ev2) \<Rightarrow> (s2, ev @ ev2)))"

datatype submission =
    Submitted string SignedTxPayload
  | WindowClosed
  | NodeBehind
  | Cancelled
  | Exhausted tx_error SignedTxPayload

text \<open>
  One round of the retry loop: a send and what follows from its answer, either the end of the loop or the next round
  (its attempt number, the batch, the group, the bytes a retry may re-inject and the error they got). An ejection does
  not count as an attempt: it shrinks the batch, drops the signed bytes, which are not those of the smaller batch, and
  sends again. \<open>fh\<close> is the height each session's verdict reads.
\<close>

datatype next_round =
    Stop submission "claimBuildResult list" "SessionSnapshot list"
  | Again nat "claimBuildResult list" "SessionSnapshot list" SignedTxPayload tx_error

definition close_all ::
  "('e, 's) SessionStore \<Rightarrow> ('e, 's) LifecycleCallback \<Rightarrow> 'e env_supply \<Rightarrow> (string \<Rightarrow> int) \<Rightarrow> int \<Rightarrow> SessionSnapshot list \<Rightarrow> 's
   \<Rightarrow> 's \<times> lifecycle_event list" where
  "close_all S lc E fh claimWindowClose grp s =
     for_each (\<lambda>snapshot. markAndCountClaimWindowClosed S lc E (fh (SessionID snapshot)) claimWindowClose snapshot) grp s"

definition eject_claim ::
  "('e, 's) SessionStore \<Rightarrow> ('e, 's) LifecycleCallback \<Rightarrow> 'e env_supply \<Rightarrow> (string \<Rightarrow> int) \<Rightarrow> int \<Rightarrow> int
   \<Rightarrow> nat \<Rightarrow> nat \<Rightarrow> claimBuildResult list \<Rightarrow> SessionSnapshot list \<Rightarrow> tx_error \<Rightarrow> 's
   \<Rightarrow> next_round \<times> 's \<times> lifecycle_event list" where
  "eject_claim S lc E fh claimWindowClose height named attempt remaining groupSnapshots submitErr s =
     (let ejected = cr_snapshot (remaining ! named);
          remaining' = take named remaining @ drop (Suc named) remaining;
          grp' = withoutSession groupSnapshots (SessionID ejected)
      in case settleEjectedClaim S lc (E (SessionID ejected) 4) ejected s of
           (s1, ev) \<Rightarrow>
             if height \<ge> claimWindowClose
             then (case close_all S lc E fh claimWindowClose grp' s1 of
                     (s2, ev2) \<Rightarrow> (Stop WindowClosed remaining' grp', s2, ev @ ev2))
             else (Again attempt remaining' grp' no_payload submitErr, s1, ev))"

definition send_round ::
  "('e, 's) SessionStore \<Rightarrow> ('e, 's) LifecycleCallback \<Rightarrow> 'e env_supply \<Rightarrow> tx_world \<Rightarrow> (string \<Rightarrow> int) \<Rightarrow> int
   \<Rightarrow> nat \<Rightarrow> claimBuildResult list \<Rightarrow> SessionSnapshot list \<Rightarrow> SignedTxPayload \<Rightarrow> tx_error option \<Rightarrow> nat \<Rightarrow> 's
   \<Rightarrow> claim_send \<times> next_round \<times> 's \<times> lifecycle_event list" where
  "send_round S lc E X fh claimWindowClose attempt remaining groupSnapshots claimSigned lastErr i s =
     (case resendOrSignClaims X i claimWindowClose claimSigned lastErr (map cr_claimMsg remaining) of
        (send, txHash, payload, None) \<Rightarrow> (send, Stop (Submitted txHash payload) remaining groupSnapshots, s, [])
      | (send, txHash, payload, Some submitErr) \<Rightarrow>
          (send,
           (if windowRefusal submitErr \<and> \<not> windowRefusalIsFinal submitErr (refused_height X i) claimWindowClose
            then (case deferClaims S lc E groupSnapshots s of
                    (grp', s1, ev) \<Rightarrow> (Stop NodeBehind remaining grp', s1, ev))
            else if windowRefusal submitErr
            then (case close_all S lc E fh claimWindowClose groupSnapshots s of
                    (s1, ev) \<Rightarrow> (Stop WindowClosed remaining groupSnapshots, s1, ev))
            else
              (case (if length remaining > 1 then namedMessageIndex submitErr (length remaining) else None) of
                 Some named \<Rightarrow>
                   eject_claim S lc E fh claimWindowClose (ejected_height X i) named attempt remaining groupSnapshots
                     submitErr s
               | None \<Rightarrow>
                   if Suc attempt \<le> ClaimRetryAttempts lc
                   then (if ctx_done X i then (Stop Cancelled remaining groupSnapshots, s, [])
                         else (Again (Suc attempt) remaining groupSnapshots payload submitErr, s, []))
                   else (Stop (Exhausted submitErr payload) remaining groupSnapshots, s, [])))))"

text \<open>Every further round has one attempt fewer left, or a batch smaller by one message.\<close>

lemma send_round_Again:
  assumes "send_round S lc E X fh close attempt remaining grp payload lastErr i s
      = (send, Again attempt' remaining' grp' payload' err', s', ev)"
  shows "(attempt' = Suc attempt \<and> attempt' \<le> ClaimRetryAttempts lc \<and> remaining' = remaining \<and> grp' = grp)
    \<or> (attempt' = attempt \<and> payload' = no_payload
       \<and> (\<exists>n < length remaining. remaining' = take n remaining @ drop (Suc n) remaining
            \<and> grp' = withoutSession grp (SessionID (cr_snapshot (remaining ! n)))))"
  using assms
  by (auto simp: send_round_def eject_claim_def Let_def split: prod.splits option.splits if_splits dest!: namedMessageIndex_less)

record 's submitted =
  sub_outcome :: submission
  sub_remaining :: "claimBuildResult list"
  sub_group :: "SessionSnapshot list"
  sub_sends :: "claim_send list"
  sub_store :: 's
  sub_events :: "lifecycle_event list"

definition after_send :: "claim_send \<Rightarrow> lifecycle_event list \<Rightarrow> 's submitted \<Rightarrow> 's submitted" where
  "after_send send ev r = r\<lparr>sub_sends := send # sub_sends r, sub_events := ev @ sub_events r\<rparr>"

function submit_claims ::
  "('e, 's) SessionStore \<Rightarrow> ('e, 's) LifecycleCallback \<Rightarrow> 'e env_supply \<Rightarrow> tx_world \<Rightarrow> (string \<Rightarrow> int) \<Rightarrow> int
   \<Rightarrow> nat \<Rightarrow> claimBuildResult list \<Rightarrow> SessionSnapshot list \<Rightarrow> SignedTxPayload \<Rightarrow> tx_error option \<Rightarrow> nat \<Rightarrow> 's
   \<Rightarrow> 's submitted" where
  "submit_claims S lc E X fh claimWindowClose attempt remaining groupSnapshots claimSigned lastErr i s =
     (case send_round S lc E X fh claimWindowClose attempt remaining groupSnapshots claimSigned lastErr i s of
        (send, Stop out rem grp, s1, ev) \<Rightarrow>
          \<lparr>sub_outcome = out, sub_remaining = rem, sub_group = grp, sub_sends = [send], sub_store = s1, sub_events = ev\<rparr>
      | (send, Again attempt' remaining' grp' payload err, s1, ev) \<Rightarrow>
          after_send send ev
            (submit_claims S lc E X fh claimWindowClose attempt' remaining' grp' payload (Some err) (Suc i) s1))"
  by pat_completeness auto
termination
  by (relation "measure (\<lambda>(S, lc, E, X, fh, close, attempt, remaining, _). (Suc (ClaimRetryAttempts lc) - attempt) + length remaining)")
    (auto dest!: send_round_Again [OF sym])

declare submit_claims.simps [simp del]

lemma submit_claims_cases:
  assumes "send_round S lc E X fh close attempt remaining grp payload lastErr i s = (send, nx, s1, ev)"
  shows "submit_claims S lc E X fh close attempt remaining grp payload lastErr i s =
    (case nx of
       Stop out rem grp' \<Rightarrow> \<lparr>sub_outcome = out, sub_remaining = rem, sub_group = grp', sub_sends = [send], sub_store = s1, sub_events = ev\<rparr>
     | Again attempt' remaining' grp' payload' err \<Rightarrow>
         after_send send ev (submit_claims S lc E X fh close attempt' remaining' grp' payload' (Some err) (Suc i) s1))"
  using assms by (subst submit_claims.simps) (simp split: next_round.split)

lemma after_send_simps [simp]:
  "sub_outcome (after_send send ev r) = sub_outcome r" "sub_remaining (after_send send ev r) = sub_remaining r"
  "sub_group (after_send send ev r) = sub_group r" "sub_sends (after_send send ev r) = send # sub_sends r"
  "sub_store (after_send send ev r) = sub_store r" "sub_events (after_send send ev r) = ev @ sub_events r"
  by (simp_all add: after_send_def)

text \<open>An induction over the rounds of the loop, by the measure that ends it.\<close>

lemma submit_claims_rounds [case_names stop again]:
  assumes "\<And>attempt remaining grp payload lastErr i s send out rem grp' s1 ev.
      send_round S lc E X fh close attempt remaining grp payload lastErr i s = (send, Stop out rem grp', s1, ev)
      \<Longrightarrow> P attempt remaining grp payload lastErr i s
            \<lparr>sub_outcome = out, sub_remaining = rem, sub_group = grp', sub_sends = [send], sub_store = s1, sub_events = ev\<rparr>"
    and "\<And>attempt remaining grp payload lastErr i s send attempt' remaining' grp' payload' err s1 ev r.
      \<lbrakk>send_round S lc E X fh close attempt remaining grp payload lastErr i s = (send, Again attempt' remaining' grp' payload' err, s1, ev);
       P attempt' remaining' grp' payload' (Some err) (Suc i) s1 r\<rbrakk>
      \<Longrightarrow> P attempt remaining grp payload lastErr i s (after_send send ev r)"
  shows "P attempt remaining grp payload lastErr i s (submit_claims S lc E X fh close attempt remaining grp payload lastErr i s)"
proof (induction "(Suc (ClaimRetryAttempts lc) - attempt) + length remaining" arbitrary: attempt remaining grp payload lastErr i s
    rule: less_induct)
  case less
  obtain send nx s1 ev where r: "send_round S lc E X fh close attempt remaining grp payload lastErr i s = (send, nx, s1, ev)"
    by (cases "send_round S lc E X fh close attempt remaining grp payload lastErr i s")
  show ?case
  proof (cases nx)
    case (Stop out rem grp')
    then show ?thesis using assms(1) r by (simp add: submit_claims_cases [OF r])
  next
    case (Again attempt' remaining' grp' payload' err)
    then have r': "send_round S lc E X fh close attempt remaining grp payload lastErr i s = (send, Again attempt' remaining' grp' payload' err, s1, ev)"
      using r by simp
    have "P attempt' remaining' grp' payload' (Some err) (Suc i) s1
        (submit_claims S lc E X fh close attempt' remaining' grp' payload' (Some err) (Suc i) s1)"
      using send_round_Again [OF r'] by (intro less.hyps) auto
    then show ?thesis using assms(2) [OF r'] Again by (simp add: submit_claims_cases [OF r])
  qed
qed

section \<open>The cycle\<close>

text \<open>
  What the cycle of one group meets: the shared parameters, the wait for the window, our height before and after the
  build, the order in which the builds finish, the transaction client, and the height each verdict reads.
\<close>

record 'p claim_world =
  cw_windows :: "'p windows"
  cw_params :: "int \<Rightarrow> (string, 'p) result"
  cw_waited :: "int \<Rightarrow> bool"
  cw_height_before :: "int \<Rightarrow> int"
  cw_height_after :: "int \<Rightarrow> int"
  cw_arrival :: "claimBuildResult list \<Rightarrow> claimBuildResult list"
  cw_build :: build_world
  cw_tx :: "int \<Rightarrow> tx_world"
  cw_final :: "string \<Rightarrow> int"

definition settle_skipped ::
  "('e, 's) SessionStore \<Rightarrow> ('e, 's) LifecycleCallback \<Rightarrow> 'e env_supply \<Rightarrow> claimBuildResult list \<Rightarrow> 's
   \<Rightarrow> 's \<times> lifecycle_event list" where
  "settle_skipped S lc E rs s =
     fold (\<lambda>r (s0, ev0).
       let snap = cr_snapshot r in
       if cr_skipReason r = ''unprofitable'' \<or> cr_skipReason r = ''cupr_mismatch''
       then (case lc_OnClaimSkipped S lc (E (SessionID snap) 3) snap s0 of
               (s1, ev1) \<Rightarrow>
                 (s1, ev0 @ book (RecordClaimSkipped (SupplierOperatorAddress snap) (ServiceID snap) (cr_skipReason r)) @ ev1))
       else (s0, ev0)) rs (s, [])"

definition note_failed :: "claimBuildResult list \<Rightarrow> lifecycle_event list" where
  "note_failed rs =
     concat (map (\<lambda>r. book (RecordClaimSkipped (SupplierOperatorAddress (cr_snapshot r)) (ServiceID (cr_snapshot r))
       ''build_failed'')) rs)"

fun note_claimed ::
  "('e, 's) SessionStore \<Rightarrow> ('e, 's) LifecycleCallback \<Rightarrow> 'e env_supply \<Rightarrow> string \<Rightarrow> claimBuildResult list \<Rightarrow> 's
   \<Rightarrow> 's \<times> lifecycle_event list" where
  "note_claimed S lc E txHash [] s = (s, [])"
| "note_claimed S lc E txHash (r # rs) s =
     (case coordinate lc (\<lambda>c. OnSessionClaimed S c (E (SessionID (cr_snapshot r)) 5) (SessionID (cr_snapshot r))
             (cr_rootHash r) txHash) s of
        (_, s1, ev) \<Rightarrow> (case note_claimed S lc E txHash rs s1 of (s2, ev2) \<Rightarrow> (s2, ev @ ev2)))"

definition fail_claim :: "string \<Rightarrow> ('e, 's) callback_op" where
  "fail_claim verdict S lc e snapshot s =
     (case coordinate lc (\<lambda>c. OnClaimTxError S c e (SessionID snapshot) verdict) s of (_, s1, ev) \<Rightarrow> (s1, ev))"

definition note_exhausted ::
  "('e, 's) SessionStore \<Rightarrow> ('e, 's) LifecycleCallback \<Rightarrow> 'e env_supply \<Rightarrow> tx_error \<Rightarrow> SignedTxPayload
   \<Rightarrow> SessionSnapshot list \<Rightarrow> SessionSnapshot list \<Rightarrow> 's \<Rightarrow> 's \<times> lifecycle_event list" where
  "note_exhausted S lc E lastErr payload groupSnapshots validSnapshots s =
     (let verdict = (if lc_rebroadcast lc \<noteq> None then ClaimTxErrorAttempt else ClaimTxErrorForgone)
      in case (if nothingWasSpent lastErr then (s, [])
               else for_each (\<lambda>snapshot. fail_claim verdict S lc (E (SessionID snapshot) 6) snapshot) groupSnapshots s) of
           (s1, ev) \<Rightarrow> (s1, ev @ persistRebroadcastEntries lc validSnapshots [] payload (Some lastErr)))"

definition RecordClaimCreated :: "string \<Rightarrow> string \<Rightarrow> counter_add list" where
  "RecordClaimCreated supplier serviceID = [CounterAdd ''claimsCreated'' [supplier, serviceID] 1]"

definition RecordClaimSubmitted :: "string \<Rightarrow> string \<Rightarrow> counter_add list" where
  "RecordClaimSubmitted supplier serviceID = [CounterAdd ''claimsSubmitted'' [supplier, serviceID] 1]"

definition count_claims :: "(string \<Rightarrow> string \<Rightarrow> counter_add list) \<Rightarrow> SessionSnapshot list \<Rightarrow> lifecycle_event list" where
  "count_claims record snapshots =
     concat (map (\<lambda>snapshot. book (record (SupplierOperatorAddress snapshot) (ServiceID snapshot))) snapshots)"

text \<open>What follows the submission loop: the sessions named as claimed, the sends, the store and what is booked.\<close>

definition conclude_claims ::
  "('e, 's) SessionStore \<Rightarrow> ('e, 's) LifecycleCallback \<Rightarrow> 'e env_supply \<Rightarrow> 's submitted \<Rightarrow> lifecycle_event list
   \<Rightarrow> string set \<times> claim_send list \<times> 's \<times> lifecycle_event list \<times> bool" where
  "conclude_claims S lc E sub ev =
     (let valid = map cr_snapshot (sub_remaining sub)
      in case sub_outcome sub of
           Submitted txHash payload \<Rightarrow>
             (case note_claimed S lc E txHash (sub_remaining sub) (sub_store sub) of
                (s1, ev1) \<Rightarrow>
                  (SessionID ` set valid, sub_sends sub, s1,
                   ev @ ev1
                   @ (if txHash \<noteq> [] then persistRebroadcastEntries lc valid txHash payload None else [])
                   @ count_claims RecordClaimSubmitted valid
                   @ (if lc_compactor lc then map (ColdCompaction \<circ> SessionID) valid else []), False))
         | Exhausted lastErr payload \<Rightarrow>
             (case note_exhausted S lc E lastErr payload (sub_group sub) valid (sub_store sub) of
                (s1, ev1) \<Rightarrow> ({}, sub_sends sub, s1, ev @ ev1, False))
         | Cancelled \<Rightarrow> ({}, sub_sends sub, sub_store sub, ev, True)
         | _ \<Rightarrow> ({}, sub_sends sub, sub_store sub, ev, False))"

text \<open>
  One group: the sessions named as claimed, the transactions sent, the store, what was booked, and whether the context
  ended. \<open>minBlocksRequired\<close> is two. The gauges, the latencies and the submission tracker are left out.
\<close>

definition claim_group ::
  "('e, 's) SessionStore \<Rightarrow> ('e, 's) LifecycleCallback \<Rightarrow> 'e env_supply \<Rightarrow> 'p claim_world \<Rightarrow> SessionSnapshot list \<Rightarrow> 's
   \<Rightarrow> string set \<times> claim_send list \<times> 's \<times> lifecycle_event list \<times> bool" where
  "claim_group S lc E W groupSnapshots s =
     (let sessionEndHeight = SessionEndHeight (hd groupSnapshots) in
      case cw_params W sessionEndHeight of
        Inl _ \<Rightarrow> (case deferClaims S lc E groupSnapshots s of (_, s1, ev) \<Rightarrow> ({}, [], s1, ev, False))
      | Inr p \<Rightarrow>
          if \<not> cw_waited W sessionEndHeight
          then (case deferClaims S lc E groupSnapshots s of (_, s1, ev) \<Rightarrow> ({}, [], s1, ev, False))
          else
            let claimWindowClose = GetClaimWindowCloseHeight (cw_windows W) p sessionEndHeight in
            if claimWindowClose - cw_height_before W sessionEndHeight \<le> 2
            then (case close_all S lc E (cw_final W) claimWindowClose groupSnapshots s of (s1, ev) \<Rightarrow> ({}, [], s1, ev, False))
            else
              let candidates = filter (\<lambda>snapshot. ClaimTxHash snapshot = []) groupSnapshots;
                  results = map (\<lambda>(i, snap). build_claim (cw_build W) i snap) (enumerate 0 candidates);
                  partitioned = collectClaimBuildResults (length candidates) (cw_arrival W results)
              in case settle_skipped S lc E (cl_skipped partitioned) s of
                   (s1, ev1) \<Rightarrow>
                     let ev2 = ev1 @ note_failed (cl_failed partitioned) in
                     if cw_height_after W sessionEndHeight \<ge> claimWindowClose
                     then (case close_all S lc E (cw_final W) claimWindowClose groupSnapshots s1 of
                             (s2, ev3) \<Rightarrow> ({}, [], s2, ev2 @ ev3, False))
                     else
                       let sub = submit_claims S lc E (cw_tx W sessionEndHeight) (cw_final W) claimWindowClose 1
                                   (cl_built partitioned) groupSnapshots no_payload None 0 s1;
                           ev3 = ev2 @ count_claims RecordClaimCreated (map cr_snapshot (cl_built partitioned)) @ sub_events sub
                       in conclude_claims S lc E sub ev3)"

fun claim_groups ::
  "('e, 's) SessionStore \<Rightarrow> ('e, 's) LifecycleCallback \<Rightarrow> 'e env_supply \<Rightarrow> 'p claim_world \<Rightarrow> SessionSnapshot list list \<Rightarrow> 's
   \<Rightarrow> string set \<times> claim_send list \<times> 's \<times> lifecycle_event list" where
  "claim_groups S lc E W [] s = ({}, [], s, [])"
| "claim_groups S lc E W (g # gs) s =
     (case claim_group S lc E W g s of
        (claimed, sends, s1, ev, True) \<Rightarrow> (claimed, sends, s1, ev)
      | (claimed, sends, s1, ev, False) \<Rightarrow>
         (case claim_groups S lc E W gs s1 of
            (claimed2, sends2, s2, ev2) \<Rightarrow> (claimed \<union> claimed2, sends @ sends2, s2, ev @ ev2)))"

text \<open>The manager only reads the IDs of the snapshots it gave, so what the cycle writes into them is left out.\<close>

definition lc_OnSessionsNeedClaim ::
  "('e, 's) SessionStore \<Rightarrow> ('e, 's) LifecycleCallback \<Rightarrow> 'e env_supply \<Rightarrow> 'p claim_world \<Rightarrow> SessionSnapshot list \<Rightarrow> 's
   \<Rightarrow> string set \<times> claim_send list \<times> 's \<times> lifecycle_event list" where
  "lc_OnSessionsNeedClaim S lc E W snapshots s = claim_groups S lc E W (groupByEndHeight snapshots) s"

end
