(* ===== verification/Proof_Requirement.thy ===== *)
theory Proof_Requirement
  imports Claim_Build Money_Books Complex_Main
begin

text \<open>
  What a proof needs before it is built: whether the chain asks for one (\<open>src/miner/proof_requirement.go\<close>, with the
  error classes of \<open>src/miner/errors.go\<close>) and of which shape (\<open>src/miner/proof_shape.go\<close>). The chain's parameters,
  amounts and sample values are poktroll's and come as the answers of a record; a 64-bit float is its rational value.
\<close>

section \<open>Error classes\<close>

text \<open>An error as its classifiers see it: its text, the sentinels \<open>errors.Is\<close> finds, and whether it is a \<open>net.Error\<close>.\<close>

record miner_error =
  go_text :: string
  go_is :: "string list"
  go_net :: bool

definition IsRetryableError :: "miner_error option \<Rightarrow> bool" where
  "IsRetryableError err =
     (case err of
        None \<Rightarrow> False
      | Some e \<Rightarrow>
          if List.member (go_is e) ''redis.ErrClosed'' then True
          else if List.member (go_is e) ''redis.ErrPoolTimeout'' then True
          else if Contains (go_text e) ''OOM command'' then True
          else if go_net e then True
          else List.member (go_is e) ''context.DeadlineExceeded'')"

definition IsShutdownCancelError :: "miner_error option \<Rightarrow> bool" where
  "IsShutdownCancelError err =
     (case err of
        None \<Rightarrow> False
      | Some e \<Rightarrow>
          if List.member (go_is e) ''context.DeadlineExceeded'' then False
          else List.member (go_is e) ''context.Canceled'')"

definition IsPermanentSMSTError :: "miner_error option \<Rightarrow> bool" where
  "IsPermanentSMSTError err =
     (case err of
        None \<Rightarrow> False
      | Some e \<Rightarrow> List.member (go_is e) ''ErrSessionSealing'' \<or> List.member (go_is e) ''ErrSessionClaimed''
          \<or> List.member (go_is e) ''ErrSMSTUpdateFailed'' \<or> List.member (go_is e) ''ErrSMSTCommitFailed''
          \<or> List.member (go_is e) ''ErrSMSTNodeMissing'' \<or> List.member (go_is e) ''ErrSMSTPanicRecovered''
          \<or> List.member (go_is e) ''ErrSessionTerminal'')"

section \<open>Is a proof required\<close>

record proof_params =
  ProofRequirementThreshold :: int
  ProofRequestProbability :: rat

text \<open>A claim has the three fields of the message that creates it.\<close>

type_synonym Claim = MsgCreateClaim

record ('p, 'd) ProofRequirementChecker =
  rootProvider :: "(string \<Rightarrow> (miner_error, string) result) option"
  proof_GetParams :: "(string, proof_params) result"
  shared_GetParamsAtHeight :: "int \<Rightarrow> (string, 'p) result"
  GetServiceRelayDifficultyAtHeight :: "string \<Rightarrow> int \<Rightarrow> (string, 'd) result"
  GetClaimeduPOKT :: "Claim \<Rightarrow> 'p \<Rightarrow> 'd \<Rightarrow> (string, int) result"
  GetProofRequirementSampleValue :: "Claim \<Rightarrow> string \<Rightarrow> (string, rat) result"

datatype check_error = ErrClaimedRootUnavailable | ErrClaimedRootUnreadable | CheckFailed string

definition resolveClaimedRoot ::
  "('p, 'd) ProofRequirementChecker \<Rightarrow> SessionSnapshot \<Rightarrow> (check_error, string) result \<times> SessionSnapshot" where
  "resolveClaimedRoot c snapshot =
     (if ClaimedRootHash snapshot \<noteq> [] then (Inr (ClaimedRootHash snapshot), snapshot)
      else case rootProvider c of
        None \<Rightarrow> (Inl ErrClaimedRootUnavailable, snapshot)
      | Some provide \<Rightarrow>
         (case provide (SessionID snapshot) of
            Inl err \<Rightarrow>
              if IsRetryableError (Some err) \<or> IsShutdownCancelError (Some err)
              then (Inl ErrClaimedRootUnreadable, snapshot)
              else (Inl ErrClaimedRootUnavailable, snapshot)
          | Inr rehydrated \<Rightarrow>
              if rehydrated = [] then (Inl ErrClaimedRootUnavailable, snapshot)
              else (Inr rehydrated, snapshot\<lparr>ClaimedRootHash := rehydrated\<rparr>)))"

definition claimFromSnapshot :: "SessionSnapshot \<Rightarrow> string \<Rightarrow> Claim" where
  "claimFromSnapshot snapshot rootHash =
     \<lparr>msg_SupplierOperatorAddress = SupplierOperatorAddress snapshot,
      msg_SessionHeader = \<lparr>hdr_SessionId = SessionID snapshot, hdr_ApplicationAddress = ApplicationAddress snapshot,
        hdr_ServiceId = ServiceID snapshot, hdr_SessionStartBlockHeight = SessionStartHeight snapshot,
        hdr_SessionEndBlockHeight = SessionEndHeight snapshot\<rparr>,
      msg_RootHash = rootHash\<rparr>"

definition RecordProofRequirementCheck :: "string \<Rightarrow> counter_add list" where
  "RecordProofRequirementCheck supplier = [CounterAdd ''proofRequirementChecks'' [supplier] 1]"

definition RecordProofRequirementRequired :: "string \<Rightarrow> string \<Rightarrow> counter_add list" where
  "RecordProofRequirementRequired supplier reason = [CounterAdd ''proofRequirementRequired'' [supplier, reason] 1]"

definition RecordProofRequirementSkipped :: "string \<Rightarrow> counter_add list" where
  "RecordProofRequirementSkipped supplier = [CounterAdd ''proofRequirementSkipped'' [supplier] 1]"

definition RecordProofRequirementCheckError :: "string \<Rightarrow> string \<Rightarrow> counter_add list" where
  "RecordProofRequirementCheckError supplier operation = [CounterAdd ''proofRequirementErrors'' [supplier, operation] 1]"

text \<open>The decision once the claimed amount and the parameters are known, as \<open>ProofRequirementForClaim\<close> of the chain.\<close>

definition decideRequirement ::
  "proof_params \<Rightarrow> string \<Rightarrow> int \<Rightarrow> (string, rat) result \<Rightarrow> (check_error, bool) result \<times> counter_add list" where
  "decideRequirement params supplier claimedAmount sample =
     (if claimedAmount \<ge> ProofRequirementThreshold params
      then (Inr True, RecordProofRequirementRequired supplier ''threshold'')
      else case sample of
        Inl err \<Rightarrow> (Inl (CheckFailed err), RecordProofRequirementCheckError supplier ''calculate_sample_value'')
      | Inr value \<Rightarrow>
          if value \<le> ProofRequestProbability params
          then (Inr True, RecordProofRequirementRequired supplier ''probabilistic'')
          else (Inr False, RecordProofRequirementSkipped supplier))"

definition checkClaim ::
  "('p, 'd) ProofRequirementChecker \<Rightarrow> SessionSnapshot \<Rightarrow> Claim \<Rightarrow> string \<Rightarrow> (check_error, bool) result \<times> counter_add list" where
  "checkClaim c snapshot claim seed =
     (let supplier = SupplierOperatorAddress snapshot in
      case proof_GetParams c of
        Inl err \<Rightarrow> (Inl (CheckFailed err), RecordProofRequirementCheckError supplier ''get_proof_params'')
      | Inr params \<Rightarrow>
         (case shared_GetParamsAtHeight c (SessionStartHeight snapshot) of
            Inl err \<Rightarrow> (Inl (CheckFailed err), RecordProofRequirementCheckError supplier ''get_shared_params'')
          | Inr shared \<Rightarrow>
             (case GetServiceRelayDifficultyAtHeight c (ServiceID snapshot) (SessionStartHeight snapshot) of
                Inl err \<Rightarrow> (Inl (CheckFailed err), RecordProofRequirementCheckError supplier ''get_relay_difficulty'')
              | Inr difficulty \<Rightarrow>
                 (case GetClaimeduPOKT c claim shared difficulty of
                    Inl err \<Rightarrow> (Inl (CheckFailed err), RecordProofRequirementCheckError supplier ''calculate_claimed_amount'')
                  | Inr claimedAmount \<Rightarrow>
                     (case decideRequirement params supplier claimedAmount (GetProofRequirementSampleValue c claim seed) of
                        (answer, counters) \<Rightarrow> (answer, RecordProofRequirementCheck supplier @ counters))))))"

definition IsProofRequired ::
  "('p, 'd) ProofRequirementChecker \<Rightarrow> SessionSnapshot \<Rightarrow> string
   \<Rightarrow> (check_error, bool) result \<times> SessionSnapshot \<times> counter_add list" where
  "IsProofRequired c snapshot seed =
     (case resolveClaimedRoot c snapshot of
        (Inl err, snapshot') \<Rightarrow> (Inl err, snapshot', [])
      | (Inr rootHash, snapshot') \<Rightarrow>
         (case checkClaim c snapshot' (claimFromSnapshot snapshot' rootHash) seed of
            (answer, counters) \<Rightarrow> (answer, snapshot', counters)))"

section \<open>The shape of a proof\<close>

definition weightedProofUpgrade :: string where "weightedProofUpgrade = ''v0.1.36''"
definition weightedProofRequiredText :: string where "weightedProofRequiredText = ''not a weighted merkle proof''"

text \<open>
  \<open>shape_client\<close> says whether a client is set. \<open>Weighted\<close> takes what the plan query would answer if it is asked, and also
  returns whether it asked. \<open>readFailing\<close> only chooses the level of a log line.
\<close>

record ProofShape =
  shape_client :: bool
  shape_weighted :: bool
  notAppliedAt :: int

definition NewProofShape :: "bool \<Rightarrow> ProofShape" where
  "NewProofShape client = \<lparr>shape_client = client, shape_weighted = False, notAppliedAt = 0\<rparr>"

definition Weighted :: "int \<Rightarrow> (string, int) result \<Rightarrow> ProofShape option \<Rightarrow> bool \<times> bool \<times> ProofShape option" where
  "Weighted blockHeight plan s =
     (case s of
        None \<Rightarrow> (True, False, None)
      | Some p \<Rightarrow>
          if \<not> shape_client p then (True, False, s)
          else if shape_weighted p then (True, False, s)
          else if blockHeight > 0 \<and> notAppliedAt p = blockHeight then (False, False, s)
          else case plan of
            Inl _ \<Rightarrow> (False, True, s)
          | Inr height \<Rightarrow>
              if height \<le> 0 then (False, True, Some (p\<lparr>notAppliedAt := max (notAppliedAt p) blockHeight\<rparr>))
              else (True, True, Some (p\<lparr>shape_weighted := True\<rparr>)))"

definition LearnFromRefusal :: "tx_error option \<Rightarrow> ProofShape option \<Rightarrow> bool \<times> ProofShape option" where
  "LearnFromRefusal err s =
     (case (s, err) of
        (Some p, Some e) \<Rightarrow>
          if Contains (tx_text e) weightedProofRequiredText then (True, Some (p\<lparr>shape_weighted := True\<rparr>)) else (False, s)
      | _ \<Rightarrow> (False, s))"

text \<open>A sequence of calls, as the suppliers' proof cycles make them.\<close>

datatype shape_call = AskShape int "(string, int) result" | Refused "tx_error option"

fun shape_run :: "shape_call list \<Rightarrow> ProofShape option \<Rightarrow> bool list \<times> ProofShape option" where
  "shape_run [] s = ([], s)"
| "shape_run (AskShape h plan # cs) s =
     (case Weighted h plan s of
        (answer, asked, s1) \<Rightarrow> (case shape_run cs s1 of (answers, s2) \<Rightarrow> (answer # answers, s2)))"
| "shape_run (Refused err # cs) s = shape_run cs (snd (LearnFromRefusal err s))"

text \<open>Once the answer is weighted, it is for good.\<close>

definition settled_weighted :: "ProofShape option \<Rightarrow> bool" where
  "settled_weighted s = (case s of None \<Rightarrow> True | Some p \<Rightarrow> \<not> shape_client p \<or> shape_weighted p)"

lemma Weighted_settles: "fst (Weighted h plan s) = settled_weighted (snd (snd (Weighted h plan s)))"
  by (auto simp: Weighted_def settled_weighted_def split: option.splits sum.splits)

lemma Weighted_stays: "settled_weighted s \<Longrightarrow> Weighted h plan s = (True, False, s)"
  by (auto simp: Weighted_def settled_weighted_def split: option.splits)

lemma Learn_stays: "settled_weighted s \<Longrightarrow> settled_weighted (snd (LearnFromRefusal err s))"
  by (auto simp: LearnFromRefusal_def settled_weighted_def split: option.splits)

lemma Learn_settles: "fst (LearnFromRefusal err s) \<Longrightarrow> settled_weighted (snd (LearnFromRefusal err s))"
  by (auto simp: LearnFromRefusal_def settled_weighted_def split: option.splits if_splits)

lemma shape_run_settled: "settled_weighted s \<Longrightarrow> False \<notin> set (fst (shape_run cs s))"
proof (induction cs arbitrary: s)
  case (Cons c cs)
  then show ?case
    by (cases c) (auto simp: Weighted_stays Learn_stays split: prod.splits, metis fst_conv)
qed simp

end
