(* ===== verification/Proof_Cycle.thy ===== *)
theory Proof_Cycle
  imports Claim_Cycle Proof_Requirement
begin

text \<open>
  The proof cycle of \<open>src/miner/lifecycle_callback.go\<close>: \<open>OnSessionsNeedProof\<close> with its guard against a missing claim, its
  two requirement checks, the build of the proofs and the submission loop, and the callback the lifecycle manager is given.
  As in the claim cycle, what the chain, the block client and the tree manager answer comes in records.
\<close>

section \<open>What a group meets\<close>

record MsgSubmitProof =
  mp_SupplierOperatorAddress :: string
  mp_SessionHeader :: SessionHeader
  mp_Proof :: string

datatype ClaimProofStatus = PENDING_VALIDATION | VALIDATED | INVALID

text \<open>The client by the number of the attempt, with the height and the plan's answer when the shape is asked again.\<close>

record proof_tx =
  SubmitProofsReturningHash :: "nat \<Rightarrow> int \<Rightarrow> MsgSubmitProof option list \<Rightarrow> string \<times> SignedTxPayload \<times> tx_error option"
  proof_BroadcastRaw :: "nat \<Rightarrow> SignedTxPayload \<Rightarrow> string \<times> tx_error option"
  proof_LatestBlockTime :: "nat \<Rightarrow> time"
  proof_refused_height :: "nat \<Rightarrow> int"
  proof_ctx_done :: "nat \<Rightarrow> bool"
  shape_height :: "nat \<Rightarrow> int"
  shape_plan :: "nat \<Rightarrow> (string, int) result"

text \<open>
  \<open>pw_GetClaim\<close> answers the guard: the verdict the claim carries, if its type has one, or the error and the height it was
  answered from (\<open>AnsweredHeight\<close>). \<open>pw_checker\<close> is the requirement checker, if there is one, at the first check and at the
  second.
\<close>

record ('p, 'd) proof_world =
  pw_windows :: "'p windows"
  pw_params :: "int \<Rightarrow> (string, 'p) result"
  GetEarliestSupplierProofCommitHeight :: "'p \<Rightarrow> int \<Rightarrow> string \<Rightarrow> int"
  pw_waited_open :: bool
  pw_seed :: "int \<Rightarrow> (string, string) result"
  pw_GetClaim :: "string \<Rightarrow> string \<Rightarrow> (query_error \<times> int, ClaimProofStatus option) result"
  pw_guard_height :: "string \<Rightarrow> int"
  pw_checker :: "(bool \<Rightarrow> ('p, 'd) ProofRequirementChecker) option"
  pw_waited_earliest :: bool
  pw_height_ready :: int
  pw_shape_height :: int
  pw_plan :: "(string, int) result"
  GetPathForProof :: "string \<Rightarrow> string \<Rightarrow> string"
  ProveClosest :: "string \<Rightarrow> string \<Rightarrow> (string, string) result"
  ProveWeighted :: "string \<Rightarrow> string \<Rightarrow> (string, string) result"
  pw_build :: build_world
  pw_arrival :: "MsgSubmitProof proofBuildResult list \<Rightarrow> MsgSubmitProof proofBuildResult list"
  pw_height_built :: int
  pw_tx :: proof_tx

definition RecordProofSkipped :: "string \<Rightarrow> string \<Rightarrow> string \<Rightarrow> counter_add list" where
  "RecordProofSkipped supplier serviceID reason = [CounterAdd ''proofSkippedTotal'' [supplier, serviceID, reason] 1]"

definition RecordProofCreated :: "string \<Rightarrow> string \<Rightarrow> counter_add list" where
  "RecordProofCreated supplier serviceID = [CounterAdd ''proofsCreated'' [supplier, serviceID] 1]"

definition RecordProofSubmitted :: "string \<Rightarrow> string \<Rightarrow> counter_add list" where
  "RecordProofSubmitted supplier serviceID = [CounterAdd ''proofsSubmitted'' [supplier, serviceID] 1]"

definition proof_skipped :: "SessionSnapshot \<Rightarrow> string \<Rightarrow> lifecycle_event list" where
  "proof_skipped snapshot reason = book (RecordProofSkipped (SupplierOperatorAddress snapshot) (ServiceID snapshot) reason)"

definition ProofSkippedReasonClaimMissingOnChain :: string where
  "ProofSkippedReasonClaimMissingOnChain = ''claim_missing_on_chain''"
definition ProofSkippedReasonBuildFailed :: string where
  "ProofSkippedReasonBuildFailed = ''build_failed''"
definition ProofSkippedReasonClaimedRootUnavailable :: string where
  "ProofSkippedReasonClaimedRootUnavailable = ''claimed_root_unavailable''"
definition ProofSkippedReasonClaimedRootUnreadable :: string where
  "ProofSkippedReasonClaimedRootUnreadable = ''claimed_root_unreadable''"
definition ProofSkippedReasonClaimNotFoundYet :: string where
  "ProofSkippedReasonClaimNotFoundYet = ''claim_not_found_yet''"

section \<open>Which sessions need a proof\<close>

text \<open>
  What the cycle decides for one session: whether it goes on, whether it is settled as it is, its snapshot, the store and
  what is booked.
\<close>

type_synonym 's decision = "bool \<times> bool \<times> SessionSnapshot \<times> 's \<times> lifecycle_event list"

definition defer_skipped ::
  "('e, 's) SessionStore \<Rightarrow> ('e, 's) LifecycleCallback \<Rightarrow> (nat \<Rightarrow> 'e) \<Rightarrow> string \<Rightarrow> SessionSnapshot \<Rightarrow> 's \<Rightarrow> 's decision" where
  "defer_skipped S lc e reason snapshot s =
     (case deferProof S lc e snapshot s of
        (snapshot', s1, ev) \<Rightarrow> (False, False, snapshot', s1, proof_skipped snapshot reason @ ev))"

text \<open>The guard before a proof: a claim already judged, a claim not found, or any other answer.\<close>

definition pre_proof_guard ::
  "('e, 's) SessionStore \<Rightarrow> ('e, 's) LifecycleCallback \<Rightarrow> (nat \<Rightarrow> 'e) \<Rightarrow> ('p, 'd) proof_world \<Rightarrow> int \<Rightarrow> int \<Rightarrow> SessionSnapshot
   \<Rightarrow> 's \<Rightarrow> 's decision" where
  "pre_proof_guard S lc e W claimWindowClose proofWindowClose snapshot s =
     (if DisablePreProofClaimVerification lc \<or> lc_GetClaim lc = None then (True, False, snapshot, s, [])
      else case pw_GetClaim W (SupplierOperatorAddress snapshot) (SessionID snapshot) of
        Inr None \<Rightarrow> (True, False, snapshot, s, [])
      | Inr (Some status) \<Rightarrow>
          if status \<noteq> PENDING_VALIDATION then (False, status = VALIDATED, snapshot, s, [])
          else (True, False, snapshot, s, [])
      | Inl (claimErr, answered) \<Rightarrow>
          if \<not> isClaimNotFoundError claimErr then (True, False, snapshot, s, [])
          else if pw_guard_height W (SessionID snapshot) + 1 < proofWindowClose
          then defer_skipped S lc e ProofSkippedReasonClaimNotFoundYet snapshot s
          else if answered < claimWindowClose then (True, False, snapshot, s, [])
          else case coordinate lc (\<lambda>c. OnClaimMissing S c e (SessionID snapshot)) s of
            (_, s1, ev) \<Rightarrow> (False, False, snapshot, s1, proof_skipped snapshot ProofSkippedReasonClaimMissingOnChain @ ev))"

text \<open>What is booked for a session whose claim settles without a proof.\<close>

definition settle_without_proof :: "('e, 's) callback_op" where
  "settle_without_proof S lc e snapshot s =
     (case coordinate lc (\<lambda>c. OnProbabilisticProved S c e (SessionID snapshot)) s of
        (_, s1, ev) \<Rightarrow>
          (s1, book (RecordRevenueProbabilisticProved (SupplierOperatorAddress snapshot) (ServiceID snapshot)
                 (TotalComputeUnits snapshot) (RelayCount snapshot) (lc_price lc snapshot)) @ ev))"

definition check_requirement ::
  "('e, 's) SessionStore \<Rightarrow> ('e, 's) LifecycleCallback \<Rightarrow> (nat \<Rightarrow> 'e) \<Rightarrow> ('p, 'd) ProofRequirementChecker \<Rightarrow> string
   \<Rightarrow> SessionSnapshot \<Rightarrow> 's \<Rightarrow> 's decision" where
  "check_requirement S lc e checker seed snapshot s =
     (case IsProofRequired checker snapshot seed of
        (answer, snap, counters) \<Rightarrow>
         (case answer of
            Inl ErrClaimedRootUnreadable \<Rightarrow>
             (case defer_skipped S lc e ProofSkippedReasonClaimedRootUnreadable snap s of
                (go, done, snap', s1, ev) \<Rightarrow> (go, done, snap', s1, book counters @ ev))
          | Inl ErrClaimedRootUnavailable \<Rightarrow>
             (case coordinate lc (\<lambda>c. OnProofTxError S c e (SessionID snap)) s of
                (_, s1, ev) \<Rightarrow>
                  (False, False, snap, s1,
                   book counters @ proof_skipped snap ProofSkippedReasonClaimedRootUnavailable @ ev))
          | Inl (CheckFailed _) \<Rightarrow> (True, False, snap, s, book counters)
          | Inr False \<Rightarrow>
             (case settle_without_proof S lc e snap s of
                (s1, ev) \<Rightarrow> (False, False, snap, s1, book counters @ ev))
          | Inr True \<Rightarrow> (True, False, snap, s, book counters)))"

definition select_proof ::
  "('e, 's) SessionStore \<Rightarrow> ('e, 's) LifecycleCallback \<Rightarrow> 'e env_supply \<Rightarrow> ('p, 'd) proof_world \<Rightarrow> int \<Rightarrow> int \<Rightarrow> string
   \<Rightarrow> SessionSnapshot \<Rightarrow> 's \<Rightarrow> 's decision" where
  "select_proof S lc E W claimWindowClose proofWindowClose seed snapshot s =
     (if ProofTxHash snapshot \<noteq> [] then (False, False, snapshot, s, [])
      else case pre_proof_guard S lc (E (SessionID snapshot) 0) W claimWindowClose proofWindowClose snapshot s of
        (False, done, snap, s1, ev) \<Rightarrow> (False, done, snap, s1, ev)
      | (True, done, snap, s1, ev) \<Rightarrow>
         (case pw_checker W of
            None \<Rightarrow> (True, False, snap, s1, ev)
          | Some checker \<Rightarrow>
             (case check_requirement S lc (E (SessionID snapshot) 1) (checker False) seed snap s1 of
                (go, done', snap', s2, ev2) \<Rightarrow> (go, done', snap', s2, ev @ ev2))))"

text \<open>A decision for each session of a list: those that go on, those settled, the store and what is booked.\<close>

fun decide_each ::
  "(SessionSnapshot \<Rightarrow> 's \<Rightarrow> 's decision) \<Rightarrow> SessionSnapshot list \<Rightarrow> 's
   \<Rightarrow> SessionSnapshot list \<times> string set \<times> 's \<times> lifecycle_event list" where
  "decide_each f [] s = ([], {}, s, [])"
| "decide_each f (snapshot # rest) s =
     (case f snapshot s of
        (go, done, snap, s1, ev) \<Rightarrow>
         (case decide_each f rest s1 of
            (going, settled_ids, s2, ev2) \<Rightarrow>
              ((if go then snap # going else going),
               (if done then insert (SessionID snapshot) settled_ids else settled_ids), s2, ev @ ev2)))"

definition recheck_proofs ::
  "('e, 's) SessionStore \<Rightarrow> ('e, 's) LifecycleCallback \<Rightarrow> 'e env_supply \<Rightarrow> ('p, 'd) proof_world \<Rightarrow> string
   \<Rightarrow> SessionSnapshot list \<Rightarrow> 's \<Rightarrow> SessionSnapshot list \<times> 's \<times> lifecycle_event list" where
  "recheck_proofs S lc E W seed snapshots s =
     (case pw_checker W of
        None \<Rightarrow> (snapshots, s, [])
      | Some checker \<Rightarrow>
         (case decide_each (\<lambda>snapshot. check_requirement S lc (E (SessionID snapshot) 2) (checker True) seed snapshot) snapshots s of
            (going, _, s1, ev) \<Rightarrow> (going, s1, ev)))"

section \<open>Building and sending\<close>

definition build_proof ::
  "('p, 'd) proof_world \<Rightarrow> bool \<Rightarrow> string \<Rightarrow> nat \<Rightarrow> SessionSnapshot \<Rightarrow> MsgSubmitProof proofBuildResult" where
  "build_proof W weighted seed index snap =
     (let r = \<lparr>pr_index = index, pr_snapshot = snap, pr_proofMsg = None, pr_err = None\<rparr> in
      case (if weighted then ProveWeighted W else ProveClosest W) (SessionID snap) (GetPathForProof W seed (SessionID snap)) of
        Inl err \<Rightarrow> r\<lparr>pr_err := Some err\<rparr>
      | Inr proofBytes \<Rightarrow>
          r\<lparr>pr_proofMsg := Some \<lparr>mp_SupplierOperatorAddress = SupplierOperatorAddress snap,
              mp_SessionHeader = buildSessionHeader (pw_build W) snap, mp_Proof = proofBytes\<rparr>\<rparr>)"

datatype proof_send =
    ProofSigned "MsgSubmitProof option list" SignedTxPayload "tx_error option"
  | ProofReinjected "MsgSubmitProof option list" SignedTxPayload "tx_error option"

definition resendOrSignProofs ::
  "proof_tx \<Rightarrow> nat \<Rightarrow> int \<Rightarrow> SignedTxPayload \<Rightarrow> tx_error option \<Rightarrow> MsgSubmitProof option list
   \<Rightarrow> proof_send \<times> string \<times> SignedTxPayload \<times> tx_error option" where
  "resendOrSignProofs X i timeoutHeight previous previousErr msgs =
     (if canReinject (proof_LatestBlockTime X i) previous previousErr
      then (case proof_BroadcastRaw X i previous of
              (hash, err) \<Rightarrow> (ProofReinjected msgs previous err, hash, previous, err))
      else (case SubmitProofsReturningHash X i timeoutHeight msgs of
              (hash, payload, err) \<Rightarrow> (ProofSigned msgs payload err, hash, payload, err)))"

definition proofWindowRefusal :: "tx_error \<Rightarrow> bool" where
  "proofWindowRefusal submitErr =
     (is_ErrTxWindowExpired submitErr \<or> Contains (tx_text submitErr) ''proof window''
      \<or> Contains (tx_text submitErr) ''proof_window'')"

text \<open>The session the chain named is settled without its proof; the others of the batch take the error.\<close>

definition fail_proof :: "bool \<Rightarrow> ('e, 's) callback_op" where
  "fail_proof resolvable S lc e snapshot s =
     (case coordinate lc (\<lambda>c. OnProofTxError S c e (SessionID snapshot)) s of
        (_, s1, ev) \<Rightarrow>
          (s1, book (RecordProofTxError (SupplierOperatorAddress snapshot) (ServiceID snapshot) resolvable
                 (RelayCount snapshot) (sint (TotalComputeUnits snapshot)) (lc_price lc snapshot)) @ ev))"

fun settle_not_required ::
  "('e, 's) SessionStore \<Rightarrow> ('e, 's) LifecycleCallback \<Rightarrow> 'e env_supply \<Rightarrow> nat option \<Rightarrow> nat \<Rightarrow> SessionSnapshot list \<Rightarrow> 's
   \<Rightarrow> 's \<times> lifecycle_event list" where
  "settle_not_required S lc E named i [] s = (s, [])"
| "settle_not_required S lc E named i (snapshot # rest) s =
     (case (if named = Some i then settle_without_proof S lc (E (SessionID snapshot) 5) snapshot s
            else fail_proof False S lc (E (SessionID snapshot) 5) snapshot s) of
        (s1, ev) \<Rightarrow> (case settle_not_required S lc E named (Suc i) rest s1 of (s2, ev2) \<Rightarrow> (s2, ev @ ev2)))"

definition settleNotRequiredBatch ::
  "('e, 's) SessionStore \<Rightarrow> ('e, 's) LifecycleCallback \<Rightarrow> 'e env_supply \<Rightarrow> tx_error \<Rightarrow> SessionSnapshot list \<Rightarrow> 's
   \<Rightarrow> 's \<times> lifecycle_event list" where
  "settleNotRequiredBatch S lc E submitErr snapshots s =
     settle_not_required S lc E (namedMessageIndex submitErr (length snapshots)) 0 snapshots s"

datatype proof_outcome =
    ProofsSubmitted string SignedTxPayload
  | ProofsNotRequired
  | ShapeChanged
  | ProofNodeBehind
  | ProofWindowShut
  | ProofsCancelled
  | ProofsExhausted "tx_error option" SignedTxPayload

datatype proof_next = ProofStop proof_outcome | ProofAgain SignedTxPayload tx_error

definition shut_proofs ::
  "('e, 's) SessionStore \<Rightarrow> ('e, 's) LifecycleCallback \<Rightarrow> 'e env_supply \<Rightarrow> SessionSnapshot list \<Rightarrow> 's
   \<Rightarrow> 's \<times> lifecycle_event list" where
  "shut_proofs S lc E snapshots s =
     for_each (\<lambda>snapshot. markAndCountProofWindowClosed S lc (E (SessionID snapshot) 3) snapshot) snapshots s"

definition return_proofs ::
  "('e, 's) SessionStore \<Rightarrow> ('e, 's) LifecycleCallback \<Rightarrow> 'e env_supply \<Rightarrow> SessionSnapshot list \<Rightarrow> 's
   \<Rightarrow> 's \<times> lifecycle_event list" where
  "return_proofs S lc E snapshots s = (case deferProofs S lc E snapshots s of (_, s1, ev) \<Rightarrow> (s1, ev))"

text \<open>What the answer to a send leads to, when more attempts are left or not.\<close>

definition answer_proofs ::
  "('e, 's) SessionStore \<Rightarrow> ('e, 's) LifecycleCallback \<Rightarrow> 'e env_supply \<Rightarrow> proof_tx \<Rightarrow> int \<Rightarrow> bool \<Rightarrow> SessionSnapshot list
   \<Rightarrow> bool \<Rightarrow> nat \<Rightarrow> SignedTxPayload \<Rightarrow> tx_error \<Rightarrow> ProofShape option \<Rightarrow> 's
   \<Rightarrow> proof_next \<times> ProofShape option \<times> 's \<times> lifecycle_event list" where
  "answer_proofs S lc E X proofWindowClose weighted valid retry i signed_tx submitErr shape s =
     (if is_ErrTxProofNotRequired submitErr
      then (case settleNotRequiredBatch S lc E submitErr valid s of
              (s1, ev) \<Rightarrow> (ProofStop ProofsNotRequired, shape, s1, ev))
      else if \<not> weighted \<and> fst (LearnFromRefusal (Some submitErr) shape)
      then (case return_proofs S lc E valid s of
              (s1, ev) \<Rightarrow> (ProofStop ShapeChanged, snd (LearnFromRefusal (Some submitErr) shape), s1, ev))
      else if proofWindowRefusal submitErr \<and> \<not> windowRefusalIsFinal submitErr (proof_refused_height X i) proofWindowClose
      then (case return_proofs S lc E valid s of (s1, ev) \<Rightarrow> (ProofStop ProofNodeBehind, shape, s1, ev))
      else if proofWindowRefusal submitErr
      then (case shut_proofs S lc E valid s of (s1, ev) \<Rightarrow> (ProofStop ProofWindowShut, shape, s1, ev))
      else if retry
      then (if proof_ctx_done X i then (ProofStop ProofsCancelled, shape, s, [])
            else (ProofAgain signed_tx submitErr, shape, s, []))
      else (ProofStop (ProofsExhausted (Some submitErr) signed_tx), shape, s, []))"

definition proof_round ::
  "('e, 's) SessionStore \<Rightarrow> ('e, 's) LifecycleCallback \<Rightarrow> 'e env_supply \<Rightarrow> proof_tx \<Rightarrow> int \<Rightarrow> bool
   \<Rightarrow> MsgSubmitProof option list \<Rightarrow> SessionSnapshot list \<Rightarrow> bool \<Rightarrow> nat \<Rightarrow> SignedTxPayload \<Rightarrow> tx_error option
   \<Rightarrow> ProofShape option \<Rightarrow> 's \<Rightarrow> proof_send list \<times> proof_next \<times> ProofShape option \<times> 's \<times> lifecycle_event list" where
  "proof_round S lc E X proofWindowClose weighted msgs valid retry i proofSigned lastErr shape s =
     (case Weighted (shape_height X i) (shape_plan X i) shape of
        (weighted_now, _, shape1) \<Rightarrow>
          if weighted_now \<noteq> weighted
          then (case return_proofs S lc E valid s of (s1, ev) \<Rightarrow> ([], ProofStop ShapeChanged, shape1, s1, ev))
          else (case resendOrSignProofs X i proofWindowClose proofSigned lastErr msgs of
            (send, txHash, signed_tx, None) \<Rightarrow> ([send], ProofStop (ProofsSubmitted txHash signed_tx), shape1, s, [])
          | (send, txHash, signed_tx, Some submitErr) \<Rightarrow>
              (case answer_proofs S lc E X proofWindowClose weighted valid retry i signed_tx submitErr shape1 s of
                 (nx, shape2, s1, ev) \<Rightarrow> ([send], nx, shape2, s1, ev))))"

record 's proofs_sent =
  po_outcome :: proof_outcome
  po_sends :: "proof_send list"
  po_shape :: "ProofShape option"
  po_store :: 's
  po_events :: "lifecycle_event list"

text \<open>\<open>left\<close> is the number of attempts left; the attempt's number is \<open>i\<close>.\<close>

fun submit_proofs ::
  "('e, 's) SessionStore \<Rightarrow> ('e, 's) LifecycleCallback \<Rightarrow> 'e env_supply \<Rightarrow> proof_tx \<Rightarrow> int \<Rightarrow> bool
   \<Rightarrow> MsgSubmitProof option list \<Rightarrow> SessionSnapshot list \<Rightarrow> nat \<Rightarrow> nat \<Rightarrow> SignedTxPayload \<Rightarrow> tx_error option
   \<Rightarrow> ProofShape option \<Rightarrow> 's \<Rightarrow> 's proofs_sent" where
  "submit_proofs S lc E X close weighted msgs valid 0 i payload lastErr shape s =
     \<lparr>po_outcome = ProofsExhausted lastErr payload, po_sends = [], po_shape = shape, po_store = s, po_events = []\<rparr>"
| "submit_proofs S lc E X close weighted msgs valid (Suc left) i payload lastErr shape s =
     (case proof_round S lc E X close weighted msgs valid (left > 0) i payload lastErr shape s of
        (sends, ProofStop out, shape1, s1, ev) \<Rightarrow>
          \<lparr>po_outcome = out, po_sends = sends, po_shape = shape1, po_store = s1, po_events = ev\<rparr>
      | (sends, ProofAgain payload' err, shape1, s1, ev) \<Rightarrow>
          (let r = submit_proofs S lc E X close weighted msgs valid left (Suc i) payload' (Some err) shape1 s1
           in r\<lparr>po_sends := sends @ po_sends r, po_events := ev @ po_events r\<rparr>))"

section \<open>The cycle\<close>

text \<open>
  The sessions settled, the transactions sent, the shape, the store, what is booked, and whether the context ended. The
  gauges, the latencies and the submission tracker are left out.
\<close>

type_synonym 's proof_result =
  "string set \<times> proof_send list \<times> ProofShape option \<times> 's \<times> lifecycle_event list \<times> bool"

fun note_proofs ::
  "('e, 's) SessionStore \<Rightarrow> ('e, 's) LifecycleCallback \<Rightarrow> 'e env_supply \<Rightarrow> string \<Rightarrow> SessionSnapshot list \<Rightarrow> 's
   \<Rightarrow> 's \<times> lifecycle_event list" where
  "note_proofs S lc E txHash [] s = (s, [])"
| "note_proofs S lc E txHash (snapshot # rest) s =
     (case coordinate lc (\<lambda>c. OnProofSubmitted S c (E (SessionID snapshot) 4) (SessionID snapshot) txHash) s of
        (_, s1, ev) \<Rightarrow> (case note_proofs S lc E txHash rest s1 of (s2, ev2) \<Rightarrow> (s2, ev @ ev2)))"

definition book_proved :: "('e, 's) LifecycleCallback \<Rightarrow> SessionSnapshot list \<Rightarrow> lifecycle_event list" where
  "book_proved lc snapshots =
     concat (map (\<lambda>snapshot.
       book (RecordProofSubmitted (SupplierOperatorAddress snapshot) (ServiceID snapshot))
       @ book (RecordRevenueProved (SupplierOperatorAddress snapshot) (ServiceID snapshot) (TotalComputeUnits snapshot)
           (RelayCount snapshot) (lc_price lc snapshot))) snapshots)"

definition conclude_proofs ::
  "('e, 's) SessionStore \<Rightarrow> ('e, 's) LifecycleCallback \<Rightarrow> 'e env_supply \<Rightarrow> SessionSnapshot list \<Rightarrow> SessionSnapshot list
   \<Rightarrow> 's proofs_sent \<Rightarrow> 's proof_result" where
  "conclude_proofs S lc E groupSnapshots valid sub =
     (case po_outcome sub of
        ProofsSubmitted txHash payload \<Rightarrow>
         (case note_proofs S lc E txHash valid (po_store sub) of
            (s1, ev) \<Rightarrow>
              (SessionID ` set groupSnapshots, po_sends sub, po_shape sub, s1,
               po_events sub @ ev @ book_proved lc valid
               @ (if txHash \<noteq> [] then persistRebroadcastEntries lc valid txHash payload None else []), False))
      | ProofsExhausted (Some lastErr) payload \<Rightarrow>
         (case (if nothingWasSpent lastErr then (po_store sub, [])
                else for_each (\<lambda>snapshot. fail_proof (lc_rebroadcast lc \<noteq> None) S lc (E (SessionID snapshot) 6) snapshot)
                       valid (po_store sub)) of
            (s1, ev) \<Rightarrow>
              ({}, po_sends sub, po_shape sub, s1,
               po_events sub @ ev @ persistRebroadcastEntries lc valid [] payload (Some lastErr), False))
      | ProofsCancelled \<Rightarrow> ({}, po_sends sub, po_shape sub, po_store sub, po_events sub, True)
      | _ \<Rightarrow> ({}, po_sends sub, po_shape sub, po_store sub, po_events sub, False))"

text \<open>The build and the submission of the sessions that need a proof, in a window still open.\<close>

definition prove_group ::
  "('e, 's) SessionStore \<Rightarrow> ('e, 's) LifecycleCallback \<Rightarrow> 'e env_supply \<Rightarrow> ('p, 'd) proof_world \<Rightarrow> int \<Rightarrow> string
   \<Rightarrow> SessionSnapshot list \<Rightarrow> SessionSnapshot list \<Rightarrow> ProofShape option \<Rightarrow> 's \<Rightarrow> 's proof_result" where
  "prove_group S lc E W proofWindowClose seed groupSnapshots needing shape s =
     (case Weighted (pw_shape_height W) (pw_plan W) shape of
        (weighted, _, shape1) \<Rightarrow>
          let results = map (\<lambda>(i, snap). build_proof W weighted seed i snap) (enumerate 0 needing)
          in case collectProofBuildResults (length needing) (pw_arrival W results) of
               (built, failed) \<Rightarrow>
                 let ev = concat (map (\<lambda>r. proof_skipped (pr_snapshot r) ProofSkippedReasonBuildFailed) failed) in
                 if built = [] then ({}, [], shape1, s, ev, False)
                 else case alignProofBatch built of
                   (msgs, _, valid) \<Rightarrow>
                     if pw_height_built W \<ge> proofWindowClose
                     then (case shut_proofs S lc E valid s of (s1, ev1) \<Rightarrow> ({}, [], shape1, s1, ev @ ev1, False))
                     else
                       let sub = submit_proofs S lc E (pw_tx W) proofWindowClose weighted msgs valid (ProofRetryAttempts lc) 1
                                   no_payload None shape1 s
                       in (case conclude_proofs S lc E groupSnapshots valid sub of
                             (named, sends, shape2, s1, ev1, stop) \<Rightarrow>
                               (named, sends, shape2, s1, ev @ count_claims RecordProofCreated valid @ ev1, stop)))"

definition proof_group ::
  "('e, 's) SessionStore \<Rightarrow> ('e, 's) LifecycleCallback \<Rightarrow> 'e env_supply \<Rightarrow> ('p, 'd) proof_world \<Rightarrow> SessionSnapshot list
   \<Rightarrow> ProofShape option \<Rightarrow> 's \<Rightarrow> 's proof_result" where
  "proof_group S lc E W groupSnapshots shape s =
     (let sessionEndHeight = SessionEndHeight (hd groupSnapshots) in
      case pw_params W sessionEndHeight of
        Inl _ \<Rightarrow> (case return_proofs S lc E groupSnapshots s of (s1, ev) \<Rightarrow> ({}, [], shape, s1, ev, False))
      | Inr p \<Rightarrow>
          let proofWindowClose = GetProofWindowCloseHeight (pw_windows W) p sessionEndHeight;
              claimWindowClose = GetClaimWindowCloseHeight (pw_windows W) p sessionEndHeight;
              earliest = GetEarliestSupplierProofCommitHeight W p sessionEndHeight
                           (SupplierOperatorAddress (hd groupSnapshots))
          in if \<not> pw_waited_open W
             then (case return_proofs S lc E groupSnapshots s of (s1, ev) \<Rightarrow> ({}, [], shape, s1, ev, False))
             else (case pw_seed W (earliest - 1) of
               Inl _ \<Rightarrow> (case return_proofs S lc E groupSnapshots s of (s1, ev) \<Rightarrow> ({}, [], shape, s1, ev, False))
             | Inr seed \<Rightarrow>
                (case decide_each (select_proof S lc E W claimWindowClose proofWindowClose seed) groupSnapshots s of
                   (needing, judged, s1, ev1) \<Rightarrow>
                     if needing = [] then (judged, [], shape, s1, ev1, False)
                     else if \<not> pw_waited_earliest W
                     then (case return_proofs S lc E needing s1 of (s2, ev2) \<Rightarrow> (judged, [], shape, s2, ev1 @ ev2, False))
                     else if pw_height_ready W \<ge> proofWindowClose
                     then (case shut_proofs S lc E needing s1 of (s2, ev2) \<Rightarrow> (judged, [], shape, s2, ev1 @ ev2, False))
                     else (case recheck_proofs S lc E W seed needing s1 of
                       (still, s2, ev2) \<Rightarrow>
                         if still = [] then (judged, [], shape, s2, ev1 @ ev2, False)
                         else (case prove_group S lc E W proofWindowClose seed groupSnapshots still shape s2 of
                           (named, sends, shape1, s3, ev3, stop) \<Rightarrow>
                             (judged \<union> named, sends, shape1, s3, ev1 @ ev2 @ ev3, stop))))))"

text \<open>One session per transaction; each group meets its own world.\<close>

fun proof_groups ::
  "('e, 's) SessionStore \<Rightarrow> ('e, 's) LifecycleCallback \<Rightarrow> 'e env_supply \<Rightarrow> (string \<Rightarrow> ('p, 'd) proof_world)
   \<Rightarrow> SessionSnapshot list list \<Rightarrow> ProofShape option \<Rightarrow> 's \<Rightarrow> string set \<times> proof_send list \<times> ProofShape option \<times> 's \<times> lifecycle_event list" where
  "proof_groups S lc E Ws [] shape s = ({}, [], shape, s, [])"
| "proof_groups S lc E Ws (g # gs) shape s =
     (case proof_group S lc E (Ws (SessionID (hd g))) g shape s of
        (named, sends, shape1, s1, ev, True) \<Rightarrow> (named, sends, shape1, s1, ev)
      | (named, sends, shape1, s1, ev, False) \<Rightarrow>
         (case proof_groups S lc E Ws gs shape1 s1 of
            (named2, sends2, shape2, s2, ev2) \<Rightarrow> (named \<union> named2, sends @ sends2, shape2, s2, ev @ ev2)))"

definition lc_OnSessionsNeedProof ::
  "('e, 's) SessionStore \<Rightarrow> ('e, 's) LifecycleCallback \<Rightarrow> 'e env_supply \<Rightarrow> (string \<Rightarrow> ('p, 'd) proof_world)
   \<Rightarrow> SessionSnapshot list \<Rightarrow> ProofShape option \<Rightarrow> 's
   \<Rightarrow> string set \<times> proof_send list \<times> ProofShape option \<times> 's \<times> lifecycle_event list" where
  "lc_OnSessionsNeedProof S lc E Ws snapshots shape s = proof_groups S lc E Ws (groupOnePerSession snapshots) shape s"

section \<open>The callback of the manager\<close>

text \<open>
  The callback the lifecycle manager is given, with the observer it offers. The proof shape is shared by the suppliers of
  the process; \<open>shape\<close> is what a cycle finds.
\<close>

definition lifecycle_callback ::
  "('e, 's) SessionStore \<Rightarrow> ('e, 's) LifecycleCallback \<Rightarrow> 'q claim_world
   \<Rightarrow> (string \<Rightarrow> ('p, 'd) proof_world) \<Rightarrow> ProofShape option \<Rightarrow> bool
   \<Rightarrow> ((nat \<Rightarrow> 'e) \<Rightarrow> string list \<Rightarrow> 's \<Rightarrow> 's) option \<Rightarrow> ('e, 's) SessionLifecycleCallback" where
  "lifecycle_callback S lc W Ws shape meter flush =
     \<lparr>OnSessionsNeedClaim = (\<lambda>E snapshots s. case lc_OnSessionsNeedClaim S lc E W snapshots s of
         (claimed, _, s1, ev) \<Rightarrow> ((claimed, snapshots), s1, ev)),
      OnSessionsNeedProof = (\<lambda>E snapshots s. case lc_OnSessionsNeedProof S lc E Ws snapshots shape s of
         (named, _, _, s1, ev) \<Rightarrow> ((named, snapshots), s1, ev)),
      cb_terminal = (\<lambda>newState e snapshot s. lc_terminal newState S lc e snapshot s),
      cb_observer = Some (\<lambda>e snapshot s. ObserveClaimOnChain S lc e snapshot s),
      meterCleanup = meter, flushPendingRelays = flush\<rparr>"

end
