(* ===== verification/Callback_Contract.thy ===== *)
theory Callback_Contract
  imports Proof_Cycle
begin

text \<open>
  What the lifecycle manager may rely on of its callback. The cycles and the terminal callbacks of
  \<open>src/miner/lifecycle_callback.go\<close> write to the store only through the session coordinator, so they keep the invariant
  of a store that meets its contract; they never run a terminal callback themselves; and they hand back the sessions they
  were given.
\<close>

section \<open>Writing through the coordinator\<close>

inductive coordinated ::
  "('e, 's) SessionStore \<Rightarrow> ('e, 's) LifecycleCallback \<Rightarrow> 'e set \<Rightarrow> string set \<Rightarrow> 's \<Rightarrow> 's \<Rightarrow> bool"
  for S lc env sids where
  coordinated_refl: "coordinated S lc env sids s s"
| coordinated_step: "\<lbrakk>coordinated S lc env sids s s1; lc_coordinator lc = Some c; range e \<subseteq> env; sid \<in> sids;
    coord_step S c e sid op s1 = (s2, ev)\<rbrakk> \<Longrightarrow> coordinated S lc env sids s s2"

lemma coordinated_trans:
  "\<lbrakk>coordinated S lc env sids s1 s2; coordinated S lc env sids s s1\<rbrakk> \<Longrightarrow> coordinated S lc env sids s s2"
  by (induction rule: coordinated.induct) (auto intro: coordinated_step)

definition quiet :: "lifecycle_event list \<Rightarrow> bool" where
  "quiet ev = (\<forall>st x. TerminalCallback st x \<notin> set ev)"

lemma quiet_simps [simp]:
  "quiet []" "quiet (xs @ ys) = (quiet xs \<and> quiet ys)" "quiet (book adds)"
  "quiet (x # xs) = ((\<forall>st y. x \<noteq> TerminalCallback st y) \<and> quiet xs)"
  by (auto simp: quiet_def book_def)

lemma quiet_map [simp]: "quiet (map f ys) = (\<forall>y \<in> set ys. \<forall>st x. f y \<noteq> TerminalCallback st x)"
  unfolding quiet_def set_map image_iff by metis

lemma quiet_concat: "(\<And>x. x \<in> set xs \<Longrightarrow> quiet x) \<Longrightarrow> quiet (concat xs)"
  by (auto simp: quiet_def)

definition calm ::
  "('e, 's) SessionStore \<Rightarrow> ('e, 's) LifecycleCallback \<Rightarrow> 'e set \<Rightarrow> string set \<Rightarrow> 's \<Rightarrow> 's \<times> lifecycle_event list \<Rightarrow> bool" where
  "calm S lc env sids s r = (coordinated S lc env sids s (fst r) \<and> quiet (snd r))"

lemma calm_same [simp]: "calm S lc env sids s (s, ev) = quiet ev"
  by (simp add: calm_def coordinated_refl)

lemma calm_trans: "\<lbrakk>calm S lc env sids s (s1, ev1); calm S lc env sids s1 (s2, ev2)\<rbrakk> \<Longrightarrow> calm S lc env sids s (s2, ev1 @ ev2)"
  using coordinated_trans by (auto simp: calm_def)

lemma calm_events: "\<lbrakk>calm S lc env sids s (s1, ev); quiet ev'\<rbrakk> \<Longrightarrow> calm S lc env sids s (s1, ev')"
  by (simp add: calm_def)

lemma calm_quiet: "calm S lc env sids s (s1, ev) \<Longrightarrow> quiet ev"
  by (simp add: calm_def)

text \<open>Environments and session IDs the store admits.\<close>

definition envs :: "'e set \<Rightarrow> 'e env_supply \<Rightarrow> bool" where
  "envs env E = (\<forall>sid i. range (E sid i) \<subseteq> env)"

definition known :: "string set \<Rightarrow> SessionSnapshot list \<Rightarrow> bool" where
  "known sids snapshots = (\<forall>x \<in> set snapshots. SessionID x \<in> sids)"

lemma known_simps [simp]: "known sids []" "known sids (x # xs) = (SessionID x \<in> sids \<and> known sids xs)"
  by (auto simp: known_def)

lemma coordinate_calm:
  assumes "coordinate lc call s = (err, s', ev)" "\<And>c. snd (call c s) = coord_step S c e sid op s"
    and "range e \<subseteq> env" "sid \<in> sids"
  shows "calm S lc env sids s (s', ev)"
proof (cases "lc_coordinator lc")
  case None
  then show ?thesis using assms(1) by (simp add: coordinate_def)
next
  case (Some c)
  obtain err' s1 ev1 where call: "call c s = (err', s1, ev1)" by (cases "call c s")
  then have "coord_step S c e sid op s = (s1, ev1)" using assms(2) [of c] by simp
  then have "coordinated S lc env sids s s1"
    by (rule coordinated_step [OF coordinated_refl Some assms(3,4)])
  then show ?thesis using assms(1) Some call by (auto simp: coordinate_def calm_def)
qed

lemma coordinate_calms:
  assumes "range e \<subseteq> env" "sid \<in> sids"
  shows "coordinate lc (\<lambda>c. OnSessionProved S c e sid) s = (err, s', ev) \<Longrightarrow> calm S lc env sids s (s', ev)"
    and "coordinate lc (\<lambda>c. OnClaimSkipped S c e sid) s = (err, s', ev) \<Longrightarrow> calm S lc env sids s (s', ev)"
    and "coordinate lc (\<lambda>c. OnProbabilisticProved S c e sid) s = (err, s', ev) \<Longrightarrow> calm S lc env sids s (s', ev)"
    and "coordinate lc (\<lambda>c. OnClaimWindowClosed S c e sid) s = (err, s', ev) \<Longrightarrow> calm S lc env sids s (s', ev)"
    and "coordinate lc (\<lambda>c. OnProofWindowClosed S c e sid) s = (err, s', ev) \<Longrightarrow> calm S lc env sids s (s', ev)"
    and "coordinate lc (\<lambda>c. OnClaimDeferred S c e sid) s = (err, s', ev) \<Longrightarrow> calm S lc env sids s (s', ev)"
    and "coordinate lc (\<lambda>c. OnProofDeferred S c e sid) s = (err, s', ev) \<Longrightarrow> calm S lc env sids s (s', ev)"
    and "coordinate lc (\<lambda>c. OnClaimTxError S c e sid v) s = (err, s', ev) \<Longrightarrow> calm S lc env sids s (s', ev)"
    and "coordinate lc (\<lambda>c. OnSessionClaimed S c e sid rt h) s = (err, s', ev) \<Longrightarrow> calm S lc env sids s (s', ev)"
    and "coordinate lc (\<lambda>c. OnClaimMissing S c e sid) s = (err, s', ev) \<Longrightarrow> calm S lc env sids s (s', ev)"
    and "coordinate lc (\<lambda>c. OnProofTxError S c e sid) s = (err, s', ev) \<Longrightarrow> calm S lc env sids s (s', ev)"
    and "coordinate lc (\<lambda>c. OnProofSubmitted S c e sid h) s = (err, s', ev) \<Longrightarrow> calm S lc env sids s (s', ev)"
  subgoal by (erule coordinate_calm [where e = e and sid = sid and op = SessionProvedOp]) (simp_all add: assms)
  subgoal by (erule coordinate_calm [where e = e and sid = sid and op = ClaimSkippedOp]) (simp_all add: assms)
  subgoal by (erule coordinate_calm [where e = e and sid = sid and op = ProbabilisticProvedOp]) (simp_all add: assms)
  subgoal by (erule coordinate_calm [where e = e and sid = sid and op = ClaimWindowClosedOp]) (simp_all add: assms)
  subgoal by (erule coordinate_calm [where e = e and sid = sid and op = ProofWindowClosedOp]) (simp_all add: assms)
  subgoal by (erule coordinate_calm [where e = e and sid = sid and op = ClaimDeferredOp]) (simp_all add: assms)
  subgoal by (erule coordinate_calm [where e = e and sid = sid and op = ProofDeferredOp]) (simp_all add: assms)
  subgoal by (erule coordinate_calm [where e = e and sid = sid and op = "ClaimTxErrorOp v"]) (simp_all add: assms)
  subgoal by (erule coordinate_calm [where e = e and sid = sid and op = "SessionClaimed rt h"]) (simp_all add: assms)
  subgoal by (erule coordinate_calm [where e = e and sid = sid and op = ClaimMissingOp]) (simp_all add: assms)
  subgoal by (erule coordinate_calm [where e = e and sid = sid and op = ProofTxErrorOp]) (simp_all add: assms)
  subgoal by (erule coordinate_calm [where e = e and sid = sid and op = "ProofSubmittedOp h"]) (simp_all add: assms)
  done

section \<open>The terminal callbacks\<close>

lemma cleanup_marks_quiet [simp]: "quiet (cleanup_marks lc snap)"
  by (simp add: cleanup_marks_def)

lemma calm_pre: "\<lbrakk>calm S lc env sids s (s1, ev); quiet ev0\<rbrakk> \<Longrightarrow> calm S lc env sids s (s1, ev0 @ ev)"
  by (auto simp: calm_def)

lemma calm_post: "\<lbrakk>calm S lc env sids s (s1, ev); quiet ev0\<rbrakk> \<Longrightarrow> calm S lc env sids s (s1, ev @ ev0)"
  by (auto simp: calm_def)

lemma closed_books_quiet [simp]: "quiet (closed_claim_books lc snap)" "quiet (closed_proof_books lc snap)"
  by (simp_all add: closed_claim_books_def closed_proof_books_def)

lemma proved_calm:
  assumes "range e \<subseteq> env" "SessionID snap \<in> sids"
  shows "calm S lc env sids s (lc_OnSessionProved S lc e snap s)"
proof -
  obtain err s1 ev where c: "coordinate lc (\<lambda>c. OnSessionProved S c e (SessionID snap)) s = (err, s1, ev)"
    by (cases "coordinate lc (\<lambda>c. OnSessionProved S c e (SessionID snap)) s")
  show ?thesis using coordinate_calms(1) [OF assms c] by (auto simp: lc_OnSessionProved_def c calm_def)
qed

lemma probabilistic_calm:
  assumes "range e \<subseteq> env" "SessionID snap \<in> sids"
  shows "calm S lc env sids s (lc_OnProbabilisticProved S lc e snap s)"
proof -
  obtain err s1 ev where c: "coordinate lc (\<lambda>c. OnProbabilisticProved S c e (SessionID snap)) s = (err, s1, ev)"
    by (cases "coordinate lc (\<lambda>c. OnProbabilisticProved S c e (SessionID snap)) s")
  show ?thesis using coordinate_calms(3) [OF assms c] by (auto simp: lc_OnProbabilisticProved_def c calm_def)
qed

lemma skipped_calm:
  assumes "range e \<subseteq> env" "SessionID snap \<in> sids"
  shows "calm S lc env sids s (lc_OnClaimSkipped S lc e snap s)"
proof -
  obtain err s1 ev where c: "coordinate lc (\<lambda>c. OnClaimSkipped S c e (SessionID snap)) s = (err, s1, ev)"
    by (cases "coordinate lc (\<lambda>c. OnClaimSkipped S c e (SessionID snap)) s")
  show ?thesis using coordinate_calms(2) [OF assms c] by (auto simp: lc_OnClaimSkipped_def c calm_def)
qed

lemma terminal_calm:
  assumes "range e \<subseteq> env" "SessionID snap \<in> sids"
  shows "calm S lc env sids s (lc_terminal st S lc e snap s)"
  by (simp add: lc_terminal_def proved_calm [OF assms] probabilistic_calm [OF assms] lc_OnClaimWindowClosed_def lc_OnClaimTxError_def
      lc_OnProofWindowClosed_def lc_OnProofTxError_def)

lemma observe_calm:
  assumes "ObserveClaimOnChain S lc e snap s = (r, s', ev)" "range e \<subseteq> env" "SessionID snap \<in> sids"
  shows "calm S lc env sids s (s', ev)"
proof -
  have "calm S lc env sids s (s1, map Booked ev1)"
    if c: "lc_coordinator lc = Some c" and run: "OnClaimObservedOnChain S c e (SessionID snap) rt h s = (err, s1, ev1)" for c rt h err s1 ev1
  proof -
    have "coordinated S lc env sids s s1"
      by (rule coordinated_step [where op = "ClaimObserved rt h", OF coordinated_refl c assms(2,3)]) (simp add: run)
    then show ?thesis by (simp add: calm_def)
  qed
  then show ?thesis using assms(1) by (auto simp: ObserveClaimOnChain_def split: option.splits sum.splits prod.splits)
qed

section \<open>The claim cycle\<close>

lemma mark_claim_closed_calm:
  assumes "envs env E" "SessionID snap \<in> sids"
  shows "calm S lc env sids s (markAndCountClaimWindowClosed S lc E height close snap s)"
proof -
  have e: "\<And>k. range (E (SessionID snap) k) \<subseteq> env" using assms(1) by (simp add: envs_def)
  obtain r s1 ev where o: "ObserveClaimOnChain S lc (E (SessionID snap) 1) snap s = (r, s1, ev)"
    by (cases "ObserveClaimOnChain S lc (E (SessionID snap) 1) snap s")
  note c1 = observe_calm [OF o e assms(2)]
  obtain err s2 ev2 where c: "coordinate lc (\<lambda>c. OnClaimWindowClosed S c (E (SessionID snap) 2) (SessionID snap)) s1 = (err, s2, ev2)"
    by (cases "coordinate lc (\<lambda>c. OnClaimWindowClosed S c (E (SessionID snap) 2) (SessionID snap)) s1")
  note c2 = calm_trans [OF c1 coordinate_calms(4) [OF e assms(2) c]]
  have c3: "calm S lc env sids s (s2, ev @ ev2 @ closed_claim_books lc snap)"
    using calm_post [OF c2, of "closed_claim_books lc snap"] by simp
  show ?thesis using o c c1 c2 c3
    by (auto simp: markAndCountClaimWindowClosed_def split: sum.splits bool.splits option.splits)
qed

lemma mark_proof_closed_calm:
  assumes "range e \<subseteq> env" "SessionID snap \<in> sids"
  shows "calm S lc env sids s (markAndCountProofWindowClosed S lc e snap s)"
proof -
  obtain err s1 ev where c: "coordinate lc (\<lambda>c. OnProofWindowClosed S c e (SessionID snap)) s = (err, s1, ev)"
    by (cases "coordinate lc (\<lambda>c. OnProofWindowClosed S c e (SessionID snap)) s")
  show ?thesis using coordinate_calms(5) [OF assms c] by (auto simp: markAndCountProofWindowClosed_def c calm_def split: option.splits)
qed

lemma for_each_calm:
  assumes "\<And>x s. x \<in> set xs \<Longrightarrow> calm S lc env sids s (f x s)"
  shows "calm S lc env sids s (for_each f xs s)"
  using assms
proof (induction xs arbitrary: s)
  case (Cons x xs)
  obtain s1 ev1 where f: "f x s = (s1, ev1)" by (cases "f x s")
  obtain s2 ev2 where r: "for_each f xs s1 = (s2, ev2)" by (cases "for_each f xs s1")
  have "calm S lc env sids s (s1, ev1)" "calm S lc env sids s1 (s2, ev2)" using Cons.prems [of x s] Cons.IH [of s1] Cons.prems f r by auto
  then show ?case using f r calm_trans by fastforce
qed simp

lemma close_all_calm: "\<lbrakk>envs env E; known sids grp\<rbrakk> \<Longrightarrow> calm S lc env sids s (close_all S lc E fh close grp s)"
  unfolding close_all_def by (rule for_each_calm) (auto simp: known_def intro: mark_claim_closed_calm)

lemma deferClaims_calm:
  "\<lbrakk>deferClaims S lc E xs s = (xs', s', ev); envs env E; known sids xs\<rbrakk>
   \<Longrightarrow> calm S lc env sids s (s', ev) \<and> map SessionID xs' = map SessionID xs"
proof (induction xs arbitrary: s xs' s' ev)
  case (Cons x xs)
  have e: "range (E (SessionID x) 0) \<subseteq> env" using Cons.prems(2) by (simp add: envs_def)
  show ?case
  proof (cases "lc_coordinator lc = None")
    case True
    then show ?thesis using Cons.prems by simp
  next
    case False
    obtain err s1 ev1 where c: "coordinate lc (\<lambda>c. OnClaimDeferred S c (E (SessionID x) 0) (SessionID x)) s = (err, s1, ev1)"
      by (cases "coordinate lc (\<lambda>c. OnClaimDeferred S c (E (SessionID x) 0) (SessionID x)) s")
    obtain ys s2 ev2 where d: "deferClaims S lc E xs s1 = (ys, s2, ev2)" by (cases "deferClaims S lc E xs s1")
    have "calm S lc env sids s (s1, ev1)" using coordinate_calms(6) [OF e _ c] Cons.prems(3) by simp
    moreover have "calm S lc env sids s1 (s2, ev2) \<and> map SessionID ys = map SessionID xs"
      using Cons.IH [OF d] Cons.prems by simp
    ultimately show ?thesis using Cons.prems(1) False c d by (auto intro: calm_trans)
  qed
qed simp

lemma deferProof_calm:
  assumes "deferProof S lc e x s = (x', s', ev)" "range e \<subseteq> env" "SessionID x \<in> sids"
  shows "calm S lc env sids s (s', ev)"
proof -
  obtain err s1 ev1 where c: "coordinate lc (\<lambda>c. OnProofDeferred S c e (SessionID x)) s = (err, s1, ev1)"
    by (cases "coordinate lc (\<lambda>c. OnProofDeferred S c e (SessionID x)) s")
  show ?thesis using assms(1) c coordinate_calms(7) [OF assms(2,3) c] by (auto simp: deferProof_def split: if_splits)
qed

lemma return_proofs_calm: "\<lbrakk>envs env E; known sids xs\<rbrakk> \<Longrightarrow> calm S lc env sids s (return_proofs S lc E xs s)"
proof (induction xs arbitrary: s)
  case (Cons x xs)
  have e: "range (E (SessionID x) 0) \<subseteq> env" using Cons.prems(1) by (simp add: envs_def)
  obtain x' s1 ev1 where d: "deferProof S lc (E (SessionID x) 0) x s = (x', s1, ev1)" by (cases "deferProof S lc (E (SessionID x) 0) x s")
  obtain ys s2 ev2 where ds: "deferProofs S lc E xs s1 = (ys, s2, ev2)" by (cases "deferProofs S lc E xs s1")
  have "calm S lc env sids s (s1, ev1)" using deferProof_calm [OF d e] Cons.prems by simp
  moreover have "calm S lc env sids s1 (s2, ev2)" using Cons.IH [of s1] Cons.prems ds by (simp add: return_proofs_def)
  ultimately show ?case using d ds calm_trans by (fastforce simp: return_proofs_def)
qed (simp add: return_proofs_def)

lemma rebroadcast_quiet [simp]:
  "persistRebroadcastEntry lc x h p err = (kept, ev) \<Longrightarrow> quiet ev" "quiet (persistRebroadcastEntries lc xs h p err)"
  by (auto simp: persistRebroadcastEntry_def persistRebroadcastEntries_def split: option.splits if_splits intro!: quiet_concat)

lemma settle_ejected_calm:
  assumes "range e \<subseteq> env" "SessionID snap \<in> sids"
  shows "calm S lc env sids s (settleEjectedClaim S lc e snap s)"
proof -
  obtain kept ev0 where p: "persistRebroadcastEntry lc snap [] no_payload None = (kept, ev0)"
    by (cases "persistRebroadcastEntry lc snap [] no_payload None")
  let ?v = "if kept then ClaimTxErrorAttempt else if lc_rebroadcast lc = None then ClaimTxErrorForgone else ClaimTxErrorEjectedUnrecoverable"
  obtain err s1 ev where c: "coordinate lc (\<lambda>c. OnClaimTxError S c e (SessionID snap) ?v) s = (err, s1, ev)"
    by (cases "coordinate lc (\<lambda>c. OnClaimTxError S c e (SessionID snap) ?v) s")
  show ?thesis using coordinate_calms(8) [OF assms c] rebroadcast_quiet(1) [OF p] c p
    by (simp add: settleEjectedClaim_def calm_def Let_def)
qed

lemma known_subset: "\<lbrakk>known sids ys; set xs \<subseteq> set ys\<rbrakk> \<Longrightarrow> known sids xs"
  by (auto simp: known_def)

lemma known_ids: "map SessionID xs = map SessionID ys \<Longrightarrow> known sids xs = known sids ys"
  unfolding known_def by (metis (no_types, lifting) image_iff list.set_map)

lemma without_subset: "set (withoutSession xs sid) \<subseteq> set xs"
  by (auto simp: withoutSession_def)

text \<open>The groups a round leaves are of sessions of the group, up to what was written into them.\<close>

fun next_known :: "string set \<Rightarrow> next_round \<Rightarrow> bool" where
  "next_known sids (Stop out rem grp) = (known sids (map cr_snapshot rem) \<and> known sids grp)"
| "next_known sids (Again attempt rem grp payload err) = (known sids (map cr_snapshot rem) \<and> known sids grp)"

lemma eject_claim_calm:
  assumes "eject_claim S lc E fh close height named attempt remaining grp err s = (nx, s', ev)" "envs env E"
    and "known sids (map cr_snapshot remaining)" "known sids grp" "named < length remaining"
  shows "calm S lc env sids s (s', ev) \<and> next_known sids nx"
proof -
  let ?x = "cr_snapshot (remaining ! named)"
  let ?rem = "take named remaining @ drop (Suc named) remaining"
  let ?grp = "withoutSession grp (SessionID ?x)"
  have "set ?rem \<subseteq> set remaining" by (auto dest: in_set_takeD in_set_dropD)
  then have rem: "known sids (map cr_snapshot ?rem)" using assms(3) by (auto simp: known_def dest: in_set_takeD in_set_dropD)
  have grp: "known sids ?grp" using assms(4) without_subset known_subset by blast
  have x: "SessionID ?x \<in> sids" "range (E (SessionID ?x) 4) \<subseteq> env" using assms(2,3,5) by (auto simp: known_def envs_def)
  obtain s1 ev1 where se: "settleEjectedClaim S lc (E (SessionID ?x) 4) ?x s = (s1, ev1)"
    by (cases "settleEjectedClaim S lc (E (SessionID ?x) 4) ?x s")
  obtain s2 ev2 where ca: "close_all S lc E fh close ?grp s1 = (s2, ev2)" by (cases "close_all S lc E fh close ?grp s1")
  have c1: "calm S lc env sids s (s1, ev1)" using settle_ejected_calm [OF x(2,1), of S lc s] se by simp
  moreover have "calm S lc env sids s (s2, ev1 @ ev2)" using calm_trans [OF c1] close_all_calm [OF assms(2) grp, of S lc s1 fh close] ca by simp
  ultimately show ?thesis using assms(1) se ca rem grp by (auto simp: eject_claim_def Let_def split: if_splits)
qed

lemma send_round_calm:
  assumes "send_round S lc E X fh close attempt remaining grp payload lastErr i s = (send, nx, s', ev)" "envs env E"
    and "known sids (map cr_snapshot remaining)" "known sids grp"
  shows "calm S lc env sids s (s', ev) \<and> next_known sids nx"
proof -
  obtain sent h p a where r: "resendOrSignClaims X i close payload lastErr (map cr_claimMsg remaining) = (sent, h, p, a)"
    by (cases "resendOrSignClaims X i close payload lastErr (map cr_claimMsg remaining)")
  obtain g1 s1 ev1 where d: "deferClaims S lc E grp s = (g1, s1, ev1)" by (cases "deferClaims S lc E grp s")
  obtain s2 ev2 where ca: "close_all S lc E fh close grp s = (s2, ev2)" by (cases "close_all S lc E fh close grp s")
  have dc: "calm S lc env sids s (s1, ev1)" "known sids g1"
    using deferClaims_calm [OF d assms(2,4)] known_ids [of g1 grp sids] assms(4) by auto
  have cc: "calm S lc env sids s (s2, ev2)" using close_all_calm [OF assms(2,4), of S lc s fh close] ca by simp
  show ?thesis
  proof (cases a)
    case None
    then show ?thesis using assms r by (auto simp: send_round_def)
  next
    case (Some err)
    show ?thesis
    proof (cases "if length remaining > 1 then namedMessageIndex err (length remaining) else None")
      case None
      then show ?thesis using assms r Some d ca dc cc by (auto simp: send_round_def split: if_splits)
    next
      case (Some named)
      then have "named < length remaining" by (auto split: if_splits dest: namedMessageIndex_less)
      obtain nx' s3 ev3 where ej: "eject_claim S lc E fh close (ejected_height X i) named attempt remaining grp err s = (nx', s3, ev3)"
        by (cases "eject_claim S lc E fh close (ejected_height X i) named attempt remaining grp err s")
      note ejc = eject_claim_calm [OF ej assms(2-4) \<open>named < length remaining\<close>]
      show ?thesis using assms(1,3,4) r \<open>a = Some err\<close> Some ej ejc d ca dc cc
        by (auto simp: send_round_def split: if_splits)
    qed
  qed
qed

lemma submit_claims_calm:
  assumes "envs env E" "known sids (map cr_snapshot remaining)" "known sids grp"
    and "submit_claims S lc E X fh close attempt remaining grp payload lastErr i s = r"
  shows "calm S lc env sids s (sub_store r, sub_events r) \<and> known sids (map cr_snapshot (sub_remaining r)) \<and> known sids (sub_group r)"
proof -
  have "known sids (map cr_snapshot remaining) \<and> known sids grp \<longrightarrow>
      calm S lc env sids s (sub_store r, sub_events r) \<and> known sids (map cr_snapshot (sub_remaining r)) \<and> known sids (sub_group r)"
    unfolding assms(4) [symmetric]
  proof (induction rule: submit_claims_rounds [where P = "\<lambda>attempt remaining grp payload lastErr i s r.
        known sids (map cr_snapshot remaining) \<and> known sids grp \<longrightarrow>
          calm S lc env sids s (sub_store r, sub_events r) \<and> known sids (map cr_snapshot (sub_remaining r)) \<and> known sids (sub_group r)"])
    case (stop attempt remaining grp payload lastErr i s send out rem grp' s1 ev)
    then show ?case using send_round_calm [OF stop assms(1)] by auto
  next
    case (again attempt remaining grp payload lastErr i s send attempt' remaining' grp' payload' err s1 ev r)
    then show ?case using send_round_calm [OF again(1) assms(1)] by (auto intro: calm_trans)
  qed
  then show ?thesis using assms(2,3) by blast
qed

lemma fold_calm:
  assumes "\<And>r s0 ev0. r \<in> set rs \<Longrightarrow> \<exists>s1 ev1. f r (s0, ev0) = (s1, ev0 @ ev1) \<and> calm S lc env sids s0 (s1, ev1)"
    and "calm S lc env sids s (s0, ev0)"
  shows "calm S lc env sids s (fold f rs (s0, ev0))"
  using assms
proof (induction rs arbitrary: s0 ev0)
  case (Cons r rs)
  obtain s1 ev1 where f: "f r (s0, ev0) = (s1, ev0 @ ev1)" and c: "calm S lc env sids s0 (s1, ev1)"
    using Cons.prems(1) [of r s0 ev0] by auto
  then show ?case using Cons.IH [of s1 "ev0 @ ev1"] Cons.prems calm_trans [OF Cons.prems(2) c] by simp
qed simp

lemma settle_skipped_calm:
  assumes "envs env E" "known sids (map cr_snapshot rs)"
  shows "calm S lc env sids s (settle_skipped S lc E rs s)"
  unfolding settle_skipped_def
proof (rule fold_calm, goal_cases)
  case (1 r s0 ev0)
  let ?x = "cr_snapshot r"
  have x: "range (E (SessionID ?x) 3) \<subseteq> env" "SessionID ?x \<in> sids" using assms 1 by (auto simp: envs_def known_def)
  obtain s1 ev1 where o: "lc_OnClaimSkipped S lc (E (SessionID ?x) 3) ?x s0 = (s1, ev1)"
    by (cases "lc_OnClaimSkipped S lc (E (SessionID ?x) 3) ?x s0")
  then have c: "calm S lc env sids s0 (s1, ev1)" using skipped_calm [OF x, of S lc s0] by simp
  show ?case
  proof (cases "cr_skipReason r = ''unprofitable'' \<or> cr_skipReason r = ''cupr_mismatch''")
    case True
    then show ?thesis using o calm_pre [OF c] by (auto simp: Let_def)
  next
    case False
    then show ?thesis by (auto simp: Let_def)
  qed
qed simp

lemma note_failed_quiet [simp]: "quiet (note_failed rs)"
  unfolding note_failed_def by (rule quiet_concat) auto

lemma count_claims_quiet [simp]: "quiet (count_claims f xs)"
  unfolding count_claims_def by (rule quiet_concat) auto

lemma note_claimed_calm:
  "\<lbrakk>envs env E; known sids (map cr_snapshot rs)\<rbrakk> \<Longrightarrow> calm S lc env sids s (note_claimed S lc E h rs s)"
proof (induction rs arbitrary: s)
  case (Cons r rs)
  let ?x = "cr_snapshot r"
  have x: "range (E (SessionID ?x) 5) \<subseteq> env" "SessionID ?x \<in> sids" using Cons.prems by (auto simp: envs_def known_def)
  obtain err s1 ev1 where c: "coordinate lc (\<lambda>c. OnSessionClaimed S c (E (SessionID ?x) 5) (SessionID ?x) (cr_rootHash r) h) s = (err, s1, ev1)"
    by (cases "coordinate lc (\<lambda>c. OnSessionClaimed S c (E (SessionID ?x) 5) (SessionID ?x) (cr_rootHash r) h) s")
  obtain s2 ev2 where n: "note_claimed S lc E h rs s1 = (s2, ev2)" by (cases "note_claimed S lc E h rs s1")
  have "calm S lc env sids s1 (s2, ev2)" using Cons.IH [of s1] Cons.prems n by simp
  then show ?case using calm_trans [OF coordinate_calms(9) [OF x c]] c n by simp
qed simp

lemma fail_claim_calm:
  assumes "range e \<subseteq> env" "SessionID snap \<in> sids"
  shows "calm S lc env sids s (fail_claim verdict S lc e snap s)"
proof -
  obtain err s1 ev where c: "coordinate lc (\<lambda>c. OnClaimTxError S c e (SessionID snap) verdict) s = (err, s1, ev)"
    by (cases "coordinate lc (\<lambda>c. OnClaimTxError S c e (SessionID snap) verdict) s")
  show ?thesis using coordinate_calms(8) [OF assms c] by (simp add: fail_claim_def c)
qed

lemma note_exhausted_calm:
  assumes "envs env E" "known sids grp"
  shows "calm S lc env sids s (note_exhausted S lc E err p grp valid s)"
proof -
  define v where "v = (if lc_rebroadcast lc \<noteq> None then ClaimTxErrorAttempt else ClaimTxErrorForgone)"
  obtain s1 ev1 where f: "for_each (\<lambda>snapshot. fail_claim v S lc (E (SessionID snapshot) 6) snapshot) grp s = (s1, ev1)"
    by (cases "for_each (\<lambda>snapshot. fail_claim v S lc (E (SessionID snapshot) 6) snapshot) grp s")
  have "calm S lc env sids s (for_each (\<lambda>snapshot. fail_claim v S lc (E (SessionID snapshot) 6) snapshot) grp s)"
    using assms by (intro for_each_calm fail_claim_calm) (auto simp: envs_def known_def)
  then show ?thesis using f unfolding note_exhausted_def Let_def v_def [symmetric] by (simp add: calm_post)
qed

lemma conclude_claims_calm:
  assumes "envs env E" "known sids (map cr_snapshot (sub_remaining sub))" "known sids (sub_group sub)"
    and "calm S lc env sids s (sub_store sub, sub_events sub)" "quiet ev0"
    and "conclude_claims S lc E sub (ev0 @ sub_events sub) = (claimed, sends, s', ev, stop)"
  shows "calm S lc env sids s (s', ev)"
proof -
  have pre: "calm S lc env sids s (sub_store sub, ev0 @ sub_events sub)" using calm_pre [OF assms(4,5)] .
  show ?thesis
  proof (cases "sub_outcome sub")
    case (Submitted h p)
    obtain s1 ev1 where n: "note_claimed S lc E h (sub_remaining sub) (sub_store sub) = (s1, ev1)"
      by (cases "note_claimed S lc E h (sub_remaining sub) (sub_store sub)")
    then have "calm S lc env sids (sub_store sub) (s1, ev1)" using note_claimed_calm [OF assms(1,2), of S lc "sub_store sub" h] by simp
    from calm_trans [OF pre this] show ?thesis using assms(6) Submitted n
      by (auto simp: conclude_claims_def Let_def calm_def)
  next
    case (Exhausted err p)
    obtain s1 ev1 where n: "note_exhausted S lc E err p (sub_group sub) (map cr_snapshot (sub_remaining sub)) (sub_store sub) = (s1, ev1)"
      by (cases "note_exhausted S lc E err p (sub_group sub) (map cr_snapshot (sub_remaining sub)) (sub_store sub)")
    then have "calm S lc env sids (sub_store sub) (s1, ev1)"
      using note_exhausted_calm [OF assms(1,3), of S lc "sub_store sub" err p "map cr_snapshot (sub_remaining sub)"] by simp
    from calm_trans [OF pre this] show ?thesis using assms(6) Exhausted n by (auto simp: conclude_claims_def Let_def)
  qed (use assms(6) pre in \<open>auto simp: conclude_claims_def Let_def\<close>)
qed

text \<open>Each build reports once: the results are those of the candidates, in some order.\<close>

definition reports_once :: "'q claim_world \<Rightarrow> bool" where
  "reports_once W = (\<forall>rs. mset (cw_arrival W rs) = mset rs)"

lemma collected_from:
  assumes "mset arrived = mset (map (\<lambda>(i, snap). build_claim B i snap) (enumerate 0 candidates))"
    and "r \<in># collected (collectClaimBuildResults n arrived)"
  shows "cr_snapshot r \<in> set candidates"
proof -
  have "r \<in> set (take n arrived)" using assms(2) unfolding collectClaimBuildResults_def collect_fold by (simp add: collected_def)
  then have "r \<in># mset arrived" by (auto dest: in_set_takeD)
  then show ?thesis unfolding assms(1) by (auto simp: in_set_enumerate_eq)
qed

lemma claim_group_calm:
  assumes "reports_once W" "envs env E" "known sids g"
    and "claim_group S lc E W g s = (claimed, sends, s', ev, stop)"
  shows "calm S lc env sids s (s', ev)"
proof (cases "cw_params W (SessionEndHeight (hd g))")
  case (Inl err)
  obtain g1 s1 ev1 where d: "deferClaims S lc E g s = (g1, s1, ev1)" by (cases "deferClaims S lc E g s")
  show ?thesis using assms(4) Inl d deferClaims_calm [OF d assms(2,3)] by (auto simp: claim_group_def)
next
  case (Inr p)
  obtain g1 s1 ev1 where d: "deferClaims S lc E g s = (g1, s1, ev1)" by (cases "deferClaims S lc E g s")
  note dc = deferClaims_calm [OF d assms(2,3)]
  define h where "h = SessionEndHeight (hd g)"
  define close where "close = GetClaimWindowCloseHeight (cw_windows W) p h"
  define cand where "cand = filter (\<lambda>snapshot. ClaimTxHash snapshot = []) g"
  define coll where "coll = collectClaimBuildResults (length cand)
      (cw_arrival W (map (\<lambda>(i, snap). build_claim (cw_build W) i snap) (enumerate 0 cand)))"
  have from_g: "cr_snapshot r \<in> set g" if "r \<in># collected coll" for r
  proof -
    have "cr_snapshot r \<in> set cand"
      using assms(1) by (intro collected_from [OF _ that [unfolded coll_def]]) (simp add: reports_once_def)
    then show ?thesis by (simp add: cand_def)
  qed
  have built: "known sids (map cr_snapshot (cl_built coll))" "known sids (map cr_snapshot (cl_skipped coll))"
    using from_g assms(3) by (auto simp: known_def collected_def)
  obtain s2 ev2 where ca: "close_all S lc E (cw_final W) close g s = (s2, ev2)" by (cases "close_all S lc E (cw_final W) close g s")
  have cc: "calm S lc env sids s (s2, ev2)" using close_all_calm [OF assms(2,3), of S lc s "cw_final W" close] ca by simp
  obtain s3 ev3 where sk: "settle_skipped S lc E (cl_skipped coll) s = (s3, ev3)" by (cases "settle_skipped S lc E (cl_skipped coll) s")
  have c3: "calm S lc env sids s (s3, ev3 @ note_failed (cl_failed coll))"
    using settle_skipped_calm [OF assms(2) built(2), of S lc s] sk by (auto intro: calm_post)
  obtain s4 ev4 where ca2: "close_all S lc E (cw_final W) close g s3 = (s4, ev4)" by (cases "close_all S lc E (cw_final W) close g s3")
  have cc2: "calm S lc env sids s3 (s4, ev4)" using close_all_calm [OF assms(2,3), of S lc s3 "cw_final W" close] ca2 by simp
  define sub where "sub = submit_claims S lc E (cw_tx W h) (cw_final W) close (Suc 0) (cl_built coll) g no_payload None 0 s3"
  note subc = submit_claims_calm [OF assms(2) built(1) assms(3) sub_def [symmetric]]
  define ev0 where "ev0 = (ev3 @ note_failed (cl_failed coll)) @ count_claims RecordClaimCreated (map cr_snapshot (cl_built coll))"
  have "calm S lc env sids s (sub_store sub, (ev3 @ note_failed (cl_failed coll)) @ sub_events sub)" using calm_trans [OF c3] subc by blast
  then have sc: "calm S lc env sids s (sub_store sub, sub_events sub)" "quiet ev0" using c3 by (auto simp: calm_def ev0_def)
  obtain cl2 se2 s5 ev5 st5 where co: "conclude_claims S lc E sub (ev0 @ sub_events sub) = (cl2, se2, s5, ev5, st5)"
    by (cases "conclude_claims S lc E sub (ev0 @ sub_events sub)")
  note c5 = conclude_claims_calm [OF assms(2) _ _ sc co]
  show ?thesis using assms(4) Inr d dc ca cc sk c3 ca2 calm_trans [OF c3 cc2] co c5 subc
    unfolding claim_group_def Let_def h_def [symmetric] sum.case close_def [symmetric] cand_def [symmetric] coll_def [symmetric]
    by (auto simp: close_def [symmetric] sub_def [symmetric] ev0_def split: if_splits)
qed

lemma claim_groups_calm:
  assumes "reports_once W" "envs env E"
  shows "\<lbrakk>known sids (concat gs); claim_groups S lc E W gs s = (claimed, sends, s', ev)\<rbrakk> \<Longrightarrow> calm S lc env sids s (s', ev)"
proof (induction gs arbitrary: s claimed sends s' ev)
  case (Cons g gs)
  obtain c1 t1 s1 e1 stop where g: "claim_group S lc E W g s = (c1, t1, s1, e1, stop)" by (cases "claim_group S lc E W g s")
  have kg: "known sids g" "known sids (concat gs)" using Cons.prems(1) by (auto simp: known_def)
  note c = claim_group_calm [OF assms kg(1) g]
  obtain c2 t2 s2 e2 where r: "claim_groups S lc E W gs s1 = (c2, t2, s2, e2)" by (cases "claim_groups S lc E W gs s1")
  show ?case using Cons.prems(2) g r c calm_trans [OF c Cons.IH [OF kg(2) r]] by (cases stop) auto
qed simp

lemma groups_known: "known sids (concat (groupByEndHeight xs)) = known sids xs"
  by (auto simp: known_def groupByEndHeight_eq)

lemma need_claim_calm:
  assumes "reports_once W" "envs env E" "known sids xs" "lc_OnSessionsNeedClaim S lc E W xs s = (claimed, sends, s', ev)"
  shows "calm S lc env sids s (s', ev)"
  by (rule claim_groups_calm [OF assms(1,2) _ assms(4) [unfolded lc_OnSessionsNeedClaim_def]]) (simp add: groups_known assms(3))

section \<open>The proof cycle\<close>

text \<open>A decision on a session writes through the coordinator and keeps the session's ID.\<close>

definition calm_decision ::
  "('e, 's) SessionStore \<Rightarrow> ('e, 's) LifecycleCallback \<Rightarrow> 'e set \<Rightarrow> string set \<Rightarrow> SessionSnapshot \<Rightarrow> 's \<Rightarrow> 's decision \<Rightarrow> bool" where
  "calm_decision S lc env sids x s d =
     (case d of (go, dn, x', s', ev) \<Rightarrow> calm S lc env sids s (s', ev) \<and> SessionID x' = SessionID x)"

lemma proof_skipped_quiet [simp]: "quiet (proof_skipped x reason)"
  by (simp add: proof_skipped_def)

lemma defer_skipped_calm:
  assumes "range e \<subseteq> env" "SessionID x \<in> sids"
  shows "calm_decision S lc env sids x s (defer_skipped S lc e reason x s)"
proof -
  obtain x' s1 ev1 where d: "deferProof S lc e x s = (x', s1, ev1)" by (cases "deferProof S lc e x s")
  have "SessionID x' = SessionID x" using d by (auto simp: deferProof_def split: if_splits prod.splits)
  then show ?thesis using deferProof_calm [OF d assms] d by (auto simp: defer_skipped_def calm_decision_def intro: calm_pre)
qed

lemma guard_calm:
  assumes "range e \<subseteq> env" "SessionID x \<in> sids"
  shows "calm_decision S lc env sids x s (pre_proof_guard S lc e W cc pc x s)"
proof -
  obtain err s1 ev1 where c: "coordinate lc (\<lambda>c. OnClaimMissing S c e (SessionID x)) s = (err, s1, ev1)"
    by (cases "coordinate lc (\<lambda>c. OnClaimMissing S c e (SessionID x)) s")
  note m = coordinate_calms(10) [OF assms c]
  have stay: "calm_decision S lc env sids x s (go, dn, x, s, [])" for go dn by (simp add: calm_decision_def)
  have miss: "calm_decision S lc env sids x s (go, dn, x, s1, proof_skipped x r @ ev1)" for go dn r
    using m by (simp add: calm_decision_def calm_pre)
  show ?thesis using defer_skipped_calm [OF assms, of S lc s] stay miss c
    by (auto simp: pre_proof_guard_def split: sum.splits option.splits)
qed

lemma settle_without_proof_calm:
  assumes "range e \<subseteq> env" "SessionID x \<in> sids"
  shows "calm S lc env sids s (settle_without_proof S lc e x s)"
proof -
  obtain err s1 ev1 where c: "coordinate lc (\<lambda>c. OnProbabilisticProved S c e (SessionID x)) s = (err, s1, ev1)"
    by (cases "coordinate lc (\<lambda>c. OnProbabilisticProved S c e (SessionID x)) s")
  show ?thesis using coordinate_calms(3) [OF assms c] c by (simp add: settle_without_proof_def calm_pre)
qed

lemma fail_proof_calm:
  assumes "range e \<subseteq> env" "SessionID x \<in> sids"
  shows "calm S lc env sids s (fail_proof b S lc e x s)"
proof -
  obtain err s1 ev1 where c: "coordinate lc (\<lambda>c. OnProofTxError S c e (SessionID x)) s = (err, s1, ev1)"
    by (cases "coordinate lc (\<lambda>c. OnProofTxError S c e (SessionID x)) s")
  show ?thesis using coordinate_calms(11) [OF assms c] c by (simp add: fail_proof_def calm_pre)
qed

lemma required_keeps_id: "IsProofRequired c x seed = (a, x', counters) \<Longrightarrow> SessionID x' = SessionID x"
  by (auto simp: IsProofRequired_def resolveClaimedRoot_def split: prod.splits sum.splits if_splits option.splits)

lemma check_requirement_calm:
  assumes "range e \<subseteq> env" "SessionID x \<in> sids"
  shows "calm_decision S lc env sids x s (check_requirement S lc e c seed x s)"
proof -
  obtain a x1 counters where r: "IsProofRequired c x seed = (a, x1, counters)" by (cases "IsProofRequired c x seed")
  have id: "SessionID x1 = SessionID x" by (rule required_keeps_id [OF r])
  have sid: "SessionID x1 \<in> sids" using assms(2) id by simp
  show ?thesis
  proof (cases a)
    case (Inl err)
    obtain er s1 ev1 where co: "coordinate lc (\<lambda>c. OnProofTxError S c e (SessionID x1)) s = (er, s1, ev1)"
      by (cases "coordinate lc (\<lambda>c. OnProofTxError S c e (SessionID x1)) s")
    obtain go dn x2 s2 ev2 where d: "defer_skipped S lc e ProofSkippedReasonClaimedRootUnreadable x1 s = (go, dn, x2, s2, ev2)"
      by (cases "defer_skipped S lc e ProofSkippedReasonClaimedRootUnreadable x1 s")
    have "calm S lc env sids s (s2, ev2) \<and> SessionID x2 = SessionID x"
      using defer_skipped_calm [OF assms(1) sid, of S lc s ProofSkippedReasonClaimedRootUnreadable] d id by (simp add: calm_decision_def)
    then show ?thesis using r Inl co d coordinate_calms(11) [OF assms(1) sid co] id
      by (cases err) (auto simp: check_requirement_def calm_decision_def intro!: calm_pre)
  next
    case (Inr required)
    obtain s1 ev1 where w: "settle_without_proof S lc e x1 s = (s1, ev1)" by (cases "settle_without_proof S lc e x1 s")
    then have "calm S lc env sids s (s1, ev1)" using settle_without_proof_calm [OF assms(1) sid, of S lc s] by simp
    then show ?thesis using r Inr w id
      by (cases required) (auto simp: check_requirement_def calm_decision_def intro: calm_pre)
  qed
qed

lemma select_proof_calm:
  assumes "envs env E" "SessionID x \<in> sids"
  shows "calm_decision S lc env sids x s (select_proof S lc E W cc pc seed x s)"
proof -
  have e: "range (E (SessionID x) k) \<subseteq> env" for k using assms(1) by (simp add: envs_def)
  obtain go dn x1 s1 ev1 where g: "pre_proof_guard S lc (E (SessionID x) 0) W cc pc x s = (go, dn, x1, s1, ev1)"
    by (cases "pre_proof_guard S lc (E (SessionID x) 0) W cc pc x s")
  have g1: "calm S lc env sids s (s1, ev1)" "SessionID x1 = SessionID x"
    using guard_calm [OF e [of 0] assms(2), of S lc s W cc pc] g by (auto simp: calm_decision_def)
  then have sid: "SessionID x1 \<in> sids" using assms(2) by simp
  show ?thesis
  proof (cases "pw_checker W")
    case None
    then show ?thesis using g g1 by (auto simp: select_proof_def calm_decision_def split: bool.splits)
  next
    case (Some checker)
    obtain go2 dn2 x2 s2 ev2 where c: "check_requirement S lc (E (SessionID x) 1) (checker False) seed x1 s1 = (go2, dn2, x2, s2, ev2)"
      by (cases "check_requirement S lc (E (SessionID x) 1) (checker False) seed x1 s1")
    have "calm S lc env sids s1 (s2, ev2)" "SessionID x2 = SessionID x"
      using check_requirement_calm [OF e [of 1] sid, of S lc s1 "checker False" seed] c g1(2) by (auto simp: calm_decision_def)
    then show ?thesis using Some g g1 c calm_trans [OF g1(1)] by (auto simp: select_proof_def calm_decision_def split: bool.splits)
  qed
qed

lemma decide_each_calm:
  assumes "\<And>x s. x \<in> set xs \<Longrightarrow> calm_decision S lc env sids x s (f x s)" "known sids xs"
    and "decide_each f xs s = (going, named, s', ev)"
  shows "calm S lc env sids s (s', ev) \<and> known sids going"
  using assms
proof (induction xs arbitrary: s going named s' ev)
  case (Cons x xs)
  obtain go dn x1 s1 ev1 where f: "f x s = (go, dn, x1, s1, ev1)" by (cases "f x s")
  obtain going2 named2 s2 ev2 where d: "decide_each f xs s1 = (going2, named2, s2, ev2)" by (cases "decide_each f xs s1")
  have x: "calm S lc env sids s (s1, ev1)" "SessionID x1 = SessionID x" using Cons.prems(1) [of x s] f by (auto simp: calm_decision_def)
  have "calm S lc env sids s1 (s2, ev2) \<and> known sids going2" using Cons.IH [OF _ _ d] Cons.prems by simp
  then show ?case using Cons.prems(2,3) f d x calm_trans [OF x(1)] by auto
qed auto

lemma recheck_calm:
  assumes "envs env E" "known sids xs" "recheck_proofs S lc E W seed xs s = (still, s', ev)"
  shows "calm S lc env sids s (s', ev) \<and> known sids still"
proof (cases "pw_checker W")
  case None
  then show ?thesis using assms by (simp add: recheck_proofs_def)
next
  case (Some checker)
  let ?f = "\<lambda>snapshot. check_requirement S lc (E (SessionID snapshot) 2) (checker True) seed snapshot"
  obtain going named s1 ev1 where d: "decide_each ?f xs s = (going, named, s1, ev1)" by (cases "decide_each ?f xs s")
  have "calm S lc env sids s (s1, ev1) \<and> known sids going"
    using assms(1,2) by (intro decide_each_calm [OF _ assms(2) d] check_requirement_calm) (auto simp: envs_def known_def)
  then show ?thesis using assms(3) Some d by (simp add: recheck_proofs_def)
qed

lemma settle_not_required_calm:
  "\<lbrakk>envs env E; known sids xs\<rbrakk> \<Longrightarrow> calm S lc env sids s (settle_not_required S lc E named i xs s)"
proof (induction xs arbitrary: i s)
  case (Cons x xs)
  have e: "range (E (SessionID x) 5) \<subseteq> env" "SessionID x \<in> sids" using Cons.prems by (auto simp: envs_def)
  obtain s1 ev1 where f: "(if named = Some i then settle_without_proof S lc (E (SessionID x) 5) x s
      else fail_proof False S lc (E (SessionID x) 5) x s) = (s1, ev1)"
    by (cases "if named = Some i then settle_without_proof S lc (E (SessionID x) 5) x s
      else fail_proof False S lc (E (SessionID x) 5) x s")
  have c: "calm S lc env sids s (s1, ev1)"
    unfolding f [symmetric] by (simp add: settle_without_proof_calm [OF e] fail_proof_calm [OF e])
  obtain s2 ev2 where r: "settle_not_required S lc E named (Suc i) xs s1 = (s2, ev2)" by (cases "settle_not_required S lc E named (Suc i) xs s1")
  have "calm S lc env sids s1 (s2, ev2)" using Cons.IH [of s1 "Suc i"] Cons.prems r by simp
  from calm_trans [OF c this] show ?case unfolding settle_not_required.simps f prod.case r .
qed simp

lemma shut_proofs_calm: "\<lbrakk>envs env E; known sids xs\<rbrakk> \<Longrightarrow> calm S lc env sids s (shut_proofs S lc E xs s)"
  unfolding shut_proofs_def by (rule for_each_calm, rule mark_proof_closed_calm) (auto simp: envs_def known_def)

lemma answer_proofs_calm:
  assumes "envs env E" "known sids valid"
    and "answer_proofs S lc E X close weighted valid retry i tx err shape s = (nx, shape', s', ev)"
  shows "calm S lc env sids s (s', ev)"
proof -
  obtain s1 ev1 where a: "settleNotRequiredBatch S lc E err valid s = (s1, ev1)" by (cases "settleNotRequiredBatch S lc E err valid s")
  obtain s2 ev2 where b: "return_proofs S lc E valid s = (s2, ev2)" by (cases "return_proofs S lc E valid s")
  obtain s3 ev3 where c: "shut_proofs S lc E valid s = (s3, ev3)" by (cases "shut_proofs S lc E valid s")
  have "calm S lc env sids s (s1, ev1)" "calm S lc env sids s (s2, ev2)" "calm S lc env sids s (s3, ev3)"
    using settle_not_required_calm [OF assms(1,2), of S lc s "namedMessageIndex err (length valid)" 0]
      return_proofs_calm [OF assms(1,2), of S lc s] shut_proofs_calm [OF assms(1,2), of S lc s] a b c
    by (auto simp: settleNotRequiredBatch_def)
  then show ?thesis using assms(3) unfolding answer_proofs_def a b c by (simp split: if_splits)
qed

lemma proof_round_calm:
  assumes "envs env E" "known sids valid"
    and "proof_round S lc E X close weighted msgs valid retry i payload lastErr shape s = (sends, nx, shape', s', ev)"
  shows "calm S lc env sids s (s', ev)"
proof -
  obtain w asked shape1 where w: "Weighted (shape_height X i) (shape_plan X i) shape = (w, asked, shape1)"
    by (cases "Weighted (shape_height X i) (shape_plan X i) shape")
  obtain send h tx a where r: "resendOrSignProofs X i close payload lastErr msgs = (send, h, tx, a)"
    by (cases "resendOrSignProofs X i close payload lastErr msgs")
  obtain s2 ev2 where b: "return_proofs S lc E valid s = (s2, ev2)" by (cases "return_proofs S lc E valid s")
  have c2: "calm S lc env sids s (s2, ev2)" using return_proofs_calm [OF assms(1,2), of S lc s] b by simp
  show ?thesis
  proof (cases a)
    case None
    then show ?thesis using assms(3) w r b c2 by (auto simp: proof_round_def split: if_splits)
  next
    case (Some err)
    obtain nx' sh s1 ev1 where ans: "answer_proofs S lc E X close weighted valid retry i tx err shape1 s = (nx', sh, s1, ev1)"
      by (cases "answer_proofs S lc E X close weighted valid retry i tx err shape1 s")
    then show ?thesis using assms(3) w r b c2 Some answer_proofs_calm [OF assms(1,2) ans]
      by (auto simp: proof_round_def split: if_splits)
  qed
qed

lemma submit_proofs_calm:
  assumes "envs env E" "known sids valid"
  shows "submit_proofs S lc E X close weighted msgs valid left i payload lastErr shape s = r
    \<Longrightarrow> calm S lc env sids s (po_store r, po_events r)"
proof (induction left arbitrary: i payload lastErr shape s r)
  case 0
  then show ?case by auto
next
  case (Suc left)
  obtain sends nx shape' s1 ev where
    p: "proof_round S lc E X close weighted msgs valid (left > 0) i payload lastErr shape s = (sends, nx, shape', s1, ev)"
    by (cases "proof_round S lc E X close weighted msgs valid (left > 0) i payload lastErr shape s")
  note c = proof_round_calm [OF assms p]
  show ?case
  proof (cases nx)
    case (ProofStop out)
    then show ?thesis using Suc.prems p c by auto
  next
    case (ProofAgain payload' err)
    note ih = Suc.IH [where i = "Suc i" and payload = payload' and lastErr = "Some err" and shape = shape' and s = s1, OF refl]
    show ?thesis using Suc.prems p ProofAgain calm_trans [OF c ih] by (auto simp: Let_def)
  qed
qed

lemma note_proofs_calm: "\<lbrakk>envs env E; known sids xs\<rbrakk> \<Longrightarrow> calm S lc env sids s (note_proofs S lc E h xs s)"
proof (induction xs arbitrary: s)
  case (Cons x xs)
  have x: "range (E (SessionID x) 4) \<subseteq> env" "SessionID x \<in> sids" using Cons.prems by (auto simp: envs_def)
  obtain err s1 ev1 where c: "coordinate lc (\<lambda>c. OnProofSubmitted S c (E (SessionID x) 4) (SessionID x) h) s = (err, s1, ev1)"
    by (cases "coordinate lc (\<lambda>c. OnProofSubmitted S c (E (SessionID x) 4) (SessionID x) h) s")
  obtain s2 ev2 where n: "note_proofs S lc E h xs s1 = (s2, ev2)" by (cases "note_proofs S lc E h xs s1")
  have "calm S lc env sids s1 (s2, ev2)" using Cons.IH [of s1] Cons.prems n by simp
  then show ?case using calm_trans [OF coordinate_calms(12) [OF x c]] c n by simp
qed simp

lemma book_proved_quiet [simp]: "quiet (book_proved lc xs)"
  unfolding book_proved_def by (rule quiet_concat) auto

lemma conclude_proofs_calm:
  assumes "envs env E" "known sids valid" "calm S lc env sids s (po_store sub, po_events sub)"
    and "conclude_proofs S lc E grp valid sub = (named, sends, shape, s', ev, stop)"
  shows "calm S lc env sids s (s', ev)"
proof (cases "po_outcome sub")
  case (ProofsSubmitted h p)
  obtain s1 ev1 where n: "note_proofs S lc E h valid (po_store sub) = (s1, ev1)" by (cases "note_proofs S lc E h valid (po_store sub)")
  then have "calm S lc env sids (po_store sub) (s1, ev1)" using note_proofs_calm [OF assms(1,2), of S lc "po_store sub" h] by simp
  from calm_trans [OF assms(3) this] show ?thesis using assms(4) ProofsSubmitted n by (auto simp: conclude_proofs_def calm_def)
next
  case (ProofsExhausted err p)
  show ?thesis
  proof (cases err)
    case None
    then show ?thesis using assms(3,4) ProofsExhausted by (auto simp: conclude_proofs_def)
  next
    case (Some er)
    define b where "b = (lc_rebroadcast lc \<noteq> None)"
    obtain s1 ev1 where f: "for_each (\<lambda>snapshot. fail_proof b S lc (E (SessionID snapshot) 6) snapshot) valid (po_store sub) = (s1, ev1)"
      by (cases "for_each (\<lambda>snapshot. fail_proof b S lc (E (SessionID snapshot) 6) snapshot) valid (po_store sub)")
    have "calm S lc env sids (po_store sub) (for_each (\<lambda>snapshot. fail_proof b S lc (E (SessionID snapshot) 6) snapshot) valid (po_store sub))"
      using assms(1,2) by (intro for_each_calm fail_proof_calm) (auto simp: envs_def known_def)
    then have "calm S lc env sids s (s1, po_events sub @ ev1)" using calm_trans [OF assms(3)] f by simp
    then show ?thesis using assms(3,4) ProofsExhausted Some f unfolding conclude_proofs_def b_def [symmetric]
      by (auto simp: calm_def split: if_splits)
  qed
qed (use assms(3,4) in \<open>auto simp: conclude_proofs_def\<close>)

definition proofs_report_once :: "(string \<Rightarrow> ('p, 'd) proof_world) \<Rightarrow> bool" where
  "proofs_report_once Ws = (\<forall>sid rs. mset (pw_arrival (Ws sid) rs) = mset rs)"

lemma collected_proofs:
  assumes "collectProofBuildResults n rs = (built, failed)"
  shows "set built \<subseteq> set rs"
proof -
  have "set (fst (fold (\<lambda>r (built, failed). if pr_err r \<noteq> None then (built, failed @ [r]) else (built @ [r], failed)) xs (b, f)))
      \<subseteq> set b \<union> set xs" for xs :: "'a proofBuildResult list" and b f
  proof (induction xs arbitrary: b f)
    case (Cons x xs)
    show ?case using Cons.IH [of b "f @ [x]"] Cons.IH [of "b @ [x]" f] by auto
  qed simp
  from this [of "take n rs" "[]" "[]"] show ?thesis
    using assms by (auto simp: collectProofBuildResults_def dest: in_set_takeD)
qed

lemma prove_group_calm:
  assumes "\<And>rs. mset (pw_arrival W rs) = mset rs" "envs env E" "known sids needing"
    and "prove_group S lc E W close seed grp needing shape s = (named, sends, shape', s', ev, stop)"
  shows "calm S lc env sids s (s', ev)"
proof -
  obtain w asked shape1 where w: "Weighted (pw_shape_height W) (pw_plan W) shape = (w, asked, shape1)"
    by (cases "Weighted (pw_shape_height W) (pw_plan W) shape")
  define results where "results = map (\<lambda>(i, snap). build_proof W w seed i snap) (enumerate 0 needing)"
  obtain built failed where coll: "collectProofBuildResults (length needing) (pw_arrival W results) = (built, failed)"
    by (cases "collectProofBuildResults (length needing) (pw_arrival W results)")
  obtain msgs msgs' valid where al: "alignProofBatch built = (msgs, msgs', valid)" by (cases "alignProofBatch built")
  have "set (pw_arrival W results) = set results" using assms(1) [of results] by (metis set_mset_mset)
  then have "pr_snapshot r \<in> set needing" if "r \<in> set built" for r
    using collected_proofs [OF coll] that
    by (auto simp: results_def build_proof_def Let_def in_set_enumerate_eq split: sum.splits dest!: subsetD)
  then have valid: "known sids valid" using al assms(3) by (auto simp: alignProofBatch_def Let_def known_def)
  define ev0 where "ev0 = concat (map (\<lambda>r. proof_skipped (pr_snapshot r) ProofSkippedReasonBuildFailed) failed)"
  have q: "quiet ev0" unfolding ev0_def by (rule quiet_concat) auto
  obtain s1 ev1 where sh: "shut_proofs S lc E valid s = (s1, ev1)" by (cases "shut_proofs S lc E valid s")
  have c1: "calm S lc env sids s (s1, ev0 @ ev1)" using calm_pre shut_proofs_calm [OF assms(2) valid, of S lc s] sh q by metis
  define sub where "sub = submit_proofs S lc E (pw_tx W) close w msgs valid (ProofRetryAttempts lc) (Suc 0) no_payload None shape1 s"
  note cs = submit_proofs_calm [OF assms(2) valid sub_def [symmetric]]
  obtain n2 t2 sh2 s2 ev2 st2 where co: "conclude_proofs S lc E grp valid sub = (n2, t2, sh2, s2, ev2, st2)"
    by (cases "conclude_proofs S lc E grp valid sub")
  have c2: "calm S lc env sids s (s2, ev0 @ count_claims RecordProofCreated valid @ ev2)"
    using conclude_proofs_calm [OF assms(2) valid cs co] q by (auto simp: calm_def)
  show ?thesis using assms(4) w coll al sh c1 co c2 q
    unfolding prove_group_def Let_def results_def [symmetric]
    by (auto simp: ev0_def [symmetric] sub_def [symmetric] results_def [symmetric] split: if_splits)
qed

lemma proof_group_calm:
  assumes "\<And>rs. mset (pw_arrival W rs) = mset rs" "envs env E" "known sids g"
    and "proof_group S lc E W g shape s = (named, sends, shape', s', ev, stop)"
  shows "calm S lc env sids s (s', ev)"
proof -
  obtain s1 ev1 where rp: "return_proofs S lc E g s = (s1, ev1)" by (cases "return_proofs S lc E g s")
  have c1: "calm S lc env sids s (s1, ev1)" using return_proofs_calm [OF assms(2,3), of S lc s] rp by simp
  show ?thesis
  proof (cases "pw_params W (SessionEndHeight (hd g))")
    case (Inl err)
    then show ?thesis using assms(4) rp c1 by (auto simp: proof_group_def)
  next
    case (Inr p)
    define pc where "pc = GetProofWindowCloseHeight (pw_windows W) p (SessionEndHeight (hd g))"
    define cc where "cc = GetClaimWindowCloseHeight (pw_windows W) p (SessionEndHeight (hd g))"
    define hh where "hh = GetEarliestSupplierProofCommitHeight W p (SessionEndHeight (hd g)) (SupplierOperatorAddress (hd g)) - 1"
    note run = assms(4) [unfolded proof_group_def Let_def Inr sum.case, folded pc_def cc_def hh_def]
    show ?thesis
    proof (cases "pw_seed W hh")
      case (Inl err)
      then show ?thesis using run rp c1 by (auto split: if_splits)
    next
      case (Inr seed)
      obtain needing judged s2 ev2 where d: "decide_each (select_proof S lc E W cc pc seed) g s = (needing, judged, s2, ev2)"
        by (cases "decide_each (select_proof S lc E W cc pc seed) g s")
      have c2: "calm S lc env sids s (s2, ev2)" "known sids needing"
        using decide_each_calm [OF select_proof_calm [OF assms(2)] assms(3) d] assms(3) by (auto simp: known_def)
      obtain s3 ev3 where r3: "return_proofs S lc E needing s2 = (s3, ev3)" by (cases "return_proofs S lc E needing s2")
      obtain s4 ev4 where r4: "shut_proofs S lc E needing s2 = (s4, ev4)" by (cases "shut_proofs S lc E needing s2")
      obtain still s5 ev5 where r5: "recheck_proofs S lc E W seed needing s2 = (still, s5, ev5)"
        by (cases "recheck_proofs S lc E W seed needing s2")
      obtain n6 t6 sh6 s6 ev6 st6 where r6: "prove_group S lc E W pc seed g still shape s5 = (n6, t6, sh6, s6, ev6, st6)"
        by (cases "prove_group S lc E W pc seed g still shape s5")
      have c3: "calm S lc env sids s (s3, ev2 @ ev3)" "calm S lc env sids s (s4, ev2 @ ev4)"
        using calm_trans [OF c2(1)] return_proofs_calm [OF assms(2) c2(2), of S lc s2] shut_proofs_calm [OF assms(2) c2(2), of S lc s2] r3 r4
        by auto
      have r5c: "calm S lc env sids s2 (s5, ev5)" "known sids still" using recheck_calm [OF assms(2) c2(2) r5] by auto
      have c5: "calm S lc env sids s (s5, ev2 @ ev5)" using calm_trans [OF c2(1) r5c(1)] .
      have c6: "calm S lc env sids s (s6, ev2 @ ev5 @ ev6)"
        using calm_trans [OF c5 prove_group_calm [OF assms(1,2) r5c(2) r6]] by simp
      show ?thesis using run Inr rp c1 d c2 r3 r4 c3 r5 c5 r6 c6 by (auto split: if_splits)
    qed
  qed
qed

lemma proof_groups_calm:
  assumes "proofs_report_once Ws" "envs env E"
  shows "\<lbrakk>known sids (concat gs); proof_groups S lc E Ws gs shape s = (named, sends, shape', s', ev)\<rbrakk> \<Longrightarrow> calm S lc env sids s (s', ev)"
proof (induction gs arbitrary: shape s named sends shape' s' ev)
  case (Cons g gs)
  obtain n1 t1 sh1 s1 e1 stop where g: "proof_group S lc E (Ws (SessionID (hd g))) g shape s = (n1, t1, sh1, s1, e1, stop)"
    by (cases "proof_group S lc E (Ws (SessionID (hd g))) g shape s")
  have kg: "known sids g" "known sids (concat gs)" using Cons.prems(1) by (auto simp: known_def)
  have c: "calm S lc env sids s (s1, e1)" using assms(1) by (intro proof_group_calm [OF _ assms(2) kg(1) g]) (simp add: proofs_report_once_def)
  obtain n2 t2 sh2 s2 e2 where r: "proof_groups S lc E Ws gs sh1 s1 = (n2, t2, sh2, s2, e2)" by (cases "proof_groups S lc E Ws gs sh1 s1")
  show ?case using Cons.prems(2) g r c calm_trans [OF c Cons.IH [OF kg(2) r]] by (cases stop) auto
qed simp

lemma need_proof_calm:
  assumes "proofs_report_once Ws" "envs env E" "known sids xs"
    and "lc_OnSessionsNeedProof S lc E Ws xs shape s = (named, sends, shape', s', ev)"
  shows "calm S lc env sids s (s', ev)"
  by (rule proof_groups_calm [OF assms(1,2) _ assms(4) [unfolded lc_OnSessionsNeedProof_def]])
    (use assms(3) in \<open>auto simp: known_def groupOnePerSession_def orderGroupsByWindow_def\<close>)

section \<open>The store's invariant\<close>

context session_store
begin

lemma closed_inv:
  assumes "inv s" "\<And>i. env (e i)" "sids sid" "OnClaimWindowClosed S c e sid s = (err, s', ev)"
  shows "inv s'"
  using assms UpdateState_ok [OF assms(1) assms(2) [of 0] assms(3)]
  by (auto simp: OnClaimWindowClosed_def split: if_splits prod.splits option.splits)

lemma tx_error_inv:
  assumes "inv s" "\<And>i. env (e i)" "sids sid" "OnClaimTxError S c e sid v s = (err, s', ev)"
  shows "inv s'"
  using assms MarkClaimTxError_ok [OF assms(1) assms(2) assms(3)]
  unfolding OnClaimTxError_def Let_def by (auto split: if_splits prod.splits option.splits sum.splits)

lemma missing_inv:
  assumes "inv s" "\<And>i. env (e i)" "sids sid" "OnClaimMissing S c e sid s = (err, s', ev)"
  shows "inv s'"
  using assms MarkClaimMissing_ok [OF assms(1) assms(2) assms(3)]
  unfolding OnClaimMissing_def Let_def by (auto split: if_splits prod.splits option.splits sum.splits)

lemma coord_step_inv:
  assumes "inv s" "range e \<subseteq> Collect env" "sid \<in> Collect sids" "callback_ok view inv env c"
    and "coord_step S c e sid op s = (s', ev)"
  shows "inv s'"
proof (cases "claim_phase_failure op")
  case True
  have e: "\<And>i. env (e i)" using assms(2) by auto
  show ?thesis
    using True assms(1,3,5) closed_inv [OF assms(1) e] tx_error_inv [OF assms(1) e] missing_inv [OF assms(1) e]
    by (cases op) (auto simp: claim_phase_failure_def prod_eq_iff)
next
  case False
  then show ?thesis using step_ok [of s e sid c op s' ev] assms by auto
qed

lemma coordinated_inv:
  assumes "coordinated S lc (Collect env) (Collect sids) s s'" "inv s"
    and "\<And>c. lc_coordinator lc = Some c \<Longrightarrow> callback_ok view inv env c"
  shows "inv s'"
  using assms(1,2) by (induction rule: coordinated.induct) (auto intro: coord_step_inv assms(3))

end

end
