(* ===== verification/Lifecycle_Runs.thy ===== *)
theory Lifecycle_Runs
  imports Callback_Contract Redis_Contract Pebble_Sessions
begin

text \<open>
  Runs of the lifecycle manager: passes, tasks of its pool in any order, sessions tracked and removed, and other writers
  of the store in between, as a step relation. The locale \<open>lifecycle_client\<close> is what the manager relies on of its store
  and its callback; the callback of \<open>src/miner/lifecycle_callback.go\<close> meets it over both stores.
\<close>

section \<open>What the manager relies on\<close>

locale lifecycle_client =
  fixes S :: "('e, 's) SessionStore"
    and C :: "('e, 's) SessionLifecycleCallback"
    and inv :: "'s \<Rightarrow> bool"
    and env :: "'e set"
    and sids :: "string set"
  assumes Get_own: "\<lbrakk>inv s; e \<in> env; sid \<in> sids; Get S e sid s = Inr (Some x)\<rbrakk> \<Longrightarrow> SessionID x = sid"
    and Update_keeps: "\<lbrakk>inv s; e \<in> env; sid \<in> sids; UpdateState S e sid st s = (err, s')\<rbrakk> \<Longrightarrow> inv s'"
    and claim_keeps: "\<lbrakk>inv s; envs env E; known sids xs; OnSessionsNeedClaim C E xs s = ((named, xs'), s', ev)\<rbrakk>
       \<Longrightarrow> inv s' \<and> quiet ev \<and> map SessionID xs' = map SessionID xs"
    and proof_keeps: "\<lbrakk>inv s; envs env E; known sids xs; OnSessionsNeedProof C E xs s = ((named, xs'), s', ev)\<rbrakk>
       \<Longrightarrow> inv s' \<and> quiet ev \<and> map SessionID xs' = map SessionID xs"
    and terminal_keeps: "\<lbrakk>inv s; range es \<subseteq> env; SessionID x \<in> sids; cb_terminal C st es x s = (s', ev)\<rbrakk> \<Longrightarrow> inv s' \<and> quiet ev"
    and observe_keeps: "\<lbrakk>inv s; range es \<subseteq> env; SessionID x \<in> sids; cb_observer C = Some f; f es x s = (r, s', ev)\<rbrakk>
       \<Longrightarrow> inv s' \<and> quiet ev"
    and flush_keeps: "\<lbrakk>inv s; range es \<subseteq> env; flushPendingRelays C = Some g\<rbrakk> \<Longrightarrow> inv (g es ids s)"

text \<open>The miner's callback meets it over a store that meets its contract.\<close>

definition flush_ok :: "('s \<Rightarrow> bool) \<Rightarrow> 'e set \<Rightarrow> ((nat \<Rightarrow> 'e) \<Rightarrow> string list \<Rightarrow> 's \<Rightarrow> 's) option \<Rightarrow> bool" where
  "flush_ok good env flush = (\<forall>g e ids s. flush = Some g \<longrightarrow> good s \<longrightarrow> range e \<subseteq> env \<longrightarrow> good (g e ids s))"

context session_store
begin

lemma miner_client:
  assumes "\<And>c. lc_coordinator lc = Some c \<Longrightarrow> callback_ok view inv env c" "reports_once W" "proofs_report_once Ws"
    and "flush_ok inv (Collect env) flush"
  shows "lifecycle_client S (lifecycle_callback S lc W Ws shape meter flush) inv (Collect env) (Collect sids)"
proof (unfold_locales, goal_cases)
  case (1 s e sid x)
  then show ?case using Get_id by simp
next
  case (2 s e sid st err s')
  then show ?case using UpdateState_ok by simp
next
  case (3 s E xs named xs' s' ev)
  obtain cl sends s1 ev1 where r: "lc_OnSessionsNeedClaim S lc E W xs s = (cl, sends, s1, ev1)"
    by (cases "lc_OnSessionsNeedClaim S lc E W xs s")
  have "calm S lc (Collect env) (Collect sids) s (s1, ev1)" by (rule need_claim_calm [OF assms(2) 3(2,3) r])
  then show ?case using 3(1,4) r coordinated_inv [OF _ 3(1) assms(1)] by (auto simp: lifecycle_callback_def calm_def)
next
  case (4 s E xs named xs' s' ev)
  obtain nm sends sh s1 ev1 where r: "lc_OnSessionsNeedProof S lc E Ws xs shape s = (nm, sends, sh, s1, ev1)"
    by (cases "lc_OnSessionsNeedProof S lc E Ws xs shape s")
  have "calm S lc (Collect env) (Collect sids) s (s1, ev1)" by (rule need_proof_calm [OF assms(3) 4(2,3) r])
  then show ?case using 4(1,4) r coordinated_inv [OF _ 4(1) assms(1)] by (auto simp: lifecycle_callback_def calm_def)
next
  case (5 s e x st s' ev)
  then show ?case using terminal_calm [OF 5(2,3), of S lc s st] coordinated_inv [OF _ 5(1) assms(1)]
    by (auto simp: lifecycle_callback_def calm_def)
next
  case (6 s e x f r s' ev)
  then have "ObserveClaimOnChain S lc e x s = (r, s', ev)" by (simp add: lifecycle_callback_def)
  from observe_calm [OF this 6(2,3)] show ?case using coordinated_inv [OF _ 6(1) assms(1)] by (auto simp: calm_def)
next
  case (7 s e g ids)
  then show ?case using assms(4) by (simp add: lifecycle_callback_def flush_ok_def)
qed

end

section \<open>Steps\<close>

text \<open>
  A state of a run: the manager, the store, the tasks of the pool and the trail of events. With \<open>drained\<close> a pass starts only when no
  task that settles a session is left; the pool may run the tasks in any order. \<open>good\<close> is what the other writers of the
  store (the relay consumer, the reconciler, another miner) keep.
\<close>

type_synonym 's run_state = "lifecycle \<times> 's \<times> transition_task list \<times> lifecycle_event list"

fun settles :: "transition_task \<Rightarrow> string list" where
  "settles (ClaimTask xs h) = []"
| "settles (ProofTask xs) = map SessionID xs"
| "settles (TerminalTask st x) = [SessionID x]"

definition settling :: "transition_task list \<Rightarrow> string list" where
  "settling tasks = concat (map settles tasks)"

definition callbacks :: "string \<Rightarrow> lifecycle_event list \<Rightarrow> nat" where
  "callbacks sid trail = length (filter (\<lambda>e. case e of TerminalCallback st x \<Rightarrow> SessionID x = sid | _ \<Rightarrow> False) trail)"

inductive lifecycle_step ::
  "'p windows \<Rightarrow> ('e, 's) SessionStore \<Rightarrow> ('e, 's) SessionLifecycleCallback \<Rightarrow> ('s \<Rightarrow> bool) \<Rightarrow> 'e set \<Rightarrow> string set \<Rightarrow> bool
   \<Rightarrow> 's run_state \<Rightarrow> 's run_state \<Rightarrow> bool"
  for W S C good env sids drained where
  pass_step: "\<lbrakk>drained \<longrightarrow> settling queue = []; envs env E;
      checkSessionTransitions W S C Q E now height (m, s) = (m', s', ev, tasks)\<rbrakk>
    \<Longrightarrow> lifecycle_step W S C good env sids drained (m, s, queue, trail) (m', s', queue @ tasks, trail @ ev)"
| claim_step: "\<lbrakk>envs env E; envs env F; range e \<subseteq> env; executeBatchedClaimTransition S C E e F xs s = (s', ev)\<rbrakk>
    \<Longrightarrow> lifecycle_step W S C good env sids drained (m, s, q1 @ ClaimTask xs h # q2, trail) (m, s', q1 @ q2, trail @ ev)"
| proof_step: "\<lbrakk>envs env E; envs env F; executeBatchedProofTransition S C E F now xs (m, s) = (m', s', ev)\<rbrakk>
    \<Longrightarrow> lifecycle_step W S C good env sids drained (m, s, q1 @ ProofTask xs # q2, trail) (m', s', q1 @ q2, trail @ ev)"
| terminal_step: "\<lbrakk>envs env E; executeTransition S C E st x (m, s) = (m', s', ev)\<rbrakk>
    \<Longrightarrow> lifecycle_step W S C good env sids drained (m, s, q1 @ TerminalTask st x # q2, trail) (m', s', q1 @ q2, trail @ ev)"
| track_step: "\<lbrakk>callbacks (SessionID x) trail = 0; SessionID x \<in> sids; TrackSession S e x m s = (err, m', s'); good s'\<rbrakk>
    \<Longrightarrow> lifecycle_step W S C good env sids drained (m, s, queue, trail) (m', s', queue, trail)"
| remove_step: "lifecycle_step W S C good env sids drained (m, s, queue, trail) (RemoveSession sid m, s, queue, trail)"
| other_step: "good s' \<Longrightarrow> lifecycle_step W S C good env sids drained (m, s, queue, trail) (m, s', queue, trail)"

section \<open>A pass\<close>

definition keys :: "lifecycle \<Rightarrow> string list" where
  "keys m = map fst (activeSessions m)"

definition pass_ids :: "'s pass \<Rightarrow> string list" where
  "pass_ids ps = map SessionID (claimingSessions ps) @ map SessionID (provingSessions ps) @ map (SessionID \<circ> snd) (terminalSessions ps)"

text \<open>
  What the loop of a pass keeps: it queues each session at most once, among those it has judged, and tracks no session it
  did not track before.
\<close>

definition pass_ok :: "('s \<Rightarrow> bool) \<Rightarrow> lifecycle \<Rightarrow> string list \<Rightarrow> 's pass \<Rightarrow> bool" where
  "pass_ok good m0 seen ps =
     (good (ps_store ps) \<and> quiet (ps_events ps) \<and> distinct (keys (ps_manager ps)) \<and> set (keys (ps_manager ps)) \<subseteq> set (keys m0)
      \<and> distinct (pass_ids ps) \<and> set (pass_ids ps) \<subseteq> set seen \<and> (\<forall>(st, x) \<in> set (terminalSessions ps). IsTerminal st))"

lemma keys_forget [simp]: "keys (forgetSession sid m) = removeAll sid (keys m)"
  by (simp add: keys_def forgetSession_def AList.delete_keys)

lemma envs_in: "envs env E \<Longrightarrow> E sid i j \<in> env"
  by (auto simp: envs_def image_subset_iff)

lemma keys_unresume [simp]: "keys (unresume sid m) = keys m"
  by (simp add: keys_def unresume_def)

lemma keys_update:
  "set (keys (m\<lparr>activeSessions := AList.update sid x (activeSessions m)\<rparr>)) = insert sid (set (keys m))"
  "distinct (keys m) \<Longrightarrow> distinct (keys (m\<lparr>activeSessions := AList.update sid x (activeSessions m)\<rparr>))"
  using dom_update [of sid x "activeSessions m"] distinct_update [of "activeSessions m" sid x] by (auto simp: keys_def)

lemma keys_remove [simp]: "keys (RemoveSession sid m) = removeAll sid (keys m)"
  by (simp add: keys_def RemoveSession_def AList.delete_keys)

lemma pass_ok_seen: "pass_ok good m0 seen ps \<Longrightarrow> pass_ok good m0 (sid # seen) ps"
  by (auto simp: pass_ok_def)

lemma pass_ok_manager:
  assumes "pass_ok good m0 seen ps" "distinct (keys m)" "set (keys m) \<subseteq> set (keys m0)" "good s" "quiet ev"
  shows "pass_ok good m0 seen (ps\<lparr>ps_manager := m, ps_store := s, ps_events := ps_events ps @ ev\<rparr>)"
  using assms by (auto simp: pass_ok_def pass_ids_def)

lemma pass_ok_forget: "pass_ok good m0 seen ps \<Longrightarrow> pass_ok good m0 seen (ps\<lparr>ps_manager := forgetSession sid (ps_manager ps)\<rparr>)"
  by (auto simp: pass_ok_def pass_ids_def distinct_removeAll)

lemma pass_ok_unresume: "pass_ok good m0 seen ps \<Longrightarrow> pass_ok good m0 seen (ps\<lparr>ps_manager := unresume sid (ps_manager ps)\<rparr>)"
  by (auto simp: pass_ok_def pass_ids_def)

lemma dispatch_ok:
  assumes "pass_ok good m0 seen ps" "SessionID x = sid" "sid \<notin> set seen"
  shows "pass_ok good m0 (sid # seen) (dispatch st x ps)"
proof -
  have "SessionID x \<notin> set (pass_ids ps)" using assms by (auto simp: pass_ok_def)
  then show ?thesis using assms by (auto simp: pass_ok_def pass_ids_def dispatch_def)
qed

context lifecycle_client
begin

lemma judge_closed_ok:
  assumes "pass_ok inv m0 seen ps" "SessionID x = sid" "sid \<notin> set seen" "sid \<in> sids" "sid \<in> set (keys m0)" "envs env E"
  shows "pass_ok inv m0 (sid # seen) (judge_closed S C E x ps)"
proof (cases "cb_observer C")
  case None
  then show ?thesis using dispatch_ok [OF pass_ok_unresume [OF assms(1), of sid] assms(2,3)] assms(2) by (simp add: judge_closed_def)
next
  case (Some observe)
  obtain r s1 ev where o: "observe (E sid 1) x (ps_store ps) = (r, s1, ev)" by (cases "observe (E sid 1) x (ps_store ps)")
  have ps: "inv (ps_store ps)" "distinct (keys (ps_manager ps))" "set (keys (ps_manager ps)) \<subseteq> set (keys m0)"
    using assms(1) by (auto simp: pass_ok_def)
  have ok: "inv s1" "quiet ev"
    using observe_keeps [OF ps(1) _ _ Some o] assms(2,4,6) by (auto simp: envs_def)
  note upd = pass_ok_manager [OF assms(1) _ _ ok]
  show ?thesis
  proof (cases r)
    case (Inl err)
    then show ?thesis using Some o assms(2) pass_ok_seen [OF upd [OF ps(2,3)]] by (simp add: judge_closed_def)
  next
    case (Inr found)
    show ?thesis
    proof (cases found)
      case True
      let ?m1 = "unresume sid (ps_manager ps)"
      define m2 where "m2 = (case Get S (E sid 2 0) sid s1 of
          Inr (Some fresh) \<Rightarrow> ?m1\<lparr>activeSessions := AList.update sid fresh (activeSessions ?m1)\<rparr> | _ \<Rightarrow> ?m1)"
      have "distinct (keys m2) \<and> set (keys m2) \<subseteq> set (keys m0)"
        using keys_update [where m = ?m1 and sid = sid] ps assms(5) by (auto simp: m2_def split: sum.splits option.splits)
      then show ?thesis using Some o Inr True assms(2) pass_ok_seen [OF upd, of m2 sid] by (simp add: judge_closed_def Let_def m2_def)
    next
      case False
      have "pass_ok inv m0 seen (ps\<lparr>ps_manager := unresume sid (ps_manager ps), ps_store := s1, ps_events := ps_events ps @ ev\<rparr>)"
        using upd [of "unresume sid (ps_manager ps)"] ps by simp
      from dispatch_ok [OF this assms(2,3)] show ?thesis using Some o Inr False assms(2) by (simp add: judge_closed_def)
    qed
  qed
qed

lemma judge_session_ok:
  assumes "pass_ok inv m0 seen ps" "sid \<notin> set seen" "sid \<in> sids" "sid \<in> set (keys m0)" "envs env E"
  shows "pass_ok inv m0 (sid # seen) (judge_session W S C params height E sid ps)"
proof (cases "Get S (E sid 0 0) sid (ps_store ps)")
  case (Inl err)
  then show ?thesis using pass_ok_seen [OF pass_ok_forget [OF assms(1)]] by (simp add: judge_session_def)
next
  case (Inr r)
  show ?thesis
  proof (cases r)
    case None
    then show ?thesis using Inr pass_ok_seen [OF pass_ok_forget [OF assms(1)]] by (simp add: judge_session_def)
  next
    case (Some x)
    then have id: "SessionID x = sid"
      using Get_own [of "ps_store ps" "E sid 0 0" sid x] assms(1,3) envs_in [OF assms(5)] Inr by (auto simp: pass_ok_def)
    show ?thesis
      using Inr Some pass_ok_seen [OF assms(1)] pass_ok_seen [OF pass_ok_forget [OF assms(1)]] dispatch_ok [OF assms(1) id assms(2)]
        judge_closed_ok [OF assms(1) id assms(2-5)]
      by (auto simp: judge_session_def Let_def split: option.splits)
  qed
qed

lemma judge_all_ok:
  assumes "pass_ok inv m0 seen ps" "distinct (seen @ ids)" "set ids \<subseteq> sids" "set ids \<subseteq> set (keys m0)" "envs env E"
  shows "\<exists>seen'. set seen' = set seen \<union> set ids \<and> pass_ok inv m0 seen' (judge_all W S C params height E ids ps)"
  using assms
proof (induction ids arbitrary: seen ps)
  case (Cons sid ids)
  have "pass_ok inv m0 (sid # seen) (judge_session W S C params height E sid ps)"
    using Cons.prems by (intro judge_session_ok) auto
  from Cons.IH [OF this] Cons.prems obtain seen' where "set seen' = set (sid # seen) \<union> set ids"
    "pass_ok inv m0 seen' (judge_all W S C params height E ids (judge_session W S C params height E sid ps))" by auto
  then show ?case by auto
qed auto

end

lemma persistClaiming_ids:
  "persistClaiming S C E now xs s = (valid, s', ev) \<Longrightarrow> set (map SessionID valid) \<subseteq> set (map SessionID xs) \<and> quiet ev"
proof (induction xs arbitrary: s valid s' ev)
  case (Cons x xs)
  obtain r s1 where u: "UpdateState S (E (SessionID x) 3 0) (SessionID x) SessionStateClaiming s = (r, s1)"
    by (cases "UpdateState S (E (SessionID x) 3 0) (SessionID x) SessionStateClaiming s")
  obtain v s2 ev2 where p: "persistClaiming S C E now xs s1 = (v, s2, ev2)" by (cases "persistClaiming S C E now xs s1")
  show ?case using Cons.prems u p Cons.IH [OF p] by (auto simp: quiet_def subset_iff image_iff split: option.splits if_splits; metis)
qed (simp add: quiet_def)

lemma persistProving_ids:
  "persistProving S E now xs s = (valid, s') \<Longrightarrow>
     set (map SessionID valid) \<subseteq> set (map SessionID xs) \<and> (distinct (map SessionID xs) \<longrightarrow> distinct (map SessionID valid))"
proof (induction xs arbitrary: s valid s')
  case (Cons x xs)
  obtain r s1 where u: "UpdateState S (E (SessionID x) 3 0) (SessionID x) SessionStateProving s = (r, s1)"
    by (cases "UpdateState S (E (SessionID x) 3 0) (SessionID x) SessionStateProving s")
  obtain v s2 where p: "persistProving S E now xs s1 = (v, s2)" by (cases "persistProving S E now xs s1")
  show ?case using Cons.prems u p Cons.IH [OF p] by (auto simp: subset_iff image_iff split: option.splits if_splits; metis)
qed simp

text \<open>The sessions a task is about.\<close>

fun task_sessions :: "transition_task \<Rightarrow> SessionSnapshot list" where
  "task_sessions (ClaimTask xs h) = xs"
| "task_sessions (ProofTask xs) = xs"
| "task_sessions (TerminalTask st x) = [x]"

definition tasks_known :: "string set \<Rightarrow> transition_task list \<Rightarrow> bool" where
  "tasks_known sids tasks = (\<forall>t \<in> set tasks. known sids (task_sessions t))"

definition tasks_typed :: "transition_task list \<Rightarrow> bool" where
  "tasks_typed tasks = (\<forall>t \<in> set tasks. case t of TerminalTask st x \<Rightarrow> IsTerminal st | _ \<Rightarrow> True)"

context lifecycle_client
begin

lemma persistClaiming_inv:
  "\<lbrakk>persistClaiming S C E now xs s = (valid, s', ev); inv s; known sids xs; envs env E\<rbrakk> \<Longrightarrow> inv s'"
proof (induction xs arbitrary: s valid s' ev)
  case (Cons x xs)
  obtain r s1 where u: "UpdateState S (E (SessionID x) 3 0) (SessionID x) SessionStateClaiming s = (r, s1)"
    by (cases "UpdateState S (E (SessionID x) 3 0) (SessionID x) SessionStateClaiming s")
  have i: "inv s1" using Update_keeps [OF Cons.prems(2) envs_in [OF Cons.prems(4)] _ u] Cons.prems(3) by (simp add: known_def)
  obtain v s2 ev2 where p: "persistClaiming S C E now xs s1 = (v, s2, ev2)" by (cases "persistClaiming S C E now xs s1")
  show ?case using Cons.prems u p Cons.IH [OF p i] by (auto simp: known_def split: option.splits)
qed simp

lemma persistProving_inv:
  "\<lbrakk>persistProving S E now xs s = (valid, s'); inv s; known sids xs; envs env E\<rbrakk> \<Longrightarrow> inv s'"
proof (induction xs arbitrary: s valid s')
  case (Cons x xs)
  obtain r s1 where u: "UpdateState S (E (SessionID x) 3 0) (SessionID x) SessionStateProving s = (r, s1)"
    by (cases "UpdateState S (E (SessionID x) 3 0) (SessionID x) SessionStateProving s")
  have i: "inv s1" using Update_keeps [OF Cons.prems(2) envs_in [OF Cons.prems(4)] _ u] Cons.prems(3) by (simp add: known_def)
  obtain v s2 where p: "persistProving S E now xs s1 = (v, s2)" by (cases "persistProving S E now xs s1")
  show ?case using Cons.prems u p Cons.IH [OF p i] by (auto simp: known_def split: option.splits)
qed simp

lemma check_keeps:
  assumes "checkSessionTransitions W S C Q E now height (m, s) = (m', s', ev, tasks)"
    and "inv s" "envs env E" "distinct (keys m)" "set (keys m) \<subseteq> sids"
  shows "inv s' \<and> quiet ev \<and> distinct (keys m') \<and> set (keys m') \<subseteq> set (keys m) \<and> distinct (settling tasks)
    \<and> set (settling tasks) \<subseteq> set (keys m) \<and> tasks_known sids tasks \<and> tasks_typed tasks"
proof -
  let ?params = "resolveParams Q height"
  let ?ids = "candidateSessionIDs W ?params height m"
  let ?ps0 = "\<lparr>ps_manager = m, ps_store = s, ps_events = [], claimingSessions = [], provingSessions = [], terminalSessions = []\<rparr>"
  define ps where "ps = judge_all W S C ?params height E ?ids ?ps0"
  have ids: "set ?ids \<subseteq> set (keys m)" "distinct ?ids"
    using assms(4) by (auto simp: candidateSessionIDs_def keys_def distinct_map_filter)
  have "pass_ok inv m [] ?ps0" using assms by (simp add: pass_ok_def pass_ids_def quiet_def)
  from judge_all_ok [OF this, of ?ids E W ?params height] ids assms(3,5) have ok: "\<exists>seen. set seen = set ?ids \<and> pass_ok inv m seen ps"
    by (auto simp: ps_def)
  then have p: "inv (ps_store ps)" "quiet (ps_events ps)" "distinct (keys (ps_manager ps))" "set (keys (ps_manager ps)) \<subseteq> set (keys m)"
    "distinct (pass_ids ps)" "set (pass_ids ps) \<subseteq> set (keys m)" "\<forall>(st, x) \<in> set (terminalSessions ps). IsTerminal st"
    using ids by (auto simp: pass_ok_def)
  obtain vc s1 ev1 where c: "persistClaiming S C E now (claimingSessions ps) (ps_store ps) = (vc, s1, ev1)"
    by (cases "persistClaiming S C E now (claimingSessions ps) (ps_store ps)")
  obtain vp s2 where r: "persistProving S E now (provingSessions ps) s1 = (vp, s2)"
    by (cases "persistProving S E now (provingSessions ps) s1")
  have k: "known sids (claimingSessions ps)" "known sids (provingSessions ps)" "known sids (map snd (terminalSessions ps))"
    using p(6) assms(5) by (auto simp: known_def pass_ids_def)
  note cc = persistClaiming_ids [OF c] and rr = persistProving_ids [OF r]
  have i: "inv s2" by (rule persistProving_inv [OF r persistClaiming_inv [OF c p(1) k(1) assms(3)] k(2) assms(3)])
  have out: "m' = ps_manager ps" "s' = s2" "ev = ps_events ps @ ev1"
    "tasks = (if vc = [] then [] else [ClaimTask vc (minClaimWindowOpen W ?params (claimingSessions ps))])
       @ (if vp = [] then [] else [ProofTask vp]) @ map (\<lambda>(st, x). TerminalTask st x) (terminalSessions ps)"
    using assms(1) c r by (auto simp: checkSessionTransitions_def Let_def ps_def [symmetric])
  have set: "settling tasks = map SessionID vp @ map (SessionID \<circ> snd) (terminalSessions ps)"
    by (auto simp: out settling_def comp_def split_def)
  have "tasks_known sids tasks"
    using cc rr k by (auto simp: out tasks_known_def known_def split: if_splits)
  moreover have "tasks_typed tasks" using p(7) by (auto simp: out tasks_typed_def split: if_splits)
  moreover have "distinct (settling tasks)" "set (settling tasks) \<subseteq> set (keys m)"
    using rr p(5,6) unfolding set pass_ids_def distinct_append set_append by blast+
  ultimately show ?thesis using i p cc by (simp add: out(1-3) quiet_def)
qed

end

section \<open>The tasks\<close>

lemma callbacks_simps [simp]:
  "callbacks sid [] = 0" "callbacks sid (xs @ ys) = callbacks sid xs + callbacks sid ys"
  "callbacks sid (TerminalCallback st x # ev) = (if SessionID x = sid then 1 else 0) + callbacks sid ev"
  by (auto simp: callbacks_def)

lemma callbacks_quiet [simp]: "quiet ev \<Longrightarrow> callbacks sid ev = 0"
  by (auto simp: callbacks_def quiet_def filter_empty_conv split: lifecycle_event.splits)

lemma settling_simps [simp]:
  "settling [] = []" "settling (xs @ ys) = settling xs @ settling ys" "settling (t # ts) = settles t @ settling ts"
  by (auto simp: settling_def)

text \<open>
  A task that settles the sessions \<open>ids\<close> calls the terminal callback at most once for each of them and for no other, and
  forgets those it called it for.
\<close>

definition settles_once :: "string list \<Rightarrow> lifecycle \<Rightarrow> lifecycle \<Rightarrow> lifecycle_event list \<Rightarrow> bool" where
  "settles_once ids m m' ev =
     ((distinct (keys m) \<longrightarrow> distinct (keys m')) \<and> set (keys m') \<subseteq> set (keys m)
      \<and> (\<forall>sid. callbacks sid ev \<le> count_list ids sid) \<and> (\<forall>sid. callbacks sid ev > 0 \<longrightarrow> sid \<notin> set (keys m')))"

context lifecycle_client
begin

lemma executeTransition_keeps:
  assumes "executeTransition S C E st x (m, s) = (m', s', ev)" "inv s" "envs env E" "SessionID x \<in> sids" "IsTerminal st"
  shows "inv s' \<and> settles_once [SessionID x] m m' ev"
proof -
  obtain r s1 where u: "UpdateState S (E (SessionID x) 4 0) (SessionID x) st s = (r, s1)"
    by (cases "UpdateState S (E (SessionID x) 4 0) (SessionID x) st s")
  have i: "inv s1" by (rule Update_keeps [OF assms(2) envs_in [OF assms(3)] assms(4) u])
  obtain s2 ev2 where t: "cb_terminal C st (E (SessionID x) 5) x s1 = (s2, ev2)"
    by (cases "cb_terminal C st (E (SessionID x) 5) x s1")
  have "inv s2 \<and> quiet ev2" using terminal_keeps [OF i _ assms(4) t] assms(3) by (simp add: envs_def)
  then show ?thesis using assms u t i
    by (auto simp: executeTransition_def settles_once_def distinct_removeAll split: option.splits if_splits)
qed

lemma mark_proved_keeps:
  "\<lbrakk>mark_proved S C E now named xs (m, s) = (m', s', ev); inv s; envs env E; known sids xs\<rbrakk>
   \<Longrightarrow> inv s' \<and> settles_once (map SessionID xs) m m' ev"
proof (induction xs arbitrary: m s m' s' ev)
  case (Cons x xs)
  show ?case
  proof (cases "SessionID x \<in> named")
    case False
    then have "inv s' \<and> settles_once (map SessionID xs) m m' ev" using Cons by simp
    then show ?thesis by (auto simp: settles_once_def intro: le_SucI)
  next
    case True
    let ?x = "x\<lparr>State := SessionStateProved, LastUpdatedAt := now\<rparr>"
    obtain r s1 where u: "UpdateState S (E (SessionID x) 4 0) (SessionID x) SessionStateProved s = (r, s1)"
      by (cases "UpdateState S (E (SessionID x) 4 0) (SessionID x) SessionStateProved s")
    have i: "inv s1" using Update_keeps [OF Cons.prems(2) envs_in [OF Cons.prems(3)] _ u] Cons.prems(4) by simp
    obtain s2 ev2 where t: "cb_terminal C SessionStateProved (E (SessionID x) 5) ?x s1 = (s2, ev2)"
      by (cases "cb_terminal C SessionStateProved (E (SessionID x) 5) ?x s1")
    have k: "inv s2 \<and> quiet ev2" using terminal_keeps [OF i _ _ t] Cons.prems(3,4) by (simp add: envs_def)
    obtain m3 s3 ev3 where q: "mark_proved S C E now named xs (forgetSession (SessionID x) m, s2) = (m3, s3, ev3)"
      by (cases "mark_proved S C E now named xs (forgetSession (SessionID x) m, s2)")
    have "inv s3 \<and> settles_once (map SessionID xs) (forgetSession (SessionID x) m) m3 ev3" using Cons.IH [OF q] k Cons.prems by simp
    then show ?thesis using Cons.prems(1) True u t q k by (auto simp: settles_once_def distinct_removeAll Let_def split: if_splits)
  qed
qed (simp add: settles_once_def)

lemma proof_task_keeps:
  assumes "executeBatchedProofTransition S C E F now xs (m, s) = (m', s', ev)" "inv s" "envs env E" "envs env F" "known sids xs"
  shows "inv s' \<and> settles_once (map SessionID xs) m m' ev"
proof (cases "xs = []")
  case True
  then show ?thesis using assms by (simp add: executeBatchedProofTransition_def settles_once_def)
next
  case False
  obtain named xs' s1 ev1 where c: "OnSessionsNeedProof C F xs s = ((named, xs'), s1, ev1)"
    by (cases "OnSessionsNeedProof C F xs s") auto
  have k: "inv s1" "quiet ev1" "map SessionID xs' = map SessionID xs" using proof_keeps [OF assms(2,4,5) c] by auto
  obtain m2 s2 ev2 where p: "mark_proved S C E now named xs' (m, s1) = (m2, s2, ev2)"
    by (cases "mark_proved S C E now named xs' (m, s1)")
  have "inv s2 \<and> settles_once (map SessionID xs) m m2 ev2"
    using mark_proved_keeps [OF p k(1) assms(3)] k(3) assms(5) known_ids [OF k(3)] by simp
  then show ?thesis using assms(1) False c p k(2) by (auto simp: executeBatchedProofTransition_def settles_once_def)
qed

lemma mark_claimed_inv: "\<lbrakk>inv s; envs env E; known sids xs\<rbrakk> \<Longrightarrow> inv (mark_claimed S E claimed xs s)"
proof (induction xs arbitrary: s)
  case (Cons x xs)
  then show ?case
    using Update_keeps [OF Cons.prems(1) envs_in [OF Cons.prems(2)], of "SessionID x"] by (auto simp: prod_eq_iff)
qed simp

lemma refresh_known: "known sids xs \<Longrightarrow> known sids (refreshSessions S E xs s)"
  by (induction xs) (auto simp: known_def split: sum.splits option.splits if_splits)

lemma claim_task_keeps:
  assumes "executeBatchedClaimTransition S C E e F xs s = (s', ev)" "inv s" "envs env E" "envs env F" "range e \<subseteq> env" "known sids xs"
  shows "inv s' \<and> quiet ev"
proof -
  define s1 where "s1 = (case flushPendingRelays C of None \<Rightarrow> s | Some flush \<Rightarrow> flush e (map SessionID xs) s)"
  have i: "inv s1" using flush_keeps [OF assms(2,5)] assms(2) by (auto simp: s1_def split: option.splits)
  let ?r = "refreshSessions S E xs s1"
  obtain cl r' s2 ev2 where c: "OnSessionsNeedClaim C F ?r s1 = ((cl, r'), s2, ev2)" by (cases "OnSessionsNeedClaim C F ?r s1") auto
  have k: "inv s2" "quiet ev2" "map SessionID r' = map SessionID ?r"
    using claim_keeps [OF i assms(4) refresh_known [OF assms(6)] c] by auto
  have "inv (mark_claimed S E cl r' s2)"
    using mark_claimed_inv [OF k(1) assms(3)] known_ids [OF k(3)] refresh_known [OF assms(6)] by simp
  then show ?thesis using assms(1,2) c i k(2)
    by (auto simp: executeBatchedClaimTransition_def Let_def s1_def [symmetric] split: if_splits)
qed

end

section \<open>Runs\<close>

text \<open>
  What a run that waits for the pool keeps: no session is tracked, or waits to be settled, once its terminal callback has
  been called.
\<close>

definition run_ok :: "('s \<Rightarrow> bool) \<Rightarrow> string set \<Rightarrow> 's run_state \<Rightarrow> bool" where
  "run_ok good sids r =
     (case r of (m, s, queue, trail) \<Rightarrow>
        good s \<and> distinct (keys m) \<and> set (keys m) \<subseteq> sids \<and> distinct (settling queue) \<and> tasks_known sids queue \<and> tasks_typed queue
        \<and> (\<forall>sid. callbacks sid trail \<le> 1) \<and> (\<forall>sid. callbacks sid trail > 0 \<longrightarrow> sid \<notin> set (keys m) \<and> sid \<notin> set (settling queue)))"

lemma tasks_simps [simp]:
  "tasks_known sids (q1 @ q2) = (tasks_known sids q1 \<and> tasks_known sids q2)"
  "tasks_known sids (t # q) = (known sids (task_sessions t) \<and> tasks_known sids q)"
  "tasks_typed (q1 @ q2) = (tasks_typed q1 \<and> tasks_typed q2)"
  "tasks_typed (t # q) = ((case t of TerminalTask st x \<Rightarrow> IsTerminal st | _ \<Rightarrow> True) \<and> tasks_typed q)"
  by (auto simp: tasks_known_def tasks_typed_def)

lemma count_distinct: "distinct xs \<Longrightarrow> count_list xs x = (if x \<in> set xs then 1 else 0)"
  by (induction xs) auto

text \<open>A task that settles each of its sessions once keeps it.\<close>

lemma settle_run_ok:
  assumes "run_ok good sids (m, s, q1 @ t # q2, trail)" "good s'" "settles_once (settles t) m m' ev"
  shows "run_ok good sids (m', s', q1 @ q2, trail @ ev)"
proof -
  have d: "distinct (settles t)" and apart: "\<And>sid. sid \<in> set (settles t) \<Longrightarrow> sid \<notin> set (settling (q1 @ q2)) \<and> callbacks sid trail = 0"
    using assms(1) by (auto simp: run_ok_def)
  have c: "callbacks sid ev \<le> (if sid \<in> set (settles t) then 1 else 0)" "callbacks sid ev > 0 \<Longrightarrow> sid \<notin> set (keys m')" for sid
    using assms(3) count_distinct [OF d, of sid] unfolding settles_once_def by metis+
  have "callbacks sid (trail @ ev) \<le> 1 \<and> (callbacks sid (trail @ ev) > 0 \<longrightarrow> sid \<notin> set (keys m') \<and> sid \<notin> set (settling (q1 @ q2)))" for sid
  proof (cases "sid \<in> set (settles t)")
    case True
    then show ?thesis using apart [OF True] c [of sid] by auto
  next
    case False
    then have "callbacks sid ev = 0" using c(1) [of sid] by simp
    moreover have "callbacks sid trail \<le> 1" "callbacks sid trail > 0 \<longrightarrow> sid \<notin> set (keys m) \<and> sid \<notin> set (settling (q1 @ q2))"
      using assms(1) by (auto simp: run_ok_def)
    ultimately show ?thesis using assms(3) by (auto simp: settles_once_def)
  qed
  then show ?thesis using assms by (auto simp: run_ok_def settles_once_def)
qed

context lifecycle_client
begin

lemma pass_run_ok:
  assumes "run_ok inv sids (m, s, queue, trail)" "settling queue = []" "envs env E"
    and "checkSessionTransitions W S C Q E now height (m, s) = (m', s', ev, tasks)"
  shows "run_ok inv sids (m', s', queue @ tasks, trail @ ev)"
proof -
  have k: "inv s'" "quiet ev" "distinct (keys m')" "set (keys m') \<subseteq> set (keys m)" "distinct (settling tasks)"
    "set (settling tasks) \<subseteq> set (keys m)" "tasks_known sids tasks" "tasks_typed tasks"
    using check_keeps [OF assms(4) _ assms(3)] assms(1) by (auto simp: run_ok_def)
  then show ?thesis using assms(1,2) by (auto simp: run_ok_def)
qed

lemma claim_run_ok:
  assumes "run_ok inv sids (m, s, q1 @ ClaimTask xs h # q2, trail)" "envs env E" "envs env F" "range e \<subseteq> env"
    and "executeBatchedClaimTransition S C E e F xs s = (s', ev)"
  shows "run_ok inv sids (m, s', q1 @ q2, trail @ ev)"
proof -
  have "inv s' \<and> quiet ev" using claim_task_keeps [OF assms(5) _ assms(2-4)] assms(1) by (simp add: run_ok_def)
  then show ?thesis using assms(1) by (auto simp: run_ok_def)
qed

lemma proof_run_ok:
  assumes "run_ok inv sids (m, s, q1 @ ProofTask xs # q2, trail)" "envs env E" "envs env F"
    and "executeBatchedProofTransition S C E F now xs (m, s) = (m', s', ev)"
  shows "run_ok inv sids (m', s', q1 @ q2, trail @ ev)"
proof -
  have "inv s' \<and> settles_once (settles (ProofTask xs)) m m' ev"
    using proof_task_keeps [OF assms(4) _ assms(2,3)] assms(1) by (simp add: run_ok_def)
  then show ?thesis using settle_run_ok [OF assms(1)] by blast
qed

lemma terminal_run_ok:
  assumes "run_ok inv sids (m, s, q1 @ TerminalTask st x # q2, trail)" "envs env E"
    and "executeTransition S C E st x (m, s) = (m', s', ev)"
  shows "run_ok inv sids (m', s', q1 @ q2, trail @ ev)"
proof -
  have "inv s' \<and> settles_once (settles (TerminalTask st x)) m m' ev"
    using executeTransition_keeps [OF assms(3) _ assms(2)] assms(1) by (simp add: run_ok_def)
  then show ?thesis using settle_run_ok [OF assms(1)] by blast
qed

lemma track_run_ok:
  assumes "run_ok inv sids (m, s, queue, trail)" "callbacks (SessionID x) trail = 0" "SessionID x \<in> sids"
    and "TrackSession S e x m s = (err, m', s')" "inv s'"
  shows "run_ok inv sids (m', s', queue, trail)"
proof -
  have "distinct (keys m')" "set (keys m') \<subseteq> insert (SessionID x) (set (keys m))"
    using assms(1,4) keys_update [where m = m and sid = "SessionID x"]
    by (auto simp: run_ok_def TrackSession_def split: if_splits prod.splits)
  then show ?thesis using assms(1,2,3,5) by (auto simp: run_ok_def)
qed

lemma remove_run_ok: "run_ok inv sids (m, s, queue, trail) \<Longrightarrow> run_ok inv sids (RemoveSession sid m, s, queue, trail)"
  by (auto simp: run_ok_def distinct_removeAll)

lemma run_ok_step: "\<lbrakk>lifecycle_step W S C inv env sids True r r'; run_ok inv sids r\<rbrakk> \<Longrightarrow> run_ok inv sids r'"
proof (induction rule: lifecycle_step.induct)
  case (pass_step queue E Q now height m s m' s' ev tasks trail)
  then show ?case using pass_run_ok by simp
next
  case (other_step s' m s queue trail)
  then show ?case by (simp add: run_ok_def)
qed (blast intro: claim_run_ok proof_run_ok terminal_run_ok track_run_ok remove_run_ok)+

lemma settled_at_most_once:
  assumes "(lifecycle_step W S C inv env sids True)\<^sup>*\<^sup>* (m0, s0, [], []) (m, s, queue, trail)"
    and "inv s0" "distinct (keys m0)" "set (keys m0) \<subseteq> sids"
  shows "callbacks sid trail \<le> 1 \<and> (callbacks sid trail = 1 \<longrightarrow> sid \<notin> set (keys m) \<and> sid \<notin> set (settling queue))"
proof -
  have "run_ok inv sids (m0, s0, [], [])" using assms(2-4) by (simp add: run_ok_def tasks_known_def tasks_typed_def)
  with assms(1) have "run_ok inv sids (m, s, queue, trail)" by (induction rule: rtranclp_induct) (auto intro: run_ok_step)
  then show ?thesis by (simp add: run_ok_def)
qed

end

section \<open>The managers of the two stores\<close>

text \<open>
  The manager as it is built over each store, its callback with a coordinator that notifies nobody of new sessions, and
  builds that report in the order they were started.
\<close>

definition in_order_claims :: "'q claim_world \<Rightarrow> 'q claim_world" where
  "in_order_claims W = W\<lparr>cw_arrival := (\<lambda>rs. rs)\<rparr>"

definition in_order_proofs :: "(string \<Rightarrow> ('p, 'd) proof_world) \<Rightarrow> string \<Rightarrow> ('p, 'd) proof_world" where
  "in_order_proofs Ws sid = (Ws sid)\<lparr>pw_arrival := (\<lambda>rs. rs)\<rparr>"

lemma in_order_once: "reports_once (in_order_claims W)" "proofs_report_once (in_order_proofs Ws)"
  by (simp_all add: reports_once_def proofs_report_once_def in_order_claims_def in_order_proofs_def)

lemma new_coordinator_ok:
  "lc_coordinator (NewLifecycleCallback (Some NewSessionCoordinator) a b g) = Some c \<Longrightarrow> callback_ok view good env c"
  by (auto simp: NewLifecycleCallback_def NewSessionCoordinator_def callback_ok_def)

lemma no_flush_ok: "flush_ok good env None"
  by (simp add: flush_ok_def)

interpretation redis_manager: lifecycle_client
  "redisSessionStore P c"
  "lifecycle_callback (redisSessionStore P c) (NewLifecycleCallback (Some NewSessionCoordinator) a b g) (in_order_claims W)
     (in_order_proofs Ws) shape meter None"
  "redis_inv P kv c" "Collect redis_call_ok" "Collect redis_sid"
  for P :: "'k redis_params" and c a b g W Ws shape meter kv
  by (rule redis.miner_client [OF new_coordinator_ok in_order_once no_flush_ok])

interpretation pebble_manager: lifecycle_client
  "pebbleSessionStore P J cfg"
  "lifecycle_callback (pebbleSessionStore P J cfg) (NewLifecycleCallback (Some NewSessionCoordinator) a b g) (in_order_claims W)
     (in_order_proofs Ws) shape meter None"
  "pebble_inv P J cfg contents" "Collect (\<lambda>e. True)" "Collect (\<lambda>sid. True)"
  for P :: "'d pebble" and J cfg a b g W Ws shape meter contents
  by (rule pebble.miner_client [OF new_coordinator_ok in_order_once no_flush_ok])

end
