(* ===== verification/Claim_Props.thy ===== *)
theory Claim_Props
  imports Claim_Cycle
begin

text \<open>
  The properties of the claim cycle: how sessions are grouped, that the submission loop ends, that a resend carries the
  batch it was signed for, and which sessions are named as claimed.
\<close>

section \<open>Groups\<close>

text \<open>
  (C12) \<open>groupByEndHeight\<close> is the grouping by end height: one group per end height, in ascending order, each with the
  sessions of that height in arrival order.
\<close>

theorem groups_by_height:
  "groupByEndHeight xs
   = map (\<lambda>h. filter (\<lambda>s. SessionEndHeight s = h) xs) (sorted_list_of_set (SessionEndHeight ` set xs))"
  by (rule groupByEndHeight_eq)

section \<open>The submission loop\<close>

lemma send_round_sent:
  assumes "send_round S lc E X fh close attempt remaining grp payload lastErr i s = (send, nx, s1, ev)"
  shows "(\<exists>p a. send = SignedSend (map cr_claimMsg remaining) p a)
      \<or> (\<exists>a. send = Reinjected (map cr_claimMsg remaining) payload a \<and> sp_Bytes payload \<noteq> [] \<and> lastErr \<noteq> None
            \<and> RejectionPreservesBytes lastErr)"
  using assms
  by (auto simp: send_round_def resendOrSignClaims_def canReinject_def split: prod.splits option.splits if_splits)

lemma send_round_ejects_from_two:
  "send_round S lc E X fh close attempt remaining grp payload lastErr i s = (send, Again attempt remaining' grp' payload' err, s1, ev)
   \<Longrightarrow> remaining' \<noteq> [] \<and> length remaining' < length remaining"
  by (auto simp: send_round_def eject_claim_def Let_def split: prod.splits option.splits if_splits dest!: namedMessageIndex_less)

text \<open>
  (C11) The loop ends: it sends at most as many transactions as attempts are left plus messages beyond the last one,
  whatever the chain answers. A batch shrinks by ejections only down to one message.
\<close>

theorem submission_ends:
  assumes "1 \<le> attempt" "attempt \<le> ClaimRetryAttempts lc"
  shows "length (sub_sends (submit_claims S lc E X fh close attempt remaining grp payload lastErr i s))
    \<le> Suc (ClaimRetryAttempts lc - attempt) + (length remaining - 1)"
proof -
  have "attempt \<le> ClaimRetryAttempts lc \<longrightarrow> length (sub_sends r) \<le> Suc (ClaimRetryAttempts lc - attempt) + (length remaining - 1)"
    if "r = submit_claims S lc E X fh close attempt remaining grp payload lastErr i s" for r
    unfolding that
  proof (induction rule: submit_claims_rounds [where P = "\<lambda>attempt remaining grp payload lastErr i s r.
        attempt \<le> ClaimRetryAttempts lc \<longrightarrow> length (sub_sends r) \<le> Suc (ClaimRetryAttempts lc - attempt) + (length remaining - 1)"])
    case (again attempt remaining grp payload lastErr i s send attempt' remaining' grp' payload' err s1 ev r)
    from send_round_Again [OF again(1)] consider
        "attempt' = Suc attempt" "attempt' \<le> ClaimRetryAttempts lc" "remaining' = remaining"
      | "attempt' = attempt" by blast
    then show ?case
    proof cases
      case 1
      then show ?thesis using again(2) by auto
    next
      case 2
      then have "remaining' \<noteq> [] \<and> length remaining' < length remaining"
        using send_round_ejects_from_two [OF again(1) [unfolded 2]] by simp
      then show ?thesis using again(2) 2 by (cases remaining') auto
    qed
  qed simp
  then show ?thesis using assms by simp
qed

text \<open>The witnesses run over a store with no session, a callback with no coordinator and a batch of two claims.\<close>

definition empty_store :: "(unit, unit) SessionStore" where
  "empty_store =
     \<lparr>Save = (\<lambda>e snap s. ((None, snap), s)), CreateIfAbsent = (\<lambda>e snap s. ((Inr False, snap), s)), Get = (\<lambda>e sid s. Inr None),
      Delete = (\<lambda>e sid s. (None, s)), UpdateState = (\<lambda>e sid st s. (Some (SessionNotFound sid), s)),
      MarkClaimMissing = (\<lambda>e sid v s. (Some (SessionNotFound sid), s)),
      MarkClaimTxError = (\<lambda>e sid v s. (Inl (SessionNotFound sid), s)),
      ReactivateClaimed = (\<lambda>e sid r h s. (Inl (SessionNotFound sid), s)),
      ReactivateProved = (\<lambda>e sid h s. (Inl (SessionNotFound sid), s)),
      IncrementRelayCount = (\<lambda>e sid cu s. (Some (SessionNotFound sid), s))\<rparr>"

definition demo_callback :: "(unit, unit) LifecycleCallback" where
  "demo_callback = NewLifecycleCallback None 3 3 False"

definition demo_built :: "string \<Rightarrow> claimBuildResult" where
  "demo_built sid = new_result 0 (new_snapshot sid ''sup'' ''svc'' ''app'' 1 10)"

definition demo_error :: "TxRejection option \<Rightarrow> tx_error" where
  "demo_error rej = \<lparr>tx_text = ''refused'', tx_rejection = rej, is_ErrTxWindowExpired = False,
     is_ErrTxAlreadyQueued = False, is_ErrTxConcurrencySaturated = False, is_ErrTxProofNotRequired = False\<rparr>"

definition demo_payload :: SignedTxPayload where
  "demo_payload = \<lparr>sp_Bytes = ''tx'', sp_Hash = ''h'', sp_TimeoutAt = 100, sp_TimeoutHeight = 50\<rparr>"

text \<open>The chain names the second message, then loses an answer, then takes the same bytes again.\<close>

definition demo_tx :: tx_world where
  "demo_tx =
     \<lparr>CreateClaimsReturningHash = (\<lambda>i th msgs. ([], demo_payload,
        Some (demo_error (if i = 0 then Some (newSimulateRejection \<lparr>status_code = 2,
          status_message = ''failed; message index: 1: claim not valid'', error_text = ''rpc error''\<rparr>) else None)))),
      BroadcastRawReturningHash = (\<lambda>i p. (''h'', None)), LatestBlockTime = (\<lambda>i. 60), refused_height = (\<lambda>i. 12),
      ejected_height = (\<lambda>i. 12), ctx_done = (\<lambda>i. False)\<rparr>"

theorem submission_ends_witness:
  "length (sub_sends (submit_claims empty_store demo_callback (\<lambda>_ _ _. ()) demo_tx (\<lambda>_. 12) 20 1
     [demo_built ''a'', demo_built ''b''] [] no_payload None 0 ())) \<le> 4"
  using submission_ends [of 1 demo_callback empty_store "\<lambda>_ _ _. ()" demo_tx "\<lambda>_. 12" 20 "[demo_built ''a'', demo_built ''b'']"
      "[]" no_payload None 0 "()"]
  by (simp add: demo_callback_def NewLifecycleCallback_def)

section \<open>Resends\<close>

lemma send_round_keeps_payload:
  assumes "send_round S lc E X fh close attempt remaining grp payload lastErr i s
      = (send, Again (Suc attempt) remaining' grp' payload' err, s1, ev)"
  shows "send = SignedSend (map cr_claimMsg remaining) payload' (Some err)
      \<or> (send = Reinjected (map cr_claimMsg remaining) payload (Some err) \<and> payload' = payload
         \<and> RejectionPreservesBytes lastErr \<and> sp_Bytes payload \<noteq> [])"
  using assms
  by (auto simp: send_round_def eject_claim_def resendOrSignClaims_def canReinject_def Let_def
      split: prod.splits option.splits if_splits)

definition backed :: "claimBuildResult list \<Rightarrow> SignedTxPayload \<Rightarrow> tx_error option \<Rightarrow> claim_send list \<Rightarrow> bool" where
  "backed remaining payload lastErr sends =
     (\<forall>ys zs ms p a. sends = ys @ Reinjected ms p a # zs \<longrightarrow>
        (\<exists>err. SignedSend ms p (Some err) \<in> set ys \<and> RejectionPreservesBytes (Some err))
        \<or> (ms = map cr_claimMsg remaining \<and> p = payload \<and> sp_Bytes payload \<noteq> [] \<and> RejectionPreservesBytes lastErr))"

lemma backed_Cons:
  assumes "send_round S lc E X fh close attempt remaining grp payload lastErr i s
      = (send, Again attempt' remaining' grp' payload' err, s1, ev)"
    and "backed remaining' payload' (Some err) sends"
  shows "backed remaining payload lastErr (send # sends)"
  unfolding backed_def
proof (intro allI impI)
  fix ys zs ms p a
  assume eq: "send # sends = ys @ Reinjected ms p a # zs"
  show "(\<exists>err. SignedSend ms p (Some err) \<in> set ys \<and> RejectionPreservesBytes (Some err))
      \<or> (ms = map cr_claimMsg remaining \<and> p = payload \<and> sp_Bytes payload \<noteq> [] \<and> RejectionPreservesBytes lastErr)"
  proof (cases ys)
    case Nil
    then show ?thesis using eq send_round_sent [OF assms(1)] by auto
  next
    case (Cons y ys')
    then have y: "y = send" and "sends = ys' @ Reinjected ms p a # zs" using eq by auto
    then consider "\<exists>err. SignedSend ms p (Some err) \<in> set ys' \<and> RejectionPreservesBytes (Some err)"
      | "ms = map cr_claimMsg remaining'" "p = payload'" "sp_Bytes payload' \<noteq> []" "RejectionPreservesBytes (Some err)"
      using assms(2) unfolding backed_def by blast
    then show ?thesis
    proof cases
      case 1
      then show ?thesis using Cons by auto
    next
      case 2
      then have "payload' \<noteq> no_payload" by (auto simp: no_payload_def)
      then have "attempt' = Suc attempt" "remaining' = remaining" using send_round_Again [OF assms(1)] by auto
      then show ?thesis using send_round_keeps_payload assms(1) 2 Cons y by fastforce
    qed
  qed
qed


text \<open>A lost answer: the first send fails with no rejection, and the second carries the bytes of the first.\<close>

lemma demo_round_1:
  "send_round empty_store demo_callback (\<lambda>_ _ _. ()) demo_tx (\<lambda>_. 12) 20 1 [demo_built ''a''] [] no_payload None 1 ()
   = (SignedSend [None] demo_payload (Some (demo_error None)), Again 2 [demo_built ''a''] [] demo_payload (demo_error None), (), [])"
  by (simp add: send_round_def resendOrSignClaims_def canReinject_def no_payload_def demo_tx_def demo_error_def demo_callback_def
      NewLifecycleCallback_def windowRefusal_def demo_built_def new_result_def)

lemma demo_round_2:
  "send_round empty_store demo_callback (\<lambda>_ _ _. ()) demo_tx (\<lambda>_. 12) 20 2 [demo_built ''a''] [] demo_payload (Some (demo_error None)) 2 ()
   = (Reinjected [None] demo_payload None, Stop (Submitted ''h'' demo_payload) [demo_built ''a''] [], (), [])"
  by (simp add: send_round_def resendOrSignClaims_def canReinject_def demo_tx_def demo_error_def demo_payload_def
      RejectionPreservesBytes_def reusable_def demo_built_def new_result_def zero_time_def)


section \<open>What is sent and what is named as claimed\<close>

fun sent_msgs :: "claim_send \<Rightarrow> MsgCreateClaim option list" where
  "sent_msgs (SignedSend ms _ _) = ms"
| "sent_msgs (Reinjected ms _ _) = ms"

fun claim_answer :: "claim_send \<Rightarrow> tx_error option" where
  "claim_answer (SignedSend _ _ a) = a"
| "claim_answer (Reinjected _ _ a) = a"

lemma send_round_msgs:
  assumes "send_round S lc E X fh close attempt remaining grp payload lastErr i s = (send, nx, s1, ev)"
  shows "sent_msgs send = map cr_claimMsg remaining"
    and "nx = Stop (Submitted h p) rem grp' \<Longrightarrow> claim_answer send = None \<and> rem = remaining"
  using assms
  by (auto simp: send_round_def eject_claim_def resendOrSignClaims_def Let_def split: prod.splits option.splits if_splits)

text \<open>Only messages of the batch travel, and a batch reported as submitted is one accepted transaction.\<close>

definition sent_from :: "claimBuildResult list \<Rightarrow> 's submitted \<Rightarrow> bool" where
  "sent_from remaining r =
     ((\<forall>send \<in> set (sub_sends r). set (sent_msgs send) \<subseteq> cr_claimMsg ` set remaining)
      \<and> (\<forall>h p. sub_outcome r = Submitted h p \<longrightarrow> set (sub_remaining r) \<subseteq> set remaining
           \<and> (\<exists>send \<in> set (sub_sends r). claim_answer send = None \<and> sent_msgs send = map cr_claimMsg (sub_remaining r))))"

lemma submit_claims_sent: "sent_from remaining (submit_claims S lc E X fh close attempt remaining grp payload lastErr i s)"
proof (induction rule: submit_claims_rounds [where P = "\<lambda>attempt remaining grp payload lastErr i s r. sent_from remaining r"])
  case (stop attempt remaining grp payload lastErr i s send out rem grp' s1 ev)
  then show ?case using send_round_msgs [OF stop] by (auto simp: sent_from_def)
next
  case (again attempt remaining grp payload lastErr i s send attempt' remaining' grp' payload' err s1 ev r)
  have "set remaining' \<subseteq> set remaining"
    using send_round_Again [OF again(1)] by (auto dest: in_set_takeD in_set_dropD)
  then show ?case using send_round_msgs(1) [OF again(1)] again(2) unfolding sent_from_def by simp blast
qed

text \<open>The claim of a session: its own operator and header, over a root of the tree's length.\<close>

definition claim_of :: "build_world \<Rightarrow> SessionSnapshot \<Rightarrow> MsgCreateClaim option \<Rightarrow> bool" where
  "claim_of B snap m =
     (\<exists>root. length root = SMSTRootLen \<and> m = Some \<lparr>msg_SupplierOperatorAddress = SupplierOperatorAddress snap,
        msg_SessionHeader = buildSessionHeader B snap, msg_RootHash = root\<rparr>)"

lemma built_results:
  assumes "mset arrived \<subseteq># mset (map (\<lambda>(i, snap). build_claim B i snap) (enumerate 0 candidates))"
    and "r \<in> set (cl_built (collectClaimBuildResults n arrived))"
  shows "cr_snapshot r \<in> set candidates \<and> claim_of B (cr_snapshot r) (cr_claimMsg r)"
proof -
  let ?coll = "collectClaimBuildResults n arrived"
  have "sorted_out ?coll" unfolding collectClaimBuildResults_def by (rule collect_sorted_out) (simp add: sorted_out_def)
  then have ok: "cr_err r = None" "\<not> cr_skipped r" using assms(2) by (auto simp: sorted_out_def)
  have "r \<in># collected ?coll" using assms(2) by (simp add: collected_def)
  then have "r \<in> set (take n arrived)"
    unfolding collectClaimBuildResults_def collect_fold by (simp add: collected_def)
  then have "r \<in># mset arrived" by (auto dest: in_set_takeD)
  then have "r \<in># mset (map (\<lambda>(i, snap). build_claim B i snap) (enumerate 0 candidates))"
    using assms(1) by (rule mset_subset_eqD [rotated])
  then obtain i snap where "(i, snap) \<in> set (enumerate 0 candidates)" and r: "r = build_claim B i snap" by auto
  then have "snap \<in> set candidates" by (auto simp: in_set_enumerate_eq)
  then show ?thesis using build_claim_built [OF ok [unfolded r]] unfolding claim_of_def r by auto
qed

lemma conclude_claims_named:
  assumes "conclude_claims S lc E sub ev0 = (claimed, sends, s', ev, stop)"
  shows "sends = sub_sends sub \<and> (claimed = {} \<or> (\<exists>h p. sub_outcome sub = Submitted h p)
    \<and> claimed = SessionID ` cr_snapshot ` set (sub_remaining sub))"
  using assms by (cases "sub_outcome sub") (auto simp: conclude_claims_def Let_def split: prod.splits)

lemma claim_group_form:
  assumes "claim_group S lc E W g s = (claimed, sends, s', ev, stop)"
  shows "(claimed = {} \<and> sends = [])
    \<or> (\<exists>X close n s1 ev0. conclude_claims S lc E
          (submit_claims S lc E X (cw_final W) close n
             (cl_built (collectClaimBuildResults (length (filter (\<lambda>snapshot. ClaimTxHash snapshot = []) g))
                (cw_arrival W (map (\<lambda>(i, snap). build_claim (cw_build W) i snap)
                   (enumerate 0 (filter (\<lambda>snapshot. ClaimTxHash snapshot = []) g))))))
             g no_payload None 0 s1) ev0 = (claimed, sends, s', ev, stop))"
  using assms unfolding claim_group_def Let_def
  by (auto split: sum.splits if_splits prod.splits)

definition carries :: "build_world \<Rightarrow> SessionSnapshot list \<Rightarrow> string set \<Rightarrow> claim_send list \<Rightarrow> bool" where
  "carries B snapshots claimed sends =
     ((\<forall>send \<in> set sends. \<forall>m \<in> set (sent_msgs send). \<exists>snap \<in> set snapshots. ClaimTxHash snap = [] \<and> claim_of B snap m)
      \<and> (\<forall>sid \<in> claimed. \<exists>snap \<in> set snapshots. SessionID snap = sid \<and> ClaimTxHash snap = []
           \<and> (\<exists>send \<in> set sends. claim_answer send = None \<and> (\<exists>m \<in> set (sent_msgs send). claim_of B snap m))))"

lemma claim_group_carries:
  assumes "\<And>rs. mset (cw_arrival W rs) = mset rs"
    and "claim_group S lc E W g s = (claimed, sends, s', ev, stop)"
  shows "carries (cw_build W) g claimed sends"
proof -
  let ?candidates = "filter (\<lambda>snapshot. ClaimTxHash snapshot = []) g"
  let ?built = "cl_built (collectClaimBuildResults (length ?candidates)
      (cw_arrival W (map (\<lambda>(i, snap). build_claim (cw_build W) i snap) (enumerate 0 ?candidates))))"
  have built: "cr_snapshot r \<in> set g \<and> ClaimTxHash (cr_snapshot r) = [] \<and> claim_of (cw_build W) (cr_snapshot r) (cr_claimMsg r)"
    if "r \<in> set ?built" for r
    using built_results [where B = "cw_build W" and candidates = ?candidates, OF _ that] assms(1) by simp
  from claim_group_form [OF assms(2)] show ?thesis
  proof (elim disjE exE)
    assume "claimed = {} \<and> sends = []"
    then show ?thesis by (simp add: carries_def)
  next
    fix X close n s1 ev0
    assume c: "conclude_claims S lc E (submit_claims S lc E X (cw_final W) close n ?built g no_payload None 0 s1) ev0
      = (claimed, sends, s', ev, stop)"
    define sub where "sub = submit_claims S lc E X (cw_final W) close n ?built g no_payload None 0 s1"
    have sends: "sends = sub_sends sub"
      and named: "claimed = {} \<or> (\<exists>h p. sub_outcome sub = Submitted h p) \<and> claimed = SessionID ` cr_snapshot ` set (sub_remaining sub)"
      using conclude_claims_named [OF c] unfolding sub_def by (rule conjunct1, rule conjunct2)
    have sent: "sent_from ?built sub" unfolding sub_def by (rule submit_claims_sent)
    have "\<exists>snap \<in> set g. ClaimTxHash snap = [] \<and> claim_of (cw_build W) snap m"
      if "send \<in> set sends" "m \<in> set (sent_msgs send)" for send m
      using sent that built unfolding sent_from_def sends by blast
    moreover have "\<exists>snap \<in> set g. SessionID snap = sid \<and> ClaimTxHash snap = []
        \<and> (\<exists>send \<in> set sends. claim_answer send = None \<and> (\<exists>m \<in> set (sent_msgs send). claim_of (cw_build W) snap m))"
      if "sid \<in> claimed" for sid
    proof -
      obtain h p r where sub: "sub_outcome sub = Submitted h p" and r: "r \<in> set (sub_remaining sub)" "sid = SessionID (cr_snapshot r)"
        using named \<open>sid \<in> claimed\<close> by blast
      then obtain send where send: "send \<in> set sends" "claim_answer send = None" "sent_msgs send = map cr_claimMsg (sub_remaining sub)"
        and "r \<in> set ?built"
        using sent unfolding sent_from_def sends by blast
      then have "cr_snapshot r \<in> set g" "ClaimTxHash (cr_snapshot r) = []" "claim_of (cw_build W) (cr_snapshot r) (cr_claimMsg r)"
        using built by blast+
      moreover have "cr_claimMsg r \<in> set (sent_msgs send)" using send(3) r(1) by simp
      ultimately show ?thesis using send(1,2) r(2) by blast
    qed
    ultimately show ?thesis unfolding carries_def by blast
  qed
qed

lemma carries_append:
  "\<lbrakk>carries B g claimed sends; carries B (concat gs) claimed' sends'\<rbrakk>
   \<Longrightarrow> carries B (concat (g # gs)) (claimed \<union> claimed') (sends @ sends')"
  unfolding carries_def concat.simps set_append by blast

lemma claim_groups_carries:
  assumes "\<And>rs. mset (cw_arrival W rs) = mset rs"
  shows "claim_groups S lc E W gs s = (claimed, sends, s', ev) \<Longrightarrow> carries (cw_build W) (concat gs) claimed sends"
proof (induction gs arbitrary: s claimed sends s' ev)
  case Nil
  then show ?case by (simp add: carries_def)
next
  case (Cons g gs)
  obtain c1 t1 s1 e1 stop where g: "claim_group S lc E W g s = (c1, t1, s1, e1, stop)" by (metis prod_cases5)
  note g' = claim_group_carries [OF assms g]
  show ?case
  proof (cases stop)
    case True
    then have "claimed = c1" "sends = t1" using Cons.prems g by auto
    then show ?thesis using g' unfolding carries_def concat.simps set_append by blast
  next
    case False
    obtain c2 t2 s2 e2 where gs: "claim_groups S lc E W gs s1 = (c2, t2, s2, e2)" by (metis prod_cases4)
    then have "claimed = c1 \<union> c2" "sends = t1 @ t2" using Cons.prems g False by auto
    then show ?thesis using carries_append [OF g' Cons.IH [OF gs]] by simp
  qed
qed

lemma groupByEndHeight_set: "set (concat (groupByEndHeight xs)) = set xs"
  by (auto simp: groupByEndHeight_eq)

text \<open>
  (C9) Over a whole claim cycle, when each build reports once: every message sent is the claim of one of the sessions
  given, over its own header and a root of the tree's length, of a session with no claim yet; and every session named as
  claimed had its claim in a transaction the node accepted.
\<close>

theorem claimed_were_sent:
  assumes "\<And>rs. mset (cw_arrival W rs) = mset rs"
    and "lc_OnSessionsNeedClaim S lc E W snapshots s = (claimed, sends, s', ev)"
  shows "(\<forall>send \<in> set sends. \<forall>m \<in> set (sent_msgs send). \<exists>snap \<in> set snapshots.
           ClaimTxHash snap = [] \<and> claim_of (cw_build W) snap m)
    \<and> (\<forall>sid \<in> claimed. \<exists>snap \<in> set snapshots. SessionID snap = sid \<and> ClaimTxHash snap = []
           \<and> (\<exists>send \<in> set sends. claim_answer send = None \<and> (\<exists>m \<in> set (sent_msgs send). claim_of (cw_build W) snap m)))"
proof -
  have "carries (cw_build W) (concat (groupByEndHeight snapshots)) claimed sends"
    by (rule claim_groups_carries [OF assms(1) assms(2) [unfolded lc_OnSessionsNeedClaim_def]])
  then show ?thesis unfolding carries_def groupByEndHeight_set by blast
qed

text \<open>One session in an open window, whose claim is built, sent and accepted.\<close>

definition demo_session :: SessionSnapshot where
  "demo_session = new_snapshot ''a'' ''sup'' ''svc'' ''app'' 1 10"

definition demo_root :: string where
  "demo_root = replicate SMSTRootLen CHR ''r''"

definition demo_world :: "unit claim_world" where
  "demo_world =
     \<lparr>cw_windows = \<lparr>GetClaimWindowOpenHeight = (\<lambda>p h. h + 2), GetClaimWindowCloseHeight = (\<lambda>p h. h + 10),
         GetProofWindowOpenHeight = (\<lambda>p h. h + 12), GetProofWindowCloseHeight = (\<lambda>p h. h + 20)\<rparr>,
      cw_params = (\<lambda>h. Inr ()), cw_waited = (\<lambda>h. True), cw_height_before = (\<lambda>h. h + 2), cw_height_after = (\<lambda>h. h + 3),
      cw_arrival = (\<lambda>rs. rs),
      cw_build = \<lparr>FlushTree = (\<lambda>sid. Inr demo_root), root_Count = (\<lambda>r. Inr 2), root_Sum = (\<lambda>r. Inr 10), cuprClient = None,
         GetSession = None, getClaimReward = (\<lambda>m. Inr None), GetEstimatedFeeUpokt = 0\<rparr>,
      cw_tx = (\<lambda>h. demo_tx\<lparr>CreateClaimsReturningHash := (\<lambda>i th ms. (''hash'', demo_payload, None))\<rparr>),
      cw_final = (\<lambda>sid. 12)\<rparr>"

lemma demo_cycle:
  "\<exists>send s' ev. lc_OnSessionsNeedClaim empty_store demo_callback (\<lambda>_ _ _. ()) demo_world [demo_session] ()
     = ({''a''}, [send], s', ev)"
proof -
  have built: "build_claim (cw_build demo_world) 0 demo_session
      = (new_result 0 demo_session)\<lparr>cr_rootHash := demo_root, cr_claimMsg := Some \<lparr>msg_SupplierOperatorAddress = ''sup'',
          msg_SessionHeader = buildSessionHeader (cw_build demo_world) demo_session, msg_RootHash = demo_root\<rparr>\<rparr>"
    by (simp add: build_claim_def viable_claim_def demo_world_def demo_root_def new_result_def evaluateClaimCUPRGuard_def
        demo_session_def new_snapshot_def)
  have "send_round empty_store demo_callback (\<lambda>_ _ _. ()) (cw_tx demo_world 10) (\<lambda>sid. 12) 20 (Suc 0) [r] [demo_session] no_payload None 0 ()
      = (SignedSend [cr_claimMsg r] demo_payload None, Stop (Submitted ''hash'' demo_payload) [r] [demo_session], (), [])" for r
    by (simp add: send_round_def resendOrSignClaims_def canReinject_def no_payload_def demo_world_def)
  note round = submit_claims_cases [OF this]
  have end10: "SessionEndHeight demo_session = 10" and none: "ClaimTxHash demo_session = []" and sid: "SessionID demo_session = ''a''"
    by (simp_all add: demo_session_def new_snapshot_def)
  have coord: "lc_coordinator demo_callback = None" by (simp add: demo_callback_def NewLifecycleCallback_def)
  have group: "groupByEndHeight [demo_session] = [[demo_session]]" by (simp add: groupByEndHeight_eq)
  have world: "cw_params demo_world h = Inr ()" "cw_waited demo_world h" "cw_height_before demo_world h = h + 2"
    "cw_height_after demo_world h = h + 3" "cw_arrival demo_world rs = rs" "cw_final demo_world = (\<lambda>sid. 12)"
    "GetClaimWindowCloseHeight (cw_windows demo_world) p h = h + 10" for h rs p
    by (simp_all add: demo_world_def)
  show ?thesis
    by (simp add: lc_OnSessionsNeedClaim_def group claim_group_def world end10 none built collectClaimBuildResults_def
        collect_claim_def new_result_def settle_skipped_def round conclude_claims_def coord coordinate_def sid Let_def)
qed

theorem claimed_were_sent_witness:
  "\<exists>send s' ev. lc_OnSessionsNeedClaim empty_store demo_callback (\<lambda>_ _ _. ()) demo_world [demo_session] () = ({''a''}, [send], s', ev)
     \<and> claim_answer send = None \<and> (\<exists>m \<in> set (sent_msgs send). claim_of (cw_build demo_world) demo_session m)"
proof -
  obtain send s' ev where run: "lc_OnSessionsNeedClaim empty_store demo_callback (\<lambda>_ _ _. ()) demo_world [demo_session] ()
      = ({''a''}, [send], s', ev)"
    using demo_cycle by blast
  have "\<And>rs. mset (cw_arrival demo_world rs) = mset rs" by (simp add: demo_world_def)
  from claimed_were_sent [OF this run] have "claim_answer send = None \<and> (\<exists>m \<in> set (sent_msgs send). claim_of (cw_build demo_world) demo_session m)"
    by (simp only: list.set Set.ball_simps Set.bex_simps) blast
  with run show ?thesis by blast
qed

end
