(* ===== verification/Proof_Props.thy ===== *)
theory Proof_Props
  imports Proof_Cycle Claim_Props
begin

text \<open>
  The properties of the proof cycle: the shape of the proofs, what is sent and for which sessions, and what is named as
  settled.
\<close>

section \<open>The shape\<close>

lemma shape_run_form: "\<exists>m n. fst (shape_run cs s) = replicate m False @ replicate n True"
proof (induction cs arbitrary: s)
  case Nil
  show ?case by (auto intro: exI [of _ 0])
next
  case (Cons c cs)
  show ?case
  proof (cases c)
    case (AskShape h plan)
    obtain a asked s1 where w: "Weighted h plan s = (a, asked, s1)" by (cases "Weighted h plan s")
    have run: "fst (shape_run (c # cs) s) = a # fst (shape_run cs s1)" using AskShape w by (auto split: prod.splits)
    obtain m n where mn: "fst (shape_run cs s1) = replicate m False @ replicate n True" using Cons.IH by blast
    show ?thesis
    proof (cases a)
      case True
      then have "False \<notin> set (fst (shape_run cs s1))" using Weighted_settles [of h plan s] w shape_run_settled by auto
      then have "m = 0" using mn by (cases m) auto
      then have "fst (shape_run (c # cs) s) = replicate 0 False @ replicate (Suc n) True" using run mn True by simp
      then show ?thesis by blast
    next
      case False
      then have "fst (shape_run (c # cs) s) = replicate (Suc m) False @ replicate n True" using run mn by simp
      then show ?thesis by blast
    qed
  next
    case (Refused err)
    then show ?thesis using Cons.IH by simp
  qed
qed

text \<open>
  (C15) Whatever the chain's plan queries answer and whatever refusals come in between, the answers of the proof shape
  change at most once, from closest to weighted.
\<close>

theorem shape_changes_once: "\<exists>m n. fst (shape_run cs s) = replicate m False @ replicate n True"
  by (rule shape_run_form)

section \<open>What is sent\<close>

fun proof_msgs :: "proof_send \<Rightarrow> MsgSubmitProof option list" where
  "proof_msgs (ProofSigned ms _ _) = ms"
| "proof_msgs (ProofReinjected ms _ _) = ms"

fun proof_answer :: "proof_send \<Rightarrow> tx_error option" where
  "proof_answer (ProofSigned _ _ a) = a"
| "proof_answer (ProofReinjected _ _ a) = a"

text \<open>The checks write into a snapshot they let through only its claimed root.\<close>

definition same_session :: "SessionSnapshot \<Rightarrow> SessionSnapshot \<Rightarrow> bool" where
  "same_session a b = (a\<lparr>ClaimedRootHash := []\<rparr> = b\<lparr>ClaimedRootHash := []\<rparr>)"

lemma same_session_refl [simp]: "same_session a a"
  by (simp add: same_session_def)

lemma same_session_trans: "\<lbrakk>same_session a b; same_session b c\<rbrakk> \<Longrightarrow> same_session a c"
  by (simp add: same_session_def)

lemma header_of_root: "buildSessionHeader B (a\<lparr>ClaimedRootHash := r\<rparr>) = buildSessionHeader B a"
  by (cases "GetSession B") (simp_all add: buildSessionHeader_def Let_def)

lemma same_session_fields:
  assumes "same_session a b"
  shows "SessionID b = SessionID a" "SupplierOperatorAddress b = SupplierOperatorAddress a"
    "buildSessionHeader B b = buildSessionHeader B a"
  using arg_cong [where f = SessionID, OF assms [unfolded same_session_def]]
    arg_cong [where f = SupplierOperatorAddress, OF assms [unfolded same_session_def]]
    arg_cong [where f = "buildSessionHeader B", OF assms [unfolded same_session_def]]
  by (simp_all add: header_of_root)

lemma IsProofRequired_same: "IsProofRequired c snap seed = (answer, snap', counters) \<Longrightarrow> same_session snap snap'"
  by (auto simp: IsProofRequired_def resolveClaimedRoot_def same_session_def split: prod.splits sum.splits if_splits option.splits)

lemma check_requirement_go:
  "check_requirement S lc e c seed snap s = (True, done, snap', s', ev) \<Longrightarrow> same_session snap snap' \<and> \<not> done"
  by (auto simp: check_requirement_def defer_skipped_def split: prod.splits sum.splits check_error.splits bool.splits
      dest: IsProofRequired_same)

lemma check_requirement_done:
  "check_requirement S lc e c seed snap s = (go, done, snap', s', ev) \<Longrightarrow> \<not> done"
  by (auto simp: check_requirement_def defer_skipped_def split: prod.splits sum.splits check_error.splits bool.splits)

lemma guard_go:
  "pre_proof_guard S lc e W cc pc snap s = (True, done, snap', s', ev) \<Longrightarrow> snap' = snap \<and> \<not> done"
  by (auto simp: pre_proof_guard_def defer_skipped_def split: prod.splits sum.splits option.splits if_splits)

lemma guard_done:
  "pre_proof_guard S lc e W cc pc snap s = (go, True, snap', s', ev)
   \<Longrightarrow> pw_GetClaim W (SupplierOperatorAddress snap) (SessionID snap) = Inr (Some VALIDATED)"
  by (auto simp: pre_proof_guard_def defer_skipped_def split: prod.splits sum.splits option.splits if_splits)

lemma select_proof_go:
  assumes "select_proof S lc E W cc pc seed snap s = (True, done, snap', s', ev)"
  shows "ProofTxHash snap = [] \<and> same_session snap snap' \<and> \<not> done"
  using assms unfolding select_proof_def
  by (auto split: if_splits prod.splits bool.splits option.splits dest: guard_go check_requirement_go)

lemma select_proof_done:
  assumes "select_proof S lc E W cc pc seed snap s = (go, True, snap', s', ev)"
  shows "pw_GetClaim W (SupplierOperatorAddress snap) (SessionID snap) = Inr (Some VALIDATED)"
  using assms unfolding select_proof_def
  by (auto split: if_splits prod.splits bool.splits option.splits dest: guard_done check_requirement_done)

lemma recheck_same:
  assumes "recheck_proofs S lc E W seed [snap] s = (still, s', ev)"
  shows "still = [] \<or> (\<exists>snap'. still = [snap'] \<and> same_session snap snap')"
proof (cases "pw_checker W")
  case None
  then show ?thesis using assms by (auto simp: recheck_proofs_def)
next
  case (Some checker)
  then show ?thesis using assms
    by (auto simp: recheck_proofs_def split: prod.splits if_splits dest: check_requirement_go)
qed

text \<open>The submission loop sends one batch, and names it submitted only when a send of it was accepted.\<close>

lemma answer_proofs_next:
  assumes "answer_proofs S lc E X close weighted valid retry i signed_tx err shape s = (nx, shape', s', ev)"
  shows "nx \<noteq> ProofStop (ProofsSubmitted h p) \<and> (shape' = shape \<or> shape' = snd (LearnFromRefusal (Some err) shape))"
  using assms unfolding answer_proofs_def by (simp split: prod.splits if_splits) auto

lemma proof_round_cases:
  assumes "proof_round S lc E X close weighted msgs valid retry i payload lastErr shape s = (sends, nx, shape', s', ev)"
  obtains (shape) "sends = []" "nx = ProofStop ShapeChanged" "shape' = snd (snd (Weighted (shape_height X i) (shape_plan X i) shape))"
  | (accepted) send h p where "sends = [send]" "nx = ProofStop (ProofsSubmitted h p)" "proof_msgs send = msgs" "proof_answer send = None"
      "fst (Weighted (shape_height X i) (shape_plan X i) shape) = weighted"
      "shape' = snd (snd (Weighted (shape_height X i) (shape_plan X i) shape))"
  | (refused) send err where "sends = [send]" "\<And>h p. nx \<noteq> ProofStop (ProofsSubmitted h p)" "proof_msgs send = msgs"
      "fst (Weighted (shape_height X i) (shape_plan X i) shape) = weighted"
      "shape' = snd (snd (Weighted (shape_height X i) (shape_plan X i) shape))
       \<or> shape' = snd (LearnFromRefusal (Some err) (snd (snd (Weighted (shape_height X i) (shape_plan X i) shape))))"
proof -
  obtain w asked shape1 where w: "Weighted (shape_height X i) (shape_plan X i) shape = (w, asked, shape1)"
    by (cases "Weighted (shape_height X i) (shape_plan X i) shape")
  obtain send h tx a where r: "resendOrSignProofs X i close payload lastErr msgs = (send, h, tx, a)"
    by (cases "resendOrSignProofs X i close payload lastErr msgs")
  then have send: "proof_msgs send = msgs" "proof_answer send = a"
    by (auto simp: resendOrSignProofs_def split: prod.splits if_splits)
  show thesis
  proof (cases "w = weighted")
    case False
    then have "sends = []" "nx = ProofStop ShapeChanged" "shape' = shape1"
      using assms w by (simp_all add: proof_round_def split: prod.splits)
    then show thesis using w by (intro shape) simp_all
  next
    case True
    show thesis
    proof (cases a)
      case None
      then have "sends = [send]" "nx = ProofStop (ProofsSubmitted h tx)" "shape' = shape1"
        using assms w r True by (simp_all add: proof_round_def)
      then show thesis using w True send None by (intro accepted) simp_all
    next
      case (Some err)
      obtain nx' sh s1 ev' where ans: "answer_proofs S lc E X close weighted valid retry i tx err shape1 s = (nx', sh, s1, ev')"
        by (cases "answer_proofs S lc E X close weighted valid retry i tx err shape1 s")
      then have "sends = [send]" "nx = nx'" "shape' = sh" using assms w r True Some by (simp_all add: proof_round_def)
      then show thesis using w True send answer_proofs_next [OF ans] by (intro refused [of send err]) simp_all
    qed
  qed
qed

definition sends_batch :: "bool \<Rightarrow> ProofShape option \<Rightarrow> MsgSubmitProof option list \<Rightarrow> 's proofs_sent \<Rightarrow> bool" where
  "sends_batch weighted shape msgs r =
     ((\<forall>send \<in> set (po_sends r). proof_msgs send = msgs) \<and> (settled_weighted shape \<and> po_sends r \<noteq> [] \<longrightarrow> weighted)
      \<and> (settled_weighted shape \<longrightarrow> settled_weighted (po_shape r))
      \<and> (\<forall>h p. po_outcome r = ProofsSubmitted h p \<longrightarrow> (\<exists>send \<in> set (po_sends r). proof_answer send = None)))"

lemma proof_round_settled:
  assumes "proof_round S lc E X close weighted msgs valid retry i payload lastErr shape s = (sends, nx, shape', s', ev)"
    and "settled_weighted shape"
  shows "settled_weighted shape' \<and> (sends \<noteq> [] \<longrightarrow> weighted)"
  using Weighted_stays [OF assms(2), of "shape_height X i" "shape_plan X i"] assms(2)
  by (cases rule: proof_round_cases [OF assms(1)]) (auto simp: Learn_stays)

lemma proof_round_batch:
  assumes "proof_round S lc E X close weighted msgs valid retry i payload lastErr shape s = (sends, nx, shape', s', ev)"
  shows "(\<forall>send \<in> set sends. proof_msgs send = msgs)
    \<and> (\<forall>h p. nx = ProofStop (ProofsSubmitted h p) \<longrightarrow> (\<exists>send \<in> set sends. proof_answer send = None))"
  by (cases rule: proof_round_cases [OF assms(1)]) auto

lemma submit_proofs_batch:
  "sends_batch weighted shape msgs (submit_proofs S lc E X close weighted msgs valid left i payload lastErr shape s)"
proof (induction left arbitrary: i payload lastErr shape s)
  case 0
  then show ?case by (simp add: sends_batch_def)
next
  case (Suc left)
  obtain sends nx shape' s' ev where
    r: "proof_round S lc E X close weighted msgs valid (left > 0) i payload lastErr shape s = (sends, nx, shape', s', ev)"
    by (cases "proof_round S lc E X close weighted msgs valid (left > 0) i payload lastErr shape s")
  show ?case
  proof (cases nx)
    case (ProofStop out)
    then show ?thesis using r proof_round_batch [OF r] proof_round_settled [OF r] by (simp add: sends_batch_def)
  next
    case (ProofAgain payload' err)
    then show ?thesis
      using r proof_round_batch [OF r] proof_round_settled [OF r] Suc.IH [of shape' "Suc i" payload' "Some err" s']
      by (auto simp: sends_batch_def Let_def)
  qed
qed

lemma conclude_proofs_named:
  assumes "conclude_proofs S lc E grp valid sub = (named, sends, shape, s, ev, stop)"
  shows "sends = po_sends sub \<and> shape = po_shape sub
    \<and> (named = {} \<or> (\<exists>h p. po_outcome sub = ProofsSubmitted h p) \<and> named = SessionID ` set grp)"
  using assms unfolding conclude_proofs_def
  by (cases "po_outcome sub") (auto split: prod.splits option.splits)

text \<open>A proof of a session: its own operator and header, and the bytes the tree manager gave for its path.\<close>

definition proof_of :: "('p, 'd) proof_world \<Rightarrow> bool \<Rightarrow> SessionSnapshot \<Rightarrow> MsgSubmitProof option \<Rightarrow> bool" where
  "proof_of W weighted snap m =
     (\<exists>seed bytes. (if weighted then ProveWeighted W else ProveClosest W) (SessionID snap) (GetPathForProof W seed (SessionID snap)) = Inr bytes
        \<and> m = Some \<lparr>mp_SupplierOperatorAddress = SupplierOperatorAddress snap,
              mp_SessionHeader = buildSessionHeader (pw_build W) snap, mp_Proof = bytes\<rparr>)"

lemma build_proof_ok:
  assumes "pr_err (build_proof W weighted seed i snap) = None"
  shows "proof_of W weighted snap (pr_proofMsg (build_proof W weighted seed i snap))"
  using assms unfolding proof_of_def build_proof_def Let_def
  by (cases "(if weighted then ProveWeighted W else ProveClosest W) (SessionID snap) (GetPathForProof W seed (SessionID snap))")
    (auto simp del: if_split_asm)

lemma build_proof_snapshot [simp]: "pr_snapshot (build_proof W weighted seed i snap) = snap"
  by (simp add: build_proof_def Let_def split: sum.split)

lemma proof_of_same: "same_session a b \<Longrightarrow> proof_of W w b m = proof_of W w a m"
  by (simp add: proof_of_def same_session_fields [of a b])

text \<open>One transaction of a group: its only message is the proof of the group's session.\<close>

definition one_proof :: "('p, 'd) proof_world \<Rightarrow> ProofShape option \<Rightarrow> SessionSnapshot \<Rightarrow> proof_send \<Rightarrow> bool" where
  "one_proof W shape snap send =
     (\<exists>weighted m. proof_msgs send = [m] \<and> proof_of W weighted snap m \<and> (settled_weighted shape \<longrightarrow> weighted))"

lemma prove_group_one:
  assumes arrival: "\<And>rs. mset (pw_arrival W rs) = mset rs"
    and run: "prove_group S lc E W close seed grp [snap] shape s = (named, sends, shape', s', ev, stop)"
  shows "(\<forall>send \<in> set sends. one_proof W shape snap send) \<and> (settled_weighted shape \<longrightarrow> settled_weighted shape')
    \<and> (named = {} \<or> named = SessionID ` set grp \<and> (\<exists>send \<in> set sends. proof_answer send = None))"
proof -
  obtain w asked shape1 where w: "Weighted (pw_shape_height W) (pw_plan W) shape = (w, asked, shape1)"
    by (cases "Weighted (pw_shape_height W) (pw_plan W) shape")
  have settled: "settled_weighted shape \<Longrightarrow> w \<and> settled_weighted shape1"
    using Weighted_stays [of shape "pw_shape_height W" "pw_plan W"] w by auto
  let ?r = "build_proof W w seed 0 snap"
  have arr: "pw_arrival W [?r] = [?r]" using arrival [of "[?r]"] by (metis mset_single_iff_right mset.simps(1) mset.simps(2) add_mset_eq_single mset_eq_length)
  show ?thesis
  proof (cases "pr_err ?r = None \<and> pw_height_built W < close")
    case False
    then have "sends = [] \<and> named = {} \<and> shape' = shape1"
      using run w arr unfolding prove_group_def Let_def
      by (auto simp: collectProofBuildResults_def alignProofBatch_def split: prod.splits if_splits)
    then show ?thesis using settled by simp
  next
    case True
    define sub where "sub = submit_proofs S lc E (pw_tx W) close w [pr_proofMsg ?r] [snap] (ProofRetryAttempts lc) 1 no_payload None shape1 s"
    obtain named' sends' sh' s1 ev' stop' where c: "conclude_proofs S lc E grp [snap] sub = (named', sends', sh', s1, ev', stop')"
      by (cases "conclude_proofs S lc E grp [snap] sub")
    then have "named = named'" "sends = sends'" "shape' = sh'"
      using run w arr True unfolding prove_group_def Let_def sub_def
      by (auto simp: collectProofBuildResults_def alignProofBatch_def)
    moreover have "sends_batch w shape1 [pr_proofMsg ?r] sub" unfolding sub_def by (rule submit_proofs_batch)
    moreover have "proof_of W w snap (pr_proofMsg ?r)" using True build_proof_ok by blast
    ultimately show ?thesis using conclude_proofs_named [OF c] settled
      unfolding sends_batch_def one_proof_def by auto
  qed
qed

lemma one_proof_same: "same_session a b \<Longrightarrow> one_proof W shape b send = one_proof W shape a send"
  by (simp add: one_proof_def proof_of_same)

definition proves :: "('p, 'd) proof_world \<Rightarrow> ProofShape option \<Rightarrow> SessionSnapshot \<Rightarrow> string set \<Rightarrow> proof_send list \<Rightarrow> bool" where
  "proves W shape snap named sends =
     ((\<forall>send \<in> set sends. ProofTxHash snap = [] \<and> one_proof W shape snap send)
      \<and> (\<forall>sid \<in> named. sid = SessionID snap
           \<and> (pw_GetClaim W (SupplierOperatorAddress snap) sid = Inr (Some VALIDATED) \<or> (\<exists>send \<in> set sends. proof_answer send = None))))"

lemma proof_group_rest:
  assumes arrival: "\<And>rs. mset (pw_arrival W rs) = mset rs"
    and sel: "select_proof S lc E W cc pc seed snap s = (True, done, snap1, s1, ev1)"
    and re: "recheck_proofs S lc E W seed [snap1] s1 = (still, s2, ev2)" "still \<noteq> []"
    and run: "prove_group S lc E W pc seed [snap] still shape s2 = (named, sends, shape', s', ev, stop)"
  shows "proves W shape snap named sends \<and> (settled_weighted shape \<longrightarrow> settled_weighted shape')"
proof -
  obtain snap2 where still: "still = [snap2]" and s12: "same_session snap1 snap2" using recheck_same [OF re(1)] re(2) by auto
  have s01: "same_session snap snap1" "ProofTxHash snap = []" using select_proof_go [OF sel] by auto
  then have same: "same_session snap snap2" using s12 same_session_trans by blast
  show ?thesis using prove_group_one [OF arrival run [unfolded still]] s01(2) one_proof_same [OF same]
    by (auto simp: proves_def)
qed

lemma proof_group_one:
  assumes arrival: "\<And>rs. mset (pw_arrival W rs) = mset rs"
    and run: "proof_group S lc E W [snap] shape s = (named, sends, shape', s', ev, stop)"
  shows "proves W shape snap named sends \<and> (settled_weighted shape \<longrightarrow> settled_weighted shape')"
proof (cases "pw_params W (SessionEndHeight snap)")
  case (Inl e)
  then show ?thesis using run by (auto simp: proof_group_def proves_def split: prod.splits)
next
  case (Inr p)
  define pc where "pc = GetProofWindowCloseHeight (pw_windows W) p (SessionEndHeight snap)"
  define cc where "cc = GetClaimWindowCloseHeight (pw_windows W) p (SessionEndHeight snap)"
  define sh where "sh = GetEarliestSupplierProofCommitHeight W p (SessionEndHeight snap) (SupplierOperatorAddress snap) - 1"
  note unfolded = run [unfolded proof_group_def Let_def list.sel Inr sum.case, folded pc_def cc_def sh_def]
  show ?thesis
  proof (cases "pw_waited_open W \<and> (\<exists>seed. pw_seed W sh = Inr seed)")
    case False
    then show ?thesis using unfolded by (auto simp: proves_def split: prod.splits sum.splits if_splits)
  next
    case True
    then obtain seed where seed: "pw_seed W sh = Inr seed" and opened: "pw_waited_open W" by blast
    obtain go dn snap1 s1 ev1 where sel: "select_proof S lc E W cc pc seed snap s = (go, dn, snap1, s1, ev1)"
      by (cases "select_proof S lc E W cc pc seed snap s")
    have judged: "dn \<Longrightarrow> pw_GetClaim W (SupplierOperatorAddress snap) (SessionID snap) = Inr (Some VALIDATED)"
      using select_proof_done [of S lc E W cc pc seed snap s go snap1 s1 ev1] sel by (cases dn) simp_all
    show ?thesis
    proof (cases go)
      case False
      then show ?thesis using unfolded seed opened sel judged by (auto simp: proves_def split: if_splits)
    next
      case go: True
      then have nd: "\<not> dn" using select_proof_go [of S lc E W cc pc seed snap s dn snap1 s1 ev1] sel by simp
      obtain still s2 ev2 where re: "recheck_proofs S lc E W seed [snap1] s1 = (still, s2, ev2)"
        by (cases "recheck_proofs S lc E W seed [snap1] s1")
      obtain named' sends' sh' s3 ev3 stop' where pg: "prove_group S lc E W pc seed [snap] still shape s2 = (named', sends', sh', s3, ev3, stop')"
        by (cases "prove_group S lc E W pc seed [snap] still shape s2")
      show ?thesis
      proof (cases "still = [] \<or> \<not> pw_waited_earliest W \<or> pw_height_ready W \<ge> pc")
        case True
        then show ?thesis using unfolded seed opened sel go nd re by (auto simp: proves_def split: if_splits prod.splits)
      next
        case False
        then have "named = named'" "sends = sends'" "shape' = sh'"
          using unfolded seed opened sel go nd re pg by simp_all
        moreover have "select_proof S lc E W cc pc seed snap s = (True, dn, snap1, s1, ev1)" using sel go by simp
        ultimately show ?thesis using proof_group_rest [OF arrival _ re _ pg] False by blast
      qed
    qed
  qed
qed

lemma one_proof_weaken: "\<lbrakk>one_proof W shape' snap send; settled_weighted shape \<longrightarrow> settled_weighted shape'\<rbrakk> \<Longrightarrow> one_proof W shape snap send"
  by (auto simp: one_proof_def)

lemma proves_weaken: "\<lbrakk>proves W shape' snap named sends; settled_weighted shape \<longrightarrow> settled_weighted shape'\<rbrakk> \<Longrightarrow> proves W shape snap named sends"
  unfolding proves_def using one_proof_weaken by blast

text \<open>Over the groups: each transaction carries the proof of one session, each session settled is answered for.\<close>

definition all_proved ::
  "(string \<Rightarrow> ('p, 'd) proof_world) \<Rightarrow> ProofShape option \<Rightarrow> SessionSnapshot list \<Rightarrow> string set \<Rightarrow> proof_send list \<Rightarrow> bool" where
  "all_proved Ws shape snapshots named sends =
     ((\<forall>send \<in> set sends. \<exists>snap \<in> set snapshots. ProofTxHash snap = [] \<and> one_proof (Ws (SessionID snap)) shape snap send)
      \<and> (\<forall>sid \<in> named. \<exists>snap \<in> set snapshots. SessionID snap = sid
           \<and> (pw_GetClaim (Ws sid) (SupplierOperatorAddress snap) sid = Inr (Some VALIDATED)
              \<or> (\<exists>send \<in> set sends. proof_answer send = None \<and> one_proof (Ws sid) shape snap send))))"

lemma all_proved_Cons:
  assumes "proves (Ws (SessionID snap)) shape snap named sends"
  shows "all_proved Ws shape (snap # snaps) named sends"
  using assms unfolding all_proved_def proves_def by fastforce

lemma all_proved_append:
  assumes "proves (Ws (SessionID snap)) shape snap named sends" "all_proved Ws shape snaps named' sends'"
  shows "all_proved Ws shape (snap # snaps) (named \<union> named') (sends @ sends')"
proof -
  have "all_proved Ws shape (snap # snaps) named sends"
    by (rule all_proved_Cons [where Ws = Ws and snap = snap, OF assms(1)])
  then show ?thesis using assms(2) unfolding all_proved_def set_append list.set by blast
qed

lemma all_proved_weaken:
  "\<lbrakk>all_proved Ws shape' snaps named sends; settled_weighted shape \<longrightarrow> settled_weighted shape'\<rbrakk> \<Longrightarrow> all_proved Ws shape snaps named sends"
  unfolding all_proved_def using one_proof_weaken by blast

lemma proof_groups_proved:
  assumes "\<And>sid rs. mset (pw_arrival (Ws sid) rs) = mset rs"
  shows "proof_groups S lc E Ws (map (\<lambda>snap. [snap]) snaps) shape s = (named, sends, shape', s', ev)
    \<Longrightarrow> all_proved Ws shape snaps named sends"
proof (induction snaps arbitrary: shape s named sends shape' s' ev)
  case Nil
  then show ?case by (simp add: all_proved_def)
next
  case (Cons snap snaps)
  obtain n1 t1 sh1 s1 e1 stop where g: "proof_group S lc E (Ws (SessionID snap)) [snap] shape s = (n1, t1, sh1, s1, e1, stop)"
    by (cases "proof_group S lc E (Ws (SessionID snap)) [snap] shape s")
  note one = proof_group_one [OF assms g]
  show ?case
  proof (cases stop)
    case True
    then show ?thesis using Cons.prems g one all_proved_Cons [where Ws = Ws and snap = snap] by simp
  next
    case False
    obtain n2 t2 sh2 s2 e2 where gs: "proof_groups S lc E Ws (map (\<lambda>snap. [snap]) snaps) sh1 s1 = (n2, t2, sh2, s2, e2)"
      by (cases "proof_groups S lc E Ws (map (\<lambda>snap. [snap]) snaps) sh1 s1")
    have "all_proved Ws shape snaps n2 t2" using all_proved_weaken [OF Cons.IH [OF gs]] one by blast
    then show ?thesis using Cons.prems g gs False one all_proved_append [where Ws = Ws and snap = snap] by auto
  qed
qed

lemma insort_key_map: "insort_key k (g x) (map g xs) = map g (insort_key (\<lambda>a. k (g a)) x xs)"
  by (induction xs) simp_all

lemma sort_key_map: "sort_key k (map g xs) = map g (sort_key (\<lambda>a. k (g a)) xs)"
  by (induction xs) (simp_all add: insort_key_map)

lemma groupOnePerSession_eq: "groupOnePerSession snaps = map (\<lambda>snap. [snap]) (sort_key SessionEndHeight snaps)"
  by (simp add: groupOnePerSession_def orderGroupsByWindow_def sort_key_map comp_def)


text \<open>One session whose proof is built and accepted, on a chain known to verify weighted proofs.\<close>

definition demo_proof_tx :: proof_tx where
  "demo_proof_tx =
     \<lparr>SubmitProofsReturningHash = (\<lambda>i th ms. (''hash'', demo_payload, None)), proof_BroadcastRaw = (\<lambda>i p. (''hash'', None)),
      proof_LatestBlockTime = (\<lambda>i. 60), proof_refused_height = (\<lambda>i. 23), proof_ctx_done = (\<lambda>i. False),
      shape_height = (\<lambda>i. 23), shape_plan = (\<lambda>i. Inr 5)\<rparr>"

definition demo_proof_world :: "(unit, unit) proof_world" where
  "demo_proof_world =
     \<lparr>pw_windows = cw_windows demo_world, pw_params = (\<lambda>h. Inr ()), GetEarliestSupplierProofCommitHeight = (\<lambda>p h sup. h + 12),
      pw_waited_open = True, pw_seed = (\<lambda>h. Inr ''seed''), pw_GetClaim = (\<lambda>sup sid. Inr (Some PENDING_VALIDATION)),
      pw_guard_height = (\<lambda>sid. 22), pw_checker = None, pw_waited_earliest = True, pw_height_ready = 22,
      pw_shape_height = 22, pw_plan = Inr 5, GetPathForProof = (\<lambda>seed sid. seed @ sid), ProveClosest = (\<lambda>sid path. Inl ''none''),
      ProveWeighted = (\<lambda>sid path. Inr path), pw_build = cw_build demo_world, pw_arrival = (\<lambda>rs. rs), pw_height_built = 23,
      pw_tx = demo_proof_tx\<rparr>"

definition demo_shape :: "ProofShape option" where
  "demo_shape = Some ((NewProofShape True)\<lparr>shape_weighted := True\<rparr>)"

lemma demo_proof_cycle:
  "\<exists>send s' ev. lc_OnSessionsNeedProof empty_store demo_callback (\<lambda>_ _ _. ()) (\<lambda>sid. demo_proof_world) [demo_session] demo_shape ()
     = ({''a''}, [send], demo_shape, s', ev)"
proof -
  have shape: "Weighted h plan demo_shape = (True, False, demo_shape)" for h plan
    by (rule Weighted_stays) (simp add: settled_weighted_def demo_shape_def)
  have lc: "lc_coordinator demo_callback = None" "lc_GetClaim demo_callback = None" "ProofRetryAttempts demo_callback = 3"
    by (simp_all add: demo_callback_def NewLifecycleCallback_def)
  have snap: "SessionEndHeight demo_session = 10" "ProofTxHash demo_session = []" "SessionID demo_session = ''a''"
    by (simp_all add: demo_session_def new_snapshot_def)
  have world: "GetProofWindowCloseHeight (pw_windows demo_proof_world) p h = h + 20" "pw_params demo_proof_world h = Inr ()"
    "pw_waited_open demo_proof_world" "pw_seed demo_proof_world h = Inr ''seed''" "pw_checker demo_proof_world = None"
    "pw_waited_earliest demo_proof_world" "pw_height_ready demo_proof_world = 22" "pw_height_built demo_proof_world = 23"
    "pw_arrival demo_proof_world rs = rs" "pw_tx demo_proof_world = demo_proof_tx" for p h rs
    by (simp_all add: demo_proof_world_def demo_world_def)
  have built: "pr_err (build_proof demo_proof_world True seed i snap) = None" for seed i snap
    by (simp add: build_proof_def demo_proof_world_def)
  have round: "submit_proofs empty_store demo_callback (\<lambda>_ _ _. ()) demo_proof_tx close True ms valid 3 (Suc 0) no_payload None demo_shape ()
      = \<lparr>po_outcome = ProofsSubmitted ''hash'' demo_payload, po_sends = [ProofSigned ms demo_payload None], po_shape = demo_shape,
          po_store = (), po_events = []\<rparr>" for close ms valid
    by (simp add: numeral_3_eq_3 proof_round_def resendOrSignProofs_def canReinject_def no_payload_def shape demo_proof_tx_def)
  have sel: "select_proof empty_store demo_callback (\<lambda>_ _ _. ()) demo_proof_world cc pc seed demo_session ()
      = (True, False, demo_session, (), [])" for cc pc seed
    by (simp add: select_proof_def pre_proof_guard_def snap lc world)
  show ?thesis
    by (simp add: lc_OnSessionsNeedProof_def groupOnePerSession_eq proof_group_def snap world sel recheck_proofs_def prove_group_def
        shape built collectProofBuildResults_def alignProofBatch_def lc round conclude_proofs_def coordinate_def
        Let_def del: submit_proofs.simps)
qed


section \<open>When a claim is given up\<close>

definition missing_mark :: "SessionSnapshot \<Rightarrow> lifecycle_event" where
  "missing_mark snap =
     Booked (Counter (CounterAdd ''proofSkippedTotal'' [SupplierOperatorAddress snap, ServiceID snap, ''claim_missing_on_chain''] 1))"

lemma coordinate_no_mark:
  assumes "\<And>c err s1 ev. call c s = (err, s1, ev) \<Longrightarrow> \<forall>x. Counter x \<notin> set ev"
    and "coordinate lc call s = (err, s', ev')"
  shows "missing_mark snap \<notin> set ev'"
  using assms by (auto simp: coordinate_def missing_mark_def split: option.splits prod.splits)

lemma deferred_no_counter: "OnProofDeferred S c e sid s = (err, s1, ev) \<Longrightarrow> \<forall>x. Counter x \<notin> set ev"
  by (auto simp: OnProofDeferred_def split: prod.splits sum.splits option.splits if_splits)

lemma tx_error_no_counter: "OnProofTxError S c e sid s = (err, s1, ev) \<Longrightarrow> \<forall>x. Counter x \<notin> set ev"
  unfolding OnProofTxError_def terminal_def by (simp split: prod.splits option.splits if_splits) auto

lemma probabilistic_no_counter: "OnProbabilisticProved S c e sid s = (err, s1, ev) \<Longrightarrow> \<forall>x. Counter x \<notin> set ev"
  by (auto simp: OnProbabilisticProved_def terminal_def split: prod.splits option.splits if_splits)

lemma calls_no_mark:
  "coordinate lc (\<lambda>c. OnProofDeferred S c e sid) s = (err, s', ev) \<Longrightarrow> missing_mark snap \<notin> set ev"
  "coordinate lc (\<lambda>c. OnProofTxError S c e sid) s = (err, s', ev) \<Longrightarrow> missing_mark snap \<notin> set ev"
  "coordinate lc (\<lambda>c. OnProbabilisticProved S c e sid) s = (err, s', ev) \<Longrightarrow> missing_mark snap \<notin> set ev"
  by (erule coordinate_no_mark [rotated], erule deferred_no_counter tx_error_no_counter probabilistic_no_counter)+

lemma skipped_mark:
  "missing_mark snap \<in> set (proof_skipped a reason)
   \<longleftrightarrow> SupplierOperatorAddress snap = SupplierOperatorAddress a \<and> ServiceID snap = ServiceID a \<and> reason = ''claim_missing_on_chain''"
  by (auto simp: proof_skipped_def book_def RecordProofSkipped_def missing_mark_def)

lemma defer_no_mark:
  assumes "defer_skipped S lc e reason a s = (go, dn, a', s', ev)" "reason \<noteq> ''claim_missing_on_chain''"
  shows "missing_mark snap \<notin> set ev"
proof -
  obtain a1 s1 ev1 where d: "deferProof S lc e a s = (a1, s1, ev1)" by (cases "deferProof S lc e a s")
  then have "missing_mark snap \<notin> set ev1"
    using calls_no_mark(1) [of lc S e "SessionID a" s _ s1 ev1 snap] by (auto simp: deferProof_def split: if_splits prod.splits)
  then show ?thesis using assms d by (auto simp: defer_skipped_def skipped_mark)
qed

lemma requirement_counters_no_mark:
  "IsProofRequired c a seed = (answer, a', counters) \<Longrightarrow> missing_mark snap \<notin> set (book counters)"
  by (auto simp: IsProofRequired_def checkClaim_def decideRequirement_def Let_def book_def missing_mark_def
      RecordProofRequirementCheckError_def RecordProofRequirementCheck_def RecordProofRequirementRequired_def
      RecordProofRequirementSkipped_def split: prod.splits sum.splits if_splits)

lemma revenue_no_mark: "missing_mark snap \<notin> set (book (RecordRevenueProbabilisticProved supplier svc cu n upokt))"
  by (simp add: RecordRevenueProbabilisticProved_def recordRevenueProved_def addUpokt_def book_def missing_mark_def)

lemma check_requirement_no_mark:
  assumes "check_requirement S lc e c seed a s = (go, dn, a', s', ev)"
  shows "missing_mark snap \<notin> set ev"
proof -
  obtain answer a1 counters where r: "IsProofRequired c a seed = (answer, a1, counters)" by (cases "IsProofRequired c a seed")
  note counters = requirement_counters_no_mark [OF r, of snap]
  show ?thesis
  proof (cases answer)
    case (Inl err)
    then show ?thesis
      using assms r counters defer_no_mark [of S lc e ProofSkippedReasonClaimedRootUnreadable a1 s _ _ _ _ _ snap]
        calls_no_mark(2) [of lc S e "SessionID a1" s _ _ _ snap]
      by (cases err) (auto simp: check_requirement_def skipped_mark ProofSkippedReasonClaimedRootUnavailable_def
          ProofSkippedReasonClaimedRootUnreadable_def split: prod.splits)
  next
    case (Inr required)
    then show ?thesis
      using assms r counters calls_no_mark(3) [of lc S e "SessionID a1" s _ _ _ snap]
      by (cases required) (auto simp: check_requirement_def settle_without_proof_def revenue_no_mark split: prod.splits)
  qed
qed


text \<open>The last block of the window, answered from beyond the claim window's close.\<close>

definition absent_world :: "(unit, unit) proof_world" where
  "absent_world = demo_proof_world\<lparr>pw_GetClaim := (\<lambda>sup sid. Inl (QueryError True ''not found'', 25)), pw_guard_height := (\<lambda>sid. 29)\<rparr>"


text \<open>
  The revenue of a session that needs no proof is booked before its state is written. When the write fails the session
  stays in proving, and at the window's close the same relays are booked as lost.
\<close>

lemma proved_then_lost:
  assumes "lc_coordinator lc = Some c" "\<not> coord_closed c"
    and "UpdateState S (e 0) (SessionID snap) SessionStateProbabilisticProved s = (Some err, s)"
    and "State snap = SessionStateProving" "ProofTxHash snap = []" "height \<ge> GetProofWindowCloseHeight W p (SessionEndHeight snap)"
  shows "settle_without_proof S lc e snap s
      = (s, book (RecordRevenueProbabilisticProved (SupplierOperatorAddress snap) (ServiceID snap) (TotalComputeUnits snap)
               (RelayCount snap) (lc_price lc snap)))"
    and "fst (determineTransition W snap height (Some p)) = SessionStateProofWindowClosed"
    and "snd (lc_OnProofWindowClosed S lc e' snap s)
      = DeleteTree (SessionID snap) # book (recordSessionLoss (SupplierOperatorAddress snap) (ServiceID snap) ''proof_window_closed''
            (RelayCount snap) (sint (TotalComputeUnits snap)) (lc_price lc snap))"
  using assms
  by (simp_all add: settle_without_proof_def coordinate_def OnProbabilisticProved_def determineTransition_def Let_def
      SessionStateProving_def SessionStateActive_def SessionStateClaiming_def SessionStateClaimed_def
      lc_OnProofWindowClosed_def closed_proof_books_def RecordProofWindowClosed_def)

end
