(* ===== verification/Lifecycle_Props.thy ===== *)
theory Lifecycle_Props
  imports Lifecycle_Runs Proof_Props Witness_Stores
begin

text \<open>
  The properties of \<open>SessionLifecycleManager\<close>: which tasks a pass hands on, that the check of the tracked copies skips no
  session that is due, when a session that may have a claim on chain is given up, and that a session is settled once.
\<close>

section \<open>The transitions of a pass\<close>

text \<open>The edges of the state machine that a height alone takes.\<close>

inductive due_step :: "SessionState \<Rightarrow> SessionState \<Rightarrow> bool" where
  claim_opens: "due_step SessionStateActive SessionStateClaiming"
| claim_missed: "due_step SessionStateActive SessionStateClaimWindowClosed"
| claim_expires: "due_step SessionStateClaiming SessionStateClaimWindowClosed"
| proof_opens: "due_step SessionStateClaimed SessionStateProving"
| proof_missed: "due_step SessionStateClaimed SessionStateProofWindowClosed"
| proof_expires: "due_step SessionStateProving SessionStateProofWindowClosed"
| proof_sent: "due_step SessionStateProving SessionStateProved"

lemma determine_due: "fst (determineTransition W x height params) = [] \<or> due_step (State x) (fst (determineTransition W x height params))"
  by (auto simp: determineTransition_def Let_def intro: due_step.intros split: option.splits)

fun typed_task :: "transition_task \<Rightarrow> bool" where
  "typed_task (ClaimTask xs h) = (xs \<noteq> [] \<and> list_all (\<lambda>x. State x = SessionStateClaiming) xs)"
| "typed_task (ProofTask xs) = (xs \<noteq> [] \<and> list_all (\<lambda>x. State x = SessionStateProving) xs)"
| "typed_task (TerminalTask st x) = (IsTerminal st \<and> due_step (State x) st)"

definition typed_pass :: "'s pass \<Rightarrow> bool" where
  "typed_pass ps = (\<forall>(st, x) \<in> set (terminalSessions ps). IsTerminal st \<and> due_step (State x) st)"

lemma typed_simps [simp]:
  "typed_pass (ps\<lparr>ps_manager := m\<rparr>) = typed_pass ps" "typed_pass (ps\<lparr>ps_store := s\<rparr>) = typed_pass ps"
  "typed_pass (ps\<lparr>ps_events := ev\<rparr>) = typed_pass ps"
  by (simp_all add: typed_pass_def)

lemma typed_dispatch: "\<lbrakk>typed_pass ps; due_step (State x) st\<rbrakk> \<Longrightarrow> typed_pass (dispatch st x ps)"
  by (auto simp: typed_pass_def dispatch_def)

lemma typed_judge:
  assumes "typed_pass ps"
  shows "typed_pass (judge_session W S C params height E sid ps)"
proof -
  have closed: "typed_pass (judge_closed S C E x ps)" if "due_step (State x) SessionStateClaimWindowClosed" for x
    using assms that by (auto simp: judge_closed_def Let_def typed_dispatch split: option.splits prod.splits sum.splits bool.splits)
  have due: "due_step (State x) st" if "fst (determineTransition W x height p) = st" "st \<noteq> []" for x p st
    using determine_due [of W x height p] that by auto
  have "typed_pass (judge_closed S C E x ps)" if "fst (determineTransition W x height p) = SessionStateClaimWindowClosed" for x p
    using closed due [OF that] by simp
  moreover have "typed_pass (dispatch (fst (determineTransition W x height p)) x ps)" if "fst (determineTransition W x height p) \<noteq> []" for x p
    using typed_dispatch [OF assms due [OF refl that]] .
  ultimately show ?thesis using assms by (auto simp: judge_session_def Let_def split: sum.splits option.splits)
qed

lemma typed_judge_all: "typed_pass ps \<Longrightarrow> typed_pass (judge_all W S C params height E ids ps)"
  by (induction ids arbitrary: ps) (auto intro: typed_judge)

lemma persistClaiming_state: "list_all (\<lambda>x. State x = SessionStateClaiming) (fst (persistClaiming S C E now xs s))"
  by (induction xs arbitrary: s) (auto split: prod.splits option.splits, (metis fst_conv)+)

lemma persistProving_state: "list_all (\<lambda>x. State x = SessionStateProving) (fst (persistProving S E now xs s))"
  by (induction xs arbitrary: s) (auto split: prod.splits option.splits, (metis fst_conv)+)


section \<open>The check of the tracked copies\<close>

text \<open>
  (C7) \<open>sessionMightNeedTransition\<close> reads the tracked copy, which may lag behind the store. When it skips a session, no
  transition is due for the stored one either, whatever state another miner has moved it to, as long as a claimed session was
  not moved back before its claim.
\<close>

theorem skipped_not_due:
  assumes "windows_ok W" "\<not> sessionMightNeedTransition W tracked height params"
    and "SessionEndHeight fresh = SessionEndHeight tracked"
    and "State tracked = SessionStateClaimed \<longrightarrow> State fresh \<notin> {SessionStateActive, SessionStateClaiming}"
  shows "determineTransition W fresh height params = ([], [])"
proof -
  obtain p where p: "params = Some p" using assms(2) by (cases params) (auto simp: sessionMightNeedTransition_def split: if_splits)
  let ?h = "SessionEndHeight tracked"
  have o: "GetClaimWindowOpenHeight W p ?h \<le> GetClaimWindowCloseHeight W p ?h"
    "GetClaimWindowCloseHeight W p ?h \<le> GetProofWindowOpenHeight W p ?h"
    "GetProofWindowOpenHeight W p ?h \<le> GetProofWindowCloseHeight W p ?h"
    using assms(1) by (auto simp: windows_ok_def)
  consider "State tracked = SessionStateActive" "height < GetClaimWindowOpenHeight W p ?h"
    | "State tracked = SessionStateClaimed" "height < GetProofWindowOpenHeight W p ?h"
    using assms(2) p by (auto simp: sessionMightNeedTransition_def split: if_splits)
  then show ?thesis
  proof cases
    case 1
    then show ?thesis using o p assms(3) by (auto simp: determineTransition_def Let_def)
  next
    case 2
    then show ?thesis using o p assms(3,4) by (auto simp: determineTransition_def Let_def)
  qed
qed

definition demo_windows :: "unit windows" where
  "demo_windows =
     \<lparr>GetClaimWindowOpenHeight = (\<lambda>_ h. h + 2), GetClaimWindowCloseHeight = (\<lambda>_ h. h + 6),
      GetProofWindowOpenHeight = (\<lambda>_ h. h + 6), GetProofWindowCloseHeight = (\<lambda>_ h. h + 10)\<rparr>"

theorem skipped_not_due_witness:
  "determineTransition demo_windows (demo_snap SessionStateProving) 115 (Some ()) = ([], [])
   \<and> \<not> sessionMightNeedTransition demo_windows (demo_snap SessionStateClaimed) 115 (Some ())"
proof -
  have n: "\<not> sessionMightNeedTransition demo_windows (demo_snap SessionStateClaimed) 115 (Some ())"
    by (simp add: sessionMightNeedTransition_def demo_windows_def demo_snap_def) code_simp
  have "determineTransition demo_windows (demo_snap SessionStateProving) 115 (Some ()) = ([], [])"
    by (rule skipped_not_due [OF _ n]) (simp_all add: windows_ok_def demo_windows_def, (simp add: demo_snap_def)?, code_simp?)
  with n show ?thesis by simp
qed

section \<open>Giving up a claim\<close>

text \<open>What the loop of a pass knows of a session it gives up while its claim may have been sent.\<close>

definition denied ::
  "'p windows \<Rightarrow> ('e, 's) SessionLifecycleCallback \<Rightarrow> (int \<Rightarrow> 'p option) \<Rightarrow> int \<Rightarrow> 'e env_supply \<Rightarrow> SessionSnapshot \<Rightarrow> bool" where
  "denied W C params height E x =
     ((\<exists>p. params (SessionEndHeight x) = Some p \<and> GetClaimWindowCloseHeight W p (SessionEndHeight x) < height)
      \<and> (\<forall>f. cb_observer C = Some f \<longrightarrow> (\<exists>s. fst (f (E (SessionID x) 1) x s) = Inr False)))"

definition denied_pass ::
  "'p windows \<Rightarrow> ('e, 's) SessionLifecycleCallback \<Rightarrow> (int \<Rightarrow> 'p option) \<Rightarrow> int \<Rightarrow> 'e env_supply \<Rightarrow> 's pass \<Rightarrow> bool" where
  "denied_pass W C params height E ps =
     (\<forall>(st, x) \<in> set (terminalSessions ps). st = SessionStateClaimWindowClosed \<longrightarrow> State x = SessionStateClaiming
        \<longrightarrow> ClaimTxHash x = [] \<longrightarrow> denied W C params height E x)"

lemma denied_simps [simp]:
  "denied_pass W C params height E (ps\<lparr>ps_manager := m\<rparr>) = denied_pass W C params height E ps"
  "denied_pass W C params height E (ps\<lparr>ps_store := s\<rparr>) = denied_pass W C params height E ps"
  "denied_pass W C params height E (ps\<lparr>ps_events := ev\<rparr>) = denied_pass W C params height E ps"
  by (simp_all add: denied_pass_def)

lemma denied_dispatch:
  "\<lbrakk>denied_pass W C params height E ps;
    st = SessionStateClaimWindowClosed \<longrightarrow> mayHaveClaimOnChain resumed x \<longrightarrow> denied W C params height E x\<rbrakk>
   \<Longrightarrow> denied_pass W C params height E (dispatch st x ps)"
  by (auto simp: denied_pass_def dispatch_def mayHaveClaimOnChain_def)

lemma denied_dispatch_closed:
  "\<lbrakk>denied_pass W C params height E ps; denied W C params height E x\<rbrakk> \<Longrightarrow> denied_pass W C params height E (dispatch st x ps)"
  by (rule denied_dispatch [where resumed = "{}"]) simp_all

lemma denied_closed:
  assumes "denied_pass W C params height E ps" "params (SessionEndHeight x) = Some p"
    and "GetClaimWindowCloseHeight W p (SessionEndHeight x) < height"
  shows "denied_pass W C params height E (judge_closed S C E x ps)"
proof (cases "cb_observer C")
  case None
  then have "denied W C params height E x" using assms(2,3) by (simp add: denied_def)
  then show ?thesis using assms(1) None by (simp add: judge_closed_def denied_dispatch_closed)
next
  case (Some f)
  obtain r s1 ev where o: "f (E (SessionID x) 1) x (ps_store ps) = (r, s1, ev)" by (cases "f (E (SessionID x) 1) x (ps_store ps)")
  have "denied W C params height E x" if "r = Inr False"
    using assms(2,3) Some o that by (auto simp: denied_def intro!: exI [of _ "ps_store ps"])
  then show ?thesis using assms(1) Some o
    by (auto simp: judge_closed_def Let_def denied_dispatch_closed split: sum.splits bool.splits)
qed

lemma denied_judge:
  "denied_pass W C params height E ps \<Longrightarrow> denied_pass W C params height E (judge_session W S C params height E sid ps)"
  by (auto simp: judge_session_def Let_def claimReadIsFinal_def denied_closed split: sum.splits option.splits
      intro!: denied_dispatch [where resumed = "resumedUnsentClaims (ps_manager ps)"])

lemma denied_judge_all:
  "denied_pass W C params height E ps \<Longrightarrow> denied_pass W C params height E (judge_all W S C params height E ids ps)"
  by (induction ids arbitrary: ps) (auto intro: denied_judge)

lemma pass_denied:
  assumes "checkSessionTransitions W S C Q E now height (m, s) = (m', s', ev, tasks)"
    and "TerminalTask SessionStateClaimWindowClosed x \<in> set tasks" "State x = SessionStateClaiming" "ClaimTxHash x = []"
  shows "denied W C (resolveParams Q height) height E x"
proof -
  let ?params = "resolveParams Q height"
  let ?ps = "judge_all W S C ?params height E (candidateSessionIDs W ?params height m)
    \<lparr>ps_manager = m, ps_store = s, ps_events = [], claimingSessions = [], provingSessions = [], terminalSessions = []\<rparr>"
  have "denied_pass W C ?params height E ?ps" by (rule denied_judge_all) (simp add: denied_pass_def)
  moreover have "(SessionStateClaimWindowClosed, x) \<in> set (terminalSessions ?ps)"
    using assms(1,2) by (auto simp: checkSessionTransitions_def Let_def split: prod.splits if_splits)
  ultimately show ?thesis using assms(3,4) by (auto simp: denied_pass_def)
qed

lemma observe_denied:
  assumes "fst (ObserveClaimOnChain S lc e x s) = Inr False" "lc_GetClaim lc = Some query" "lc_coordinator lc = Some c"
  shows "\<exists>err. query (SupplierOperatorAddress x) (SessionID x) = Inl err \<and> isClaimNotFoundError err"
proof (cases "query (SupplierOperatorAddress x) (SessionID x)")
  case (Inl err)
  then show ?thesis using assms by (auto simp: ObserveClaimOnChain_def split: if_splits)
next
  case (Inr rt)
  obtain r s1 ev where "OnClaimObservedOnChain S c e (SessionID x) rt (ClaimTxHash x) s = (r, s1, ev)"
    by (cases "OnClaimObservedOnChain S c e (SessionID x) rt (ClaimTxHash x) s")
  then show ?thesis using assms Inr by (auto simp: ObserveClaimOnChain_def split: option.splits)
qed


text \<open>The witnesses track one session past the end of its claim window.\<close>

definition demo_manager :: "SessionSnapshot \<Rightarrow> lifecycle" where
  "demo_manager x = \<lparr>lm_closed = False, activeSessions = [(''s1'', x)], resumedUnsentClaims = {}\<rparr>"

definition demo_chain :: "unit shared_client" where
  "demo_chain = \<lparr>GetParams = (\<lambda>h. Inr ()), GetParamsAtHeight = (\<lambda>h. Inr ())\<rparr>"

lemma demo_candidates: "SessionEndHeight x = 110 \<Longrightarrow> candidateSessionIDs demo_windows (resolveParams demo_chain 117) 117 (demo_manager x) = [''s1'']"
  by (simp add: candidateSessionIDs_def resolveParams_def demo_chain_def demo_manager_def sessionMightNeedTransition_def demo_windows_def)

lemma closing_pass:
  assumes "Get S e ''s1'' s = Inr (Some x)" "SessionID x = ''s1''" "SessionEndHeight x = 110"
    and "State x = SessionStateActive \<or>
      State x = SessionStateClaiming \<and> (\<exists>f. cb_observer C = Some f \<and> f (\<lambda>_. e) x s = (Inr False, s, []))"
  shows "checkSessionTransitions demo_windows S C demo_chain (\<lambda>_ _ _. e) 0 117 (demo_manager x, s)
    = (demo_manager x, s, [], [TerminalTask SessionStateClaimWindowClosed x])"
proof -
  have d: "fst (determineTransition demo_windows x 117 (Some ())) = SessionStateClaimWindowClosed"
    using assms(3,4) by (auto simp: determineTransition_def demo_windows_def Let_def)
  have p: "resolveParams demo_chain 117 h = Some ()" for h by (simp add: resolveParams_def demo_chain_def)
  have st: "\<not> IsTerminal SessionStateActive" "\<not> IsTerminal SessionStateClaiming" "IsTerminal SessionStateClaimWindowClosed"
    by (simp_all add: IsTerminal_def)
  have w: "claimReadIsFinal 117 (GetClaimWindowCloseHeight demo_windows () 110)" by (simp add: claimReadIsFinal_def demo_windows_def)
  have "judge_session demo_windows S C (resolveParams demo_chain 117) 117 (\<lambda>_ _ _. e) ''s1''
      \<lparr>ps_manager = demo_manager x, ps_store = s, ps_events = [], claimingSessions = [], provingSessions = [], terminalSessions = []\<rparr>
    = \<lparr>ps_manager = demo_manager x, ps_store = s, ps_events = [], claimingSessions = [], provingSessions = [],
       terminalSessions = [(SessionStateClaimWindowClosed, x)]\<rparr>"
    using assms d p st w
    by (auto simp: judge_session_def judge_closed_def Let_def dispatch_def mayHaveClaimOnChain_def demo_manager_def unresume_def)
  then show ?thesis using demo_candidates [OF assms(3)] by (simp add: checkSessionTransitions_def Let_def)
qed

lemma redis_demo_get:
  obtains cur where "redis_Get demo_redis demo_config demo_env ''s1'' (redis_with (demo_snap st)) = Inr (Some cur)"
    "SessionID cur = ''s1''" "SessionEndHeight cur = 110" "State cur = st" "ClaimTxHash cur = []" "SupplierOperatorAddress cur = ''pokt1s''"
proof -
  have "on_read demo_env = Delivered" by (simp add: demo_env_def)
  from redis_Get_answers [OF demo_redis_ok(1) demo_env_ok demo_sid this, of st]
  obtain cur where g: "redis_Get demo_redis demo_config demo_env ''s1'' (redis_with (demo_snap st)) = Inr (Some cur)"
    and c: "canon cur = canon (demo_snap st)" by (auto simp: map_option_case split: option.splits)
  have "SessionEndHeight cur = 110" using arg_cong [OF c, of SessionEndHeight] by (simp add: canon_def demo_snap_def)
  then show ?thesis
    using that [OF g] arg_cong [OF c, of SessionID] arg_cong [OF c, of State]
      arg_cong [OF c, of ClaimTxHash] arg_cong [OF c, of SupplierOperatorAddress]
    by (simp add: demo_snap_def)
qed

text \<open>A callback that asks the chain, which knows no claim.\<close>

definition asking_callback :: "(redis_env, mem redis_store) LifecycleCallback" where
  "asking_callback = (NewLifecycleCallback (Some NewSessionCoordinator) 3 3 False)
     \<lparr>lc_GetClaim := Some (\<lambda>supplier sid. Inl (QueryError True ''not found''))\<rparr>"

definition demo_lifecycle :: "(redis_env, mem redis_store) SessionLifecycleCallback" where
  "demo_lifecycle = lifecycle_callback (redisSessionStore demo_redis demo_config) asking_callback demo_world (\<lambda>_. demo_proof_world)
     demo_shape True None"

lemma asking_sel:
  "lc_GetClaim asking_callback = Some (\<lambda>supplier sid. Inl (QueryError True ''not found''))"
  "lc_coordinator asking_callback = Some NewSessionCoordinator"
  by (simp_all add: asking_callback_def NewLifecycleCallback_def)

lemma asking_observes: "\<exists>f. cb_observer demo_lifecycle = Some f \<and> f e x s = (Inr False, s, [])"
  by (simp add: demo_lifecycle_def lifecycle_callback_def ObserveClaimOnChain_def asking_sel isClaimNotFoundError_def)


section \<open>Settling once\<close>


lemma redis_close:
  assumes "redis_inv demo_redis mem_kv demo_config s"
    and "redis_view demo_redis mem_kv demo_config s ''s1'' = Some v" "State v \<in> {SessionStateActive, SessionStateClaimWindowClosed}"
  obtains s1 v1 where "redis_UpdateState demo_redis demo_config demo_env ''s1'' SessionStateClaimWindowClosed s = (None, s1)"
    "redis_inv demo_redis mem_kv demo_config s1" "redis_view demo_redis mem_kv demo_config s1 ''s1'' = Some v1"
    "State v1 = SessionStateClaimWindowClosed"
proof -
  let ?S = "redisSessionStore demo_redis demo_config"
  have d: "on_script demo_env = Delivered" by (simp add: demo_env_def)
  obtain r s1 where u: "redis_UpdateState demo_redis demo_config demo_env ''s1'' SessionStateClaimWindowClosed s = (r, s1)"
    by (cases "redis_UpdateState demo_redis demo_config demo_env ''s1'' SessionStateClaimWindowClosed s")
  have c: "checkStateWrite v SessionStateClaimWindowClosed = None"
    using assms(3) by (auto simp: checkStateWrite_def HoldsClaimOnChain_def)
  have none: "r = None"
    using arg_cong [OF u, of fst] redis_updateState_answers [OF assms(1) demo_env_ok demo_sid d, of SessionStateClaimWindowClosed "[]"]
      assms(2) c
    by (auto simp: redis_UpdateState_def spec_updateState_def split: if_splits)
  have "UpdateState ?S demo_env ''s1'' SessionStateClaimWindowClosed s = (None, s1)" using u none by (simp add: redisSessionStore_sel)
  from redis.UpdateState_ok [OF assms(1) demo_env_ok demo_sid this]
  have ok: "redis_inv demo_redis mem_kv demo_config s1"
    and m: "meets (drop_flag (spec_updateState ''s1'' SessionStateClaimWindowClosed [])) True ''s1''
      (redis_view demo_redis mem_kv demo_config s) (unit_result None) (redis_view demo_redis mem_kv demo_config s1)" by auto
  obtain v1 where "redis_view demo_redis mem_kv demo_config s1 ''s1'' = Some v1" "State v1 = SessionStateClaimWindowClosed"
    using m assms(2) c by (auto simp: meets_def drop_flag_def spec_updateState_def unit_result_def split: if_splits)
  then show ?thesis using that u none ok by blast
qed

lemma closing_task:
  assumes "UpdateState S e ''s1'' SessionStateClaimWindowClosed s = (None, s1)" "SessionID x = ''s1''"
  shows "executeTransition S (lifecycle_callback S lc CW Ws shape meter flush) (\<lambda>_ _ _. e) SessionStateClaimWindowClosed x (m, s)
    = (forgetSession ''s1'' m, s1, TerminalCallback SessionStateClaimWindowClosed x # DeleteTree ''s1'' # closed_claim_books lc x)"
  using assms by (simp add: executeTransition_def lifecycle_callback_def lc_terminal_def lc_OnClaimWindowClosed_def IsTerminal_def)

lemma two_steps: "\<lbrakk>r a b; r b c\<rbrakk> \<Longrightarrow> r\<^sup>*\<^sup>* a c"
  by (rule converse_rtranclp_into_rtranclp) auto

text \<open>One pass queues the session, a task settles it.\<close>

abbreviation closing_trail :: "('e, 's) LifecycleCallback \<Rightarrow> SessionSnapshot \<Rightarrow> lifecycle_event list" where
  "closing_trail lc x \<equiv> TerminalCallback SessionStateClaimWindowClosed x # DeleteTree ''s1'' # closed_claim_books lc x"

lemma closing_steps:
  assumes "Get S e ''s1'' s = Inr (Some x)" "SessionID x = ''s1''" "SessionEndHeight x = 110" "State x = SessionStateActive" "e \<in> env"
  shows "drained \<longrightarrow> settling queue = [] \<Longrightarrow> lifecycle_step demo_windows S C good env sids drained (demo_manager x, s, queue, trail)
      (demo_manager x, s, queue @ [TerminalTask SessionStateClaimWindowClosed x], trail)"
    and "\<lbrakk>C = lifecycle_callback S lc CW Ws shape meter flush; UpdateState S e ''s1'' SessionStateClaimWindowClosed s' = (None, s1)\<rbrakk>
     \<Longrightarrow> lifecycle_step demo_windows S C good env sids drained (m, s', TerminalTask SessionStateClaimWindowClosed x # queue, trail)
      (forgetSession ''s1'' m, s1, queue, trail @ closing_trail lc x)"
proof -
  have envs: "envs env (\<lambda>_ _ _. e)" using assms(5) by (auto simp: envs_def)
  show "lifecycle_step demo_windows S C good env sids drained (demo_manager x, s, queue, trail)
      (demo_manager x, s, queue @ [TerminalTask SessionStateClaimWindowClosed x], trail)" if "drained \<longrightarrow> settling queue = []"
    using pass_step [OF that envs closing_pass [OF assms(1-3)], where trail = trail] assms(4) by simp
  show "lifecycle_step demo_windows S C good env sids drained (m, s', TerminalTask SessionStateClaimWindowClosed x # queue, trail)
      (forgetSession ''s1'' m, s1, queue, trail @ closing_trail lc x)"
    if "C = lifecycle_callback S lc CW Ws shape meter flush" "UpdateState S e ''s1'' SessionStateClaimWindowClosed s' = (None, s1)"
    using terminal_step [OF envs closing_task [OF that(2) assms(2)], where ?q1.0 = "[]" and trail = trail] that(1) by simp
qed

lemma closing_run:
  assumes "Get S e ''s1'' s = Inr (Some x)" "SessionID x = ''s1''" "SessionEndHeight x = 110" "State x = SessionStateActive" "e \<in> env"
    and "UpdateState S e ''s1'' SessionStateClaimWindowClosed s = (None, s1)" "C = lifecycle_callback S lc CW Ws shape meter flush"
  shows "(lifecycle_step demo_windows S C good env sids True)\<^sup>*\<^sup>* (demo_manager x, s, [], [])
    (forgetSession ''s1'' (demo_manager x), s1, [], closing_trail lc x)"
proof -
  let ?step = "lifecycle_step demo_windows S C good env sids True"
  have "?step (demo_manager x, s, [], []) (demo_manager x, s, [TerminalTask SessionStateClaimWindowClosed x], [])"
    using closing_steps(1) [OF assms(1-5), where queue = "[]"] by simp
  moreover have "?step (demo_manager x, s, [TerminalTask SessionStateClaimWindowClosed x], [])
      (forgetSession ''s1'' (demo_manager x), s1, [], closing_trail lc x)"
    using closing_steps(2) [OF assms(1-5,7,6), where trail = "[]"] by simp
  ultimately show ?thesis by (rule two_steps [where r = ?step])
qed



definition demo_table :: json where
  "demo_table = table_json [demo_snap SessionStateActive, demo_snap SessionStateClaimWindowClosed]"


text \<open>
  (C5) The manager does not wait: its passes go on while the pool works. Two passes before the first task ran queue the session twice, and
  both tasks pass the store's check, so its terminal callback is called and its loss is booked twice.
\<close>

theorem redis_settled_twice:
  "\<exists>x m s1 trail. (lifecycle_step demo_windows (redisSessionStore demo_redis demo_config) demo_lifecycle (redis_inv demo_redis mem_kv demo_config)
       (Collect redis_call_ok) (Collect redis_sid) False)\<^sup>*\<^sup>*
     (demo_manager x, redis_with (demo_snap SessionStateActive), [], []) (m, s1, [], trail)
   \<and> callbacks ''s1'' trail = 2"
proof -
  let ?S = "redisSessionStore demo_redis demo_config" and ?s = "redis_with (demo_snap SessionStateActive)"
  let ?step = "lifecycle_step demo_windows ?S demo_lifecycle (redis_inv demo_redis mem_kv demo_config) (Collect redis_call_ok) (Collect redis_sid) False"
  obtain x where x: "redis_Get demo_redis demo_config demo_env ''s1'' ?s = Inr (Some x)"
    "SessionID x = ''s1''" "SessionEndHeight x = 110" "State x = SessionStateActive" by (rule redis_demo_get)
  have st: "State (canon (demo_snap SessionStateActive)) \<in> {SessionStateActive, SessionStateClaimWindowClosed}" by (simp add: canon_def)
  obtain s1 v where u: "redis_UpdateState demo_redis demo_config demo_env ''s1'' SessionStateClaimWindowClosed ?s = (None, s1)"
    and i: "redis_inv demo_redis mem_kv demo_config s1" "redis_view demo_redis mem_kv demo_config s1 ''s1'' = Some v"
      "State v = SessionStateClaimWindowClosed"
    by (rule redis_close [OF demo_redis_ok [of SessionStateActive] st])
  obtain s2 where u2: "redis_UpdateState demo_redis demo_config demo_env ''s1'' SessionStateClaimWindowClosed s1 = (None, s2)"
    by (rule redis_close [OF i(1,2)]) (simp_all add: i(3))
  have get: "Get ?S demo_env ''s1'' ?s = Inr (Some x)" and e: "demo_env \<in> Collect redis_call_ok" by (simp_all add: redisSessionStore_sel x)
  have up: "UpdateState ?S = redis_UpdateState demo_redis demo_config" by (simp add: redisSessionStore_sel)
  let ?t = "TerminalTask SessionStateClaimWindowClosed x" and ?m = "demo_manager x"
  note steps = closing_steps [OF get x(2-4) e]
  have "?step (?m, ?s, [], []) (?m, ?s, [?t], [])" "?step (?m, ?s, [?t], []) (?m, ?s, [?t, ?t], [])"
    using steps(1) [where queue = "[]" and drained = False] steps(1) [where queue = "[?t]" and drained = False] by simp_all
  then have "?step\<^sup>*\<^sup>* (?m, ?s, [], []) (?m, ?s, [?t, ?t], [])" by (rule two_steps [where r = ?step])
  also have "?step (?m, ?s, [?t, ?t], []) (forgetSession ''s1'' ?m, s1, [?t], closing_trail asking_callback x)"
    using steps(2) [OF demo_lifecycle_def u [folded up], where trail = "[]"] by simp
  also have "?step (forgetSession ''s1'' ?m, s1, [?t], closing_trail asking_callback x)
      (forgetSession ''s1'' (forgetSession ''s1'' ?m), s2, [], closing_trail asking_callback x @ closing_trail asking_callback x)"
    by (rule steps(2) [OF demo_lifecycle_def u2 [folded up]])
  finally have run: "?step\<^sup>*\<^sup>* (?m, ?s, [], [])
      (forgetSession ''s1'' (forgetSession ''s1'' ?m), s2, [], closing_trail asking_callback x @ closing_trail asking_callback x)" .
  have "quiet (DeleteTree ''s1'' # closed_claim_books asking_callback x)" by (auto simp: closed_claim_books_def quiet_def book_def)
  then have "callbacks ''s1'' (closing_trail asking_callback x @ closing_trail asking_callback x) = 2"
    unfolding callbacks_simps using x(2) by simp
  with run show ?thesis by blast
qed

end
