(* ===== verification/Spec2Isabelle.thy ===== *)
theory Spec2Isabelle
  imports Prelude Pool_Props Redis_Keys Pebble_Sessions Session_Coordinator Session_Props KV_Props Commit_Props Tx_Props Lifecycle_Props
begin

text \<open>
  A verification of the state-keeping and submitting parts of the pocket relay miner.

  \<^bold>\<open>The program.\<close> Relayers serve relays of suppliers and publish each served relay to a queue per
  supplier; the meter of what an application consumed is charged with it. Miners take relays off the
  queue, put them in the tree of their session, count them, and, once the session's window opens, claim and
  prove the session on chain. What a session has earned, lost or forgone is booked in money counters. All of
  it is kept either in Redis, shared by replicas, or in one embedded Pebble database (the standalone
  process).

  \<^bold>\<open>The theories.\<close>
  \<^item> \<open>Prelude\<close>, \<open>Strconv\<close>: results, Go integers at their width, time, and the functions of Go's standard
    library the sources use.
  \<^item> \<open>Pool\<close>, \<open>Pool_Props\<close>: the relayer's backend pool (\<open>src/pool\<close>): endpoint health, circuit breaker,
    selectors. Selection returns a healthy endpoint or says there is none, round robin is fair, the breaker
    trips at the threshold, an endpoint recovers after its timeout.
  \<^item> \<open>Redis_Keys\<close>: the Redis key layout (\<open>src/transport/redis/namespace.go\<close>, \<open>src/config/redis.go\<close>). Keys of
    different kinds and of different fleets do not meet.
  \<^item> \<open>Session_State\<close>: the session states with their predicates, the snapshot and the guards of a state write
    (\<open>src/miner/session_store.go\<close>). \<open>Session_Store\<close>: the \<open>SessionStore\<close> interface as a record of operations, and
    its contract as the locale \<open>session_store\<close>.
  \<^item> \<open>Money_Books\<close>: the functions of \<open>src/miner/metrics.go\<close> that book money and \<open>src/miner/session_price.go\<close>.
    \<open>Session_Coordinator\<close>: the handlers of \<open>src/miner/session_coordinator.go\<close> over any store, with the events
    they book; \<open>Session_Money\<close> proves once, over the contract, what a run of handlers adds to a book.
  \<^item> \<open>Redis_Server\<close>, \<open>Redis_Sessions\<close>, \<open>Redis_Contract\<close>: the Redis server as a parameter with the documented
    behaviour of its commands, the store over it with its Lua scripts and its hash codec, and the proof that
    it is an instance of the contract. A round trip may lose its request or its reply.
  \<^item> \<open>Pebble_DB\<close>, \<open>Pebble_Sessions\<close>: the embedded database as a parameter, and the standalone session store of
    \<open>src/miner/pebble_backend.go\<close>, the other instance of the contract.
  \<^item> \<open>Session_Props\<close>: a session's revenue is credited at most once under any sequence of handlers and faults,
    over both stores; a claim marked missing and then observed is reinstated by the amount written off; state
    writes refine the abstract guarded write, and both stores answer alike; counters survive a save; the hash
    codec round-trips; the Lua twins of the predicates are the predicates.
  \<^item> \<open>KV_Pebble\<close>, \<open>KV_Props\<close>: the key-value store of the standalone process (\<open>src/storage/kv/pebble.go\<close>): locks
    exclude, the janitor deletes nothing live, sets refine sets, what is set is read until it expires.
  \<^item> \<open>Charge_Ledger\<close>, \<open>Pebble_Queue\<close>: the ledger of meter charges (\<open>src/transport/redis/charge_ledger.go\<close>) and
    the relay queue of the standalone process (\<open>src/transport/pebblequeue\<close>). \<open>Queue_Order\<close>, \<open>Queue_Contract\<close>,
    \<open>Queue_Publish\<close>, \<open>Queue_Charges\<close> hold its lemmas, \<open>Queue_Props\<close> its properties: no entry is stranded in any
    run, crashes included; a short read leaves nothing to read; IDs are fresh and ordered; charges add up.
  \<^item> \<open>Pebble_Commit\<close>, \<open>Commit_Props\<close>: the duplicate marks and the batch commit of the standalone process
    (\<open>src/miner/pebble_backend.go\<close>, \<open>src/miner/deduplicator.go\<close>): marking a relay, counting it in its session and
    acknowledging its entry are one commit. A relay is counted once however often it is delivered, a failed
    commit changes nothing, a retry is harmless, and a commit is a step of the queue.
  \<^item> \<open>Session_Lifecycle\<close>: \<open>SessionLifecycleManager\<close> (\<open>src/miner/session_lifecycle.go\<close>): the transition a session is due
    at a height, loading and resuming, the pass over the tracked sessions, and the claim, proof and terminal
    tasks it hands to its pool, over any store and any callback.
  \<^item> \<open>Tx_Rejection\<close>, \<open>Tx_Props\<close>: what a rejected transaction records, which rejections leave the signed bytes
    usable, and the deadline and nonce a transaction is sealed with (\<open>src/tx/tx_rejection.go\<close>,
    \<open>src/tx/tx_client.go\<close>). The index the chain writes is the index read, deadlines stay under the chain's ceiling,
    nonces differ.
  \<^item> \<open>Claim_Build\<close>, \<open>Claim_Cycle\<close>, \<open>Claim_Props\<close>: the claim cycle of \<open>src/miner/lifecycle_callback.go\<close>, from the grouping by
    end height and the build of each claim to the submission loop with its retries, re-injections and ejections,
    and the callbacks of the terminal states. The groups are those of the end heights, the loop ends, bytes are only
    sent again for the batch they were signed for, and a session named as claimed was claimed by an accepted
    transaction with its own root.
  \<^item> \<open>Proof_Requirement\<close>, \<open>Proof_Cycle\<close>, \<open>Proof_Props\<close>: the requirement check (\<open>src/miner/proof_requirement.go\<close>), the
    proof shape (\<open>src/miner/proof_shape.go\<close>), the classes of errors (\<open>src/miner/errors.go\<close>) and the proof cycle of
    \<open>src/miner/lifecycle_callback.go\<close>. A claim is marked missing only on a final answer of the chain, the shape changes
    at most once, and a session named as settled was proved or judged by the chain.
  \<^item> \<open>Callback_Contract\<close>, \<open>Lifecycle_Runs\<close>, \<open>Lifecycle_Props\<close>: the callback touches the store through the coordinator only
    and keeps every store's invariant; the locale \<open>lifecycle_client\<close> is what the manager relies on of its store and
    callback, met by the callback over both stores. A run interleaves passes, tasks in any order, tracking and other
    writers as a step relation. Tasks are well typed, a session that may have its claim on chain is given up only
    after the chain denied it, and a run that waits for its settling tasks settles each session once;
    \<open>redis_settled_twice\<close> is a run that does not wait and settles one twice.
  \<^item> \<open>Pebble_Mem\<close>, \<open>Witness_Stores\<close>: concrete databases and servers the witnesses run on.

  \<^bold>\<open>Conventions.\<close> A method that runs under a mutex is one function of the state it guards. A Go error is a
  value; every early return is a branch. \<open>int64\<close> arithmetic wraps through \<open>i64\<close>, \<open>uint64\<close> is \<open>64 word\<close>, time is a
  count of nanoseconds. Code outside \<open>src/\<close> (Redis, Pebble, \<open>encoding/json\<close>, the protobuf decoder, the chain's
  clients) is a parameter, and what is used of it is a named hypothesis (\<open>redis_ok\<close>, \<open>pebble_ok\<close>,
  \<open>pebble_clean\<close>, \<open>json_ok\<close>, \<open>windows_ok\<close>), met by a concrete instance in every witness. What a cycle is answered by the
  chain, the block client, the tree manager and the transaction client comes in records, by the number of the call. The
  loops run over lists or over the attempts left; the submission loop of the claims ends by the attempts left plus the
  size of its batch. No recursion needs fuel.

  \<^bold>\<open>Not modelled.\<close> The session trees (an external Merkle tree library and caches around it), the inclusion
  reconciler, supplier leasing, the relayer's servers, the caches of chain state, the clients of the chain and the
  Redis streams transport are goroutines over the network and over libraries outside the repository. Of the lifecycle
  the waits are left out: for the relay stream before a claim, for heights and blocks, and the loops that feed
  heights to the passes; a task runs whenever the pool runs it. Log lines, gauges, latencies, the submission tracker,
  channels and timers are left out of the parts that are modelled. The commands of one Redis method run with no other
  client in between; the rounding of Lua numbers beyond two to the 53 is left open; a Pebble iterator does not fail
  midway; a task of the pool runs alone against the manager and the store.
\<close>

end
